(* ===== verification/Js_Prelude.thy ===== *)
theory Js_Prelude
  imports Complex_Main "HOL-Library.Word"
begin

text \<open>
  Shared ground of the development: the fragments of JavaScript that the client code
  relies on and that several components use.

  \<^item> numbers: coordinates and counters are \<open>int\<close>, quotients are \<open>rat\<close>; \<open>js_round\<close> is
    \<open>Math.round\<close> (half up), \<open>to_int32\<close> the conversion that the operators \<open><<\<close>, \<open>|\<close> and
    \<open>~~\<close> apply to their operands;
  \<^item> strings: decimal printing and reading of integers, \<open>String.split\<close> with a one character
    separator and \<open>Array.join\<close>, with the round trips between them;
  \<^item> objects used as dictionaries: association lists in insertion order, because
    \<open>for (key in obj)\<close> enumerates the keys in that order, with the contract
    \<open>js_dictionary\<close> their clients rely on.
\<close>

named_theorems js_string "printing, reading, splitting and joining of strings"
named_theorems js_object "lookup and enumeration in insertion-ordered objects"

section \<open>Numbers\<close>

text \<open>\<open>Math.round\<close> rounds to the nearest integer and ties towards plus infinity.\<close>

definition js_round :: "rat \<Rightarrow> int" where
  "js_round x = \<lfloor>x + 1 / 2\<rfloor>"

lemma js_round_of_int [simp]: "js_round (of_int k) = k"
proof -
  have "\<lfloor>(of_int k :: rat) + 1 / 2\<rfloor> = k"
    by (rule floor_unique) simp_all
  then show ?thesis by (simp only: js_round_def)
qed

lemma js_round_bounds:
  "of_int (js_round x) \<le> x + 1 / 2" "x - 1 / 2 < of_int (js_round x)"
  unfolding js_round_def by linarith+

lemma js_round_mono: "x \<le> y \<Longrightarrow> js_round x \<le> js_round y"
  unfolding js_round_def by (intro floor_mono) simp

text \<open>The signed 32-bit value that JavaScript's bitwise operators compute with.\<close>

definition to_int32 :: "int \<Rightarrow> int" where
  "to_int32 n = signed_take_bit 31 n"

lemma to_int32_id: "- (2 ^ 31) \<le> n \<Longrightarrow> n < 2 ^ 31 \<Longrightarrow> to_int32 n = n"
  by (simp add: to_int32_def signed_take_bit_int_eq_self)

lemma floor_of_int_divide: "\<lfloor>of_int a / (of_int b :: rat)\<rfloor> = a div b"
  by (rule floor_divide_of_int_eq)

lemma nth_update_at: "j < length xs \<Longrightarrow> xs[i := v] ! j = (if i = j then v else xs ! j)"
  by (cases "i = j") simp_all

section \<open>Decimal numbers as strings\<close>

definition digit_char :: "nat \<Rightarrow> char" where
  "digit_char d = char_of (48 + d)"

definition is_digit :: "char \<Rightarrow> bool" where
  "is_digit c \<longleftrightarrow> 48 \<le> (of_char c :: nat) \<and> (of_char c :: nat) \<le> 57"

definition digit_val :: "char \<Rightarrow> nat" where
  "digit_val c = of_char c - 48"

fun show_nat :: "nat \<Rightarrow> string" where
  "show_nat n = (if n < 10 then [digit_char n] else show_nat (n div 10) @ [digit_char (n mod 10)])"

declare show_nat.simps [simp del]

definition show_int :: "int \<Rightarrow> string" where
  "show_int n = (if n < 0 then CHR ''-'' # show_nat (nat (- n)) else show_nat (nat n))"

definition nat_of_digits :: "string \<Rightarrow> nat" where
  "nat_of_digits = foldl (\<lambda>n c. 10 * n + digit_val c) 0"

text \<open>
  \<open>Number(s)\<close> (also written \<open>+s\<close>) on the strings the protocol uses: the empty string is 0,
  an optionally signed run of digits is its value. \<open>None\<close> stands for every other string:
  there JavaScript gives \<open>NaN\<close> or reads a fraction, an exponent, another radix or surrounding
  blanks, none of which the modelled code produces.
\<close>

fun js_number :: "string \<Rightarrow> int option" where
  "js_number [] = Some 0"
| "js_number (c # cs) =
     (if c = CHR ''-'' \<or> c = CHR ''+'' then
        (if cs \<noteq> [] \<and> list_all is_digit cs
         then Some ((if c = CHR ''-'' then - 1 else 1) * int (nat_of_digits cs)) else None)
      else if list_all is_digit (c # cs) then Some (int (nat_of_digits (c # cs))) else None)"

lemma of_char_digit_char: "d < 10 \<Longrightarrow> (of_char (digit_char d) :: nat) = 48 + d"
  by (simp add: digit_char_def of_char_of)

lemma is_digit_digit_char [js_string]: "d < 10 \<Longrightarrow> is_digit (digit_char d)"
  by (simp add: is_digit_def of_char_digit_char)

lemma digit_val_digit_char [js_string]: "d < 10 \<Longrightarrow> digit_val (digit_char d) = d"
  by (simp add: digit_val_def of_char_digit_char)

lemma is_digit_neq:
  assumes "is_digit c"
  shows "c \<noteq> CHR ''-''" "c \<noteq> CHR ''+''" "c \<noteq> CHR '':''" "c \<noteq> CHR '','' " "c \<noteq> CHR '' ''"
    "c \<noteq> CHR ''=''" "c \<noteq> CHR '';''"
  using assms by (auto simp: is_digit_def)

lemma show_nat_digits [js_string]: "list_all is_digit (show_nat n)"
proof (induction n rule: show_nat.induct)
  case (1 n)
  show ?case
    by (cases "n < 10") (use 1 in \<open>simp_all add: show_nat.simps [of n] is_digit_digit_char\<close>)
qed

lemma show_nat_nonempty [js_string, simp]: "show_nat n \<noteq> []"
  by (subst show_nat.simps) simp

lemma nat_of_digits_snoc: "nat_of_digits (ds @ [d]) = 10 * nat_of_digits ds + digit_val d"
  by (simp add: nat_of_digits_def)

lemma nat_of_digits_show_nat [js_string]: "nat_of_digits (show_nat n) = n"
proof (induction n rule: show_nat.induct)
  case (1 n)
  show ?case
  proof (cases "n < 10")
    case True
    then show ?thesis
      by (simp add: show_nat.simps [of n] nat_of_digits_def digit_val_digit_char)
  next
    case False
    with 1 show ?thesis
      by (simp add: show_nat.simps [of n] nat_of_digits_snoc digit_val_digit_char)
  qed
qed

lemma show_int_nonempty [js_string, simp]: "show_int n \<noteq> []"
  by (simp add: show_int_def)

lemma show_int_chars: "c \<in> set (show_int n) \<Longrightarrow> is_digit c \<or> c = CHR ''-''"
  using show_nat_digits by (auto simp: show_int_def list_all_iff split: if_splits)

lemma js_number_show_nat: "js_number (show_nat n) = Some (int n)"
proof -
  obtain c cs where s: "show_nat n = c # cs"
    by (cases "show_nat n") auto
  then have d: "list_all is_digit (c # cs)"
    using show_nat_digits [of n] by simp
  then have "is_digit c" by simp
  with d show ?thesis
    using nat_of_digits_show_nat [of n] by (simp add: s is_digit_neq)
qed

lemma js_number_show_int [js_string]: "js_number (show_int n) = Some n"
  by (simp add: show_int_def js_number_show_nat show_nat_digits nat_of_digits_show_nat)

lemma show_int_inject [simp]: "show_int m = show_int n \<longleftrightarrow> m = n"
  by (metis js_number_show_int option.inject)

section \<open>Splitting and joining\<close>

text \<open>\<open>s.split(c)\<close> for a one character separator: the empty string gives one empty part.\<close>

fun split_on :: "'a \<Rightarrow> 'a list \<Rightarrow> 'a list list" where
  "split_on c [] = [[]]"
| "split_on c (x # xs) =
     (if x = c then [] # split_on c xs
      else (case split_on c xs of [] \<Rightarrow> [[x]] | p # ps \<Rightarrow> (x # p) # ps))"

fun join :: "'a list \<Rightarrow> 'a list list \<Rightarrow> 'a list" where
  "join sep [] = []"
| "join sep [x] = x"
| "join sep (x # y # ys) = x @ sep @ join sep (y # ys)"

lemma split_on_nonempty [simp]: "split_on c xs \<noteq> []"
  by (induction xs) (auto split: list.splits)

lemma split_on_no_sep [js_string]: "c \<notin> set xs \<Longrightarrow> split_on c xs = [xs]"
  by (induction xs) auto

lemma split_on_append_sep [js_string]:
  "c \<notin> set xs \<Longrightarrow> split_on c (xs @ c # ys) = xs # split_on c ys"
  by (induction xs) auto

lemma split_on_join [js_string]:
  "ps \<noteq> [] \<Longrightarrow> \<forall>p \<in> set ps. c \<notin> set p \<Longrightarrow> split_on c (join [c] ps) = ps"
proof (induction "[c]" ps rule: join.induct)
  case (3 x y ys)
  then show ?case by (simp add: split_on_append_sep)
qed (simp_all add: split_on_no_sep)

lemma join_split_on [js_string]: "join [c] (split_on c xs) = xs"
proof (induction xs)
  case (Cons x xs)
  then show ?case
    by (cases "split_on c xs" rule: list.exhaust; cases "tl (split_on c xs)") auto
qed simp

lemma split_on_parts_no_sep: "p \<in> set (split_on c xs) \<Longrightarrow> c \<notin> set p"
  by (induction xs arbitrary: p) (auto split: list.splits if_splits)

text \<open>\<open>s.startsWith(p)\<close>, also written \<open>s.substring(0, p.length) === p\<close>.\<close>

definition starts_with :: "string \<Rightarrow> string \<Rightarrow> bool" where
  "starts_with p s \<longleftrightarrow> take (length p) s = p"

section \<open>Objects as dictionaries\<close>

type_synonym ('k, 'v) object = "('k \<times> 'v) list"

abbreviation obj_get :: "('k, 'v) object \<Rightarrow> 'k \<Rightarrow> 'v option" where
  "obj_get \<equiv> map_of"

fun obj_set :: "'k \<Rightarrow> 'v \<Rightarrow> ('k, 'v) object \<Rightarrow> ('k, 'v) object" where
  "obj_set k v [] = [(k, v)]"
| "obj_set k v ((a, b) # ps) = (if a = k then (a, v) # ps else (a, b) # obj_set k v ps)"

definition obj_del :: "'k \<Rightarrow> ('k, 'v) object \<Rightarrow> ('k, 'v) object" where
  "obj_del k ps = filter (\<lambda>(a, b). a \<noteq> k) ps"

abbreviation obj_keys :: "('k, 'v) object \<Rightarrow> 'k list" where
  "obj_keys \<equiv> map fst"

definition obj_ok :: "('k, 'v) object \<Rightarrow> bool" where
  "obj_ok ps \<longleftrightarrow> distinct (obj_keys ps)"

text \<open>The update that a write to a property of the stored value makes.\<close>

definition obj_upd :: "'k \<Rightarrow> ('v \<Rightarrow> 'v) \<Rightarrow> ('k, 'v) object \<Rightarrow> ('k, 'v) object" where
  "obj_upd k f ps = (case obj_get ps k of None \<Rightarrow> ps | Some v \<Rightarrow> obj_set k (f v) ps)"

lemma obj_get_set [js_object, simp]: "obj_get (obj_set k v ps) = (obj_get ps)(k \<mapsto> v)"
  by (induction ps) (auto simp: fun_eq_iff)

lemma obj_get_fold_set [js_object]:
  "obj_get (fold (\<lambda>k. obj_set k v) ks ps) = (\<lambda>k. if k \<in> set ks then Some v else obj_get ps k)"
  by (induction ks arbitrary: ps) (auto simp: fun_eq_iff)

lemma obj_get_del [js_object, simp]: "obj_get (obj_del k ps) = (obj_get ps)(k := None)"
  by (induction ps) (auto simp: obj_del_def fun_eq_iff)

lemma obj_keys_set [js_object]:
  "obj_keys (obj_set k v ps) = (if k \<in> set (obj_keys ps) then obj_keys ps else obj_keys ps @ [k])"
  by (induction ps) force+

lemma obj_keys_del [js_object]: "obj_keys (obj_del k ps) = filter (\<lambda>a. a \<noteq> k) (obj_keys ps)"
  by (induction ps) (auto simp: obj_del_def)

lemma obj_ok_Nil [simp]: "obj_ok []"
  by (simp add: obj_ok_def)

lemma obj_ok_set [js_object, intro]: "obj_ok ps \<Longrightarrow> obj_ok (obj_set k v ps)"
  by (simp add: obj_ok_def obj_keys_set)

lemma obj_ok_del [js_object, intro]: "obj_ok ps \<Longrightarrow> obj_ok (obj_del k ps)"
  by (simp add: obj_ok_def obj_keys_del)

lemma obj_get_upd [js_object]:
  "obj_get (obj_upd k f ps) = (obj_get ps)(k := map_option f (obj_get ps k))"
  by (auto simp: obj_upd_def fun_eq_iff split: option.splits)

lemma obj_keys_upd [js_object]: "obj_keys (obj_upd k f ps) = obj_keys ps"
  using map_of_eq_None_iff [of ps k] by (auto simp: obj_upd_def obj_keys_set split: option.splits)

lemma obj_ok_upd [js_object, intro]: "obj_ok ps \<Longrightarrow> obj_ok (obj_upd k f ps)"
  by (simp add: obj_ok_def obj_keys_upd)

lemma obj_get_iff_key: "(\<exists>v. obj_get ps k = Some v) \<longleftrightarrow> k \<in> set (obj_keys ps)"
  by (metis map_of_eq_None_iff not_Some_eq set_map)

text \<open>
  What a client of a dictionary relies on. The keys are enumerated without repetition and
  exactly the present ones appear, so a loop over the keys meets every entry once.
\<close>

locale js_dictionary =
  fixes get :: "'d \<Rightarrow> 'k \<Rightarrow> 'v option"
    and put :: "'k \<Rightarrow> 'v \<Rightarrow> 'd \<Rightarrow> 'd"
    and del :: "'k \<Rightarrow> 'd \<Rightarrow> 'd"
    and keys :: "'d \<Rightarrow> 'k list"
    and ok :: "'d \<Rightarrow> bool"
  assumes get_put: "get (put k v d) = (get d)(k \<mapsto> v)"
    and get_del: "get (del k d) = (get d)(k := None)"
    and ok_put: "ok d \<Longrightarrow> ok (put k v d)"
    and ok_del: "ok d \<Longrightarrow> ok (del k d)"
    and keys_get: "ok d \<Longrightarrow> set (keys d) = {k. get d k \<noteq> None}"
    and keys_distinct: "ok d \<Longrightarrow> distinct (keys d)"
begin

lemma get_fold_del: "get (fold del ks d) = (\<lambda>k. if k \<in> set ks then None else get d k)"
  by (induction ks arbitrary: d) (auto simp: get_del fun_eq_iff)

lemma ok_fold_del: "ok d \<Longrightarrow> ok (fold del ks d)"
  by (induction ks arbitrary: d) (auto simp: ok_del)

lemma fold_del_all_keys: "ok d \<Longrightarrow> get (fold del (keys d) d) = (\<lambda>_. None)"
  by (auto simp: get_fold_del keys_get fun_eq_iff)

lemma length_keys_put:
  assumes "ok d"
  shows "length (keys (put k v d)) = (if get d k = None then Suc (length (keys d)) else length (keys d))"
proof -
  have set_put: "set (keys (put k v d)) = insert k (set (keys d))"
    using assms by (auto simp: keys_get ok_put get_put)
  have "length (keys (put k v d)) = card (set (keys (put k v d)))"
    using assms by (simp add: distinct_card keys_distinct ok_put)
  also have "\<dots> = card (insert k (set (keys d)))"
    by (simp only: set_put)
  finally show ?thesis
    using assms by (simp add: card_insert_if distinct_card keys_distinct) (simp add: keys_get)
qed

lemma length_keys_del:
  assumes "ok d"
  shows "length (keys (del k d)) = (if get d k = None then length (keys d) else length (keys d) - 1)"
proof -
  have set_del: "set (keys (del k d)) = set (keys d) - {k}"
    using assms by (auto simp: keys_get ok_del get_del)
  have "length (keys (del k d)) = card (set (keys (del k d)))"
    using assms by (simp add: distinct_card keys_distinct ok_del)
  also have "\<dots> = card (set (keys d) - {k})"
    by (simp only: set_del)
  finally show ?thesis
    using assms by (simp add: card_Diff_singleton_if distinct_card keys_distinct) (auto simp: keys_get)
qed

end

interpretation obj: js_dictionary obj_get obj_set obj_del obj_keys obj_ok
proof unfold_locales
  fix d :: "('k, 'v) object"
  assume "obj_ok d"
  show "set (obj_keys d) = {k. obj_get d k \<noteq> None}"
    by (auto simp: obj_get_iff_key [symmetric] simp flip: set_map)
qed (auto simp: obj_ok_def obj_keys_set obj_keys_del)

end
