(* ===== verification/Geometry.thy ===== *)
theory Geometry
  imports Js_Prelude
begin

text \<open>
  Points, bounds and rectangles of the client: \<open>oxool.Point\<close> (geometry/Point.ts),
  \<open>oxool.Bounds\<close> (geometry/Bounds.ts) and the rectangle helpers of \<open>L.LOUtil\<close>
  (core/LOUtil.js). Points are polymorphic records, used over \<open>int\<close> for twips, tile indices
  and tile positions and over \<open>rat\<close> for pixel positions that a division produced.
  A method and its destructive twin (\<open>add\<close>/\<open>_add\<close>) are one pure function here.
\<close>

named_theorems geometry_defs "definitions of the point and bounds operations"

section \<open>Points\<close>

record 'a point =
  px :: 'a
  py :: 'a

abbreviation Pt :: "'a \<Rightarrow> 'a \<Rightarrow> 'a point" where
  "Pt x y \<equiv> \<lparr>px = x, py = y\<rparr>"

definition point_add :: "'a::plus point \<Rightarrow> 'a point \<Rightarrow> 'a point" where
  [geometry_defs]: "point_add p q = Pt (px p + px q) (py p + py q)"

definition point_subtract :: "'a::minus point \<Rightarrow> 'a point \<Rightarrow> 'a point" where
  [geometry_defs]: "point_subtract p q = Pt (px p - px q) (py p - py q)"

definition point_divideBy :: "rat point \<Rightarrow> rat \<Rightarrow> rat point" where
  [geometry_defs]: "point_divideBy p n = Pt (px p / n) (py p / n)"

definition point_multiplyBy :: "'a::times point \<Rightarrow> 'a \<Rightarrow> 'a point" where
  [geometry_defs]: "point_multiplyBy p n = Pt (px p * n) (py p * n)"

definition point_round :: "rat point \<Rightarrow> int point" where
  [geometry_defs]: "point_round p = Pt (js_round (px p)) (js_round (py p))"

definition point_floor :: "rat point \<Rightarrow> int point" where
  [geometry_defs]: "point_floor p = Pt \<lfloor>px p\<rfloor> \<lfloor>py p\<rfloor>"

definition point_ceil :: "rat point \<Rightarrow> int point" where
  [geometry_defs]: "point_ceil p = Pt \<lceil>px p\<rceil> \<lceil>py p\<rceil>"

text \<open>\<open>Number.EPSILON\<close>.\<close>

definition js_epsilon :: rat where
  "js_epsilon = 1 / 2 ^ 52"

definition point_equals :: "rat point \<Rightarrow> rat point \<Rightarrow> bool" where
  [geometry_defs]: "point_equals p q \<longleftrightarrow>
     \<bar>px q - px p\<bar> < js_epsilon \<and> \<bar>py q - py p\<bar> < js_epsilon"

definition point_contains :: "'a::linordered_idom point \<Rightarrow> 'a point \<Rightarrow> bool" where
  [geometry_defs]: "point_contains p q \<longleftrightarrow> \<bar>px q\<bar> \<le> \<bar>px p\<bar> \<and> \<bar>py q\<bar> \<le> \<bar>py p\<bar>"

text \<open>The setters return whether the coordinate changed.\<close>

definition point_setX :: "'a point \<Rightarrow> 'a \<Rightarrow> 'a point \<times> bool" where
  [geometry_defs]: "point_setX p x = (if x = px p then (p, False) else (p\<lparr>px := x\<rparr>, True))"

definition point_setY :: "'a point \<Rightarrow> 'a \<Rightarrow> 'a point \<times> bool" where
  [geometry_defs]: "point_setY p y = (if y = py p then (p, False) else (p\<lparr>py := y\<rparr>, True))"

definition point_assign :: "'a point \<Rightarrow> 'a point \<Rightarrow> 'a point \<times> bool" where
  [geometry_defs]: "point_assign p q =
     (let (p1, xChanged) = point_setX p (px q);
          (p2, yChanged) = point_setY p1 (py q)
      in (p2, xChanged \<or> yChanged))"

lemma point_assign_spec: "point_assign p q = (p\<lparr>px := px q, py := py q\<rparr>, px p \<noteq> px q \<or> py p \<noteq> py q)"
  by (cases p; cases q) (auto simp: geometry_defs)

text \<open>
  \<open>s.match(/\d+/g)\<close>: the maximal runs of digits, left to right; no run gives \<open>null\<close> in the
  code and the empty list here. A sign is not part of a run.
\<close>

function digit_runs :: "string \<Rightarrow> string list" where
  "digit_runs [] = []"
| "digit_runs (c # cs) =
     (if is_digit c then (c # takeWhile is_digit cs) # digit_runs (dropWhile is_digit cs)
      else digit_runs cs)"
  by pat_completeness auto
termination
  by (relation "measure length") (auto simp: less_Suc_eq_le length_dropWhile_le)

definition digit_numbers :: "string \<Rightarrow> int list" where
  "digit_numbers s = map (\<lambda>r. int (nat_of_digits r)) (digit_runs s)"

definition point_parse :: "string \<Rightarrow> int point option" where
  [geometry_defs]: "point_parse s =
     (case digit_numbers s of x # y # _ \<Rightarrow> Some (Pt x y) | _ \<Rightarrow> None)"

section \<open>Bounds\<close>

record 'a bounds =
  bmin :: "'a point"
  bmax :: "'a point"

abbreviation Bnd :: "'a point \<Rightarrow> 'a point \<Rightarrow> 'a bounds" where
  "Bnd a b \<equiv> \<lparr>bmin = a, bmax = b\<rparr>"

text \<open>
  A bounds object starts without corners and \<open>extend\<close> gives it the first point as both of
  them, so the constructor normalises the order of the two corners it is given.
\<close>

fun bounds_extend :: "'a::linorder bounds option \<Rightarrow> 'a point \<Rightarrow> 'a bounds" where
  "bounds_extend None p = Bnd (Pt (px p) (py p)) (Pt (px p) (py p))"
| "bounds_extend (Some b) p =
     Bnd (Pt (min (px p) (px (bmin b))) (min (py p) (py (bmin b))))
         (Pt (max (px p) (px (bmax b))) (max (py p) (py (bmax b))))"

definition bounds_of_points :: "'a::linorder point list \<Rightarrow> 'a bounds option" where
  "bounds_of_points ps = fold (\<lambda>p b. Some (bounds_extend b p)) ps None"

definition bounds_of :: "'a::linorder point \<Rightarrow> 'a point \<Rightarrow> 'a bounds" where
  [geometry_defs]: "bounds_of a b = bounds_extend (Some (bounds_extend None a)) b"

definition bounds_getCenter :: "rat bounds \<Rightarrow> rat point" where
  [geometry_defs]: "bounds_getCenter b =
     Pt ((px (bmin b) + px (bmax b)) / 2) ((py (bmin b) + py (bmax b)) / 2)"

definition bounds_round :: "rat bounds \<Rightarrow> int bounds" where
  [geometry_defs]: "bounds_round b = Bnd (point_round (bmin b)) (point_round (bmax b))"

definition bounds_getBottomLeft :: "'a bounds \<Rightarrow> 'a point" where
  [geometry_defs]: "bounds_getBottomLeft b = Pt (px (bmin b)) (py (bmax b))"

definition bounds_getTopRight :: "'a bounds \<Rightarrow> 'a point" where
  [geometry_defs]: "bounds_getTopRight b = Pt (px (bmax b)) (py (bmin b))"

definition bounds_getTopLeft :: "'a bounds \<Rightarrow> 'a point" where
  [geometry_defs]: "bounds_getTopLeft b = Pt (px (bmin b)) (py (bmin b))"

definition bounds_getBottomRight :: "'a bounds \<Rightarrow> 'a point" where
  [geometry_defs]: "bounds_getBottomRight b = Pt (px (bmax b)) (py (bmax b))"

definition bounds_getSize :: "'a::minus bounds \<Rightarrow> 'a point" where
  [geometry_defs]: "bounds_getSize b = point_subtract (bmax b) (bmin b)"

definition bounds_contains :: "'a::linorder bounds \<Rightarrow> 'a bounds \<Rightarrow> bool" where
  [geometry_defs]: "bounds_contains b c \<longleftrightarrow>
     px (bmin c) \<ge> px (bmin b) \<and> px (bmax c) \<le> px (bmax b) \<and>
     py (bmin c) \<ge> py (bmin b) \<and> py (bmax c) \<le> py (bmax b)"

definition bounds_contains_point :: "'a::linorder bounds \<Rightarrow> 'a point \<Rightarrow> bool" where
  [geometry_defs]: "bounds_contains_point b p \<longleftrightarrow> bounds_contains b (Bnd p p)"

definition bounds_intersects :: "'a::linorder bounds \<Rightarrow> 'a bounds \<Rightarrow> bool" where
  [geometry_defs]: "bounds_intersects b c \<longleftrightarrow>
     px (bmax c) \<ge> px (bmin b) \<and> px (bmin c) \<le> px (bmax b) \<and>
     py (bmax c) \<ge> py (bmin b) \<and> py (bmin c) \<le> py (bmax b)"

definition bounds_add :: "'a::plus bounds \<Rightarrow> 'a point \<Rightarrow> 'a bounds" where
  [geometry_defs]: "bounds_add b p = Bnd (point_add (bmin b) p) (point_add (bmax b) p)"

definition bounds_getPointArray :: "'a bounds \<Rightarrow> 'a point list" where
  [geometry_defs]: "bounds_getPointArray b =
     [bounds_getBottomLeft b, bounds_getBottomRight b, bounds_getTopLeft b, bounds_getTopRight b]"

fun bounds_intersectsAny :: "'a::linorder bounds \<Rightarrow> 'a bounds list \<Rightarrow> bool" where
  "bounds_intersectsAny b [] = False"
| "bounds_intersectsAny b (c # cs) = (if bounds_intersects c b then True else bounds_intersectsAny b cs)"

definition bounds_clampX :: "'a::linorder bounds \<Rightarrow> 'a \<Rightarrow> 'a" where
  [geometry_defs]: "bounds_clampX b x = max (px (bmin b)) (min (px (bmax b)) x)"

definition bounds_clampY :: "'a::linorder bounds \<Rightarrow> 'a \<Rightarrow> 'a" where
  [geometry_defs]: "bounds_clampY b y = max (py (bmin b)) (min (py (bmax b)) y)"

definition bounds_clamp_point :: "'a::linorder bounds \<Rightarrow> 'a point \<Rightarrow> 'a point" where
  [geometry_defs]: "bounds_clamp_point b p = Pt (bounds_clampX b (px p)) (bounds_clampY b (py p))"

definition bounds_clamp :: "'a::linorder bounds \<Rightarrow> 'a bounds \<Rightarrow> 'a bounds" where
  [geometry_defs]: "bounds_clamp b c =
     bounds_of (bounds_clamp_point b (bmin c)) (bounds_clamp_point b (bmax c))"

definition bounds_equals :: "rat bounds \<Rightarrow> rat bounds \<Rightarrow> bool" where
  [geometry_defs]: "bounds_equals b c \<longleftrightarrow> point_equals (bmin b) (bmin c) \<and> point_equals (bmax b) (bmax c)"

definition bounds_toRectangle :: "'a::minus bounds \<Rightarrow> 'a list" where
  [geometry_defs]: "bounds_toRectangle b =
     [px (bmin b), py (bmin b), px (bmax b) - px (bmin b), py (bmax b) - py (bmin b)]"

definition bounds_toCoreString :: "int bounds \<Rightarrow> string" where
  "bounds_toCoreString b =
     show_int (px (bmin b)) @ '', '' @ show_int (py (bmin b)) @ '', '' @
     show_int (px (bmax b) - px (bmin b)) @ '', '' @ show_int (py (bmax b) - py (bmin b))"

definition bounds_parse :: "string \<Rightarrow> int bounds option" where
  "bounds_parse s =
     (case digit_numbers s of
        x # y # w # h # _ \<Rightarrow>
          (let refPoint1 = Pt x y; refPoint2 = point_add refPoint1 (Pt w h)
           in Some (bounds_of refPoint1 refPoint2))
      | _ \<Rightarrow> None)"

fun bounds_list_of_numbers :: "int list \<Rightarrow> int bounds list" where
  "bounds_list_of_numbers (x # y # w # h # ns) =
     bounds_of (Pt x y) (point_add (Pt x y) (Pt w h)) # bounds_list_of_numbers ns"
| "bounds_list_of_numbers _ = []"

definition bounds_parseArray :: "string \<Rightarrow> int bounds list" where
  "bounds_parseArray s = bounds_list_of_numbers (digit_numbers s)"

text \<open>A bounds with its corners in order, which every constructor call establishes.\<close>

definition bounds_ok :: "'a::linorder bounds \<Rightarrow> bool" where
  [geometry_defs]: "bounds_ok b \<longleftrightarrow> px (bmin b) \<le> px (bmax b) \<and> py (bmin b) \<le> py (bmax b)"

lemma bounds_of_ok [intro, simp]: "bounds_ok (bounds_of a b)"
  by (auto simp: geometry_defs min_def max_def)

lemma bounds_of_ordered [simp]:
  "px a \<le> px b \<Longrightarrow> py a \<le> py b \<Longrightarrow> bounds_of a b = Bnd (Pt (px a) (py a)) (Pt (px b) (py b))"
  by (auto simp: geometry_defs)

lemma bounds_extend_ok: "(case b of None \<Rightarrow> True | Some c \<Rightarrow> bounds_ok c) \<Longrightarrow> bounds_ok (bounds_extend b p)"
  by (auto simp: bounds_ok_def min_le_iff_disj le_max_iff_disj split: option.splits)

lemma bounds_extend_contains: "bounds_contains_point (bounds_extend b p) p"
  by (cases b) (auto simp: geometry_defs)

lemma bounds_extend_contains_mono:
  "bounds_contains_point b q \<Longrightarrow> bounds_contains_point (bounds_extend (Some b) p) q"
  by (auto simp: geometry_defs min_le_iff_disj le_max_iff_disj)

lemma fold_extend_contains:
  "p \<in> set ps \<or> (\<exists>c. b = Some c \<and> bounds_contains_point c p) \<Longrightarrow>
   \<exists>c. fold (\<lambda>p b. Some (bounds_extend b p)) ps b = Some c \<and> bounds_contains_point c p"
proof (induction ps arbitrary: b)
  case (Cons q ps)
  then show ?case
    using bounds_extend_contains bounds_extend_contains_mono by fastforce
qed auto

lemma bounds_of_points_contains:
  assumes "p \<in> set ps"
  obtains b where "bounds_of_points ps = Some b" "bounds_contains_point b p"
  using fold_extend_contains [of p ps None] assms by (auto simp: bounds_of_points_def)

lemma bounds_contains_point_iff:
  "bounds_contains_point b p \<longleftrightarrow>
   px (bmin b) \<le> px p \<and> px p \<le> px (bmax b) \<and> py (bmin b) \<le> py p \<and> py p \<le> py (bmax b)"
  by (simp add: geometry_defs)

lemma bounds_clamp_point_contains: "bounds_ok b \<Longrightarrow> bounds_contains_point b (bounds_clamp_point b p)"
  by (auto simp: geometry_defs)

lemma bounds_clamp_point_id: "bounds_contains_point b p \<Longrightarrow> bounds_clamp_point b p = Pt (px p) (py p)"
  by (auto simp: geometry_defs)

text \<open>Two bounds intersect exactly when they share a point.\<close>

lemma bounds_intersects_iff:
  assumes "bounds_ok b" "bounds_ok c"
  shows "bounds_intersects b c \<longleftrightarrow> (\<exists>p. bounds_contains_point b p \<and> bounds_contains_point c p)"
proof
  assume i: "bounds_intersects b c"
  let ?p = "Pt (max (px (bmin b)) (px (bmin c))) (max (py (bmin b)) (py (bmin c)))"
  have "bounds_contains_point b ?p \<and> bounds_contains_point c ?p"
    using i assms by (auto simp: geometry_defs)
  then show "\<exists>p. bounds_contains_point b p \<and> bounds_contains_point c p" by blast
qed (auto simp: geometry_defs)

section \<open>Rectangle strings\<close>

lemma digit_runs_non_digit: "\<not> is_digit c \<Longrightarrow> digit_runs (c # cs) = digit_runs cs"
  by simp

lemma digit_runs_append:
  "list_all is_digit ds \<Longrightarrow> ds \<noteq> [] \<Longrightarrow> (rest = [] \<or> \<not> is_digit (hd rest)) \<Longrightarrow>
   digit_runs (ds @ rest) = ds # digit_runs rest"
proof (cases ds)
  case (Cons d ds')
  assume "list_all is_digit ds" "rest = [] \<or> \<not> is_digit (hd rest)"
  then have "takeWhile is_digit (ds' @ rest) = ds'" "dropWhile is_digit (ds' @ rest) = rest"
    using Cons by (cases rest; auto simp: list_all_iff takeWhile_append dropWhile_append)+
  with Cons \<open>list_all is_digit ds\<close> show ?thesis by simp
qed simp

lemma digit_numbers_show:
  "0 \<le> n \<Longrightarrow> (rest = [] \<or> \<not> is_digit (hd rest)) \<Longrightarrow>
   digit_numbers (show_int n @ rest) = n # digit_numbers rest"
  by (simp add: digit_numbers_def show_int_def digit_runs_append show_nat_digits nat_of_digits_show_nat)

lemma digit_numbers_comma: "digit_numbers ('', '' @ s) = digit_numbers s"
  by (simp add: digit_numbers_def is_digit_def)

lemma digit_numbers_Nil [simp]: "digit_numbers [] = []"
  by (simp add: digit_numbers_def)

lemma comma_not_digit [simp]: "\<not> is_digit (CHR '','')"
  by (simp add: is_digit_def)

lemma digit_numbers_core_string:
  assumes "0 \<le> px (bmin b)" "0 \<le> py (bmin b)" "bounds_ok b"
  shows "digit_numbers (bounds_toCoreString b) = bounds_toRectangle b"
proof -
  have sep: "\<And>n s. 0 \<le> n \<Longrightarrow> digit_numbers (show_int n @ '', '' @ s) = n # digit_numbers s"
    using digit_numbers_comma by (subst digit_numbers_show) auto
  have last: "\<And>n. 0 \<le> n \<Longrightarrow> digit_numbers (show_int n) = [n]"
    using digit_numbers_show [of _ "[]"] by simp
  show ?thesis
    using assms by (simp add: bounds_toCoreString_def bounds_toRectangle_def bounds_ok_def sep last
        del: append_Cons append_Nil)
qed

section \<open>Rectangles of \<open>L.LOUtil\<close>\<close>

text \<open>A rectangle is the array \<open>[x, y, width, height]\<close>.\<close>

record rectangle =
  rx :: int
  ry :: int
  rw :: int
  rh :: int

definition Rect :: "int \<Rightarrow> int \<Rightarrow> int \<Rightarrow> int \<Rightarrow> rectangle" where
  [simp]: "Rect x y w h = \<lparr>rx = x, ry = y, rw = w, rh = h\<rparr>"

text \<open>
  \<open>_doRectanglesIntersect\<close> compares the distance of the centres with the sum of the extents;
  the code's factors \<open>0.5\<close> are exact rationals here.
\<close>

definition doRectanglesIntersect :: "rectangle \<Rightarrow> rectangle \<Rightarrow> bool" where
  "doRectanglesIntersect r1 r2 \<longleftrightarrow>
     \<bar>(of_int (rx r1) + of_int (rw r1) * (1 / 2)) - (of_int (rx r2) + of_int (rw r2) * (1 / 2) :: rat)\<bar>
        < of_int (rw r1 + rw r2) \<and>
     \<bar>(of_int (ry r1) + of_int (rh r1) * (1 / 2)) - (of_int (ry r2) + of_int (rh r2) * (1 / 2) :: rat)\<bar>
        < of_int (rh r1 + rh r2)"

definition getIntersectionRectangle :: "rectangle \<Rightarrow> rectangle \<Rightarrow> rectangle option" where
  "getIntersectionRectangle r1 r2 =
     (if doRectanglesIntersect r1 r2 then
        (let x = (if rx r1 > rx r2 then rx r1 else rx r2);
             y = (if ry r1 > ry r2 then ry r1 else ry r2);
             w = (if rx r1 + rw r1 < rx r2 + rw r2 then rx r1 + rw r1 - x else rx r2 + rw r2 - x);
             h = (if ry r1 + rh r1 < ry r2 + rh r2 then ry r1 + rh r1 - y else ry r2 + rh r2 - y)
         in Some (Rect x y w h))
      else None)"

definition in_rectangle :: "rectangle \<Rightarrow> int \<Rightarrow> int \<Rightarrow> bool" where
  "in_rectangle r x y \<longleftrightarrow> rx r \<le> x \<and> x < rx r + rw r \<and> ry r \<le> y \<and> y < ry r + rh r"

lemma doRectanglesIntersect_int:
  "doRectanglesIntersect r1 r2 \<longleftrightarrow>
     \<bar>(2 * rx r1 + rw r1) - (2 * rx r2 + rw r2)\<bar> < 2 * (rw r1 + rw r2) \<and>
     \<bar>(2 * ry r1 + rh r1) - (2 * ry r2 + rh r2)\<bar> < 2 * (rh r1 + rh r2)"
proof -
  have half: "\<bar>(of_int a + of_int b * (1 / 2)) - (of_int c + of_int d * (1 / 2) :: rat)\<bar> < of_int e \<longleftrightarrow>
      \<bar>(2 * a + b) - (2 * c + d)\<bar> < 2 * e" for a b c d e :: int
  proof -
    have "(of_int a + of_int b * (1 / 2)) - (of_int c + of_int d * (1 / 2) :: rat) =
        of_int ((2 * a + b) - (2 * c + d)) / 2"
      by simp
    moreover have "\<bar>of_int z / (2 :: rat)\<bar> < of_int e \<longleftrightarrow> \<bar>z\<bar> < 2 * e" for z :: int
    proof -
      have "\<bar>of_int z / (2 :: rat)\<bar> < of_int e \<longleftrightarrow> (of_int \<bar>z\<bar> :: rat) < of_int (2 * e)"
        by (simp add: abs_divide mult.commute)
      also have "\<dots> \<longleftrightarrow> \<bar>z\<bar> < 2 * e" by (rule of_int_less_iff)
      finally show ?thesis .
    qed
    ultimately show ?thesis by (simp only:)
  qed
  show ?thesis by (simp only: doRectanglesIntersect_def half)
qed

lemma getIntersectionRectangle_points:
  assumes "getIntersectionRectangle r1 r2 = Some r"
  shows "in_rectangle r x y \<longleftrightarrow> in_rectangle r1 x y \<and> in_rectangle r2 x y"
  using assms
  by (auto simp: getIntersectionRectangle_def in_rectangle_def Let_def split: if_splits)

lemma in_both_doRectanglesIntersect:
  assumes "in_rectangle r1 x y" "in_rectangle r2 x y"
  shows "doRectanglesIntersect r1 r2"
  using assms by (auto simp: in_rectangle_def doRectanglesIntersect_int)

end
