(* ===== verification/Tile_Coords.thy ===== *)
theory Tile_Coords
  imports Geometry
begin

text \<open>
  Tile coordinates of the document layer (layer/tile/CanvasTileLayer.js): \<open>L.TileCoordData\<close>
  with its string key and \<open>parseKey\<close>, and the conversions of \<open>L.CanvasTileLayer\<close> between
  twips (the unit of the document), core pixels (the unit of the tile grid), css pixels and
  tile positions. A tile is named by the core pixel position of its top left corner, the zoom
  level, the part (sheet or slide) and the edit mode.
\<close>

named_theorems coords_defs "definitions of the coordinate conversions"

section \<open>Tile coordinates and their keys\<close>

record tile_coords =
  tc_x :: int
  tc_y :: int
  tc_z :: int
  tc_part :: int
  tc_mode :: int

text \<open>The constructor; the mode defaults to 0.\<close>

definition TileCoordData :: "int \<Rightarrow> int \<Rightarrow> int \<Rightarrow> int \<Rightarrow> int option \<Rightarrow> tile_coords" where
  "TileCoordData left tp zoom part mode =
     \<lparr>tc_x = left, tc_y = tp, tc_z = zoom, tc_part = part,
      tc_mode = (case mode of Some m \<Rightarrow> m | None \<Rightarrow> 0)\<rparr>"

definition tc_getPos :: "tile_coords \<Rightarrow> int point" where
  "tc_getPos c = Pt (tc_x c) (tc_y c)"

definition tc_key :: "tile_coords \<Rightarrow> string" where
  "tc_key c = show_int (tc_x c) @ '':'' @ show_int (tc_y c) @ '':'' @ show_int (tc_z c) @ '':'' @
     show_int (tc_part c) @ '':'' @ show_int (tc_mode c)"

definition tc_toString :: "tile_coords \<Rightarrow> string" where
  "tc_toString c = ''{ left : '' @ show_int (tc_x c) @ '', top : '' @ show_int (tc_y c) @
     '', z : '' @ show_int (tc_z c) @ '', part : '' @ show_int (tc_part c) @
     '', mode : '' @ show_int (tc_mode c) @ '' }''"

text \<open>
  \<open>parseKey\<close> reads the parts of the key with unary plus. \<open>None\<close> is a result with a component
  that is not a number (a missing part is \<open>undefined\<close>, and \<open>+undefined\<close> is \<open>NaN\<close>). The fifth
  part is read only when there are exactly four parts, as in the code.
\<close>

definition tc_parseKey :: "string \<Rightarrow> tile_coords option" where
  "tc_parseKey keyString =
     (let k = split_on (CHR '':'') keyString;
          num = (\<lambda>i. if i < length k then js_number (k ! i) else None);
          mode = (if length k = 4 then num 4 else Some 0)
      in case (num 0, num 1, num 2, num 3, mode) of
           (Some x, Some y, Some z, Some p, Some m) \<Rightarrow> Some (TileCoordData x y z p (Some m))
         | _ \<Rightarrow> None)"

lemma show_int_no_colon [simp]: "CHR '':'' \<notin> set (show_int n)"
  using show_int_chars is_digit_neq(3) by force

lemma tc_key_join:
  "tc_key c = join '':'' [show_int (tc_x c), show_int (tc_y c), show_int (tc_z c),
     show_int (tc_part c), show_int (tc_mode c)]"
  by (simp add: tc_key_def)

lemma split_tc_key:
  "split_on (CHR '':'') (tc_key c) = [show_int (tc_x c), show_int (tc_y c), show_int (tc_z c),
     show_int (tc_part c), show_int (tc_mode c)]"
  unfolding tc_key_join by (rule split_on_join) auto

lemma tc_parseKey_key: "tc_parseKey (tc_key c) = Some (c\<lparr>tc_mode := 0\<rparr>)"
  by (simp add: tc_parseKey_def split_tc_key js_number_show_int TileCoordData_def)

lemma tc_key_eq_iff [simp]: "tc_key c = tc_key d \<longleftrightarrow> c = d"
proof
  assume "tc_key c = tc_key d"
  then have "split_on (CHR '':'') (tc_key c) = split_on (CHR '':'') (tc_key d)" by simp
  then show "c = d" by (simp add: split_tc_key)
qed simp

lemma inj_tc_key: "inj tc_key"
  by (rule injI) simp

section \<open>The geometry of the layer\<close>

text \<open>
  The fields of the layer that the conversions read. Tile sizes are integers
  (\<open>_updateTileTwips\<close> rounds the twip sizes); the display scale is a ratio.
\<close>

record layer_geom =
  tileSize :: int
  tileWidthPx :: int
  tileHeightPx :: int
  tileWidthTwips :: int
  tileHeightTwips :: int
  docWidthTwips :: int
  docHeightTwips :: int
  dpiScale :: rat

definition geom_ok :: "layer_geom \<Rightarrow> bool" where
  "geom_ok g \<longleftrightarrow> 0 < tileSize g \<and> 0 < tileWidthTwips g \<and> 0 < tileHeightTwips g \<and> 0 < dpiScale g"

text \<open>The position fields of a parsed tile message.\<close>

record tile_msg_pos =
  tm_x :: int
  tm_y :: int
  tm_tileWidth :: int
  tm_tileHeight :: int
  tm_zoom :: int
  tm_part :: int
  tm_mode :: "int option"

definition twipsToCoords :: "layer_geom \<Rightarrow> tile_msg_pos \<Rightarrow> int point" where
  [coords_defs]: "twipsToCoords g m =
     Pt (js_round (of_int (tm_x m) / of_int (tm_tileWidth m)) * tileSize g)
        (js_round (of_int (tm_y m) / of_int (tm_tileHeight m)) * tileSize g)"

definition coordsToTwips :: "layer_geom \<Rightarrow> tile_coords \<Rightarrow> int point" where
  [coords_defs]: "coordsToTwips g c =
     Pt (\<lfloor>of_int (tc_x c) / (of_int (tileSize g) :: rat)\<rfloor> * tileWidthTwips g)
        (\<lfloor>of_int (tc_y c) / (of_int (tileSize g) :: rat)\<rfloor> * tileHeightTwips g)"

definition tileMsgToCoords :: "layer_geom \<Rightarrow> tile_msg_pos \<Rightarrow> tile_coords" where
  [coords_defs]: "tileMsgToCoords g m =
     (let p = twipsToCoords g m in
      \<lparr>tc_x = px p, tc_y = py p, tc_z = tm_zoom m, tc_part = tm_part m,
       tc_mode = (case tm_mode m of Some mo \<Rightarrow> mo | None \<Rightarrow> 0)\<rparr>)"

definition isValidTile :: "layer_geom \<Rightarrow> tile_coords \<Rightarrow> bool" where
  [coords_defs]: "isValidTile g c =
     (if tc_x c < 0 \<or> tc_y c < 0 then False
      else if (of_int (tc_x c) / of_int (tileSize g)) * of_int (tileWidthTwips g) >
                (of_int (docWidthTwips g) :: rat) \<or>
              (of_int (tc_y c) / of_int (tileSize g)) * of_int (tileHeightTwips g) >
                (of_int (docHeightTwips g) :: rat)
      then False
      else True)"

definition pxBoundsToTileRange :: "layer_geom \<Rightarrow> rat bounds \<Rightarrow> int bounds" where
  [coords_defs]: "pxBoundsToTileRange g b =
     bounds_of (point_floor (point_divideBy (bmin b) (of_int (tileSize g))))
               (point_floor (point_divideBy (bmax b) (of_int (tileSize g))))"

definition corePixelsToCss :: "layer_geom \<Rightarrow> rat point \<Rightarrow> rat point" where
  [coords_defs]: "corePixelsToCss g p = point_divideBy p (dpiScale g)"

definition cssPixelsToCore :: "layer_geom \<Rightarrow> rat point \<Rightarrow> rat point" where
  [coords_defs]: "cssPixelsToCore g p = point_multiplyBy p (dpiScale g)"

definition cssBoundsToCore :: "layer_geom \<Rightarrow> rat bounds \<Rightarrow> rat bounds" where
  [coords_defs]: "cssBoundsToCore g b = bounds_of (cssPixelsToCore g (bmin b)) (cssPixelsToCore g (bmax b))"

definition twipsToCorePixels :: "layer_geom \<Rightarrow> rat point \<Rightarrow> rat point" where
  [coords_defs]: "twipsToCorePixels g t =
     Pt (px t / of_int (tileWidthTwips g) * of_int (tileSize g))
        (py t / of_int (tileHeightTwips g) * of_int (tileSize g))"

definition twipsToCorePixelsBounds :: "layer_geom \<Rightarrow> rat bounds \<Rightarrow> rat bounds" where
  [coords_defs]: "twipsToCorePixelsBounds g b =
     bounds_of (twipsToCorePixels g (bmin b)) (twipsToCorePixels g (bmax b))"

definition corePixelsToTwips :: "layer_geom \<Rightarrow> rat point \<Rightarrow> rat point" where
  [coords_defs]: "corePixelsToTwips g p =
     Pt (px p / of_int (tileSize g) * of_int (tileWidthTwips g))
        (py p / of_int (tileSize g) * of_int (tileHeightTwips g))"

definition twipsToCssPixels :: "layer_geom \<Rightarrow> rat point \<Rightarrow> rat point" where
  [coords_defs]: "twipsToCssPixels g t =
     Pt ((px t / of_int (tileWidthTwips g)) * (of_int (tileSize g) / dpiScale g))
        ((py t / of_int (tileHeightTwips g)) * (of_int (tileSize g) / dpiScale g))"

definition cssPixelsToTwips :: "layer_geom \<Rightarrow> rat point \<Rightarrow> rat point" where
  [coords_defs]: "cssPixelsToTwips g p =
     Pt (((px p * dpiScale g) / of_int (tileSize g)) * of_int (tileWidthTwips g))
        (((py p * dpiScale g) / of_int (tileSize g)) * of_int (tileHeightTwips g))"

definition coordsToPixBounds :: "layer_geom \<Rightarrow> tile_coords \<Rightarrow> int bounds" where
  [coords_defs]: "coordsToPixBounds g c =
     (let topLeft = Pt (tc_x c) (tc_y c);
          bottomRight = point_add topLeft (Pt (tileSize g) (tileSize g))
      in bounds_of topLeft bottomRight)"

text \<open>
  \<open>_coordsToTileBounds\<close>: the twip area of a tile at its own zoom level; \<open>zoomFactor\<close> is the
  value of \<open>map.zoomToFactor(coords.z)\<close> and the two sizes are \<open>options.tileWidthTwips\<close> and
  \<open>options.tileHeightTwips\<close>, the twip sizes at the default zoom level.
\<close>

definition coordsToTileBounds :: "layer_geom \<Rightarrow> int \<Rightarrow> int \<Rightarrow> rat \<Rightarrow> tile_coords \<Rightarrow> rat bounds" where
  [coords_defs]: "coordsToTileBounds g optWidthTwips optHeightTwips zoomFactor c =
     (let tileTopLeft = Pt (of_int (tc_x c) * of_int optWidthTwips / of_int (tileSize g) / zoomFactor)
                           (of_int (tc_y c) * of_int optHeightTwips / of_int (tileSize g) / zoomFactor);
          tSize = Pt (of_int optWidthTwips / zoomFactor) (of_int optHeightTwips / zoomFactor)
      in bounds_of tileTopLeft (point_add tileTopLeft tSize))"

section \<open>Facts about the conversions\<close>

text \<open>A tile on the grid: the positions the layer asks for are multiples of the tile size.\<close>

definition on_grid :: "layer_geom \<Rightarrow> tile_coords \<Rightarrow> bool" where
  "on_grid g c \<longleftrightarrow> tileSize g dvd tc_x c \<and> tileSize g dvd tc_y c"

lemma coordsToTwips_div:
  "coordsToTwips g c =
     Pt ((tc_x c div tileSize g) * tileWidthTwips g) ((tc_y c div tileSize g) * tileHeightTwips g)"
  by (simp add: coordsToTwips_def floor_of_int_divide)

lemma js_round_mult_div: "w \<noteq> 0 \<Longrightarrow> js_round (of_int (k * w) / of_int w) = k"
proof -
  assume "w \<noteq> 0"
  then have "of_int (k * w) / (of_int w :: rat) = of_int k" by simp
  then show ?thesis by (simp only: js_round_of_int)
qed

lemma isValidTile_grid:
  assumes "geom_ok g" "tc_x c = i * tileSize g" "tc_y c = j * tileSize g"
  shows "isValidTile g c \<longleftrightarrow>
     0 \<le> i \<and> 0 \<le> j \<and> i * tileWidthTwips g \<le> docWidthTwips g \<and> j * tileHeightTwips g \<le> docHeightTwips g"
proof -
  have ts: "0 < tileSize g" using assms(1) by (simp add: geom_ok_def)
  have q: "of_int (k * tileSize g) / of_int (tileSize g) * of_int w = (of_int (k * w) :: rat)" for k w
    using ts by simp
  have neg: "k * tileSize g < 0 \<longleftrightarrow> k < 0" for k
    using ts by (simp add: mult_less_0_iff)
  show ?thesis
    unfolding isValidTile_def assms(2,3) q neg of_int_less_iff by auto
qed

lemma twipsToCorePixels_inverse:
  "geom_ok g \<Longrightarrow> corePixelsToTwips g (twipsToCorePixels g p) = Pt (px p) (py p)"
  "geom_ok g \<Longrightarrow> twipsToCorePixels g (corePixelsToTwips g p) = Pt (px p) (py p)"
  by (simp_all add: coords_defs geom_ok_def)

lemma cssPixels_core_twips:
  "geom_ok g \<Longrightarrow> cssPixelsToTwips g p = corePixelsToTwips g (cssPixelsToCore g p)"
  "geom_ok g \<Longrightarrow> twipsToCssPixels g p = corePixelsToCss g (twipsToCorePixels g p)"
  by (simp_all add: coords_defs geometry_defs)

text \<open>The tile range of a pixel area holds the tile of every pixel of the area.\<close>

lemma floor_div_mono: "0 < (s::rat) \<Longrightarrow> x \<le> y \<Longrightarrow> \<lfloor>x / s\<rfloor> \<le> \<lfloor>y / s\<rfloor>"
  by (intro floor_mono divide_right_mono) auto

lemma pxBoundsToTileRange_contains:
  assumes "0 < tileSize g" "bounds_contains_point b p"
  shows "bounds_contains_point (pxBoundsToTileRange g b)
     (point_floor (point_divideBy p (of_int (tileSize g))))"
proof -
  have s: "0 < (of_int (tileSize g) :: rat)" using assms(1) by simp
  have "px (bmin b) \<le> px (bmax b)" "py (bmin b) \<le> py (bmax b)"
    using assms(2) by (auto simp: bounds_contains_point_iff)
  with assms(2) show ?thesis
    by (auto simp: pxBoundsToTileRange_def bounds_contains_point_iff geometry_defs
        min_le_iff_disj le_max_iff_disj intro: floor_div_mono [OF s])
qed

lemma tile_msg_of_request:
  assumes "geom_ok g" and "on_grid g c"
  shows "tileMsgToCoords g
     \<lparr>tm_x = px (coordsToTwips g c), tm_y = py (coordsToTwips g c),
      tm_tileWidth = tileWidthTwips g, tm_tileHeight = tileHeightTwips g,
      tm_zoom = tc_z c, tm_part = tc_part c, tm_mode = Some (tc_mode c)\<rparr> = c"
proof -
  have w: "tileWidthTwips g \<noteq> 0" "tileHeightTwips g \<noteq> 0" using assms(1) by (auto simp: geom_ok_def)
  show ?thesis
    using assms(2)
    by (simp add: tileMsgToCoords_def twipsToCoords_def coordsToTwips_div js_round_mult_div [OF w(1)]
        js_round_mult_div [OF w(2)] on_grid_def Let_def del: of_int_mult)
qed

section \<open>Properties\<close>

text \<open>
  The string keys under which tiles are stored and looked up identify the
  tile: two tile coordinates with the same key are the same.
\<close>

theorem tile_key_injective: "tc_key c = tc_key d \<longleftrightarrow> c = d"
  by (rule tc_key_eq_iff)

text \<open>
  Reading a key back gives the tile's coordinates with the mode replaced by 0:
  \<open>parseKey\<close> looks at the fifth part only when there are four. The round trip is the identity
  exactly on the tiles of mode 0, and every key of a tile in another mode is misread.
\<close>

lemma parseKey_loses_mode:
  "tc_parseKey (tc_key c) = Some (c\<lparr>tc_mode := 0\<rparr>) \<and>
   (tc_parseKey (tc_key c) = Some c \<longleftrightarrow> tc_mode c = 0)"
  by (cases c) (auto simp: tc_parseKey_key)

text \<open>
  A tile on the grid that is requested by its twip position and answered with
  the same position and tile size is filed under the coordinates it was requested for.
\<close>

theorem tile_position_roundtrip:
  assumes "geom_ok g" and "on_grid g c"
  shows "tileMsgToCoords g
     \<lparr>tm_x = px (coordsToTwips g c), tm_y = py (coordsToTwips g c),
      tm_tileWidth = tileWidthTwips g, tm_tileHeight = tileHeightTwips g,
      tm_zoom = tc_z c, tm_part = tc_part c, tm_mode = Some (tc_mode c)\<rparr> = c"
  by (rule tile_msg_of_request [OF assms])

theorem tile_position_roundtrip_witness:
  "tileMsgToCoords
     \<lparr>tileSize = 256, tileWidthPx = 256, tileHeightPx = 256, tileWidthTwips = 3840, tileHeightTwips = 3840,
      docWidthTwips = 20000, docHeightTwips = 30000, dpiScale = 1\<rparr>
     \<lparr>tm_x = 7680, tm_y = 3840, tm_tileWidth = 3840, tm_tileHeight = 3840, tm_zoom = 10, tm_part = 0,
      tm_mode = Some 0\<rparr> = \<lparr>tc_x = 512, tc_y = 256, tc_z = 10, tc_part = 0, tc_mode = 0\<rparr>"
  using tile_position_roundtrip [of "\<lparr>tileSize = 256, tileWidthPx = 256, tileHeightPx = 256,
      tileWidthTwips = 3840, tileHeightTwips = 3840, docWidthTwips = 20000, docHeightTwips = 30000,
      dpiScale = 1\<rparr>" "\<lparr>tc_x = 512, tc_y = 256, tc_z = 10, tc_part = 0, tc_mode = 0\<rparr>"]
  by (simp add: geom_ok_def on_grid_def coordsToTwips_div)

end
