(* ===== verification/Tile_Delta.thy ===== *)
theory Tile_Delta
  imports Js_Prelude
begin

text \<open>
  Pixels of a tile (layer/tile/CanvasTileLayer.js): \<open>_unpremultiply\<close>, \<open>_applyDeltaChunk\<close> and
  the part of \<open>_applyDelta\<close> that turns a decompressed stream into an image. Byte arrays are
  lists of 8-bit words; a \<open>Uint32Array\<close> view reads four of them, least significant first, so
  the alpha channel is the last byte of a pixel. A read outside a typed array is \<open>undefined\<close>
  and is stored as 0, a write outside it is ignored.

  \<open>encode_op\<close> and \<open>apply_op\<close> state the wire format and its meaning independently of the
  loop; the decoder is proved against them.
\<close>

named_theorems delta_defs "definitions of the delta decoder"

type_synonym byte = "8 word"
type_synonym bytes = "byte list"

datatype js_error = RangeError | DecompressError

section \<open>Colours: from premultiplied to plain alpha\<close>

text \<open>\<open>Math.ceil(n / d)\<close> for counts.\<close>

definition ceil_div :: "nat \<Rightarrow> nat \<Rightarrow> nat" where
  "ceil_div n d = (n + d - 1) div d"

text \<open>A store into a \<open>Uint8ClampedArray\<close>.\<close>

definition clamp8 :: "nat \<Rightarrow> byte" where
  "clamp8 n = word_of_nat (min 255 n)"

definition unpremultiply_pixel :: "byte \<Rightarrow> byte \<Rightarrow> byte \<Rightarrow> byte \<Rightarrow> bytes" where
  [delta_defs]: "unpremultiply_pixel r g b alpha =
     (if alpha = 255 then [r, g, b, alpha]
      else if alpha \<noteq> 0 then
        [clamp8 (ceil_div (unat r * 255) (unat alpha)),
         clamp8 (ceil_div (unat g * 255) (unat alpha)),
         clamp8 (ceil_div (unat b * 255) (unat alpha)), alpha]
      else [0, 0, 0, 0])"

fun unpremultiply_pixels :: "bytes \<Rightarrow> bytes" where
  "unpremultiply_pixels (r # g # b # a # bs) = unpremultiply_pixel r g b a @ unpremultiply_pixels bs"
| "unpremultiply_pixels _ = []"

text \<open>
  \<open>_unpremultiply(rawDelta, byteLength)\<close>: the view over \<open>byteLength / 4\<close> words throws when
  the array is shorter; a length that is no multiple of four is rounded down.
\<close>

definition unpremultiply :: "bytes \<Rightarrow> nat \<Rightarrow> js_error + bytes" where
  [delta_defs]: "unpremultiply rawDelta byteLength =
     (if 4 * (byteLength div 4) > length rawDelta then Inl RangeError
      else Inr (unpremultiply_pixels (take (4 * (byteLength div 4)) rawDelta)))"

section \<open>One delta chunk\<close>

definition nth_opt :: "'a list \<Rightarrow> nat \<Rightarrow> 'a option" where
  "nth_opt xs i = (if i < length xs then Some (xs ! i) else None)"

definition read0 :: "bytes \<Rightarrow> nat \<Rightarrow> byte" where
  "read0 xs i = (if i < length xs then xs ! i else 0)"

fun write_bytes :: "nat \<Rightarrow> bytes \<Rightarrow> bytes \<Rightarrow> bytes" where
  "write_bytes d [] img = img"
| "write_bytes d (b # bs) img = write_bytes (Suc d) bs (img[d := b])"

text \<open>Copy one row of the old image; width is in pixels.\<close>

definition copy_row :: "nat \<Rightarrow> bytes \<Rightarrow> nat \<Rightarrow> nat \<Rightarrow> bytes \<Rightarrow> bytes" where
  [delta_defs]: "copy_row width oldData srcRow destRow img =
     write_bytes (destRow * width * 4)
       (map (\<lambda>j. read0 oldData (srcRow * width * 4 + j)) [0..<width * 4]) img"

definition copy_rows :: "nat \<Rightarrow> bytes \<Rightarrow> nat \<Rightarrow> nat \<Rightarrow> nat \<Rightarrow> bytes \<Rightarrow> bytes" where
  [delta_defs]: "copy_rows width oldData count srcRow destRow img =
     fold (\<lambda>cnt. copy_row width oldData (srcRow + cnt) (destRow + cnt)) [0..<count] img"

text \<open>
  The store loop of a new run: \<open>n\<close> bytes go to \<open>offset\<close>, those the pixel data does not
  have are \<open>undefined\<close> and become 0.
\<close>

definition write_run :: "nat \<Rightarrow> bytes \<Rightarrow> nat \<Rightarrow> bytes \<Rightarrow> bytes" where
  [delta_defs]: "write_run offset pixelData n img = write_bytes offset (map (read0 pixelData) [0..<n]) img"

text \<open>
  The copy command; \<open>rest\<close> is what follows its code byte. Without a destination row every
  store goes to the property \<open>NaN\<close> of the array and is ignored.
\<close>

definition copy_command :: "nat \<Rightarrow> bytes \<Rightarrow> bytes \<Rightarrow> bytes \<Rightarrow> bytes" where
  [delta_defs]: "copy_command width oldData rest img =
     (case (nth_opt rest 0, nth_opt rest 1, nth_opt rest 2) of
        (Some count, Some srcRow, Some destRow) \<Rightarrow>
          copy_rows width oldData (unat count) (unat srcRow) (unat destRow) img
      | _ \<Rightarrow> img)"

text \<open>
  The loop of \<open>_applyDeltaChunk\<close>. The list is what the code sees from position \<open>i\<close> on. The
  second component is the value the function returns, \<open>None\<close> for \<open>NaN\<close>: a run whose span byte
  is missing makes \<open>i\<close> not a number, which also ends the loop. A copy command cut short still
  advances by four.
\<close>

function chunk_loop :: "nat \<Rightarrow> bytes \<Rightarrow> bytes \<Rightarrow> bytes \<Rightarrow> nat \<Rightarrow> bytes \<times> nat option" where
  "chunk_loop width oldData [] img i = (img, Some i)"
| "chunk_loop width oldData (code # rest) img i =
     (if code = 99 then
        chunk_loop width oldData (drop 3 rest) (copy_command width oldData rest img) (i + 4)
      else if code = 100 then
        (case (nth_opt rest 0, nth_opt rest 1, nth_opt rest 2) of
           (Some destRow, Some destCol, Some spn) \<Rightarrow>
             (let offset = unat destRow * width * 4 + unat destCol * 4;
                  n = unat spn * 4;
                  tmpu8 = take n (drop 3 rest);
                  pixelData = unpremultiply_pixels (take (4 * (length tmpu8 div 4)) tmpu8)
              in chunk_loop width oldData (drop n (drop 3 rest)) (write_run offset pixelData n img)
                   (i + 4 + n))
         | _ \<Rightarrow> (img, None))
      else if code = 116 then (img, Some (i + 1))
      else (img, Some (i + length (code # rest))))"
  by pat_completeness auto
termination
  by (relation "measure (\<lambda>(width, oldData, delta, img, i). length delta)") auto

definition applyDeltaChunk :: "nat \<Rightarrow> bytes \<Rightarrow> bytes \<Rightarrow> bytes \<times> nat option" where
  [delta_defs]: "applyDeltaChunk width imgData delta = chunk_loop width imgData delta imgData 0"

declare chunk_loop.simps(2) [simp del]

lemma chunk_loop_advances: "chunk_loop width oldData delta img i = (img', Some n) \<Longrightarrow>
   i \<le> n \<and> (delta \<noteq> [] \<longrightarrow> i < n)"
proof (induction width oldData delta img i arbitrary: img' n rule: chunk_loop.induct)
  case (2 width oldData code rest img i)
  show ?case
    using "2.prems" "2.IH"
    by (fastforce simp: chunk_loop.simps(2) [of width oldData code rest img i] Let_def
        split: if_splits option.splits prod.splits)
qed simp

lemma applyDeltaChunk_positive: "applyDeltaChunk width img delta = (img', Some n) \<Longrightarrow> delta \<noteq> [] \<Longrightarrow> 0 < n"
  by (auto simp: applyDeltaChunk_def dest: chunk_loop_advances)

text \<open>
  The while loop of \<open>_applyDelta\<close>: it applies the chunks of a stream in turn; each chunk reads
  from a copy of the image made when the chunk starts.
\<close>

function apply_chunks :: "nat \<Rightarrow> bytes \<Rightarrow> bytes \<Rightarrow> bytes" where
  "apply_chunks width allDeltas img =
     (if allDeltas = [] then img
      else (case applyDeltaChunk width img allDeltas of
              (img', None) \<Rightarrow> img'
            | (img', Some len) \<Rightarrow> apply_chunks width (drop len allDeltas) img'))"
  by pat_completeness auto
termination
  by (relation "measure (\<lambda>(width, allDeltas, img). length allDeltas)")
    (auto dest!: sym [of "(_, Some _)"] applyDeltaChunk_positive)

declare apply_chunks.simps [simp del]

text \<open>
  The image a decompressed stream gives: a keyframe replaces the image by its leading
  \<open>width * height\<close> pixels, and the rest of the stream is chunks on top of it.
\<close>

definition decode_stream :: "nat \<Rightarrow> nat \<Rightarrow> bool \<Rightarrow> bytes \<Rightarrow> bytes \<Rightarrow> js_error + bytes" where
  [delta_defs]: "decode_stream width height isKeyframe allDeltas img =
     (if isKeyframe then
        (let len = width * height * 4 in
         case unpremultiply allDeltas len of
           Inl e \<Rightarrow> Inl e
         | Inr pixelArray \<Rightarrow> Inr (apply_chunks width (drop len allDeltas) pixelArray))
      else Inr (apply_chunks width allDeltas img))"

section \<open>The wire format\<close>

datatype delta_op =
    CopyRow nat nat nat \<comment> \<open>count, source row, destination row\<close>
  | NewRun nat nat bytes \<comment> \<open>row, column, premultiplied pixels\<close>

fun op_ok :: "delta_op \<Rightarrow> bool" where
  "op_ok (CopyRow count src dest) \<longleftrightarrow> count < 256 \<and> src < 256 \<and> dest < 256"
| "op_ok (NewRun row col pixels) \<longleftrightarrow>
     row < 256 \<and> col < 256 \<and> length pixels mod 4 = 0 \<and> length pixels div 4 < 256"

fun encode_op :: "delta_op \<Rightarrow> bytes" where
  "encode_op (CopyRow count src dest) = [99, word_of_nat count, word_of_nat src, word_of_nat dest]"
| "encode_op (NewRun row col pixels) =
     [100, word_of_nat row, word_of_nat col, word_of_nat (length pixels div 4)] @ pixels"

definition encode_chunk :: "delta_op list \<Rightarrow> bytes" where
  "encode_chunk ops = concat (map encode_op ops) @ [116]"

fun apply_op :: "nat \<Rightarrow> bytes \<Rightarrow> delta_op \<Rightarrow> bytes \<Rightarrow> bytes" where
  "apply_op width old (CopyRow count src dest) img = copy_rows width old count src dest img"
| "apply_op width old (NewRun row col pixels) img =
     write_bytes (row * width * 4 + col * 4) (unpremultiply_pixels pixels) img"

definition apply_ops :: "nat \<Rightarrow> delta_op list \<Rightarrow> bytes \<Rightarrow> bytes" where
  "apply_ops width ops img = fold (apply_op width img) ops img"

section \<open>Lemmas\<close>

lemma length_write_bytes [simp]: "length (write_bytes d bs img) = length img"
  by (induction d bs img rule: write_bytes.induct) simp_all

lemma length_copy_row [simp]: "length (copy_row w old s d img) = length img"
  by (simp add: copy_row_def)

lemma length_fold_same: "(\<And>x b. length (f x b) = length b) \<Longrightarrow> length (fold f xs b) = length b"
  by (induction xs arbitrary: b) simp_all

lemma length_copy_rows [simp]: "length (copy_rows w old c s d img) = length img"
  by (simp add: copy_rows_def length_fold_same)

lemma length_copy_command [simp]: "length (copy_command w old rest img) = length img"
  by (simp add: copy_command_def split: option.splits)

lemma length_write_run [simp]: "length (write_run off p n img) = length img"
  by (simp add: write_run_def)

lemma nth_write_bytes:
  "k < length img \<Longrightarrow> write_bytes d bs img ! k = (if d \<le> k \<and> k < d + length bs then bs ! (k - d) else img ! k)"
proof (induction d bs img rule: write_bytes.induct)
  case (2 d b bs img)
  then show ?case
    by (cases "k = d") (auto simp: nth_list_update nth_Cons' Suc_diff_Suc)
qed auto

lemma unat_of_nat8 [simp]: "n < 256 \<Longrightarrow> unat (word_of_nat n :: byte) = n"
  by (simp add: unat_of_nat)

lemma length_unpremultiply_pixel [simp]: "length (unpremultiply_pixel r g b a) = 4"
  by (simp add: unpremultiply_pixel_def)

lemma length_unpremultiply_pixels: "length (unpremultiply_pixels bs) = 4 * (length bs div 4)"
  by (induction bs rule: unpremultiply_pixels.induct) simp_all

lemma map_read0_self: "map (read0 xs) [0..<length xs] = xs"
  by (rule nth_equalityI) (simp_all add: read0_def)

lemma length_chunk_loop: "length (fst (chunk_loop w old delta img i)) = length img"
proof (induction w old delta img i rule: chunk_loop.induct)
  case (2 w old code rest img i)
  show ?case
    using "2.IH"
    by (simp add: chunk_loop.simps(2) [of w old code rest img i] Let_def split: option.splits)
qed simp

lemma length_applyDeltaChunk: "applyDeltaChunk w img delta = (img', r) \<Longrightarrow> length img' = length img"
  using length_chunk_loop [of w img delta img 0] by (simp add: applyDeltaChunk_def)

lemma length_apply_chunks: "length (apply_chunks w deltas img) = length img"
proof (induction w deltas img rule: apply_chunks.induct)
  case (1 w deltas img)
  show ?case
    using 1 length_applyDeltaChunk [of w img deltas]
    by (subst apply_chunks.simps) (auto split: prod.splits option.splits)
qed

text \<open>The decoder undoes the encoding of one operation and goes on behind it.\<close>

lemma chunk_loop_op:
  assumes "op_ok op"
  shows "chunk_loop w old (encode_op op @ rest) img i =
     chunk_loop w old rest (apply_op w old op img) (i + length (encode_op op))"
proof (cases op)
  case (CopyRow c s d)
  with assms show ?thesis
    by (simp add: chunk_loop.simps(2) nth_opt_def copy_command_def eval_nat_numeral)
next
  case (NewRun row col pixels)
  let ?n = "4 * (length pixels div 4)"
  have n: "?n = length pixels"
    using assms NewRun by simp (metis div_mult_mod_eq add.right_neutral mult.commute)
  have "map (read0 (unpremultiply_pixels pixels)) [0..<length pixels] = unpremultiply_pixels pixels"
    using map_read0_self [of "unpremultiply_pixels pixels"] by (simp add: length_unpremultiply_pixels n)
  moreover have len: "i + length (encode_op op) = i + 4 + length pixels"
    using NewRun by simp
  ultimately show ?thesis
    unfolding len using n assms NewRun
    by (simp add: chunk_loop.simps(2) nth_opt_def Let_def write_run_def mult.commute [of _ 4])
qed

lemma chunk_loop_encode:
  "list_all op_ok ops \<Longrightarrow> chunk_loop w old (encode_chunk ops @ rest) img i =
     (fold (apply_op w old) ops img, Some (i + length (encode_chunk ops)))"
proof (induction ops arbitrary: img i)
  case Nil
  then show ?case by (simp add: encode_chunk_def chunk_loop.simps(2))
next
  case (Cons op ops)
  then show ?case
    using chunk_loop_op [of op w old "encode_chunk ops @ rest" img i]
    by (simp add: encode_chunk_def)
qed

lemma applyDeltaChunk_encode:
  "list_all op_ok ops \<Longrightarrow>
   applyDeltaChunk w img (encode_chunk ops @ rest) = (apply_ops w ops img, Some (length (encode_chunk ops)))"
  by (simp add: applyDeltaChunk_def apply_ops_def chunk_loop_encode)

lemma encode_chunk_nonempty [simp]: "encode_chunk ops \<noteq> []"
  by (simp add: encode_chunk_def)

lemma apply_chunks_Nil [simp]: "apply_chunks w [] img = img"
  by (simp add: apply_chunks.simps)

lemma apply_chunks_encode_step:
  "list_all op_ok ops \<Longrightarrow>
   apply_chunks w (encode_chunk ops @ rest) img = apply_chunks w rest (apply_ops w ops img)"
  by (subst apply_chunks.simps) (simp add: applyDeltaChunk_encode)

definition encode_frames :: "delta_op list list \<Rightarrow> bytes" where
  "encode_frames frames = concat (map encode_chunk frames)"

definition frames_ok :: "delta_op list list \<Rightarrow> bool" where
  "frames_ok frames \<longleftrightarrow> list_all (list_all op_ok) frames"

lemma apply_chunks_encode_append:
  "frames_ok frames \<Longrightarrow>
   apply_chunks w (encode_frames frames @ rest) img = apply_chunks w rest (fold (apply_ops w) frames img)"
  by (induction frames arbitrary: img)
    (simp_all add: encode_frames_def frames_ok_def apply_chunks_encode_step)

lemma apply_chunks_encode:
  "frames_ok frames \<Longrightarrow> apply_chunks w (encode_frames frames) img = fold (apply_ops w) frames img"
  using apply_chunks_encode_append [of frames w "[]"] by simp

lemma apply_chunks_two_streams:
  "frames_ok fs \<Longrightarrow> apply_chunks w (encode_frames fs @ more) img =
     apply_chunks w more (apply_chunks w (encode_frames fs) img)"
  by (simp add: apply_chunks_encode_append apply_chunks_encode)

subsection \<open>Colour arithmetic\<close>

lemma ceil_div_bounds:
  assumes "0 < d"
  shows "n \<le> ceil_div n d * d" "ceil_div n d * d < n + d"
proof -
  have "(n + d - 1) div d * d + (n + d - 1) mod d = n + d - 1" by (rule div_mult_mod_eq)
  moreover have "(n + d - 1) mod d < d" using assms by simp
  ultimately show "n \<le> ceil_div n d * d" "ceil_div n d * d < n + d"
    using assms unfolding ceil_div_def by linarith+
qed

lemma ceil_div_is_ceiling: "0 < d \<Longrightarrow> int (ceil_div n d) = \<lceil>(of_nat n :: rat) / of_nat d\<rceil>"
proof -
  assume d: "0 < d"
  have "(of_nat n :: rat) \<le> of_nat (ceil_div n d * d)"
    using ceil_div_bounds(1) [OF d] by (simp only: of_nat_le_iff)
  moreover have "of_nat (ceil_div n d * d) < (of_nat (n + d) :: rat)"
    using ceil_div_bounds(2) [OF d] by (simp only: of_nat_less_iff)
  ultimately show ?thesis
    using d by (intro ceiling_unique [symmetric]) (simp_all add: field_simps)
qed

lemma ceil_div_le_255:
  assumes "0 < a" "c \<le> a"
  shows "ceil_div (c * 255) a \<le> 255"
proof (rule ccontr)
  assume "\<not> ?thesis"
  then have "256 * a \<le> ceil_div (c * 255) a * a" by (intro mult_right_mono) auto
  moreover have "ceil_div (c * 255) a * a < c * 255 + a" by (rule ceil_div_bounds(2) [OF assms(1)])
  moreover have "c * 255 + a \<le> 256 * a" using assms(2) by simp
  ultimately show False by linarith
qed

lemma unat_clamp8: "n \<le> 255 \<Longrightarrow> unat (clamp8 n) = n"
  by (simp add: clamp8_def unat_of_nat)

text \<open>Multiplying back and rounding down recovers the premultiplied channel.\<close>

lemma premultiply_ceil_div:
  assumes "0 < a" "a \<le> 255" "c \<le> a"
  shows "ceil_div (c * 255) a * a div 255 = c"
proof -
  have "c * 255 \<le> ceil_div (c * 255) a * a" "ceil_div (c * 255) a * a < c * 255 + a"
    using ceil_div_bounds [OF assms(1), of "c * 255"] by auto
  with assms(2) have "c * 255 \<le> ceil_div (c * 255) a * a" "ceil_div (c * 255) a * a < (c + 1) * 255"
    by auto
  then show ?thesis by (intro div_nat_eqI) (auto simp: mult.commute)
qed

definition premultiply :: "byte \<Rightarrow> byte \<Rightarrow> nat" where
  "premultiply c a = unat c * unat a div 255"

section \<open>Properties\<close>

text \<open>
  Converting a premultiplied pixel to plain alpha loses nothing: no channel is
  clamped, alpha is kept, and multiplying the result back gives the channels that came in.
\<close>

theorem unpremultiply_roundtrip:
  assumes "a \<noteq> 0" and "r \<le> a" and "g \<le> a" and "b \<le> a"
  shows "\<exists>r' g' b'. unpremultiply_pixel r g b a = [r', g', b', a] \<and>
     premultiply r' a = unat r \<and> premultiply g' a = unat g \<and> premultiply b' a = unat b"
proof -
  have a: "0 < unat a" "unat a \<le> 255"
    using assms(1) unsigned_less [of a, where ?'a = nat] by (auto simp: unat_gt_0)
  have full: "premultiply c 255 = unat c" for c by (simp add: premultiply_def)
  have part: "premultiply (clamp8 (ceil_div (unat c * 255) (unat a))) a = unat c" if "c \<le> a" for c
  proof -
    have c: "unat c \<le> unat a" using that by (simp add: word_le_nat_alt)
    then show ?thesis
      using a by (simp add: premultiply_def unat_clamp8 ceil_div_le_255 premultiply_ceil_div)
  qed
  show ?thesis
    using assms by (cases "a = 255") (simp_all add: unpremultiply_pixel_def full part)
qed

theorem unpremultiply_roundtrip_witness:
  "\<exists>r' g' b'. unpremultiply_pixel 10 20 100 (128::byte) = [r', g', b', 128] \<and>
     premultiply r' 128 = 10 \<and> premultiply g' 128 = 20 \<and> premultiply b' 128 = 100"
  using unpremultiply_roundtrip [of 128 10 20 100] by simp

text \<open>
  C2 (refinement). The decoder loop implements the wire format: on the encoding of any sequence
  of operations it performs exactly these operations, reading copied rows from the image as it
  was before the chunk, stops behind the terminator and reports how many bytes it used,
  whatever follows.
\<close>

theorem applyDeltaChunk_decodes:
  assumes "list_all op_ok ops"
  shows "applyDeltaChunk w img (encode_chunk ops @ rest) =
     (fold (apply_op w img) ops img, Some (length (encode_chunk ops)))"
  using applyDeltaChunk_encode [OF assms] by (simp add: apply_ops_def)

theorem applyDeltaChunk_decodes_witness:
  "applyDeltaChunk 1 [1, 2, 3, 255, 5, 6, 7, 255] ([100, 0, 0, 1, 9, 8, 7, 255, 99, 1, 0, 1, 116] @ [42]) =
     ([9, 8, 7, 255, 1, 2, 3, 255], Some 13)"
  using applyDeltaChunk_decodes [of "[NewRun 0 0 [9, 8, 7, 255], CopyRow 1 0 1]" 1
      "[1, 2, 3, 255, 5, 6, 7, 255]" "[42]"]
  by (simp add: encode_chunk_def copy_rows_def copy_row_def read0_def unpremultiply_pixel_def upt_rec)

text \<open>
  C32 (safety). Whatever the bytes are, decoding never changes the size of the image and always
  comes to an end: a chunk that is not empty uses at least one byte, or makes the decoder stop.
\<close>

theorem delta_decoding_safe:
  "length (apply_chunks w deltas img) = length img \<and>
   (deltas \<noteq> [] \<longrightarrow> (case applyDeltaChunk w img deltas of (img', r) \<Rightarrow>
      length img' = length img \<and> (case r of None \<Rightarrow> True | Some n \<Rightarrow> 0 < n)))"
  using length_apply_chunks length_applyDeltaChunk [of w img deltas] applyDeltaChunk_positive [of w img deltas]
  by (auto split: prod.splits option.splits)

theorem delta_decoding_safe_witness:
  "applyDeltaChunk 1 [1, 2, 3, 4] [100, 0, 0] = ([1, 2, 3, 4], None) \<and>
   length (apply_chunks 1 [100, 0, 0] [1, 2, 3, 4]) = 4"
  using delta_decoding_safe [of 1 "[100, 0, 0]" "[1, 2, 3, 4]"]
  by (simp add: applyDeltaChunk_def chunk_loop.simps(2) nth_opt_def)

text \<open>
  Applying two parts of a stream one after the other, as they arrive, gives the
  image of the whole stream, provided the first part consists of complete chunks.
\<close>

theorem chunks_incremental:
  assumes "frames_ok fs"
  shows "apply_chunks w (encode_frames fs @ more) img =
     apply_chunks w more (apply_chunks w (encode_frames fs) img)"
  by (rule apply_chunks_two_streams [OF assms])

theorem chunks_incremental_witness:
  "apply_chunks 1 (encode_frames [[NewRun 0 0 [9, 8, 7, 255]]] @ [99, 1, 0, 1, 116]) [1, 2, 3, 255, 5, 6, 7, 255] =
   apply_chunks 1 [99, 1, 0, 1, 116] (apply_chunks 1 (encode_frames [[NewRun 0 0 [9, 8, 7, 255]]])
      [1, 2, 3, 255, 5, 6, 7, 255])"
  using chunks_incremental [of "[[NewRun 0 0 [9, 8, 7, 255]]]"] by (simp add: frames_ok_def)

end
