(* ===== verification/Tile_Cache.thy ===== *)
theory Tile_Cache
  imports Tile_Coords Tile_Delta
begin

text \<open>
  The tile cache of \<open>L.CanvasTileLayer\<close> (layer/tile/CanvasTileLayer.js): creation, removal and
  invalidation of tiles, the canvas of a tile and its re-creation from the cached deltas,
  garbage collection, and the handler of tile messages.

  \<^item> A tile object lives in a heap and the dictionary \<open>_tiles\<close> holds addresses: a handler
    keeps its reference to a tile while garbage collection takes the tile out of \<open>_tiles\<close>.
  \<^item> A canvas is its pixel content; \<open>None\<close> is \<open>null\<close>. \<open>getContext\<close> can fail when the browser
    runs out of canvas memory, so its answers are a parameter: the \<open>n\<close>-th call succeeds iff
    \<open>env_ctx env n\<close>. \<open>fzstd.decompress\<close> is a parameter too, \<open>None\<close> where it throws.
  \<^item> \<open>ensureCanvas\<close>, \<open>_applyDelta\<close> and \<open>_ensureContext\<close> call each other; the recursion is
    bounded by fuel, and \<open>OutOfFuel\<close> is the outcome of a recursion deeper than that.
  \<^item> Effects outside the cache (map events, repaint requests, socket messages) are appended to
    the field \<open>out\<close>. The debug counters and overlays are switched off.
\<close>

named_theorems cache_defs "definitions of the cache operations"

section \<open>Tiles and the cache\<close>

record tile =
  t_coords :: tile_coords
  t_current :: bool
  t_canvas :: "bytes option"
  t_imgDataCache :: "bytes option"
  t_rawDeltas :: "bytes option"
  t_deltaCount :: nat
  t_updateCount :: nat
  t_loadCount :: nat
  t_gcErrors :: nat
  t_missingContent :: nat
  t_invalidateCount :: nat
  t_viewId :: int
  t_wireId :: int
  t_invalidFrom :: int
  t_lastRendered :: "int option"

definition hasKeyframe :: "tile \<Rightarrow> bool" where
  [cache_defs]: "hasKeyframe t \<longleftrightarrow> (case t_rawDeltas t of None \<Rightarrow> False | Some raw \<Rightarrow> length raw > 0)"

definition hasContent :: "tile \<Rightarrow> bool" where
  [cache_defs]: "hasContent t \<longleftrightarrow> t_imgDataCache t \<noteq> None \<or> hasKeyframe t"

definition needsFetch :: "tile \<Rightarrow> bool" where
  [cache_defs]: "needsFetch t \<longleftrightarrow> t_invalidFrom t \<ge> t_wireId t \<or> \<not> hasContent t"

datatype out_event =
    AllTilesLoaded
  | TilePreview int int int \<comment> \<open>id, part, mode\<close>
  | SetDirty tile_coords
  | SendMessage string
  | UiEffect string

record tile_cache =
  heap :: "tile list"
  tiles :: "(string, nat) object"
  emptyTilesCount :: int
  gcCounter :: int
  nullDeltaUpdate :: nat
  queuedProcessed :: "int list"
  fetchKeyframeQueue :: "tile_coords list"
  ctxCalls :: nat
  out :: "out_event list"

record env =
  env_ctx :: "nat \<Rightarrow> bool"
  env_decompress :: "bytes \<Rightarrow> bytes option"
  env_tileSize :: nat

definition empty_cache :: tile_cache where
  "empty_cache = \<lparr>heap = [], tiles = [], emptyTilesCount = 0, gcCounter = 0, nullDeltaUpdate = 0,
     queuedProcessed = [], fetchKeyframeQueue = [], ctxCalls = 0, out = []\<rparr>"

abbreviation tile_at :: "tile_cache \<Rightarrow> nat \<Rightarrow> tile" where
  "tile_at c a \<equiv> heap c ! a"

abbreviation tile_addr :: "tile_cache \<Rightarrow> string \<Rightarrow> nat option" where
  "tile_addr c k \<equiv> obj_get (tiles c) k"

definition upd_tile :: "nat \<Rightarrow> (tile \<Rightarrow> tile) \<Rightarrow> tile_cache \<Rightarrow> tile_cache" where
  "upd_tile a f c = c\<lparr>heap := (heap c)[a := f (heap c ! a)]\<rparr>"

definition emit :: "out_event \<Rightarrow> tile_cache \<Rightarrow> tile_cache" where
  "emit e c = c\<lparr>out := out c @ [e]\<rparr>"

section \<open>Creating, removing and invalidating tiles\<close>

definition new_tile :: "tile_coords \<Rightarrow> int \<Rightarrow> tile" where
  "new_tile coords now = \<lparr>t_coords = coords, t_current = True, t_canvas = None, t_imgDataCache = None,
     t_rawDeltas = None, t_deltaCount = 0, t_updateCount = 0, t_loadCount = 0, t_gcErrors = 0,
     t_missingContent = 0, t_invalidateCount = 0, t_viewId = 0, t_wireId = 0, t_invalidFrom = 0,
     t_lastRendered = Some now\<rparr>"

definition createTile :: "tile_coords \<Rightarrow> string \<Rightarrow> int \<Rightarrow> tile_cache \<Rightarrow> nat \<times> tile_cache" where
  [cache_defs]: "createTile coords key now c =
     (case tile_addr c key of
        Some a \<Rightarrow> (a, c)
      | None \<Rightarrow>
          (length (heap c),
           c\<lparr>heap := heap c @ [new_tile coords now],
             emptyTilesCount := emptyTilesCount c + 1,
             tiles := obj_set key (length (heap c)) (tiles c)\<rparr>))"

definition tileNeedsFetch :: "string \<Rightarrow> tile_cache \<Rightarrow> bool" where
  [cache_defs]: "tileNeedsFetch key c \<longleftrightarrow>
     (case tile_addr c key of None \<Rightarrow> True | Some a \<Rightarrow> needsFetch (tile_at c a))"

definition reclaim_tile :: "tile \<Rightarrow> tile" where
  [cache_defs]: "reclaim_tile t = t\<lparr>t_canvas := None, t_imgDataCache := None\<rparr>"

definition reclaimTileCanvasMemory :: "nat \<Rightarrow> tile_cache \<Rightarrow> tile_cache" where
  [cache_defs]: "reclaimTileCanvasMemory a = upd_tile a reclaim_tile"

definition removeTile :: "string \<Rightarrow> tile_cache \<Rightarrow> tile_cache" where
  [cache_defs]: "removeTile key c =
     (case tile_addr c key of
        None \<Rightarrow> c
      | Some a \<Rightarrow>
          (let c1 = (if \<not> hasContent (tile_at c a) \<and> emptyTilesCount c > 0
                     then c\<lparr>emptyTilesCount := emptyTilesCount c - 1\<rparr> else c);
               c2 = reclaimTileCanvasMemory a c1
           in c2\<lparr>tiles := obj_del key (tiles c2)\<rparr>))"

definition removeAllTiles :: "tile_cache \<Rightarrow> tile_cache" where
  [cache_defs]: "removeAllTiles c = fold removeTile (obj_keys (tiles c)) c"

text \<open>A missing wire id is 0, which counts as absent.\<close>

definition invalidateTile :: "string \<Rightarrow> int \<Rightarrow> tile_cache \<Rightarrow> tile_cache" where
  [cache_defs]: "invalidateTile key wireId c =
     (case tile_addr c key of
        None \<Rightarrow> c
      | Some a \<Rightarrow>
          (let c1 = upd_tile a (\<lambda>t. t\<lparr>t_invalidateCount := t_invalidateCount t + 1\<rparr>) c
           in if \<not> hasContent (tile_at c1 a) then removeTile key c1
              else if wireId \<noteq> 0 then upd_tile a (\<lambda>t. t\<lparr>t_invalidFrom := wireId\<rparr>) c1
              else upd_tile a (\<lambda>t. t\<lparr>t_invalidFrom := t_wireId t\<rparr>) c1))"

section \<open>Garbage collection\<close>

definition highNumCanvases :: nat where "highNumCanvases = 250"
definition lowNumCanvases :: nat where "lowNumCanvases = 125"
definition highDeltaMemory :: int where "highDeltaMemory = 120 * 1024 * 1024"
definition lowDeltaMemory :: int where "lowDeltaMemory = 60 * 1024 * 1024"
definition highTileCount :: nat where "highTileCount = 2 * 1024"
definition lowTileCount :: nat where "lowTileCount = 1024"

text \<open>
  \<open>Array.sort\<close> with a comparator is stable; a comparator's \<open>NaN\<close> counts as 0.
\<close>

fun js_insort :: "('a \<Rightarrow> 'a \<Rightarrow> int) \<Rightarrow> 'a \<Rightarrow> 'a list \<Rightarrow> 'a list" where
  "js_insort cmp x [] = [x]"
| "js_insort cmp x (y # ys) = (if cmp x y \<le> 0 then x # y # ys else y # js_insort cmp x ys)"

definition js_sort :: "('a \<Rightarrow> 'a \<Rightarrow> int) \<Rightarrow> 'a list \<Rightarrow> 'a list" where
  "js_sort cmp xs = foldr (js_insort cmp) xs []"

text \<open>
  The comparator of \<open>_garbageCollect\<close> subtracts the property \<open>lastRendered\<close> of its two
  arguments. These are the keys of the dictionary, so strings, which have no such property:
  the difference of two \<open>undefined\<close> is \<open>NaN\<close>.
\<close>

definition gc_compare :: "string \<Rightarrow> string \<Rightarrow> int" where
  "gc_compare a b = 0"

definition gc_keys :: "tile_cache \<Rightarrow> string list" where
  "gc_keys c = js_sort gc_compare (obj_keys (tiles c))"

definition raw_size :: "tile \<Rightarrow> int" where
  "raw_size t = (case t_rawDeltas t of None \<Rightarrow> 0 | Some raw \<Rightarrow> int (length raw))"

definition key_tile :: "tile_cache \<Rightarrow> string \<Rightarrow> tile" where
  "key_tile c k = tile_at c (the (tile_addr c k))"

definition reclaim_key :: "string \<Rightarrow> tile_cache \<Rightarrow> tile_cache" where
  "reclaim_key k c = (case tile_addr c k of None \<Rightarrow> c | Some a \<Rightarrow> reclaimTileCanvasMemory a c)"

definition gc_trim_canvases :: "string list \<Rightarrow> tile_cache \<Rightarrow> tile_cache" where
  [cache_defs]: "gc_trim_canvases canvasKeys c =
     (if length canvasKeys > highNumCanvases
      then fold reclaim_key (take (length canvasKeys - lowNumCanvases) canvasKeys) c else c)"

text \<open>A tile whose deltas are dropped asks for a keyframe next.\<close>

definition drop_deltas :: "tile \<Rightarrow> tile" where
  [cache_defs]: "drop_deltas t = (reclaim_tile t)\<lparr>t_rawDeltas := None, t_wireId := 0, t_invalidFrom := 0\<rparr>"

fun gc_trim_memory :: "string list \<Rightarrow> int \<Rightarrow> tile_cache \<Rightarrow> tile_cache" where
  "gc_trim_memory [] totalSize c = c"
| "gc_trim_memory (k # ks) totalSize c =
     (if totalSize > lowDeltaMemory then
        (let t = key_tile c k in
         if t_rawDeltas t \<noteq> None \<and> \<not> t_current t
         then gc_trim_memory ks (totalSize - raw_size t) (upd_tile (the (tile_addr c k)) drop_deltas c)
         else gc_trim_memory ks totalSize c)
      else c)"

definition gc_remove :: "string \<Rightarrow> tile_cache \<Rightarrow> tile_cache" where
  "gc_remove k c = (if \<not> t_current (key_tile c k) then removeTile k c else c)"

definition garbageCollect :: "tile_cache \<Rightarrow> tile_cache" where
  [cache_defs]: "garbageCollect c =
     (let keys = gc_keys c;
          canvasKeys = filter (\<lambda>k. t_canvas (key_tile c k) \<noteq> None) keys;
          totalSize = sum_list (map (\<lambda>k. raw_size (key_tile c k)) keys);
          c1 = gc_trim_canvases canvasKeys c;
          c2 = (if totalSize > highDeltaMemory then gc_trim_memory keys totalSize c1 else c1)
      in if length keys > highTileCount
         then fold gc_remove (take (length keys - lowTileCount) keys) c2 else c2)"

definition maybeGarbageCollect :: "tile_cache \<Rightarrow> tile_cache" where
  [cache_defs]: "maybeGarbageCollect c =
     (let c1 = c\<lparr>gcCounter := gcCounter c + 1\<rparr>
      in if gcCounter c1 mod 53 = 0 then garbageCollect c1 else c1)"

section \<open>Canvases and deltas\<close>

datatype 'a outcome = Done 'a tile_cache | Thrown js_error tile_cache | OutOfFuel

fun obind :: "'a outcome \<Rightarrow> ('a \<Rightarrow> tile_cache \<Rightarrow> 'b outcome) \<Rightarrow> 'b outcome" where
  "obind (Done x c) f = f x c"
| "obind (Thrown e c) f = Thrown e c"
| "obind OutOfFuel f = OutOfFuel"

definition getContext :: "env \<Rightarrow> tile_cache \<Rightarrow> bool \<times> tile_cache" where
  "getContext env c = (env_ctx env (ctxCalls c), c\<lparr>ctxCalls := ctxCalls c + 1\<rparr>)"

definition blank_canvas :: "env \<Rightarrow> bytes" where
  "blank_canvas env = replicate (env_tileSize env * env_tileSize env * 4) 0"

definition rendered :: "int option \<Rightarrow> tile \<Rightarrow> tile" where
  [cache_defs]: "rendered now t =
     (let t1 = t\<lparr>t_lastRendered := now\<rparr>
      in if \<not> hasContent t1 then t1\<lparr>t_missingContent := t_missingContent t1 + 1\<rparr> else t1)"

definition reclaim_where :: "(tile \<Rightarrow> bool) \<Rightarrow> tile_cache \<Rightarrow> tile_cache" where
  [cache_defs]: "reclaim_where p c =
     fold (\<lambda>k c. if p (key_tile c k) then reclaim_key k c else c) (obj_keys (tiles c)) c"

text \<open>
  The part of \<open>_applyDelta\<close> after the context is there: counters, storing the compressed data,
  decoding. The image is decoded from the data that came in, not from all of the stored data.
\<close>

definition count_wire :: "bool \<Rightarrow> tile \<Rightarrow> tile" where
  [cache_defs]: "count_wire isKeyframe t =
     (if isKeyframe then t\<lparr>t_loadCount := t_loadCount t + 1, t_deltaCount := 0, t_updateCount := 0\<rparr>
      else t\<lparr>t_deltaCount := t_deltaCount t + 1\<rparr>)"

definition store_raw :: "bytes \<Rightarrow> bool \<Rightarrow> tile \<Rightarrow> tile option" where
  [cache_defs]: "store_raw raw isKeyframe t =
     (if isKeyframe then Some (t\<lparr>t_rawDeltas := Some raw\<rparr>)
      else (case t_rawDeltas t of
              None \<Rightarrow> None
            | Some old \<Rightarrow> Some (t\<lparr>t_rawDeltas := Some (old @ raw)\<rparr>)))"

definition paint :: "env \<Rightarrow> bytes \<Rightarrow> bool \<Rightarrow> tile \<Rightarrow> js_error + tile" where
  [cache_defs]: "paint env raw isKeyframe t =
     (case t_canvas t of
        None \<Rightarrow> Inr t
      | Some content \<Rightarrow>
          (case env_decompress env raw of
             None \<Rightarrow> Inl DecompressError
           | Some allDeltas \<Rightarrow>
               (let base = (case t_imgDataCache t of Some d \<Rightarrow> d | None \<Rightarrow> content) in
                if \<not> isKeyframe \<and> allDeltas = [] then Inr t
                else (case decode_stream (env_tileSize env) (env_tileSize env) isKeyframe allDeltas base of
                        Inl e \<Rightarrow> Inl e
                      | Inr img \<Rightarrow> Inr (t\<lparr>t_imgDataCache := Some img, t_canvas := Some img\<rparr>)))))"

definition apply_with_ctx :: "env \<Rightarrow> nat \<Rightarrow> bytes \<Rightarrow> bool \<Rightarrow> bool \<Rightarrow> tile_cache \<Rightarrow> unit outcome" where
  [cache_defs]: "apply_with_ctx env a raw isKeyframe wireMessage c =
     (if wireMessage \<and> \<not> isKeyframe \<and> raw = [] then
        Done () ((upd_tile a (\<lambda>t. t\<lparr>t_updateCount := t_updateCount t + 1\<rparr>) c)
          \<lparr>nullDeltaUpdate := nullDeltaUpdate c + 1\<rparr>)
      else
        (let c1 = (if wireMessage then upd_tile a (count_wire isKeyframe) c else c) in
         case store_raw raw isKeyframe (tile_at c1 a) of
           None \<Rightarrow> Done () c1
         | Some t \<Rightarrow>
             (let c2 = upd_tile a (\<lambda>_. t) c1 in
              case paint env raw isKeyframe t of
                Inl e \<Rightarrow> Thrown e c2
              | Inr t' \<Rightarrow> Done () (upd_tile a (\<lambda>_. t') c2))))"

text \<open>
  One attempt of \<open>_ensureContext\<close>: make sure of a canvas, ask it for its context, and on failure
  go on with the next attempt. The attempts differ in how much memory is freed before.
\<close>

definition with_context :: "env \<Rightarrow> (tile_cache \<Rightarrow> unit outcome) \<Rightarrow> tile_cache \<Rightarrow>
    (tile_cache \<Rightarrow> bool outcome) \<Rightarrow> bool outcome" where
  [cache_defs]: "with_context env ens c otherwise =
     obind (ens c) (\<lambda>_ c1. let (ctx, c2) = getContext env c1 in if ctx then Done True c2 else otherwise c2)"

fun ensureCanvas :: "env \<Rightarrow> nat \<Rightarrow> nat \<Rightarrow> int option \<Rightarrow> tile_cache \<Rightarrow> unit outcome"
  and applyDelta :: "env \<Rightarrow> nat \<Rightarrow> nat \<Rightarrow> bytes \<Rightarrow> bool \<Rightarrow> bool \<Rightarrow> tile_cache \<Rightarrow> unit outcome"
  and ensureContext :: "env \<Rightarrow> nat \<Rightarrow> nat \<Rightarrow> tile_cache \<Rightarrow> bool outcome"
where
  "ensureCanvas env 0 a now c = OutOfFuel"
| "ensureCanvas env (Suc n) a now c =
     (if t_canvas (tile_at c a) = None then
        (let c1 = upd_tile a (\<lambda>t. t\<lparr>t_canvas := Some (blank_canvas env)\<rparr>) c in
         if hasKeyframe (tile_at c1 a) then
           obind (applyDelta env n a (the (t_rawDeltas (tile_at c1 a))) True False c1)
             (\<lambda>_ c2. Done () (upd_tile a (rendered now) c2))
         else Done () (upd_tile a (rendered now) c1))
      else Done () (upd_tile a (rendered now) c))"
| "applyDelta env 0 a raw isKeyframe wireMessage c = OutOfFuel"
| "applyDelta env (Suc n) a raw isKeyframe wireMessage c =
     obind (ensureContext env n a c)
       (\<lambda>ctx c1. if \<not> ctx then Done () c1 else apply_with_ctx env a raw isKeyframe wireMessage c1)"
| "ensureContext env 0 a c = OutOfFuel"
| "ensureContext env (Suc n) a c =
     (let ens = (\<lambda>c. if t_canvas (tile_at c a) = None then ensureCanvas env n a None c else Done () c) in
      with_context env ens (maybeGarbageCollect c) (\<lambda>c.
      with_context env ens (garbageCollect c) (\<lambda>c.
      with_context env ens (reclaim_where (\<lambda>t. \<not> t_current t) c) (\<lambda>c.
      with_context env ens (reclaim_where (\<lambda>t. True) c) (\<lambda>c. Done False c)))))"

section \<open>Tile messages\<close>

record tile_msg = tile_msg_pos +
  tm_id :: "int option"
  tm_wireId :: int
  tm_nviewid :: int

record tile_img =
  img_isKeyframe :: bool
  img_rawData :: bytes

definition queueAcknowledgement :: "tile_msg \<Rightarrow> tile_cache \<Rightarrow> tile_cache" where
  [cache_defs]: "queueAcknowledgement m c = c\<lparr>queuedProcessed := queuedProcessed c @ [tm_wireId m]\<rparr>"

text \<open>\<open>visible\<close> is \<open>_painter.coordsIntersectVisible\<close>.\<close>

definition tileReady :: "(tile_coords \<Rightarrow> bool) \<Rightarrow> tile_coords \<Rightarrow> int \<Rightarrow> tile_cache \<Rightarrow> tile_cache" where
  [cache_defs]: "tileReady visible coords now c =
     (case tile_addr c (tc_key coords) of
        None \<Rightarrow> c
      | Some a \<Rightarrow>
          (let changed = emptyTilesCount c > 0;
               c1 = (if changed then c\<lparr>emptyTilesCount := emptyTilesCount c - 1\<rparr> else c);
               c2 = (if changed \<and> emptyTilesCount c1 = 0 then emit AllTilesLoaded c1 else c1);
               c3 = upd_tile a (\<lambda>t. t\<lparr>t_lastRendered := Some now\<rparr>) c2
           in if visible coords then emit (SetDirty coords) c3 else c3))"

text \<open>
  A delta for a tile without a keyframe (collected here while the server still believes we have
  it) is not applied: the tile is marked for a keyframe and its coordinates are queued.
\<close>

definition onTileMsg :: "env \<Rightarrow> nat \<Rightarrow> layer_geom \<Rightarrow> (tile_coords \<Rightarrow> bool) \<Rightarrow> int \<Rightarrow> tile_msg \<Rightarrow>
    tile_img option \<Rightarrow> tile_cache \<Rightarrow> unit outcome" where
  [cache_defs]: "onTileMsg env fuel g visible now m img c =
     (case tm_id m of
        Some i \<Rightarrow>
          Done () (queueAcknowledgement m
            (emit (TilePreview i (tm_part m) (case tm_mode m of Some mo \<Rightarrow> mo | None \<Rightarrow> 0)) c))
      | None \<Rightarrow>
          (let coords = tileMsgToCoords g (tile_msg_pos.truncate m);
               key = tc_key coords;
               (a, c1) = createTile coords key now c;
               c2 = upd_tile a (\<lambda>t. t\<lparr>t_viewId := tm_nviewid m, t_wireId := tm_wireId m\<rparr>) c1;
               rogue = (case img of Some i \<Rightarrow> \<not> img_isKeyframe i \<and> \<not> hasKeyframe (tile_at c2 a) | None \<Rightarrow> False);
               c3 = (if rogue
                     then (upd_tile a (\<lambda>t. t\<lparr>t_wireId := 0, t_invalidFrom := 0,
                             t_gcErrors := t_gcErrors t + 1\<rparr>) c2)
                            \<lparr>fetchKeyframeQueue := fetchKeyframeQueue c2 @ [coords]\<rparr>
                     else c2)
           in case img of
                Some i \<Rightarrow>
                  (if rogue then Done () (queueAcknowledgement m c3)
                   else obind (applyDelta env fuel a (img_rawData i) (img_isKeyframe i) True c3)
                          (\<lambda>_ c4. Done () (queueAcknowledgement m (tileReady visible coords now c4))))
              | None \<Rightarrow> Done () (queueAcknowledgement m c3)))"

section \<open>Well-formed caches\<close>

text \<open>
  The dictionary has no key twice, every address in it is allocated, and a tile is filed under
  the key of its coordinates; the count of empty tiles is never negative.
\<close>

definition cache_ok :: "tile_cache \<Rightarrow> bool" where
  "cache_ok c \<longleftrightarrow> obj_ok (tiles c) \<and> 0 \<le> emptyTilesCount c \<and>
     (\<forall>k a. tile_addr c k = Some a \<longrightarrow> a < length (heap c) \<and> tc_key (t_coords (tile_at c a)) = k)"

lemma cache_okD:
  assumes "cache_ok c"
  shows "obj_ok (tiles c)" "0 \<le> emptyTilesCount c"
    "tile_addr c k = Some a \<Longrightarrow> a < length (heap c)"
    "tile_addr c k = Some a \<Longrightarrow> tc_key (t_coords (tile_at c a)) = k"
  using assms by (auto simp: cache_ok_def)

text \<open>Two keys never share a tile object.\<close>

lemma tile_addr_inj: "cache_ok c \<Longrightarrow> tile_addr c k = Some a \<Longrightarrow> tile_addr c l = Some a \<Longrightarrow> k = l"
  by (metis cache_okD(4))

lemma cache_ok_empty [simp]: "cache_ok empty_cache"
  by (simp add: cache_ok_def empty_cache_def)

lemma upd_tile_simps [simp]:
  "tiles (upd_tile a f c) = tiles c" "emptyTilesCount (upd_tile a f c) = emptyTilesCount c"
  "gcCounter (upd_tile a f c) = gcCounter c" "ctxCalls (upd_tile a f c) = ctxCalls c"
  "out (upd_tile a f c) = out c" "queuedProcessed (upd_tile a f c) = queuedProcessed c"
  "fetchKeyframeQueue (upd_tile a f c) = fetchKeyframeQueue c"
  "length (heap (upd_tile a f c)) = length (heap c)"
  by (simp_all add: upd_tile_def)

lemma tile_at_upd:
  "b < length (heap c) \<Longrightarrow> tile_at (upd_tile a f c) b = (if a = b then f (tile_at c b) else tile_at c b)"
  by (simp add: upd_tile_def)

lemma tile_at_upd_ne: "a \<noteq> b \<Longrightarrow> tile_at (upd_tile a f c) b = tile_at c b"
  by (simp add: upd_tile_def)

lemma cache_ok_upd:
  "(\<And>t. t_coords (f t) = t_coords t) \<Longrightarrow> cache_ok c \<Longrightarrow> cache_ok (upd_tile a f c)"
  by (auto simp: cache_ok_def tile_at_upd)

lemma emit_simps [simp]:
  "tiles (emit e c) = tiles c" "heap (emit e c) = heap c" "emptyTilesCount (emit e c) = emptyTilesCount c"
  by (simp_all add: emit_def)

lemma createTile_ok:
  assumes "cache_ok c" "createTile coords (tc_key coords) now c = (a, c')"
  shows "cache_ok c' \<and> tile_addr c' (tc_key coords) = Some a \<and> t_coords (tile_at c' a) = coords"
proof (cases "tile_addr c (tc_key coords)")
  case None
  then have c': "a = length (heap c)" "heap c' = heap c @ [new_tile coords now]"
    "tiles c' = obj_set (tc_key coords) (length (heap c)) (tiles c)"
    "emptyTilesCount c' = emptyTilesCount c + 1"
    using assms(2) by (auto simp: createTile_def)
  have "k' \<noteq> tc_key coords \<Longrightarrow> tile_addr c k' = Some a' \<Longrightarrow> a' < length (heap c)" for k' a'
    using assms(1) by (simp add: cache_okD)
  then show ?thesis
    using assms(1) by (auto simp: cache_ok_def c' nth_append new_tile_def less_Suc_eq)
next
  case (Some b)
  then show ?thesis
    using assms cache_okD(4) [OF assms(1) Some] by (auto simp: createTile_def)
qed

section \<open>Operations that only lose tiles\<close>

text \<open>
  Garbage collection, the canvas functions and removal neither allocate nor rename tiles. Such
  predicates of the state are closed under them once they are closed under the primitive
  updates; the interface collects these obligations.
\<close>

definition outcome_all :: "(tile_cache \<Rightarrow> bool) \<Rightarrow> 'a outcome \<Rightarrow> bool" where
  "outcome_all I r \<longleftrightarrow> (case r of Done x c \<Rightarrow> I c | Thrown e c \<Rightarrow> I c | OutOfFuel \<Rightarrow> True)"

lemma outcome_all_simps [simp]:
  "outcome_all I (Done x c) = I c" "outcome_all I (Thrown e c) = I c" "outcome_all I OutOfFuel"
  by (simp_all add: outcome_all_def)

lemma outcome_all_obind:
  "outcome_all I r \<Longrightarrow> (\<And>x c. I c \<Longrightarrow> outcome_all J (f x c)) \<Longrightarrow> (\<And>c. I c \<Longrightarrow> J c) \<Longrightarrow> outcome_all J (obind r f)"
  by (cases r) auto

locale gc_closed =
  fixes I :: "tile_cache \<Rightarrow> bool"
  assumes I_reclaim: "I c \<Longrightarrow> I (upd_tile a reclaim_tile c)"
    and I_drop: "I c \<Longrightarrow> I (upd_tile a drop_deltas c)"
    and I_remove: "I c \<Longrightarrow> I (removeTile k c)"
begin

lemma fold_closed: "(\<And>k c. I c \<Longrightarrow> I (f k c)) \<Longrightarrow> I c \<Longrightarrow> I (fold f ks c)"
  by (induction ks arbitrary: c) auto

lemma reclaim_closed: "I c \<Longrightarrow> I (reclaim_key k c)"
  by (auto simp: reclaim_key_def reclaimTileCanvasMemory_def intro: I_reclaim split: option.split)

lemma trim_memory_closed: "I c \<Longrightarrow> I (gc_trim_memory ks n c)"
  by (induction ks n c rule: gc_trim_memory.induct) (auto simp: Let_def I_drop)

lemma garbageCollect_closed: "I c \<Longrightarrow> I (garbageCollect c)"
  by (auto simp: garbageCollect_def Let_def gc_trim_canvases_def gc_remove_def
      intro!: fold_closed trim_memory_closed reclaim_closed I_remove)

lemma reclaim_where_closed: "I c \<Longrightarrow> I (reclaim_where p c)"
  by (auto simp: reclaim_where_def intro!: fold_closed reclaim_closed)

end

text \<open>
  The canvas functions leave the identity of a tile and its place in the protocol alone; only
  garbage collection can touch them.
\<close>

definition same_meta :: "tile \<Rightarrow> tile \<Rightarrow> bool" where
  "same_meta t t' \<longleftrightarrow> t_coords t' = t_coords t \<and> t_current t' = t_current t \<and>
     t_wireId t' = t_wireId t \<and> t_invalidFrom t' = t_invalidFrom t"

lemma same_meta_trans: "same_meta t t1 \<Longrightarrow> same_meta t1 t2 \<Longrightarrow> same_meta t t2"
  by (simp add: same_meta_def)

locale canvas_closed =
  fixes I :: "tile_cache \<Rightarrow> bool"
  assumes I_meta: "(\<And>t. same_meta t (f t)) \<Longrightarrow> I c \<Longrightarrow> I (upd_tile a f c)"
    and I_collect: "I c \<Longrightarrow> I (garbageCollect c)"
    and I_gcCounter: "I c \<Longrightarrow> I (c\<lparr>gcCounter := n\<rparr>)"
    and I_ctxCalls: "I c \<Longrightarrow> I (c\<lparr>ctxCalls := m\<rparr>)"
    and I_nullDelta: "I c \<Longrightarrow> I (c\<lparr>nullDeltaUpdate := m\<rparr>)"
begin

lemma reclaim_where_kept: "I c \<Longrightarrow> I (reclaim_where p c)"
proof -
  have step: "I (if p (key_tile c k) then reclaim_key k c else c)" if "I c" for k c
    using that by (auto simp: reclaim_key_def reclaimTileCanvasMemory_def reclaim_tile_def same_meta_def
        intro!: I_meta split: option.split)
  have "I c \<Longrightarrow> I (fold (\<lambda>k c. if p (key_tile c k) then reclaim_key k c else c) ks c)" for ks
    by (induction ks arbitrary: c) (use step in simp_all)
  then show "I c \<Longrightarrow> I (reclaim_where p c)" by (simp add: reclaim_where_def)
qed

lemma maybeGarbageCollect_closed: "I c \<Longrightarrow> I (maybeGarbageCollect c)"
  by (auto simp: maybeGarbageCollect_def Let_def intro: I_collect I_gcCounter)

lemma getContext_closed: "I c \<Longrightarrow> getContext env c = (ok, c') \<Longrightarrow> I c'"
  by (auto simp: getContext_def intro: I_ctxCalls)

lemma paint_meta: "paint env raw isK t = Inr t' \<Longrightarrow> same_meta t t'"
  by (auto simp: paint_def Let_def same_meta_def split: option.splits sum.splits if_splits)

lemma store_meta: "store_raw raw isK t = Some t' \<Longrightarrow> same_meta t t'"
  by (auto simp: store_raw_def same_meta_def split: option.splits if_splits)

lemma I_set: "same_meta (tile_at c a) t \<Longrightarrow> I c \<Longrightarrow> I (upd_tile a (\<lambda>_. t) c)"
  using I_meta [of "\<lambda>s. if same_meta s t then t else s" c a]
  by (simp add: upd_tile_def same_meta_def split: if_splits)

lemma apply_with_ctx_closed:
  assumes "I c"
  shows "outcome_all I (apply_with_ctx env a raw isK wire c)"
proof (cases "wire \<and> \<not> isK \<and> raw = []")
  case True
  have "I (upd_tile a (\<lambda>t. t\<lparr>t_updateCount := t_updateCount t + 1\<rparr>) c)"
    using assms by (rule I_meta [rotated]) (simp add: same_meta_def)
  then show ?thesis
    using True by (auto simp: apply_with_ctx_def intro: I_nullDelta)
next
  case False
  define c1 where "c1 = (if wire then upd_tile a (count_wire isK) c else c)"
  have c1: "I c1"
    using assms by (auto simp: c1_def count_wire_def same_meta_def intro!: I_meta)
  show ?thesis
  proof (cases "store_raw raw isK (tile_at c1 a)")
    case None
    then show ?thesis
      using False c1 unfolding apply_with_ctx_def Let_def c1_def [symmetric] by auto
  next
    case (Some t)
    have c2: "I (upd_tile a (\<lambda>_. t) c1)" by (rule I_set [OF store_meta [OF Some] c1])
    have c3: "I (upd_tile a (\<lambda>_. t') (upd_tile a (\<lambda>_. t) c1))" if "paint env raw isK t = Inr t'" for t'
    proof (cases "a < length (heap c1)")
      case True
      have "same_meta (tile_at (upd_tile a (\<lambda>_. t) c1) a) t'"
        using True paint_meta [OF that] by (simp add: tile_at_upd)
      then show ?thesis using c2 by (rule I_set)
    next
      case False
      then have "upd_tile a (\<lambda>_. t') (upd_tile a (\<lambda>_. t) c1) = upd_tile a (\<lambda>_. t) c1"
        by (simp add: upd_tile_def list_update_beyond)
      then show ?thesis using c2 by simp
    qed
    have "apply_with_ctx env a raw isK wire c =
        (case paint env raw isK t of
           Inl e \<Rightarrow> Thrown e (upd_tile a (\<lambda>_. t) c1)
         | Inr t' \<Rightarrow> Done () (upd_tile a (\<lambda>_. t') (upd_tile a (\<lambda>_. t) c1)))"
      using False Some unfolding apply_with_ctx_def Let_def c1_def [symmetric] by auto
    then show ?thesis
      using c2 c3 by (cases "paint env raw isK t") auto
  qed
qed

lemma rendered_closed: "I c \<Longrightarrow> I (upd_tile a (rendered now) c)"
  by (rule I_meta) (simp_all add: rendered_def Let_def same_meta_def)

lemma with_context_closed:
  assumes "I c" "\<And>c. I c \<Longrightarrow> outcome_all I (ens c)" "\<And>c. I c \<Longrightarrow> outcome_all I (otherwise c)"
  shows "outcome_all I (with_context env ens c otherwise)"
  unfolding with_context_def
proof (rule outcome_all_obind [of I])
  fix x c1
  assume "I c1"
  then have "I (snd (getContext env c1))" by (simp add: getContext_def I_ctxCalls)
  with assms(3) show "outcome_all I (let (ctx, c2) = getContext env c1 in if ctx then Done True c2 else otherwise c2)"
    by (simp add: split_beta)
qed (use assms in auto)

lemma canvas_functions_closed:
  "I c \<Longrightarrow> outcome_all I (ensureCanvas env n a now c)"
  "I c \<Longrightarrow> outcome_all I (applyDelta env n a raw isK wire c)"
  "I c \<Longrightarrow> outcome_all I (ensureContext env n a c)"
proof (induction env n a now c and env n a raw isK wire c and env n a c
    rule: ensureCanvas_applyDelta_ensureContext.induct)
  case (2 env n a now c)
  have "I (upd_tile a (\<lambda>t. t\<lparr>t_canvas := Some (blank_canvas env)\<rparr>) c)"
    using 2(2) by (rule I_meta [rotated]) (simp add: same_meta_def)
  with 2 show ?case
    by (auto simp: Let_def intro!: outcome_all_obind [of I] rendered_closed)
next
  case (4 env n a raw isK wire c)
  then show ?case
    by (auto intro!: outcome_all_obind [of I] apply_with_ctx_closed)
next
  case (6 env n a c)
  have ens: "outcome_all I (if t_canvas (tile_at c a) = None then ensureCanvas env n a None c else Done () c)"
    if "I c" for c
    using 6(1) that by simp
  show ?case
    unfolding ensureContext.simps Let_def
    by (intro with_context_closed maybeGarbageCollect_closed I_collect reclaim_where_kept ens 6)
      simp_all
qed simp_all

end

locale cache_closed =
  fixes I :: "tile_cache \<Rightarrow> bool"
  assumes I_upd: "(\<And>t. t_coords (f t) = t_coords t) \<Longrightarrow> I c \<Longrightarrow> I (upd_tile a f c)"
    and I_removeTile: "I c \<Longrightarrow> I (removeTile k c)"
    and I_set_gcCounter: "I c \<Longrightarrow> I (c\<lparr>gcCounter := n\<rparr>)"
    and I_set_ctxCalls: "I c \<Longrightarrow> I (c\<lparr>ctxCalls := m\<rparr>)"
    and I_set_nullDelta: "I c \<Longrightarrow> I (c\<lparr>nullDeltaUpdate := m\<rparr>)"

sublocale cache_closed \<subseteq> gc_closed I
  by unfold_locales
    (auto intro!: I_upd intro: I_removeTile simp: reclaim_tile_def drop_deltas_def)

sublocale cache_closed \<subseteq> canvas_closed I
  by unfold_locales
    (auto intro!: I_upd intro: garbageCollect_closed I_set_gcCounter I_set_ctxCalls I_set_nullDelta
      simp: same_meta_def)

lemma removeTile_simps [simp]:
  "heap (removeTile k c) = (case tile_addr c k of None \<Rightarrow> heap c | Some a \<Rightarrow> (heap c)[a := reclaim_tile (tile_at c a)])"
  "tiles (removeTile k c) = obj_del k (tiles c)"
proof -
  have "k \<notin> set (obj_keys (tiles c)) \<Longrightarrow> obj_del k (tiles c) = tiles c"
    by (force simp: obj_del_def filter_id_conv)
  then show "tiles (removeTile k c) = obj_del k (tiles c)"
    using map_of_eq_None_iff [of "tiles c" k]
    by (auto simp: removeTile_def reclaimTileCanvasMemory_def Let_def split: option.split)
qed (auto simp: removeTile_def reclaimTileCanvasMemory_def upd_tile_def Let_def split: option.split)

lemma emptyTilesCount_removeTile:
  "0 \<le> emptyTilesCount c \<Longrightarrow> 0 \<le> emptyTilesCount (removeTile k c)"
  by (auto simp: removeTile_def reclaimTileCanvasMemory_def Let_def split: option.split)

lemma cache_ok_removeTile: "cache_ok c \<Longrightarrow> cache_ok (removeTile k c)"
  by (auto simp: cache_ok_def emptyTilesCount_removeTile nth_list_update reclaim_tile_def obj_ok_del
      split: option.splits if_splits)

lemma cache_ok_counters [simp]:
  "cache_ok (c\<lparr>gcCounter := n\<rparr>) = cache_ok c" "cache_ok (c\<lparr>ctxCalls := m\<rparr>) = cache_ok c"
  "cache_ok (c\<lparr>nullDeltaUpdate := m\<rparr>) = cache_ok c"
  by (simp_all add: cache_ok_def)

interpretation wf: cache_closed cache_ok
  by unfold_locales (simp_all add: cache_ok_upd cache_ok_removeTile)

lemma cache_ok_tileReady: "cache_ok c \<Longrightarrow> cache_ok (tileReady visible coords now c)"
  by (auto simp: tileReady_def Let_def cache_ok_def tile_at_upd split: option.split)

lemma cache_ok_invalidate: "cache_ok c \<Longrightarrow> cache_ok (invalidateTile k w c)"
  by (auto simp: invalidateTile_def Let_def intro!: cache_ok_upd cache_ok_removeTile split: option.split)

lemma cache_ok_queueAck [simp]: "cache_ok (queueAcknowledgement m c) = cache_ok c"
  by (simp add: queueAcknowledgement_def cache_ok_def)

lemma cache_ok_fetchQueue [simp]: "cache_ok (c\<lparr>fetchKeyframeQueue := q\<rparr>) = cache_ok c"
  by (simp add: cache_ok_def)

lemma cache_ok_emit [simp]: "cache_ok (emit e c) = cache_ok c"
  by (simp add: emit_def cache_ok_def)

lemma cache_ok_onTileMsg:
  assumes "cache_ok c"
  shows "outcome_all cache_ok (onTileMsg env fuel g visible now m img c)"
proof (cases "tm_id m")
  case None
  define coords where "coords = tileMsgToCoords g (tile_msg_pos.truncate m)"
  obtain a c1 where cr: "createTile coords (tc_key coords) now c = (a, c1)" by fastforce
  define c2 where "c2 = upd_tile a (\<lambda>t. t\<lparr>t_viewId := tm_nviewid m, t_wireId := tm_wireId m\<rparr>) c1"
  have "cache_ok c1" using createTile_ok [OF assms cr] by simp
  then have c2: "cache_ok c2" unfolding c2_def by (rule cache_ok_upd [rotated]) simp
  have c3: "cache_ok (upd_tile a (\<lambda>t. t\<lparr>t_wireId := 0, t_invalidFrom := 0, t_gcErrors := t_gcErrors t + 1\<rparr>) c2)"
    using c2 by (rule cache_ok_upd [rotated]) simp
  show ?thesis
    unfolding onTileMsg_def Let_def
    using None c2 c3 unfolding c2_def
    by (auto simp: coords_def [symmetric] cr split: option.split
        intro!: outcome_all_obind [of cache_ok] wf.canvas_functions_closed cache_ok_tileReady)
qed (simp add: onTileMsg_def assms)

section \<open>The cache as a transition system\<close>

text \<open>
  What the layer does to the cache from outside: it creates, removes and invalidates tiles, marks
  them as shown or not, renders them, collects garbage and handles tile messages, whose pixel data
  satisfy \<open>payload\<close>. An exception out of a handler leaves the state as it is at that point.
\<close>

inductive cache_step :: "(tile_img \<Rightarrow> bool) \<Rightarrow> env \<Rightarrow> layer_geom \<Rightarrow> tile_cache \<Rightarrow> tile_cache \<Rightarrow> bool"
  for payload env g where
  create: "createTile coords (tc_key coords) now c = (a, c') \<Longrightarrow> cache_step payload env g c c'"
| remove: "cache_step payload env g c (removeTile k c)"
| removeAll: "cache_step payload env g c (removeAllTiles c)"
| invalidate: "cache_step payload env g c (invalidateTile k w c)"
| mark: "tile_addr c k = Some a \<Longrightarrow> cache_step payload env g c (upd_tile a (\<lambda>t. t\<lparr>t_current := b\<rparr>) c)"
| collect: "cache_step payload env g c (garbageCollect c)"
| render: "tile_addr c k = Some a \<Longrightarrow> ensureCanvas env fuel a (Some now) c = Done u c' \<Longrightarrow> cache_step payload env g c c'"
| render_throw: "tile_addr c k = Some a \<Longrightarrow> ensureCanvas env fuel a (Some now) c = Thrown e c' \<Longrightarrow> cache_step payload env g c c'"
| message: "(\<And>i. img = Some i \<Longrightarrow> payload i) \<Longrightarrow> onTileMsg env fuel g visible now m img c = Done u c' \<Longrightarrow> cache_step payload env g c c'"
| message_throw: "(\<And>i. img = Some i \<Longrightarrow> payload i) \<Longrightarrow> onTileMsg env fuel g visible now m img c = Thrown e c' \<Longrightarrow> cache_step payload env g c c'"

inductive cache_reachable :: "(tile_img \<Rightarrow> bool) \<Rightarrow> env \<Rightarrow> layer_geom \<Rightarrow> tile_cache \<Rightarrow> bool"
  for payload env g where
  init: "cache_reachable payload env g empty_cache"
| step: "cache_reachable payload env g c \<Longrightarrow> cache_step payload env g c c' \<Longrightarrow> cache_reachable payload env g c'"

lemma cache_ok_removeAll: "cache_ok c \<Longrightarrow> cache_ok (removeAllTiles c)"
  unfolding removeAllTiles_def by (rule wf.fold_closed [OF cache_ok_removeTile])

lemma cache_step_ok: "cache_step payload env g c c' \<Longrightarrow> cache_ok c \<Longrightarrow> cache_ok c'"
proof (induction rule: cache_step.induct)
  case (render c k a fuel now u c')
  then show ?case using wf.canvas_functions_closed(1) [of c env fuel a "Some now"] by simp
next
  case (render_throw c k a fuel now e c')
  then show ?case using wf.canvas_functions_closed(1) [of c env fuel a "Some now"] by simp
next
  case (message img fuel visible now m c u c')
  then show ?case using cache_ok_onTileMsg [of c env fuel g visible now m img] by simp
next
  case (message_throw img fuel visible now m c e c')
  then show ?case using cache_ok_onTileMsg [of c env fuel g visible now m img] by simp
qed (auto dest: createTile_ok intro: cache_ok_removeTile cache_ok_removeAll cache_ok_invalidate cache_ok_upd
    wf.garbageCollect_closed)

lemma cache_reachable_ok: "cache_reachable payload env g c \<Longrightarrow> cache_ok c"
  by (induction rule: cache_reachable.induct) (auto intro: cache_step_ok)

end
