(* ===== verification/Tile_GC.thy ===== *)
theory Tile_GC
  imports Tile_Cache
begin

text \<open>
  What \<open>_garbageCollect\<close> guarantees: how many canvases it leaves, what it never touches, and in
  which order it chooses its victims.
\<close>

section \<open>What collection may change\<close>

text \<open>
  A cache that collection can make of another one: tiles that are not shown may be gone or have
  lost their deltas, canvases may be gone, nothing else changes.
\<close>

definition tile_collected :: "tile \<Rightarrow> tile \<Rightarrow> bool" where
  "tile_collected t0 t \<longleftrightarrow>
     t_current t = t_current t0 \<and> (t_canvas t = t_canvas t0 \<or> t_canvas t = None) \<and>
     (t_current t0 \<longrightarrow> t_rawDeltas t = t_rawDeltas t0 \<and> t_wireId t = t_wireId t0 \<and>
        t_invalidFrom t = t_invalidFrom t0)"

definition collected :: "tile_cache \<Rightarrow> tile_cache \<Rightarrow> bool" where
  "collected c0 c \<longleftrightarrow>
     length (heap c) = length (heap c0) \<and>
     (\<forall>k. tile_addr c k = tile_addr c0 k \<or> tile_addr c k = None) \<and>
     (\<forall>k a. tile_addr c0 k = Some a \<longrightarrow> a < length (heap c0) \<longrightarrow> t_current (tile_at c0 a) \<longrightarrow>
        tile_addr c k = Some a) \<and>
     (\<forall>a < length (heap c0). tile_collected (tile_at c0 a) (tile_at c a))"

lemma tile_collected_refl [simp]: "tile_collected t t"
  by (simp add: tile_collected_def)

lemma tile_collected_trans: "tile_collected t0 t1 \<Longrightarrow> tile_collected t1 t2 \<Longrightarrow> tile_collected t0 t2"
  by (auto simp: tile_collected_def)

lemma tile_collected_current: "tile_collected t0 t \<Longrightarrow> t_current t = t_current t0"
  by (simp add: tile_collected_def)

lemma collected_refl [simp, intro]: "collected c c"
  by (simp add: collected_def)

lemma collected_trans:
  assumes A: "collected c0 c1" and B: "collected c1 c2"
  shows "collected c0 c2"
  unfolding collected_def
proof (intro conjI allI impI)
  fix k a
  assume k: "tile_addr c0 k = Some a" "a < length (heap c0)" "t_current (tile_at c0 a)"
  then have "tile_addr c1 k = Some a" "t_current (tile_at c1 a)" "a < length (heap c1)"
    using A by (auto simp: collected_def tile_collected_current)
  then show "tile_addr c2 k = Some a" using B by (auto simp: collected_def)
next
  fix k
  show "tile_addr c2 k = tile_addr c0 k \<or> tile_addr c2 k = None"
    using A B unfolding collected_def by metis
next
  fix a
  assume "a < length (heap c0)"
  then show "tile_collected (tile_at c0 a) (tile_at c2 a)"
    using A B by (auto simp: collected_def intro: tile_collected_trans)
qed (use A B in \<open>simp add: collected_def\<close>)

lemma collected_reclaim: "collected c (upd_tile a reclaim_tile c)"
  by (auto simp: collected_def tile_collected_def tile_at_upd reclaim_tile_def)

lemma collected_reclaim_key: "collected c (reclaim_key k c)"
  by (auto simp: reclaim_key_def reclaimTileCanvasMemory_def collected_reclaim split: option.split)

lemma collected_drop: "\<not> t_current (tile_at c a) \<Longrightarrow> collected c (upd_tile a drop_deltas c)"
  by (auto simp: collected_def tile_collected_def tile_at_upd drop_deltas_def reclaim_tile_def)

lemma collected_remove:
  assumes "cache_ok c"
  shows "collected c (gc_remove k c)"
proof (cases "tile_addr c k")
  case (Some a)
  then have a: "a < length (heap c)" by (rule cache_okD(3) [OF assms])
  have "tile_collected (tile_at c b) ((heap c)[a := reclaim_tile (tile_at c a)] ! b)" for b
    using a by (cases "a = b") (simp_all add: tile_collected_def reclaim_tile_def)
  with Some show ?thesis
    by (auto simp: gc_remove_def key_tile_def collected_def)
qed (auto simp: gc_remove_def collected_def)

lemma collected_fold:
  assumes "\<And>k c. cache_ok c \<Longrightarrow> collected c (f k c)" "\<And>k c. cache_ok c \<Longrightarrow> cache_ok (f k c)"
  shows "cache_ok c \<Longrightarrow> collected c (fold f ks c)"
  by (induction ks arbitrary: c) (auto intro: collected_trans assms)

lemma collected_trim_memory: "collected c (gc_trim_memory ks n c)"
proof (induction ks n c rule: gc_trim_memory.induct)
  case (2 k ks n c)
  then show ?case
    by (auto simp: Let_def key_tile_def intro: collected_trans collected_drop)
qed simp

lemma cache_ok_gc_remove: "cache_ok c \<Longrightarrow> cache_ok (gc_remove k c)"
  by (simp add: gc_remove_def cache_ok_removeTile)

lemma collected_trim_canvases: "cache_ok c \<Longrightarrow> collected c (gc_trim_canvases ks c)"
  unfolding gc_trim_canvases_def
  by (auto intro!: collected_fold collected_reclaim_key wf.reclaim_closed)

lemma collected_after_trim:
  assumes "cache_ok c1"
  shows "collected c1
    (let c2 = (if b then gc_trim_memory keys n c1 else c1)
     in if m then fold gc_remove ks c2 else c2)"
proof -
  have "cache_ok (if b then gc_trim_memory keys n c1 else c1)"
    using assms by (simp add: wf.trim_memory_closed)
  then have "collected (if b then gc_trim_memory keys n c1 else c1)
      (fold gc_remove ks (if b then gc_trim_memory keys n c1 else c1))"
    by (intro collected_fold collected_remove cache_ok_gc_remove)
  with collected_trans [of c1 "if b then gc_trim_memory keys n c1 else c1"] show ?thesis
    unfolding Let_def using collected_trim_memory by simp
qed

lemma garbageCollect_after_trim:
  assumes "cache_ok c"
  shows "collected (gc_trim_canvases (filter (\<lambda>k. t_canvas (key_tile c k) \<noteq> None) (gc_keys c)) c)
     (garbageCollect c)"
proof -
  have "cache_ok (gc_trim_canvases (filter (\<lambda>k. t_canvas (key_tile c k) \<noteq> None) (gc_keys c)) c)"
    using assms by (simp add: gc_trim_canvases_def wf.fold_closed wf.reclaim_closed)
  from collected_after_trim [OF this] show ?thesis
    unfolding garbageCollect_def Let_def by simp
qed

lemma garbageCollect_collected: "cache_ok c \<Longrightarrow> collected c (garbageCollect c)"
  by (rule collected_trans [OF collected_trim_canvases garbageCollect_after_trim])

section \<open>The order of the victims\<close>

lemma js_insort_zero: "js_insort (\<lambda>a b. 0) x ys = x # ys"
  by (cases ys) auto

lemma js_sort_zero: "js_sort (\<lambda>a b. 0) xs = xs"
  by (induction xs) (simp_all add: js_sort_def js_insort_zero)

lemma gc_keys_insertion_order: "gc_keys c = obj_keys (tiles c)"
proof -
  have zero: "gc_compare = (\<lambda>a b. 0)" by (simp add: fun_eq_iff gc_compare_def)
  show ?thesis unfolding gc_keys_def zero by (rule js_sort_zero)
qed

section \<open>Canvases left over\<close>

definition canvas_keys :: "tile_cache \<Rightarrow> string list" where
  "canvas_keys c = filter (\<lambda>k. t_canvas (key_tile c k) \<noteq> None) (obj_keys (tiles c))"

lemma canvas_keys_distinct: "cache_ok c \<Longrightarrow> distinct (canvas_keys c)"
  by (simp add: canvas_keys_def cache_ok_def obj_ok_def)

lemma canvas_keys_iff:
  "cache_ok c \<Longrightarrow> k \<in> set (canvas_keys c) \<longleftrightarrow> (\<exists>a. tile_addr c k = Some a \<and> t_canvas (tile_at c a) \<noteq> None)"
  by (auto simp: canvas_keys_def key_tile_def obj_get_iff_key [symmetric] simp flip: set_map)

lemma collected_canvas_keys:
  assumes "cache_ok c0" "cache_ok c" "collected c0 c"
  shows "set (canvas_keys c) \<subseteq> set (canvas_keys c0)"
proof
  fix k
  assume "k \<in> set (canvas_keys c)"
  then obtain a where a: "tile_addr c k = Some a" "t_canvas (tile_at c a) \<noteq> None"
    using assms(2) by (auto simp: canvas_keys_iff)
  then have "tile_addr c0 k = Some a" using assms(3) unfolding collected_def by (metis option.distinct(1))
  moreover from this have "a < length (heap c0)" by (rule cache_okD(3) [OF assms(1)])
  ultimately show "k \<in> set (canvas_keys c0)"
    using a assms(1,3) unfolding canvas_keys_iff [OF assms(1)] collected_def tile_collected_def by metis
qed

lemma reclaim_key_not_canvas:
  assumes "cache_ok c"
  shows "k \<notin> set (canvas_keys (reclaim_key k c))"
proof (cases "tile_addr c k")
  case (Some a)
  then have "a < length (heap c)" by (rule cache_okD(3) [OF assms])
  with Some show ?thesis
    unfolding canvas_keys_iff [OF wf.reclaim_closed [OF assms]]
    by (simp add: reclaim_key_def reclaimTileCanvasMemory_def tile_at_upd reclaim_tile_def)
next
  case None
  then show ?thesis
    unfolding canvas_keys_iff [OF wf.reclaim_closed [OF assms]] by (simp add: reclaim_key_def)
qed

lemma fold_reclaim_ok: "cache_ok c \<Longrightarrow> cache_ok (fold reclaim_key ks c)"
  by (rule wf.fold_closed [OF wf.reclaim_closed])

lemma collected_fold_reclaim: "cache_ok c \<Longrightarrow> collected c (fold reclaim_key ks c)"
  by (rule collected_fold [OF collected_reclaim_key wf.reclaim_closed])

lemma canvas_keys_fold_reclaim:
  "cache_ok c \<Longrightarrow> set (canvas_keys (fold reclaim_key ks c)) \<subseteq> set (canvas_keys c)"
  by (rule collected_canvas_keys [OF _ fold_reclaim_ok collected_fold_reclaim])

lemma fold_reclaim_not_canvas:
  "cache_ok c \<Longrightarrow> set ks \<inter> set (canvas_keys (fold reclaim_key ks c)) = {}"
proof (induction ks arbitrary: c)
  case (Cons k ks)
  let ?c = "reclaim_key k c"
  have ok: "cache_ok ?c" by (rule wf.reclaim_closed [OF Cons.prems])
  moreover have "set (canvas_keys (fold reclaim_key ks ?c)) \<subseteq> set (canvas_keys ?c)"
    by (rule canvas_keys_fold_reclaim [OF ok])
  ultimately show ?case
    using Cons.IH [OF ok] reclaim_key_not_canvas [OF Cons.prems, of k] by auto
qed simp

lemma length_le_of_subset: "distinct xs \<Longrightarrow> set xs \<subseteq> set ys \<Longrightarrow> length xs \<le> length ys"
  by (metis List.finite_set card_length card_mono distinct_card order_trans)

lemma length_canvas_keys_trim:
  assumes "cache_ok c"
  shows "length (canvas_keys (gc_trim_canvases (canvas_keys c) c)) \<le> highNumCanvases"
proof (cases "length (canvas_keys c) > highNumCanvases")
  case True
  let ?n = "length (canvas_keys c) - lowNumCanvases"
  let ?c = "fold reclaim_key (take ?n (canvas_keys c)) c"
  have ok: "cache_ok ?c" by (rule fold_reclaim_ok [OF assms])
  have "set (canvas_keys ?c) \<subseteq> set (canvas_keys c)"
    by (rule canvas_keys_fold_reclaim [OF assms])
  moreover have "set (take ?n (canvas_keys c)) \<inter> set (canvas_keys ?c) = {}"
    by (rule fold_reclaim_not_canvas [OF assms])
  moreover have "set (canvas_keys c) = set (take ?n (canvas_keys c)) \<union> set (drop ?n (canvas_keys c))"
    by (metis append_take_drop_id set_append)
  ultimately have "set (canvas_keys ?c) \<subseteq> set (drop ?n (canvas_keys c))" by blast
  then have "length (canvas_keys ?c) \<le> length (drop ?n (canvas_keys c))"
    by (rule length_le_of_subset [OF canvas_keys_distinct [OF ok]])
  then show ?thesis
    using True by (simp add: gc_trim_canvases_def highNumCanvases_def lowNumCanvases_def)
qed (simp add: gc_trim_canvases_def)

section \<open>Time stamps\<close>

text \<open>The cache with the time stamps \<open>lastRendered\<close> of its tiles replaced.\<close>

definition restamp :: "(nat \<Rightarrow> int option) \<Rightarrow> tile_cache \<Rightarrow> tile_cache" where
  "restamp s c = c\<lparr>heap := map (\<lambda>a. (tile_at c a)\<lparr>t_lastRendered := s a\<rparr>) [0..<length (heap c)]\<rparr>"

lemma restamp_simps [simp]:
  "tiles (restamp s c) = tiles c" "emptyTilesCount (restamp s c) = emptyTilesCount c"
  "length (heap (restamp s c)) = length (heap c)"
  by (simp_all add: restamp_def)

lemma tile_at_restamp: "a < length (heap c) \<Longrightarrow> tile_at (restamp s c) a = (tile_at c a)\<lparr>t_lastRendered := s a\<rparr>"
  by (simp add: restamp_def)

lemma restamp_upd_tile:
  assumes "\<And>t v. f (t\<lparr>t_lastRendered := v\<rparr>) = (f t)\<lparr>t_lastRendered := v\<rparr>"
  shows "upd_tile a f (restamp s c) = restamp s (upd_tile a f c)"
proof (cases "a < length (heap c)")
  case True
  have "(map (\<lambda>i. (tile_at c i)\<lparr>t_lastRendered := s i\<rparr>) [0..<length (heap c)])
      [a := f ((tile_at c a)\<lparr>t_lastRendered := s a\<rparr>)] =
      map (\<lambda>i. ((heap c)[a := f (tile_at c a)] ! i)\<lparr>t_lastRendered := s i\<rparr>) [0..<length (heap c)]"
    using True by (intro nth_equalityI) (auto simp: nth_list_update assms)
  then show ?thesis
    using True by (simp add: upd_tile_def restamp_def)
qed (simp add: upd_tile_def restamp_def list_update_beyond)

lemma stamp_free:
  "hasContent (t\<lparr>t_lastRendered := v\<rparr>) = hasContent t" "raw_size (t\<lparr>t_lastRendered := v\<rparr>) = raw_size t"
  by (simp_all add: hasContent_def hasKeyframe_def raw_size_def)

lemma key_tile_restamp:
  assumes "cache_ok c" "k \<in> set (obj_keys (tiles c))"
  shows "\<exists>v. key_tile (restamp s c) k = (key_tile c k)\<lparr>t_lastRendered := v\<rparr>"
proof -
  obtain a where a: "tile_addr c k = Some a" using assms(2) unfolding obj_get_iff_key [symmetric] by blast
  then have "a < length (heap c)" by (rule cache_okD(3) [OF assms(1)])
  with a show ?thesis by (auto simp: key_tile_def tile_at_restamp)
qed

lemma restamp_reclaim_key: "reclaim_key k (restamp s c) = restamp s (reclaim_key k c)"
  by (auto simp: reclaim_key_def reclaimTileCanvasMemory_def restamp_upd_tile reclaim_tile_def split: option.split)

lemma restamp_removeTile:
  assumes "cache_ok c"
  shows "removeTile k (restamp s c) = restamp s (removeTile k c)"
proof (cases "tile_addr c k")
  case (Some a)
  then have a: "a < length (heap c)" by (rule cache_okD(3) [OF assms])
  have field: "restamp s (c\<lparr>emptyTilesCount := n\<rparr>) = (restamp s c)\<lparr>emptyTilesCount := n\<rparr>"
    "restamp s (d\<lparr>tiles := ts\<rparr>) = (restamp s d)\<lparr>tiles := ts\<rparr>" for n d ts
    by (simp_all add: restamp_def)
  show ?thesis
    using Some a
    by (simp add: removeTile_def reclaimTileCanvasMemory_def Let_def tile_at_restamp stamp_free
        restamp_upd_tile reclaim_tile_def field flip: field(1))
qed (simp add: removeTile_def)

lemma restamp_fold:
  assumes "\<And>k c. k \<in> set ks \<Longrightarrow> cache_ok c \<Longrightarrow> f k (restamp s c) = restamp s (f k c)"
    and "\<And>k c. cache_ok c \<Longrightarrow> cache_ok (f k c)"
  shows "cache_ok c \<Longrightarrow> fold f ks (restamp s c) = restamp s (fold f ks c)"
  using assms(1) by (induction ks arbitrary: c) (auto simp: assms(2))

lemma restamp_trim_memory:
  "cache_ok c \<Longrightarrow> set ks \<subseteq> set (obj_keys (tiles c)) \<Longrightarrow>
   gc_trim_memory ks n (restamp s c) = restamp s (gc_trim_memory ks n c)"
proof (induction ks n c rule: gc_trim_memory.induct)
  case (2 k ks n c)
  obtain v where v: "key_tile (restamp s c) k = (key_tile c k)\<lparr>t_lastRendered := v\<rparr>"
    using key_tile_restamp [of c k s] 2(3,4) by auto
  have "cache_ok (upd_tile (the (tile_addr c k)) drop_deltas c)"
    using 2(3) by (rule cache_ok_upd [rotated]) (simp add: drop_deltas_def reclaim_tile_def)
  then show ?case
    using 2 by (simp add: v stamp_free restamp_upd_tile drop_deltas_def reclaim_tile_def Let_def)
qed simp

lemma restamp_gc_remove:
  assumes "cache_ok c"
  shows "gc_remove k (restamp s c) = restamp s (gc_remove k c)"
proof (cases "k \<in> set (obj_keys (tiles c))")
  case True
  then show ?thesis
    using key_tile_restamp [OF assms True, of s] assms by (auto simp: gc_remove_def restamp_removeTile)
next
  case False
  then have "tile_addr c k = None" using map_of_eq_None_iff [of "tiles c" k] by simp
  then show ?thesis by (simp add: gc_remove_def removeTile_def)
qed

lemma restamp_garbageCollect:
  assumes "cache_ok c"
  shows "garbageCollect (restamp s c) = restamp s (garbageCollect c)"
proof -
  let ?ks = "obj_keys (tiles c)"
  define ck where "ck = filter (\<lambda>k. t_canvas (key_tile c k) \<noteq> None) ?ks"
  define ts where "ts = sum_list (map (\<lambda>k. raw_size (key_tile c k)) ?ks)"
  have key: "k \<in> set ?ks \<Longrightarrow> t_canvas (key_tile (restamp s c) k) = t_canvas (key_tile c k) \<and>
      raw_size (key_tile (restamp s c) k) = raw_size (key_tile c k)" for k
    using key_tile_restamp [OF assms, of k s] by (auto simp: stamp_free)
  have ck: "filter (\<lambda>k. t_canvas (key_tile (restamp s c) k) \<noteq> None) ?ks = ck"
    unfolding ck_def by (rule filter_cong) (simp_all add: key)
  have ts: "sum_list (map (\<lambda>k. raw_size (key_tile (restamp s c) k)) ?ks) = ts"
    unfolding ts_def by (simp add: key cong: map_cong)
  define c1 where "c1 = gc_trim_canvases ck c"
  have ok1: "cache_ok c1" by (simp add: c1_def gc_trim_canvases_def fold_reclaim_ok assms)
  have c1: "gc_trim_canvases ck (restamp s c) = restamp s c1"
    unfolding c1_def gc_trim_canvases_def
    by (simp add: restamp_fold [where f = reclaim_key] restamp_reclaim_key wf.reclaim_closed assms)
  have "tiles (fold reclaim_key ks d) = tiles d" for ks d
    by (induction ks arbitrary: d)
      (simp_all add: reclaim_key_def reclaimTileCanvasMemory_def split: option.split)
  then have tiles1: "tiles c1 = tiles c" by (simp add: c1_def gc_trim_canvases_def)
  define c2 where "c2 = (if ts > highDeltaMemory then gc_trim_memory ?ks ts c1 else c1)"
  have ok2: "cache_ok c2" by (simp add: c2_def ok1 wf.trim_memory_closed)
  have c2: "(if ts > highDeltaMemory then gc_trim_memory ?ks ts (restamp s c1) else restamp s c1) = restamp s c2"
    by (simp add: c2_def restamp_trim_memory [OF ok1] tiles1)
  have c3: "fold gc_remove ks (restamp s c2) = restamp s (fold gc_remove ks c2)" for ks
    by (rule restamp_fold [where f = gc_remove]) (simp_all add: restamp_gc_remove cache_ok_gc_remove ok2)
  show ?thesis
    unfolding garbageCollect_def Let_def gc_keys_insertion_order
    by (simp only: restamp_simps ck ts c1 c2 c3 c1_def [symmetric] c2_def [symmetric]
        ck_def [symmetric] ts_def [symmetric] if_distrib [of "restamp s"])
qed

section \<open>Properties\<close>

text \<open>
  C12 (invariant). In every state the layer can bring the cache into, the dictionary has no
  duplicate keys, each of its tiles exists and is filed under the key of its coordinates, no two
  keys share a tile, and the count of empty tiles is not negative.
\<close>

theorem tile_cache_invariant:
  assumes "cache_reachable payload env g c"
  shows "cache_ok c \<and> (\<forall>k l a. tile_addr c k = Some a \<and> tile_addr c l = Some a \<longrightarrow> k = l)"
  using cache_reachable_ok [OF assms] tile_addr_inj by blast

definition sample_coords :: tile_coords where
  "sample_coords = \<lparr>tc_x = 256, tc_y = 0, tc_z = 10, tc_part = 0, tc_mode = 0\<rparr>"

definition sample_cache :: tile_cache where
  "sample_cache = snd (createTile sample_coords (tc_key sample_coords) 7 empty_cache)"

lemma sample_cache_reachable: "cache_reachable payload env g sample_cache"
  by (rule cache_reachable.step [OF cache_reachable.init], rule cache_step.create)
    (simp add: sample_cache_def prod_eq_iff)

theorem tile_cache_invariant_witness: "cache_ok sample_cache"
  using tile_cache_invariant [OF sample_cache_reachable] by blast

text \<open>
  C24 (bounds). After a collection at most \<open>highNumCanvases\<close> tiles hold a canvas.
\<close>

theorem gc_bounds_canvases:
  assumes "cache_ok c"
  shows "length (canvas_keys (garbageCollect c)) \<le> highNumCanvases"
proof -
  let ?c1 = "gc_trim_canvases (canvas_keys c) c"
  have "filter (\<lambda>k. t_canvas (key_tile c k) \<noteq> None) (gc_keys c) = canvas_keys c"
    by (simp add: canvas_keys_def gc_keys_insertion_order)
  then have "collected ?c1 (garbageCollect c)"
    using garbageCollect_after_trim [OF assms] by simp
  moreover have "cache_ok ?c1" by (simp add: gc_trim_canvases_def fold_reclaim_ok assms)
  ultimately have "set (canvas_keys (garbageCollect c)) \<subseteq> set (canvas_keys ?c1)"
    using wf.garbageCollect_closed [OF assms] by (intro collected_canvas_keys)
  then have "length (canvas_keys (garbageCollect c)) \<le> length (canvas_keys ?c1)"
    by (rule length_le_of_subset [OF canvas_keys_distinct [OF wf.garbageCollect_closed [OF assms]]])
  then show ?thesis using length_canvas_keys_trim [OF assms] by linarith
qed

theorem gc_bounds_canvases_witness: "length (canvas_keys (garbageCollect sample_cache)) \<le> highNumCanvases"
  by (rule gc_bounds_canvases [OF cache_reachable_ok [OF sample_cache_reachable]])

text \<open>
  C14 (safety). Collection never removes a tile that is currently shown and never drops its
  deltas or changes its fetch state; a tile it removes or strips was not shown.
\<close>

theorem gc_keeps_current:
  assumes "cache_ok c" and "tile_addr c k = Some a" and "t_current (tile_at c a)"
  shows "tile_addr (garbageCollect c) k = Some a \<and>
     t_rawDeltas (tile_at (garbageCollect c) a) = t_rawDeltas (tile_at c a) \<and>
     t_wireId (tile_at (garbageCollect c) a) = t_wireId (tile_at c a) \<and>
     t_invalidFrom (tile_at (garbageCollect c) a) = t_invalidFrom (tile_at c a)"
  using garbageCollect_collected [OF assms(1)] assms(2,3) cache_okD(3) [OF assms(1,2)]
  by (auto simp: collected_def tile_collected_def)

lemma sample_addr: "tile_addr sample_cache (tc_key sample_coords) = Some 0"
  and sample_current: "t_current (tile_at sample_cache 0)"
  by (simp_all add: sample_cache_def createTile_def empty_cache_def new_tile_def)

theorem gc_keeps_current_witness: "tile_addr (garbageCollect sample_cache) (tc_key sample_coords) = Some 0"
  using gc_keeps_current [OF cache_reachable_ok [OF sample_cache_reachable] sample_addr sample_current] by simp

text \<open>
  Which tiles a collection frees does not depend on when they were last
  rendered: replacing all time stamps commutes with collecting. The comparator compares
  properties of the keys, so the keys stay in the order in which the tiles were created.
\<close>

lemma gc_ignores_lastRendered:
  assumes "cache_ok c"
  shows "garbageCollect (restamp s c) = restamp s (garbageCollect c) \<and> gc_keys c = obj_keys (tiles c)"
  using restamp_garbageCollect [OF assms] gc_keys_insertion_order by simp

lemma gc_ignores_lastRendered_witness:
  "garbageCollect (restamp (\<lambda>a. Some 1000) sample_cache) = restamp (\<lambda>a. Some 1000) (garbageCollect sample_cache)"
  using gc_ignores_lastRendered [OF cache_reachable_ok [OF sample_cache_reachable]] by simp

end
