(* ===== verification/Tile_Render.thy ===== *)
theory Tile_Render
  imports Tile_GC
begin

text \<open>
  The recursion between \<open>ensureCanvas\<close>, \<open>_applyDelta\<close> and \<open>_ensureContext\<close>: when it ends, when it
  does not, and that the canvas of a tile always shows what its cached deltas decode to, however
  the canvas was freed and re-created in between.
\<close>

section \<open>Fuel\<close>

definition fuel_le :: "'a outcome \<Rightarrow> 'a outcome \<Rightarrow> bool" where
  "fuel_le r r' \<longleftrightarrow> r = OutOfFuel \<or> r = r'"

lemma fuel_le_refl [simp]: "fuel_le r r" "fuel_le OutOfFuel r"
  by (simp_all add: fuel_le_def)

lemma fuel_le_obind:
  assumes "fuel_le r r'" "\<And>x c. fuel_le (f x c) (f' x c)"
  shows "fuel_le (obind r f) (obind r' f')"
proof (cases r)
  case (Done x c)
  then show ?thesis using assms(1) assms(2) [of x c] by (auto simp: fuel_le_def)
qed (use assms(1) in \<open>auto simp: fuel_le_def\<close>)

lemma fuel_le_with_context:
  assumes "\<And>c. fuel_le (ens c) (ens' c)" "\<And>c. fuel_le (k c) (k' c)"
  shows "fuel_le (with_context env ens c k) (with_context env ens' c k')"
  unfolding with_context_def by (intro fuel_le_obind assms) (auto simp: Let_def assms split: prod.split)

lemma fuel_le_Suc:
  "fuel_le (ensureCanvas env n a now c) (ensureCanvas env (Suc n) a now c)"
  "fuel_le (applyDelta env n a raw isK wire c) (applyDelta env (Suc n) a raw isK wire c)"
  "fuel_le (ensureContext env n a c) (ensureContext env (Suc n) a c)"
proof (induction env n a now c and env n a raw isK wire c and env n a c
    rule: ensureCanvas_applyDelta_ensureContext.induct)
  case (2 env n a now c)
  then show ?case
    by (subst (1 2) ensureCanvas.simps(2)) (auto simp: Let_def intro!: fuel_le_obind)
next
  case (4 env n a raw isK wire c)
  then show ?case
    by (subst (1 2) applyDelta.simps(2)) (auto intro!: fuel_le_obind)
next
  case (6 env n a c)
  then show ?case
    by (subst (1 2) ensureContext.simps(2)) (auto simp: Let_def intro!: fuel_le_with_context)
qed simp_all

lemma more_fuel:
  "ensureCanvas env n a now c \<noteq> OutOfFuel \<Longrightarrow> ensureCanvas env (n + m) a now c = ensureCanvas env n a now c"
  "applyDelta env n a raw isK wire c \<noteq> OutOfFuel \<Longrightarrow>
     applyDelta env (n + m) a raw isK wire c = applyDelta env n a raw isK wire c"
  by (induction m) (metis add_Suc_right add.right_neutral fuel_le_Suc fuel_le_def)+

section \<open>A browser that grants every context\<close>

definition grants :: "env \<Rightarrow> bool" where
  "grants env \<longleftrightarrow> (\<forall>n. env_ctx env n)"

lemma getContext_granted: "grants env \<Longrightarrow> getContext env c = (True, c\<lparr>ctxCalls := ctxCalls c + 1\<rparr>)"
  by (simp add: getContext_def grants_def)

lemma with_context_granted:
  "grants env \<Longrightarrow> with_context env ens c k = obind (ens c) (\<lambda>_ c1. Done True (c1\<lparr>ctxCalls := ctxCalls c1 + 1\<rparr>))"
  by (simp add: with_context_def getContext_granted)

lemma ensureContext_granted:
  "grants env \<Longrightarrow> ensureContext env (Suc n) a c =
     obind (if t_canvas (tile_at (maybeGarbageCollect c) a) = None
            then ensureCanvas env n a None (maybeGarbageCollect c) else Done () (maybeGarbageCollect c))
       (\<lambda>_ c1. Done True (c1\<lparr>ctxCalls := ctxCalls c1 + 1\<rparr>))"
  by (simp add: with_context_granted Let_def)

lemma maybeGarbageCollect_skip:
  "(gcCounter c + 1) mod 53 \<noteq> 0 \<Longrightarrow> maybeGarbageCollect c = c\<lparr>gcCounter := gcCounter c + 1\<rparr>"
  by (simp add: maybeGarbageCollect_def)

lemma gcCounter_removeTile [simp]: "gcCounter (removeTile k c) = gcCounter c"
  by (auto simp: removeTile_def reclaimTileCanvasMemory_def Let_def split: option.split)

interpretation counter: gc_closed "\<lambda>c. gcCounter c = n" for n
  by unfold_locales simp_all

interpretation size: gc_closed "\<lambda>c. length (heap c) = n" for n
  by unfold_locales (simp_all split: option.split)

section \<open>Data the server sends\<close>

text \<open>
  A keyframe decompresses to the pixels of a whole tile followed by complete delta chunks, a delta
  to complete chunks only.
\<close>

definition dec_is :: "env \<Rightarrow> bytes \<Rightarrow> bytes \<Rightarrow> bool" where
  "dec_is env raw x \<longleftrightarrow> env_decompress env raw = Some x"

definition frame_size :: "env \<Rightarrow> nat" where
  "frame_size env = env_tileSize env * env_tileSize env * 4"

definition wf_delta :: "env \<Rightarrow> bytes \<Rightarrow> bool" where
  "wf_delta env raw \<longleftrightarrow> (\<exists>fs. frames_ok fs \<and> dec_is env raw (encode_frames fs))"

definition wf_key :: "env \<Rightarrow> bytes \<Rightarrow> bool" where
  "wf_key env raw \<longleftrightarrow> raw \<noteq> [] \<and>
     (\<exists>pix fs. length pix = frame_size env \<and> frames_ok fs \<and> dec_is env raw (pix @ encode_frames fs))"

definition wf_payload :: "env \<Rightarrow> tile_img \<Rightarrow> bool" where
  "wf_payload env i \<longleftrightarrow>
     (if img_isKeyframe i then wf_key env (img_rawData i) else wf_delta env (img_rawData i))"

text \<open>
  The documented behaviour of \<open>fzstd.decompress\<close> on concatenated frames: it decompresses all of
  them and concatenates the results.
\<close>

definition decompress_concat :: "env \<Rightarrow> bool" where
  "decompress_concat env \<longleftrightarrow>
     (\<forall>a b x y. dec_is env a x \<longrightarrow> dec_is env b y \<longrightarrow> dec_is env (a @ b) (x @ y))"

text \<open>The image the stored data of a tile stand for.\<close>

definition render :: "env \<Rightarrow> bytes \<Rightarrow> bytes option" where
  "render env raw =
     (case env_decompress env raw of
        None \<Rightarrow> None
      | Some x \<Rightarrow> (case decode_stream (env_tileSize env) (env_tileSize env) True x [] of
                     Inl e \<Rightarrow> None | Inr img \<Rightarrow> Some img))"

lemma encode_frames_append: "encode_frames (fs @ gs) = encode_frames fs @ encode_frames gs"
  by (simp add: encode_frames_def)

lemma frames_ok_append [simp]: "frames_ok (fs @ gs) \<longleftrightarrow> frames_ok fs \<and> frames_ok gs"
  by (simp add: frames_ok_def)

lemma wf_key_append:
  assumes "decompress_concat env" "wf_key env raw" "wf_delta env d"
  shows "wf_key env (raw @ d)"
proof -
  obtain pix fs gs where "length pix = frame_size env" "frames_ok fs" "dec_is env raw (pix @ encode_frames fs)"
    "frames_ok gs" "dec_is env d (encode_frames gs)"
    using assms(2,3) by (auto simp: wf_key_def wf_delta_def)
  moreover from this have "dec_is env (raw @ d) (pix @ encode_frames (fs @ gs))"
    using assms(1) by (force simp: decompress_concat_def encode_frames_append)
  ultimately show ?thesis
    using assms(2) unfolding wf_key_def by (metis append_is_Nil_conv frames_ok_append)
qed

lemma decode_keyframe:
  assumes "length pix = frame_size env" "frames_ok fs"
  shows "decode_stream (env_tileSize env) (env_tileSize env) True (pix @ encode_frames fs) img =
     Inr (fold (apply_ops (env_tileSize env)) fs (unpremultiply_pixels pix))"
  using assms by (simp add: decode_stream_def unpremultiply_def frame_size_def Let_def apply_chunks_encode)

lemma decode_delta:
  assumes "frames_ok fs"
  shows "decode_stream w h False (encode_frames fs) img = Inr (fold (apply_ops w) fs img)"
  using assms by (simp add: decode_stream_def apply_chunks_encode)

lemma render_key:
  assumes "length pix = frame_size env" "frames_ok fs" "dec_is env raw (pix @ encode_frames fs)"
  shows "render env raw = Some (fold (apply_ops (env_tileSize env)) fs (unpremultiply_pixels pix))"
  using assms by (simp add: render_def dec_is_def decode_keyframe)

lemma render_defined: "wf_key env raw \<Longrightarrow> \<exists>img. render env raw = Some img"
  using render_key by (auto simp: wf_key_def)

text \<open>Applying a delta to the rendered image gives the rendering of the extended data.\<close>

lemma render_append:
  assumes "decompress_concat env" "wf_key env raw" "frames_ok gs" "dec_is env d (encode_frames gs)"
    "render env raw = Some img"
  shows "render env (raw @ d) = Some (fold (apply_ops (env_tileSize env)) gs img)"
proof -
  obtain pix fs where r: "length pix = frame_size env" "frames_ok fs" "dec_is env raw (pix @ encode_frames fs)"
    using assms(2) by (auto simp: wf_key_def)
  then have "dec_is env (raw @ d) (pix @ encode_frames (fs @ gs))"
    using assms(1,4) by (force simp: decompress_concat_def encode_frames_append)
  with r assms(3,5) show ?thesis
    using render_key [of pix env fs raw] render_key [of pix env "fs @ gs" "raw @ d"] by auto
qed

section \<open>Tiles that show their data\<close>

definition tile_stored_ok :: "env \<Rightarrow> tile \<Rightarrow> bool" where
  "tile_stored_ok env t \<longleftrightarrow> (case t_rawDeltas t of None \<Rightarrow> True | Some raw \<Rightarrow> wf_key env raw) \<and>
     (t_imgDataCache t = None \<or> t_imgDataCache t = t_canvas t)"

definition tile_faithful :: "env \<Rightarrow> tile \<Rightarrow> bool" where
  "tile_faithful env t \<longleftrightarrow> tile_stored_ok env t \<and>
     (case t_rawDeltas t of None \<Rightarrow> True | Some raw \<Rightarrow> t_canvas t = None \<or> t_canvas t = render env raw)"

text \<open>All tiles show their data, but perhaps those at the addresses of \<open>A\<close>.\<close>

definition faithful_but :: "env \<Rightarrow> nat set \<Rightarrow> tile_cache \<Rightarrow> bool" where
  "faithful_but env A c \<longleftrightarrow> (\<forall>b < length (heap c). tile_stored_ok env (tile_at c b) \<and>
     (b \<notin> A \<longrightarrow> tile_faithful env (tile_at c b)))"

abbreviation faithful :: "env \<Rightarrow> tile_cache \<Rightarrow> bool" where
  "faithful env c \<equiv> faithful_but env {} c"

lemma tile_reclaimed:
  "tile_stored_ok env t \<Longrightarrow> tile_stored_ok env (reclaim_tile t)" "tile_stored_ok env t \<Longrightarrow> tile_faithful env (reclaim_tile t)"
  by (auto simp: tile_stored_ok_def tile_faithful_def reclaim_tile_def split: option.split)

lemma tile_dropped: "tile_stored_ok env (drop_deltas t)" "tile_faithful env (drop_deltas t)"
  by (simp_all add: tile_stored_ok_def tile_faithful_def reclaim_tile_def drop_deltas_def)

lemma faithful_but_upd:
  assumes "faithful_but env A c"
    and "a < length (heap c) \<Longrightarrow> tile_stored_ok env (f (tile_at c a))"
    and "a < length (heap c) \<Longrightarrow> a \<notin> B \<Longrightarrow> tile_faithful env (f (tile_at c a))" and "A - {a} \<subseteq> B"
  shows "faithful_but env B (upd_tile a f c)"
  using assms by (auto simp: faithful_but_def tile_at_upd)

interpretation shown: gc_closed "faithful_but env A" for env A
proof unfold_locales
  fix c a
  assume c: "faithful_but env A c"
  show "faithful_but env A (upd_tile a reclaim_tile c)"
    by (rule faithful_but_upd [OF c]) (use c in \<open>auto simp: faithful_but_def tile_reclaimed\<close>)
  show "faithful_but env A (upd_tile a drop_deltas c)"
    by (rule faithful_but_upd [OF c]) (auto simp: tile_dropped)
next
  fix c k
  assume "faithful_but env A c"
  then show "faithful_but env A (removeTile k c)"
    by (auto simp: faithful_but_def nth_update_at tile_reclaimed split: option.split)
qed

lemma faithful_but_fields [simp]:
  "faithful_but env A (c\<lparr>gcCounter := n\<rparr>) = faithful_but env A c"
  "faithful_but env A (c\<lparr>ctxCalls := m\<rparr>) = faithful_but env A c"
  "faithful_but env A (c\<lparr>nullDeltaUpdate := m\<rparr>) = faithful_but env A c"
  "faithful_but env A (c\<lparr>fetchKeyframeQueue := q\<rparr>) = faithful_but env A c"
  "faithful_but env A (c\<lparr>emptyTilesCount := n\<rparr>) = faithful_but env A c"
  "faithful_but env A (c\<lparr>out := os\<rparr>) = faithful_but env A c"
  "faithful_but env A (c\<lparr>queuedProcessed := q'\<rparr>) = faithful_but env A c"
  by (simp_all add: faithful_but_def)

lemma faithful_maybeGC: "faithful_but env A c \<Longrightarrow> faithful_but env A (maybeGarbageCollect c)"
  by (auto simp: maybeGarbageCollect_def Let_def intro!: shown.garbageCollect_closed)

lemma length_maybeGC [simp]: "length (heap (maybeGarbageCollect c)) = length (heap c)"
  using size.garbageCollect_closed [of "c\<lparr>gcCounter := gcCounter c + 1\<rparr>" "length (heap c)"]
  by (simp add: maybeGarbageCollect_def Let_def)

text \<open>A tile without a canvas cannot show anything wrong.\<close>

lemma faithful_no_canvas:
  assumes "faithful_but env A c" "t_canvas (tile_at c a) = None" "A \<subseteq> {a}"
  shows "faithful env c"
  unfolding faithful_but_def
proof (intro allI impI)
  fix b
  assume "b < length (heap c)"
  with assms show "tile_stored_ok env (tile_at c b) \<and> (b \<notin> {} \<longrightarrow> tile_faithful env (tile_at c b))"
    by (cases "b = a") (auto simp: faithful_but_def tile_faithful_def split: option.split)
qed

section \<open>Painting\<close>

lemma paint_keyframe:
  assumes "wf_key env raw" "t_canvas t \<noteq> None"
  shows "\<exists>img. render env raw = Some img \<and>
     paint env raw True t = Inr (t\<lparr>t_imgDataCache := Some img, t_canvas := Some img\<rparr>)"
proof -
  obtain pix fs where r: "length pix = frame_size env" "frames_ok fs" "dec_is env raw (pix @ encode_frames fs)"
    using assms(1) by (auto simp: wf_key_def)
  then show ?thesis
    using assms(2) by (auto simp: paint_def render_key dec_is_def decode_keyframe Let_def)
qed

lemma paint_delta:
  assumes "decompress_concat env" "wf_key env raw" "wf_delta env d"
    and "t_canvas t = render env raw" "t_imgDataCache t = None \<or> t_imgDataCache t = t_canvas t"
  shows "\<exists>t'. paint env d False t = Inr t' \<and> t_canvas t' = render env (raw @ d) \<and>
     (t_imgDataCache t' = None \<or> t_imgDataCache t' = t_canvas t') \<and> t_rawDeltas t' = t_rawDeltas t"
proof -
  obtain gs where g: "frames_ok gs" "dec_is env d (encode_frames gs)" using assms(3) by (auto simp: wf_delta_def)
  obtain img where i: "render env raw = Some img" using render_defined [OF assms(2)] by blast
  have ra: "render env (raw @ d) = Some (fold (apply_ops (env_tileSize env)) gs img)"
    by (rule render_append [OF assms(1,2) g i])
  have base: "(case t_imgDataCache t of Some x \<Rightarrow> x | None \<Rightarrow> img) = img"
    using assms(4,5) i by (auto split: option.split)
  show ?thesis
  proof (cases "encode_frames gs = []")
    case True
    then have "gs = []" by (cases gs) (simp_all add: encode_frames_def)
    with ra True g i assms(4,5) show ?thesis by (simp add: paint_def dec_is_def)
  next
    case False
    then show ?thesis
      using g i assms(4) ra base by (simp add: paint_def dec_is_def decode_delta Let_def)
  qed
qed

text \<open>The last phase of \<open>_applyDelta\<close> puts things right for the tile it works on.\<close>

lemma apply_keyframe:
  assumes c: "faithful_but env {a} c" and a: "a < length (heap c)" "t_canvas (tile_at c a) \<noteq> None"
    and raw: "wf_key env raw"
  shows "\<exists>c'. apply_with_ctx env a raw True wire c = Done () c' \<and> faithful env c' \<and>
     length (heap c') = length (heap c) \<and> t_canvas (tile_at c' a) = render env raw \<and>
     t_rawDeltas (tile_at c' a) = Some raw"
proof -
  define c1 where "c1 = (if wire then upd_tile a (count_wire True) c else c)"
  have c1: "faithful_but env {a} c1" "length (heap c1) = length (heap c)" "t_canvas (tile_at c1 a) \<noteq> None"
    using c a by (auto simp: c1_def faithful_but_def tile_at_upd count_wire_def tile_stored_ok_def)
  define t where "t = (tile_at c1 a)\<lparr>t_rawDeltas := Some raw\<rparr>"
  obtain img where img: "render env raw = Some img"
    "paint env raw True t = Inr (t\<lparr>t_imgDataCache := Some img, t_canvas := Some img\<rparr>)"
    using paint_keyframe [OF raw, of t] c1(3) by (auto simp: t_def)
  define t' where "t' = t\<lparr>t_imgDataCache := Some img, t_canvas := Some img\<rparr>"
  have t': "tile_stored_ok env t'" "tile_faithful env t'"
    using raw img(1) by (simp_all add: t'_def t_def tile_stored_ok_def tile_faithful_def)
  have "apply_with_ctx env a raw True wire c = Done () (upd_tile a (\<lambda>_. t') (upd_tile a (\<lambda>_. t) c1))"
    using img(2) by (auto simp: apply_with_ctx_def store_raw_def Let_def c1_def [symmetric] t_def t'_def)
  moreover have "upd_tile a (\<lambda>_. t') (upd_tile a (\<lambda>_. t) c1) = upd_tile a (\<lambda>_. t') c1"
    by (simp add: upd_tile_def)
  moreover have "faithful env (upd_tile a (\<lambda>_. t') c1)"
    by (rule faithful_but_upd [OF c1(1)]) (simp_all add: t')
  ultimately show ?thesis
    using a(1) c1(2) img(1) by (simp add: tile_at_upd t'_def t_def)
qed

lemma apply_delta_keeps:
  assumes "decompress_concat env" "faithful env c" "a < length (heap c)" "t_canvas (tile_at c a) \<noteq> None"
    and d: "wf_delta env d"
  shows "\<exists>c'. apply_with_ctx env a d False True c = Done () c' \<and> faithful env c' \<and>
     length (heap c') = length (heap c)"
proof (cases "d = []")
  case True
  have "faithful env (upd_tile a (\<lambda>t. t\<lparr>t_updateCount := t_updateCount t + 1\<rparr>) c)"
    by (rule faithful_but_upd [OF assms(2)])
      (use assms(2) in \<open>auto simp: faithful_but_def tile_stored_ok_def tile_faithful_def split: option.splits\<close>)
  with True show ?thesis by (simp add: apply_with_ctx_def)
next
  case False
  define c1 where "c1 = upd_tile a (count_wire False) c"
  have c1: "faithful env c1"
    unfolding c1_def by (rule faithful_but_upd [OF assms(2)])
      (use assms(2) in \<open>auto simp: faithful_but_def tile_stored_ok_def tile_faithful_def count_wire_def split: option.splits\<close>)
  have len: "length (heap c1) = length (heap c)" by (simp add: c1_def)
  show ?thesis
  proof (cases "t_rawDeltas (tile_at c1 a)")
    case None
    then show ?thesis using False c1 len by (simp add: apply_with_ctx_def store_raw_def c1_def)
  next
    case (Some raw)
    define t where "t = (tile_at c1 a)\<lparr>t_rawDeltas := Some (raw @ d)\<rparr>"
    have ta: "tile_faithful env (tile_at c1 a)" using c1 assms(3) len by (simp add: faithful_but_def)
    have cv: "t_canvas (tile_at c1 a) \<noteq> None"
      using assms(3,4) by (simp add: c1_def tile_at_upd count_wire_def)
    have raw: "wf_key env raw" "t_canvas t = render env raw"
      "t_imgDataCache t = None \<or> t_imgDataCache t = t_canvas t"
      using ta cv Some by (auto simp: tile_faithful_def tile_stored_ok_def t_def)
    obtain t' where t': "paint env d False t = Inr t'" "t_canvas t' = render env (raw @ d)"
      "t_imgDataCache t' = None \<or> t_imgDataCache t' = t_canvas t'" "t_rawDeltas t' = Some (raw @ d)"
      using paint_delta [OF assms(1) raw(1) d raw(2,3)] by (auto simp: t_def)
    have ok: "tile_stored_ok env t'" "tile_faithful env t'"
      using t' wf_key_append [OF assms(1) raw(1) d] by (auto simp: tile_stored_ok_def tile_faithful_def)
    have "apply_with_ctx env a d False True c = Done () (upd_tile a (\<lambda>_. t') (upd_tile a (\<lambda>_. t) c1))"
      using False Some t'(1) by (simp add: apply_with_ctx_def store_raw_def Let_def c1_def [symmetric] t_def)
    moreover have "upd_tile a (\<lambda>_. t') (upd_tile a (\<lambda>_. t) c1) = upd_tile a (\<lambda>_. t') c1"
      by (simp add: upd_tile_def)
    moreover have "faithful env (upd_tile a (\<lambda>_. t') c1)"
      by (rule faithful_but_upd [OF c1]) (simp_all add: ok)
    ultimately show ?thesis using len by simp
  qed
qed

section \<open>Getting a canvas and its context\<close>

text \<open>
  The two functions do what their callers need: they return, leave a canvas, and keep every tile
  showing its data. \<open>A\<close> is empty or holds just the tile that is about to be repainted.
\<close>

definition gets_context :: "env \<Rightarrow> nat \<Rightarrow> nat \<Rightarrow> tile_cache \<Rightarrow> bool" where
  "gets_context env n a c \<longleftrightarrow> (\<forall>A \<subseteq> {a}. faithful_but env A c \<longrightarrow>
     (\<exists>c'. ensureContext env n a c = Done True c' \<and> faithful_but env A c' \<and>
        t_canvas (tile_at c' a) \<noteq> None \<and> length (heap c') = length (heap c)))"

definition gets_canvas :: "env \<Rightarrow> nat \<Rightarrow> nat \<Rightarrow> int option \<Rightarrow> tile_cache \<Rightarrow> bool" where
  "gets_canvas env n a now c \<longleftrightarrow> (faithful env c \<longrightarrow>
     (\<exists>c'. ensureCanvas env n a now c = Done () c' \<and> faithful env c' \<and>
        t_canvas (tile_at c' a) \<noteq> None \<and> length (heap c') = length (heap c)))"

abbreviation blanked :: "env \<Rightarrow> nat \<Rightarrow> tile_cache \<Rightarrow> tile_cache" where
  "blanked env a c \<equiv> upd_tile a (\<lambda>t. t\<lparr>t_canvas := Some (blank_canvas env)\<rparr>) c"

lemma faithful_but_mono: "faithful_but env A c \<Longrightarrow> A \<subseteq> B \<Longrightarrow> faithful_but env B c"
  by (auto simp: faithful_but_def)

lemma faithful_rendered: "faithful env c \<Longrightarrow> faithful env (upd_tile a (rendered now) c)"
  by (rule faithful_but_upd)
    (auto simp: faithful_but_def tile_stored_ok_def tile_faithful_def rendered_def Let_def split: option.splits)

lemma canvas_rendered [simp]: "t_canvas (rendered now t) = t_canvas t"
  by (simp add: rendered_def Let_def)

lemma faithful_blanked:
  assumes "faithful env c" "t_canvas (tile_at c a) = None"
  shows "faithful_but env {a} (blanked env a c)"
    and "t_rawDeltas (tile_at c a) = None \<Longrightarrow> faithful env (blanked env a c)"
proof -
  have ok: "tile_stored_ok env ((tile_at c a)\<lparr>t_canvas := Some (blank_canvas env)\<rparr>)" if "a < length (heap c)"
    using assms that by (auto simp: faithful_but_def tile_stored_ok_def)
  show "faithful_but env {a} (blanked env a c)"
    by (rule faithful_but_upd [OF assms(1)]) (simp_all add: ok)
  show "faithful env (blanked env a c)" if "t_rawDeltas (tile_at c a) = None"
    by (rule faithful_but_upd [OF assms(1)]) (use ok that in \<open>simp_all add: tile_faithful_def\<close>)
qed

lemma gets_canvasI:
  assumes a: "a < length (heap c)" "t_canvas (tile_at c a) = None"
    and ctx: "gets_context env n a (blanked env a c)"
  shows "gets_canvas env (Suc (Suc n)) a now c"
  unfolding gets_canvas_def
proof
  assume c: "faithful env c"
  let ?c1 = "blanked env a c"
  have raw: "t_rawDeltas (tile_at ?c1 a) = t_rawDeltas (tile_at c a)" using a by (simp add: tile_at_upd)
  show "\<exists>c'. ensureCanvas env (Suc (Suc n)) a now c = Done () c' \<and> faithful env c' \<and>
      t_canvas (tile_at c' a) \<noteq> None \<and> length (heap c') = length (heap c)"
  proof (cases "t_rawDeltas (tile_at c a)")
    case None
    then have "ensureCanvas env (Suc (Suc n)) a now c = Done () (upd_tile a (rendered now) ?c1)"
      using a(2) raw by (simp add: hasKeyframe_def)
    then show ?thesis
      using faithful_rendered [OF faithful_blanked(2) [OF c a(2) None]] a(1) by (simp add: tile_at_upd)
  next
    case (Some r)
    have r: "wf_key env r" using c a(1) Some by (auto simp: faithful_but_def tile_stored_ok_def)
    then have hk: "hasKeyframe (tile_at ?c1 a)" using raw Some by (simp add: hasKeyframe_def wf_key_def)
    obtain c2 where c2: "ensureContext env n a ?c1 = Done True c2" "faithful_but env {a} c2"
      "t_canvas (tile_at c2 a) \<noteq> None" "length (heap c2) = length (heap c)"
      using ctx faithful_blanked(1) [OF c a(2)] by (auto simp: gets_context_def)
    then obtain c3 where c3: "apply_with_ctx env a r True False c2 = Done () c3" "faithful env c3"
      "length (heap c3) = length (heap c)" "t_canvas (tile_at c3 a) = render env r"
      using apply_keyframe [OF c2(2) _ c2(3) r] a(1) by auto
    have "ensureCanvas env (Suc (Suc n)) a now c = Done () (upd_tile a (rendered now) c3)"
      using a(2) hk raw Some c2(1) c3(1) by simp
    then show ?thesis
      using faithful_rendered [OF c3(2)] c3(3,4) render_defined [OF r] a(1) by (auto simp: tile_at_upd)
  qed
qed

lemma gets_contextI:
  assumes "grants env"
    and "t_canvas (tile_at (maybeGarbageCollect c) a) \<noteq> None \<or> gets_canvas env n a None (maybeGarbageCollect c)"
  shows "gets_context env (Suc n) a c"
  unfolding gets_context_def
proof (intro allI impI)
  fix A
  assume A: "A \<subseteq> {a}" and c: "faithful_but env A c"
  let ?c0 = "maybeGarbageCollect c"
  have c0: "faithful_but env A ?c0" by (rule faithful_maybeGC [OF c])
  show "\<exists>c'. ensureContext env (Suc n) a c = Done True c' \<and> faithful_but env A c' \<and>
      t_canvas (tile_at c' a) \<noteq> None \<and> length (heap c') = length (heap c)"
  proof (cases "t_canvas (tile_at ?c0 a) = None")
    case True
    then have "faithful env ?c0" by (rule faithful_no_canvas [OF c0 _ A])
    then obtain c1 where c1: "ensureCanvas env n a None ?c0 = Done () c1" "faithful env c1"
      "t_canvas (tile_at c1 a) \<noteq> None" "length (heap c1) = length (heap ?c0)"
      using assms(2) True by (auto simp: gets_canvas_def)
    then show ?thesis
      using True by (simp add: ensureContext_granted [OF assms(1)] faithful_but_mono [OF c1(2)]
          del: ensureContext.simps)
  next
    case False
    then show ?thesis
      using c0 by (auto simp: ensureContext_granted [OF assms(1)] simp del: ensureContext.simps)
  qed
qed

definition collects_next :: "tile_cache \<Rightarrow> bool" where
  "collects_next c \<longleftrightarrow> (gcCounter c + 1) mod 53 = 0"

lemma not_collects_after: "collects_next c \<Longrightarrow> \<not> collects_next (maybeGarbageCollect c)"
  by (simp add: collects_next_def maybeGarbageCollect_def Let_def counter.garbageCollect_closed)
    presburger

lemma gets_context_direct:
  "grants env \<Longrightarrow> \<not> collects_next c \<Longrightarrow> t_canvas (tile_at c a) \<noteq> None \<Longrightarrow> gets_context env (Suc n) a c"
  by (rule gets_contextI) (simp_all add: collects_next_def maybeGarbageCollect_skip)

lemma gets_canvas_no_collect:
  assumes "grants env" "\<not> collects_next c" "a < length (heap c)" "t_canvas (tile_at c a) = None"
  shows "gets_canvas env (Suc (Suc (Suc n))) a now c"
  using assms by (intro gets_canvasI gets_context_direct) (simp_all add: tile_at_upd collects_next_def)

lemma gets_context_canvas:
  assumes "grants env" "a < length (heap c)" "t_canvas (tile_at c a) \<noteq> None"
  shows "gets_context env (Suc (Suc (Suc (Suc n)))) a c"
proof (cases "collects_next c")
  case True
  show ?thesis
  proof (rule gets_contextI [OF assms(1)])
    show "t_canvas (tile_at (maybeGarbageCollect c) a) \<noteq> None \<or>
        gets_canvas env (Suc (Suc (Suc n))) a None (maybeGarbageCollect c)"
      using gets_canvas_no_collect [OF assms(1) not_collects_after [OF True]] assms(2) by fastforce
  qed
qed (use assms gets_context_direct in blast)

lemma gets_canvas_any:
  assumes "grants env" "a < length (heap c)" "t_canvas (tile_at c a) = None"
  shows "gets_canvas env (Suc (Suc (Suc (Suc (Suc (Suc n)))))) a now c"
  using assms by (intro gets_canvasI gets_context_canvas) (simp_all add: tile_at_upd)

lemma gets_context_any:
  assumes "grants env" "a < length (heap c)"
  shows "gets_context env (Suc (Suc (Suc (Suc (Suc (Suc (Suc n))))))) a c"
proof (rule gets_contextI [OF assms(1)])
  show "t_canvas (tile_at (maybeGarbageCollect c) a) \<noteq> None \<or>
      gets_canvas env (Suc (Suc (Suc (Suc (Suc (Suc n)))))) a None (maybeGarbageCollect c)"
    using gets_canvas_any [OF assms(1), of a "maybeGarbageCollect c" n None] assms(2) by fastforce
qed

text \<open>Eight levels of recursion are enough for every entry point.\<close>

definition enough_fuel :: nat where
  "enough_fuel = 8"

lemma enough_fuel_Suc: "enough_fuel + n = Suc (Suc (Suc (Suc (Suc (Suc (Suc (Suc n)))))))"
  by (simp add: enough_fuel_def)

lemma applyDelta_returns:
  assumes "grants env" "decompress_concat env" "faithful env c" "a < length (heap c)"
    and "if isK then wf_key env raw else wf_delta env raw"
  shows "\<exists>c'. applyDelta env (enough_fuel + n) a raw isK True c = Done () c' \<and> faithful env c' \<and>
     length (heap c') = length (heap c)"
proof -
  obtain c1 where c1: "ensureContext env (Suc (Suc (Suc (Suc (Suc (Suc (Suc n))))))) a c = Done True c1"
    "faithful env c1" "t_canvas (tile_at c1 a) \<noteq> None" "length (heap c1) = length (heap c)"
    using gets_context_any [OF assms(1,4), of n] assms(3) by (auto simp: gets_context_def)
  have step: "applyDelta env (enough_fuel + n) a raw isK True c = apply_with_ctx env a raw isK True c1"
    unfolding enough_fuel_Suc using c1(1) by (simp del: ensureContext.simps)
  show ?thesis
  proof (cases isK)
    case True
    then show ?thesis
      using apply_keyframe [of env a c1 raw True] c1 assms(4,5) faithful_but_mono [OF c1(2)] step by auto
  next
    case False
    then show ?thesis
      using apply_delta_keeps [OF assms(2) c1(2) _ c1(3)] c1(4) assms(4,5) step by auto
  qed
qed

lemma ensureCanvas_returns:
  assumes "grants env" "faithful env c" "a < length (heap c)"
  shows "\<exists>c'. ensureCanvas env (enough_fuel + n) a now c = Done () c' \<and> faithful env c'"
proof (cases "t_canvas (tile_at c a) = None")
  case True
  then show ?thesis
    using gets_canvas_any [OF assms(1,3) True, of "Suc (Suc n)" now] assms(2)
    by (auto simp: gets_canvas_def enough_fuel_Suc simp del: ensureCanvas.simps)
next
  case False
  then show ?thesis
    using faithful_rendered [OF assms(2)] by (auto simp: enough_fuel_Suc)
qed

end
