(* ===== verification/Tile_Faithful.thy ===== *)
theory Tile_Faithful
  imports Tile_Render
begin

text \<open>
  The life of a tile over whole runs of the layer: what is on its canvas, when the functions that
  produce it return, and how invalidations and tile messages decide what is fetched again.
\<close>

section \<open>Tile messages\<close>

lemma faithful_queueAck [simp]: "faithful env (queueAcknowledgement m c) = faithful env c"
  by (simp add: queueAcknowledgement_def)

lemma faithful_emit [simp]: "faithful env (emit e c) = faithful env c"
  by (simp add: emit_def)

text \<open>Updates of the fields that neither the stored data nor the canvas depend on.\<close>

definition keeps_pixels :: "(tile \<Rightarrow> tile) \<Rightarrow> bool" where
  "keeps_pixels f \<longleftrightarrow> (\<forall>t. t_rawDeltas (f t) = t_rawDeltas t \<and> t_canvas (f t) = t_canvas t \<and>
     t_imgDataCache (f t) = t_imgDataCache t)"

lemma faithful_keeps: "keeps_pixels f \<Longrightarrow> faithful env c \<Longrightarrow> faithful env (upd_tile a f c)"
  by (rule faithful_but_upd)
    (auto simp: keeps_pixels_def faithful_but_def tile_stored_ok_def tile_faithful_def split: option.splits)

lemma faithful_tileReady: "faithful env c \<Longrightarrow> faithful env (tileReady visible coords now c)"
  by (auto simp: tileReady_def Let_def keeps_pixels_def intro!: faithful_keeps split: option.split)

lemma faithful_createTile:
  assumes "faithful env c" "createTile coords key now c = (a, c')"
  shows "faithful env c'"
proof (cases "tile_addr c key")
  case None
  then have "heap c' = heap c @ [new_tile coords now]" using assms(2) by (auto simp: createTile_def)
  moreover have "tile_faithful env (new_tile coords now)" "tile_stored_ok env (new_tile coords now)"
    by (simp_all add: tile_faithful_def tile_stored_ok_def new_tile_def)
  ultimately show ?thesis
    using assms(1) by (auto simp: faithful_but_def nth_append less_Suc_eq)
qed (use assms in \<open>simp add: createTile_def\<close>)

lemma onTileMsg_more_fuel:
  assumes "onTileMsg env n g visible now m img c \<noteq> OutOfFuel"
  shows "onTileMsg env (n + k) g visible now m img c = onTileMsg env n g visible now m img c"
proof -
  have "applyDelta env n a raw isK True d = OutOfFuel \<or>
      applyDelta env (n + k) a raw isK True d = applyDelta env n a raw isK True d" for a raw isK d
    using more_fuel(2) by blast
  then show ?thesis
    using assms unfolding onTileMsg_def Let_def
    by (auto split: option.split prod.split) (metis obind.simps(3))+
qed

lemma onTileMsg_returns:
  assumes env: "grants env" "decompress_concat env" and c: "faithful env c" "cache_ok c"
    and img: "\<And>i. img = Some i \<Longrightarrow> wf_payload env i"
  shows "\<exists>c'. onTileMsg env (enough_fuel + n) g visible now m img c = Done () c' \<and> faithful env c'"
proof (cases "tm_id m")
  case None
  define coords where "coords = tileMsgToCoords g (tile_msg_pos.truncate m)"
  obtain a c1 where cr: "createTile coords (tc_key coords) now c = (a, c1)" by fastforce
  define c2 where "c2 = upd_tile a (\<lambda>t. t\<lparr>t_viewId := tm_nviewid m, t_wireId := tm_wireId m\<rparr>) c1"
  define c3 where "c3 = (upd_tile a (\<lambda>t. t\<lparr>t_wireId := 0, t_invalidFrom := 0, t_gcErrors := t_gcErrors t + 1\<rparr>) c2)
     \<lparr>fetchKeyframeQueue := fetchKeyframeQueue c2 @ [coords]\<rparr>"
  have f2: "faithful env c2"
    unfolding c2_def by (rule faithful_keeps) (use faithful_createTile [OF c(1) cr] in \<open>simp_all add: keeps_pixels_def\<close>)
  have f3: "faithful env c3"
    unfolding c3_def using faithful_keeps [OF _ f2] by (simp add: keeps_pixels_def)
  have a: "a < length (heap c2)"
    using createTile_ok [OF c(2) cr] cache_okD(3) by (auto simp: c2_def)
  have step: "\<exists>c'. applyDelta env (enough_fuel + n) a (img_rawData i) (img_isKeyframe i) True c2 = Done () c' \<and>
      faithful env c'" if "img = Some i" for i
    using applyDelta_returns [OF env f2 a, of "img_isKeyframe i" "img_rawData i" n] img [OF that]
    by (auto simp: wf_payload_def)
  have "onTileMsg env (enough_fuel + n) g visible now m img c =
     (case img of
        None \<Rightarrow> Done () (queueAcknowledgement m c2)
      | Some i \<Rightarrow>
          (if \<not> img_isKeyframe i \<and> \<not> hasKeyframe (tile_at c2 a) then Done () (queueAcknowledgement m c3)
           else obind (applyDelta env (enough_fuel + n) a (img_rawData i) (img_isKeyframe i) True c2)
                  (\<lambda>_ c4. Done () (queueAcknowledgement m (tileReady visible coords now c4)))))"
    using None unfolding onTileMsg_def Let_def
    by (simp add: coords_def [symmetric] cr c2_def [symmetric] c3_def split: option.split)
  then show ?thesis
    using f2 f3 step by (cases img) (auto intro: faithful_tileReady)
qed (use c in \<open>simp add: onTileMsg_def\<close>)

section \<open>Faithfulness over whole runs\<close>

lemma faithful_invalidate: "faithful env c \<Longrightarrow> faithful env (invalidateTile k w c)"
  by (auto simp: invalidateTile_def Let_def keeps_pixels_def
      intro!: shown.I_remove faithful_keeps split: option.split)

lemma faithful_cache_step:
  assumes env: "grants env" "decompress_concat env"
  shows "cache_step (wf_payload env) env g c c' \<Longrightarrow> cache_ok c \<Longrightarrow> faithful env c \<Longrightarrow> faithful env c'"
proof (induction rule: cache_step.induct)
  case (create coords now c a c')
  then show ?case by (blast intro: faithful_createTile)
next
  case (removeAll c)
  then show ?case unfolding removeAllTiles_def by (intro shown.fold_closed shown.I_remove)
next
  case (mark c k a b)
  then show ?case by (intro faithful_keeps) (simp_all add: keeps_pixels_def)
next
  case (render c k a fuel now u c')
  then show ?case
    using ensureCanvas_returns [OF env(1), of c a fuel "Some now"] cache_okD(3) [of c k a]
      more_fuel(1) [of env fuel a "Some now" c enough_fuel] by (auto simp: add.commute)
next
  case (render_throw c k a fuel now e c')
  then show ?case
    using ensureCanvas_returns [OF env(1), of c a fuel "Some now"] cache_okD(3) [of c k a]
      more_fuel(1) [of env fuel a "Some now" c enough_fuel] by (auto simp: add.commute)
next
  case (message img fuel visible now m c u c')
  then show ?case
    using onTileMsg_returns [OF env, of c img fuel g visible now m]
      onTileMsg_more_fuel [of env fuel g visible now m img c enough_fuel] by (auto simp: add.commute)
next
  case (message_throw img fuel visible now m c e c')
  then show ?case
    using onTileMsg_returns [OF env, of c img fuel g visible now m]
      onTileMsg_more_fuel [of env fuel g visible now m img c enough_fuel] by (auto simp: add.commute)
qed (auto intro: shown.I_remove shown.garbageCollect_closed faithful_invalidate)

lemma faithful_reachable:
  "cache_reachable (wf_payload env) env g c \<Longrightarrow> grants env \<Longrightarrow> decompress_concat env \<Longrightarrow> faithful env c"
proof (induction rule: cache_reachable.induct)
  case init
  then show ?case by (simp add: faithful_but_def empty_cache_def)
next
  case (step c c')
  then show ?case by (meson cache_reachable_ok faithful_cache_step)
qed

section \<open>A current tile keeps its place\<close>

text \<open>
  The canvas functions may collect garbage on the way, but a tile that is shown stays in the
  dictionary with its wire id and its invalidation mark.
\<close>

definition kept :: "string \<Rightarrow> nat \<Rightarrow> int \<Rightarrow> int \<Rightarrow> tile_cache \<Rightarrow> bool" where
  "kept k a w v c \<longleftrightarrow> cache_ok c \<and> tile_addr c k = Some a \<and> t_current (tile_at c a) \<and>
     t_wireId (tile_at c a) = w \<and> t_invalidFrom (tile_at c a) = v"

lemma kept_collected: "kept k a w v c \<Longrightarrow> collected c c' \<Longrightarrow> cache_ok c' \<Longrightarrow> kept k a w v c'"
  using cache_okD(3) [of c k a] by (auto simp: kept_def collected_def tile_collected_def)

interpretation kept: canvas_closed "kept k a w v" for k a w v
proof unfold_locales
  fix f :: "tile \<Rightarrow> tile" and c b
  assume f: "\<And>t. same_meta t (f t)" and c: "kept k a w v c"
  have "cache_ok (upd_tile b f c)" using c f by (intro cache_ok_upd) (simp_all add: kept_def same_meta_def)
  then show "kept k a w v (upd_tile b f c)"
    using c f [of "tile_at c b"] cache_okD(3) [of c k a] by (auto simp: kept_def tile_at_upd same_meta_def)
next
  fix c
  assume c: "kept k a w v c"
  then show "kept k a w v (garbageCollect c)"
    by (intro kept_collected [OF c] garbageCollect_collected wf.garbageCollect_closed) (simp_all add: kept_def)
qed (simp_all add: kept_def)

section \<open>A browser that denies every context\<close>

definition denies :: "env \<Rightarrow> bool" where
  "denies env \<longleftrightarrow> (\<forall>n. \<not> env_ctx env n)"

text \<open>A tile that is shown and has a keyframe, the state in which the recursion starts.\<close>

definition shown_key :: "string \<Rightarrow> nat \<Rightarrow> tile_cache \<Rightarrow> bool" where
  "shown_key k a c \<longleftrightarrow> cache_ok c \<and> tile_addr c k = Some a \<and> t_current (tile_at c a) \<and> hasKeyframe (tile_at c a)"

lemma shown_key_collected: "shown_key k a c \<Longrightarrow> collected c c' \<Longrightarrow> cache_ok c' \<Longrightarrow> shown_key k a c'"
  using cache_okD(3) [of c k a]
  by (auto simp: shown_key_def collected_def tile_collected_def hasKeyframe_def)

lemma shown_key_gc: "shown_key k a c \<Longrightarrow> shown_key k a (garbageCollect c)"
  by (rule shown_key_collected [OF _ garbageCollect_collected wf.garbageCollect_closed]) (auto simp: shown_key_def)

lemma shown_key_fields [simp]:
  "shown_key k a (c\<lparr>ctxCalls := n\<rparr>) = shown_key k a c" "shown_key k a (c\<lparr>gcCounter := i\<rparr>) = shown_key k a c"
  by (simp_all add: shown_key_def)

lemma shown_key_maybeGC: "shown_key k a c \<Longrightarrow> shown_key k a (maybeGarbageCollect c)"
  by (auto simp: maybeGarbageCollect_def Let_def intro: shown_key_gc)

lemma collected_reclaim_where: "cache_ok c \<Longrightarrow> collected c (reclaim_where p c)"
  unfolding reclaim_where_def
  by (rule collected_fold) (auto intro: collected_reclaim_key wf.reclaim_closed)

lemma shown_key_reclaim_where: "shown_key k a c \<Longrightarrow> shown_key k a (reclaim_where p c)"
  by (rule shown_key_collected [OF _ collected_reclaim_where wf.reclaim_where_closed]) (auto simp: shown_key_def)

lemma reclaim_all_no_canvas:
  assumes "shown_key k a c"
  shows "t_canvas (tile_at (reclaim_where (\<lambda>t. True) c) a) = None"
proof -
  let ?c = "reclaim_where (\<lambda>t. True) c"
  have c: "?c = fold reclaim_key (obj_keys (tiles c)) c" by (simp add: reclaim_where_def)
  have ok: "cache_ok c" "tile_addr c k = Some a" using assms by (auto simp: shown_key_def)
  have "shown_key k a ?c" by (rule shown_key_reclaim_where [OF assms])
  moreover have "k \<notin> set (canvas_keys ?c)"
    using fold_reclaim_not_canvas [OF ok(1), of "obj_keys (tiles c)"] ok(2) c obj_get_iff_key [of "tiles c" k] by auto
  ultimately show ?thesis
    using canvas_keys_iff [of ?c k] by (auto simp: shown_key_def)
qed

text \<open>An attempt with a canvas in place fails and leaves the situation as it was.\<close>

lemma with_context_denied:
  assumes "denies env" "shown_key k a c"
    and ens: "\<And>c. shown_key k a c \<Longrightarrow> t_canvas (tile_at c a) = None \<Longrightarrow> ensureCanvas env n a None c = OutOfFuel"
    and next_attempt: "\<And>c. shown_key k a c \<Longrightarrow> r c = OutOfFuel"
  shows "with_context env (\<lambda>c. if t_canvas (tile_at c a) = None then ensureCanvas env n a None c else Done () c) c r
     = OutOfFuel"
  using assms by (auto simp: with_context_def getContext_def denies_def next_attempt)

lemma ensureContext_denied:
  assumes env: "denies env"
  shows "shown_key k a c \<Longrightarrow> ensureContext env n a c = OutOfFuel"
proof (induction n arbitrary: c rule: less_induct)
  case (less n)
  show ?case
  proof (cases n)
    case (Suc m)
    have ens: "ensureCanvas env m a None c = OutOfFuel" if c: "shown_key k a c" "t_canvas (tile_at c a) = None" for c
    proof (cases m)
      case m: (Suc m')
      have a: "a < length (heap c)" using c(1) cache_okD(3) by (auto simp: shown_key_def)
      let ?c1 = "upd_tile a (\<lambda>t. t\<lparr>t_canvas := Some (blank_canvas env)\<rparr>) c"
      have "cache_ok ?c1" using c(1) by (intro cache_ok_upd) (auto simp: shown_key_def)
      then have s1: "shown_key k a ?c1"
        using c(1) a by (auto simp: shown_key_def tile_at_upd hasKeyframe_def)
      have "applyDelta env m' a raw True False ?c1 = OutOfFuel" for raw
      proof (cases m')
        case (Suc l)
        then have "ensureContext env l a ?c1 = OutOfFuel" using less.IH [OF _ s1] \<open>n = Suc m\<close> m by simp
        then show ?thesis using Suc by simp
      qed simp
      then show ?thesis using m c(2) s1 by (simp add: shown_key_def)
    qed simp
    have last: "with_context env (\<lambda>c. if t_canvas (tile_at c a) = None then ensureCanvas env m a None c else Done () c)
        (reclaim_where (\<lambda>t. True) c) r = OutOfFuel" if "shown_key k a c" for c r
      using reclaim_all_no_canvas [OF that] ens [OF shown_key_reclaim_where [OF that]]
      by (simp add: with_context_def)
    show ?thesis
      unfolding Suc ensureContext.simps Let_def
      by (intro last with_context_denied [OF env] ens shown_key_reclaim_where shown_key_gc shown_key_maybeGC less.prems)
        (rule less.prems)
  qed simp
qed

section \<open>Properties\<close>

text \<open>
  C1 (functional). Whatever the layer does - create, remove, invalidate, mark, render, collect,
  handle messages - a tile that has both stored data and a canvas shows exactly the image that the
  stored data decode to, provided that the browser grants contexts, the server's payloads are
  keyframes and deltas of the documented form, and the decompressor concatenates frames.
\<close>

theorem canvas_shows_stored_data:
  assumes "grants env" "decompress_concat env" "cache_reachable (wf_payload env) env g c"
    and "tile_addr c k = Some a" "t_rawDeltas (tile_at c a) = Some raw" "t_canvas (tile_at c a) = Some img"
  shows "render env raw = Some img"
proof -
  have "faithful env c" by (rule faithful_reachable [OF assms(3,1,2)])
  moreover have "a < length (heap c)" by (rule cache_okD(3) [OF cache_reachable_ok [OF assms(3)] assms(4)])
  ultimately show ?thesis using assms(5,6) by (auto simp: faithful_but_def tile_faithful_def)
qed

text \<open>A run: one tile of a single pixel, sent as a keyframe, then changed by a delta.\<close>

definition wit_env :: env where
  "wit_env = \<lparr>env_ctx = (\<lambda>n. True), env_decompress = Some, env_tileSize = 1\<rparr>"

definition wit_geom :: layer_geom where
  "wit_geom = \<lparr>tileSize = 256, tileWidthPx = 256, tileHeightPx = 256, tileWidthTwips = 3840,
     tileHeightTwips = 3840, docWidthTwips = 12240, docHeightTwips = 15840, dpiScale = 1\<rparr>"

definition wit_msg :: "int \<Rightarrow> tile_msg" where
  "wit_msg wid = \<lparr>tm_x = 3840, tm_y = 0, tm_tileWidth = 3840, tm_tileHeight = 3840, tm_zoom = 10,
     tm_part = 0, tm_mode = None, tm_id = None, tm_wireId = wid, tm_nviewid = 0\<rparr>"

definition wit_key :: tile_img where
  "wit_key = \<lparr>img_isKeyframe = True, img_rawData = [10, 20, 30, 255]\<rparr>"

definition wit_delta :: tile_img where
  "wit_delta = \<lparr>img_isKeyframe = False, img_rawData = encode_frames [[NewRun 0 0 [1, 2, 3, 255]]]\<rparr>"

definition outcome_state :: "'a outcome \<Rightarrow> tile_cache" where
  "outcome_state r = (case r of Done x c \<Rightarrow> c | Thrown e c \<Rightarrow> c | OutOfFuel \<Rightarrow> empty_cache)"

definition wit_c1 :: tile_cache where
  "wit_c1 = outcome_state (onTileMsg wit_env enough_fuel wit_geom (\<lambda>_. True) 5 (wit_msg 1) (Some wit_key) empty_cache)"

definition wit_c2 :: tile_cache where
  "wit_c2 = outcome_state (onTileMsg wit_env enough_fuel wit_geom (\<lambda>_. True) 6 (wit_msg 2) (Some wit_delta) wit_c1)"

lemma wit_envs: "grants wit_env" "decompress_concat wit_env"
  by (simp_all add: wit_env_def grants_def decompress_concat_def dec_is_def)

lemma wit_payload: "wf_payload wit_env wit_key" "wf_payload wit_env wit_delta"
proof -
  define pix :: bytes where "pix = [10, 20, 30, 255]"
  have raw: "img_rawData wit_key = pix @ encode_frames []"
    by (simp add: wit_key_def encode_frames_def pix_def)
  have "pix \<noteq> []" "length pix = frame_size wit_env" by (simp_all add: pix_def wit_env_def frame_size_def)
  moreover have "frames_ok []" "dec_is wit_env (img_rawData wit_key) (pix @ encode_frames [])"
    by (simp_all add: raw wit_env_def dec_is_def frames_ok_def)
  ultimately have "wf_key wit_env (img_rawData wit_key)"
    unfolding wf_key_def by (intro conjI exI [of _ pix] exI [of _ "[]"]) (simp_all add: raw)
  then show "wf_payload wit_env wit_key" by (simp add: wf_payload_def wit_key_def)
  have "frames_ok [[NewRun 0 0 [1, 2, 3, 255]]]"
    "dec_is wit_env (img_rawData wit_delta) (encode_frames [[NewRun 0 0 [1, 2, 3, 255]]])"
    by (simp_all add: frames_ok_def dec_is_def wit_env_def wit_delta_def)
  then have "wf_delta wit_env (img_rawData wit_delta)" unfolding wf_delta_def by blast
  then show "wf_payload wit_env wit_delta" by (simp add: wf_payload_def wit_delta_def)
qed

lemma wit_step:
  assumes "cache_reachable (wf_payload wit_env) wit_env g c" "wf_payload wit_env i"
    "onTileMsg wit_env enough_fuel g visible now m (Some i) c = Done () c'"
  shows "cache_reachable (wf_payload wit_env) wit_env g c'"
  by (rule cache_reachable.step [OF assms(1)], rule cache_step.message [OF _ assms(3)]) (use assms(2) in simp)

lemma wit_reach:
  assumes "cache_reachable (wf_payload wit_env) wit_env g c" "wf_payload wit_env i"
  shows "cache_reachable (wf_payload wit_env) wit_env g
     (outcome_state (onTileMsg wit_env enough_fuel g visible now m (Some i) c))"
proof -
  have "\<exists>c'. onTileMsg wit_env (enough_fuel + 0) g visible now m (Some i) c = Done () c' \<and> faithful wit_env c'"
    by (rule onTileMsg_returns [OF wit_envs faithful_reachable [OF assms(1) wit_envs] cache_reachable_ok [OF assms(1)]])
      (use assms(2) in simp)
  then show ?thesis using wit_step [OF assms] by (auto simp: outcome_state_def)
qed

lemma wit_reachable:
  "cache_reachable (wf_payload wit_env) wit_env wit_geom wit_c1"
  "cache_reachable (wf_payload wit_env) wit_env wit_geom wit_c2"
proof -
  show r1: "cache_reachable (wf_payload wit_env) wit_env wit_geom wit_c1"
    unfolding wit_c1_def by (rule wit_reach [OF cache_reachable.init wit_payload(1)])
  show "cache_reachable (wf_payload wit_env) wit_env wit_geom wit_c2"
    unfolding wit_c2_def by (rule wit_reach [OF r1 wit_payload(2)])
qed

lemma wit_c2_tile:
  "tile_addr wit_c2 ''256:0:10:0:0'' = Some 0"
  "t_rawDeltas (tile_at wit_c2 0) = Some [10, 20, 30, 255, 100, 0, 0, 1, 1, 2, 3, 255, 116]"
  "t_canvas (tile_at wit_c2 0) = Some [1, 2, 3, 255]"
  by code_simp+

theorem canvas_shows_stored_data_witness:
  "render wit_env [10, 20, 30, 255, 100, 0, 0, 1, 1, 2, 3, 255, 116] = Some [1, 2, 3, 255]"
  by (rule canvas_shows_stored_data [OF wit_envs wit_reachable(2) wit_c2_tile])

text \<open>
  C30 (termination). In the same situation eight levels of recursion are enough: rendering a tile
  returns normally, and so does the handler of every tile message the server can send.
\<close>

theorem rendering_terminates:
  assumes "grants env" "decompress_concat env" "cache_reachable (wf_payload env) env g c"
    and "tile_addr c k = Some a" "enough_fuel \<le> fuel" "\<And>i. img = Some i \<Longrightarrow> wf_payload env i"
  shows "(\<exists>c'. ensureCanvas env fuel a (Some now) c = Done () c') \<and>
     (\<exists>c'. onTileMsg env fuel g visible now m img c = Done () c')"
proof -
  obtain n where n: "fuel = enough_fuel + n" using assms(5) le_Suc_ex by blast
  have c: "faithful env c" "cache_ok c"
    by (rule faithful_reachable [OF assms(3,1,2)], rule cache_reachable_ok [OF assms(3)])
  show ?thesis
    using ensureCanvas_returns [OF assms(1) c(1) cache_okD(3) [OF c(2) assms(4)], of n "Some now"]
      onTileMsg_returns [OF assms(1,2) c assms(6), of img n g visible now m] n by blast
qed

lemma wit_c1_tile: "tile_addr wit_c1 ''256:0:10:0:0'' = Some 0" "t_current (tile_at wit_c1 0)"
  "hasKeyframe (tile_at wit_c1 0)" "t_wireId (tile_at wit_c1 0) = 1" "t_invalidFrom (tile_at wit_c1 0) = 0"
  by code_simp+

theorem rendering_terminates_witness:
  "\<exists>c'. onTileMsg wit_env enough_fuel wit_geom (\<lambda>_. True) 6 (wit_msg 2) (Some wit_delta) wit_c1 = Done () c'"
  using rendering_terminates [OF wit_envs wit_reachable(1) wit_c1_tile(1) order_refl, of "Some wit_delta" 6
      "\<lambda>_. True" "wit_msg 2"] wit_payload(2) by blast

text \<open>
  If the browser grants no context, then for a tile that is shown and has a keyframe
  \<open>_ensureContext\<close> never returns, however deep the recursion may go: the last attempt frees the
  tile's own canvas, re-creating it applies the keyframe, and that asks for the context again. The
  final \<open>return null\<close> is never reached.
\<close>

theorem out_of_memory_recurses_forever:
  assumes "\<forall>n. \<not> env_ctx env n" and "cache_ok c" "tile_addr c k = Some a" "t_current (tile_at c a)"
    "hasKeyframe (tile_at c a)"
  shows "\<forall>fuel. ensureContext env fuel a c = OutOfFuel"
  using ensureContext_denied [of env k a c] assms by (simp add: denies_def shown_key_def)

theorem out_of_memory_recurses_forever_witness:
  "\<forall>fuel. ensureContext (wit_env\<lparr>env_ctx := \<lambda>n. False\<rparr>) fuel 0 wit_c1 = OutOfFuel"
  using out_of_memory_recurses_forever [OF _ cache_reachable_ok [OF wit_reachable(1)] wit_c1_tile(1-3)] by simp

lemma rawDeltas_after_keyframe:
  assumes "a < length (heap c)" "apply_with_ctx env a raw True True c = Done () c'"
  shows "t_rawDeltas (tile_at c' a) = Some raw"
proof -
  have "t_rawDeltas t' = t_rawDeltas t" if "paint env raw True t = Inr t'" for t t'
    using that by (auto simp: paint_def Let_def split: option.splits sum.splits)
  then show ?thesis
    using assms by (auto simp: apply_with_ctx_def store_raw_def Let_def tile_at_upd split: sum.splits)
qed

lemma keyframe_fetched:
  assumes "grants env" "kept k a w v c" "v < w" "raw \<noteq> []"
    and "applyDelta env n a raw True True c = Done () c'"
  shows "kept k a w v c'" "\<not> needsFetch (tile_at c' a)"
proof -
  show kept': "kept k a w v c'"
    using kept.canvas_functions_closed(2) [OF assms(2), of env n a raw True True] assms(5) by simp
  obtain m where n: "n = Suc m" using assms(5) by (cases n) auto
  obtain ctx c1 where c1: "ensureContext env m a c = Done ctx c1"
    "(if \<not> ctx then Done () c1 else apply_with_ctx env a raw True True c1) = Done () c'"
    using assms(5) unfolding n by (cases "ensureContext env m a c") auto
  have "ctx"
    using c1(1) ensureContext_granted [OF assms(1)] by (cases m) (auto elim: obind.elims)
  moreover have "kept k a w v c1"
    using kept.canvas_functions_closed(3) [OF assms(2), of env m a] c1(1) by simp
  then have "a < length (heap c1)" using cache_okD(3) by (auto simp: kept_def)
  ultimately have "t_rawDeltas (tile_at c' a) = Some raw" using rawDeltas_after_keyframe c1(2) by simp
  then show "\<not> needsFetch (tile_at c' a)"
    using kept' assms(3,4) by (simp add: needsFetch_def hasContent_def hasKeyframe_def kept_def)
qed

lemma tileReady_keeps_fetch:
  assumes "kept k a w v c" "\<not> needsFetch (tile_at c a)"
  shows "\<not> tileNeedsFetch k (queueAcknowledgement m (tileReady visible coords now c))"
proof -
  have a: "a < length (heap c)" "tile_addr c k = Some a" using assms(1) cache_okD(3) by (auto simp: kept_def)
  have "\<not> needsFetch (tile_at (tileReady visible coords now c) a)"
    using assms(2) a(1) by (auto simp: tileReady_def Let_def tile_at_upd needsFetch_def hasContent_def hasKeyframe_def
        split: option.splits)
  moreover have "tiles (tileReady visible coords now c) = tiles c"
    by (simp add: tileReady_def Let_def split: option.split)
  ultimately show ?thesis using a(2) by (simp add: tileNeedsFetch_def queueAcknowledgement_def)
qed

text \<open>
  A tile that is invalidated without a wire id, or at one that is not older than
  the tile's own, has to be fetched afterwards.
\<close>

theorem invalidated_needs_fetch:
  assumes "cache_ok c" "wireId = 0 \<or> (\<forall>a. tile_addr c key = Some a \<longrightarrow> t_wireId (tile_at c a) \<le> wireId)"
  shows "tileNeedsFetch key (invalidateTile key wireId c)"
proof (cases "tile_addr c key")
  case (Some a)
  then have "a < length (heap c)" by (rule cache_okD(3) [OF assms(1)])
  with Some assms show ?thesis
    by (auto simp: invalidateTile_def tileNeedsFetch_def needsFetch_def Let_def tile_at_upd)
qed (simp add: invalidateTile_def tileNeedsFetch_def)

theorem invalidated_needs_fetch_witness:
  "tileNeedsFetch ''256:0:10:0:0'' (invalidateTile ''256:0:10:0:0'' 1 wit_c1)"
  using invalidated_needs_fetch [OF cache_reachable_ok [OF wit_reachable(1)], of 1 "''256:0:10:0:0''"]
    wit_c1_tile by simp

text \<open>
  Once a keyframe with a newer wire id than the last invalidation has been handled
  for a tile that is shown, or not yet known, the tile need not be fetched any more, even if the
  handler collected garbage on the way.
\<close>

theorem keyframe_ends_fetch:
  assumes "grants env" "cache_ok c" "tm_id m = None" "img_isKeyframe i" "img_rawData i \<noteq> []"
    and "0 < tm_wireId m"
    and "\<forall>a. tile_addr c (tc_key (tileMsgToCoords g (tile_msg_pos.truncate m))) = Some a \<longrightarrow>
       t_current (tile_at c a) \<and> t_invalidFrom (tile_at c a) < tm_wireId m"
    and "onTileMsg env fuel g visible now m (Some i) c = Done () c'"
  shows "\<not> tileNeedsFetch (tc_key (tileMsgToCoords g (tile_msg_pos.truncate m))) c'"
proof -
  define coords where "coords = tileMsgToCoords g (tile_msg_pos.truncate m)"
  obtain a c1 where cr: "createTile coords (tc_key coords) now c = (a, c1)" by fastforce
  define c2 where "c2 = upd_tile a (\<lambda>t. t\<lparr>t_viewId := tm_nviewid m, t_wireId := tm_wireId m\<rparr>) c1"
  obtain c3 where c3: "applyDelta env fuel a (img_rawData i) True True c2 = Done () c3"
    "c' = queueAcknowledgement m (tileReady visible coords now c3)"
    using assms(3,4,8) unfolding onTileMsg_def Let_def
    by (auto simp: coords_def [symmetric] cr c2_def [symmetric] elim!: obind.elims)
  have ok: "cache_ok c1" "tile_addr c1 (tc_key coords) = Some a" using createTile_ok [OF assms(2) cr] by auto
  have "cache_ok c2" unfolding c2_def by (rule cache_ok_upd [OF _ ok(1)]) simp
  moreover have "t_current (tile_at c1 a) \<and> t_invalidFrom (tile_at c1 a) < tm_wireId m"
    using assms(6,7) cr unfolding coords_def [symmetric]
    by (auto simp: createTile_def new_tile_def split: option.splits)
  ultimately have "kept (tc_key coords) a (tm_wireId m) (t_invalidFrom (tile_at c1 a)) c2"
    "t_invalidFrom (tile_at c1 a) < tm_wireId m"
    using ok(2) cache_okD(3) [OF ok] by (auto simp: kept_def c2_def tile_at_upd)
  from keyframe_fetched [OF assms(1) this assms(5) c3(1)] show ?thesis
    unfolding c3(2) coords_def [symmetric] by (rule tileReady_keeps_fetch)
qed

lemma wit_c1_done:
  "onTileMsg wit_env enough_fuel wit_geom (\<lambda>_. True) 5 (wit_msg 1) (Some wit_key) empty_cache = Done () wit_c1"
  unfolding wit_c1_def by code_simp

lemma wit_key_name: "tc_key (tileMsgToCoords wit_geom (tile_msg_pos.truncate (wit_msg 1))) = ''256:0:10:0:0''"
  by code_simp

lemma wit_msg_fields: "tm_id (wit_msg w) = None" "tm_wireId (wit_msg w) = w"
  by (simp_all add: wit_msg_def)

theorem keyframe_ends_fetch_witness: "\<not> tileNeedsFetch ''256:0:10:0:0'' wit_c1"
  using keyframe_ends_fetch [OF wit_envs(1) cache_ok_empty _ _ _ _ _ wit_c1_done]
  by (simp add: wit_key_name wit_msg_fields wit_key_def empty_cache_def)

end
