(* ===== verification/Exchange_Sort.thy ===== *)
theory Exchange_Sort
  imports Main "HOL-Library.Multiset"
begin

text \<open>
  The exchange sort that the client writes out in several places: two nested loops over \<open>i < j\<close> that swap the entries at
  \<open>i\<close> and \<open>j\<close> when a test \<open>gt\<close> finds them in the wrong order. It sorts the file-based tile queue
  (\<open>_sortFileBasedQueue\<close>, layer/tile/CanvasTileLayer.js) and the sections of the canvas (\<open>orderSections\<close>,
  \<open>orderBoundsList\<close> and, within runs of equal \<open>zIndex\<close>, \<open>applyDrawingOrders\<close>, layer/tile/CanvasSectionContainer.ts).
  What the test must satisfy is the locale \<open>exchange_order\<close>; each component interprets it with its own test.
\<close>

section \<open>The loops\<close>

text \<open>The inner loop over \<open>j\<close>: the entry at \<open>i\<close> and the entries behind it.\<close>

fun exchange_pass :: "('a \<Rightarrow> 'a \<Rightarrow> bool) \<Rightarrow> 'a \<Rightarrow> 'a list \<Rightarrow> 'a \<times> 'a list" where
  "exchange_pass gt a [] = (a, [])"
| "exchange_pass gt a (b # bs) =
     (if gt a b then (case exchange_pass gt b bs of (m, r) \<Rightarrow> (m, a # r))
      else (case exchange_pass gt a bs of (m, r) \<Rightarrow> (m, b # r)))"

lemma exchange_pass_mset: "exchange_pass gt a bs = (m, r) \<Longrightarrow> add_mset m (mset r) = add_mset a (mset bs)"
  by (induction bs arbitrary: a m r) (force split: if_splits prod.splits simp: add_mset_commute)+

lemma exchange_pass_length: "exchange_pass gt a bs = (m, r) \<Longrightarrow> length r = length bs"
  by (induction bs arbitrary: a m r) (auto split: if_splits prod.splits)

lemma exchange_pass_set: "exchange_pass gt a bs = (m, r) \<Longrightarrow> insert m (set r) = insert a (set bs)"
  by (metis exchange_pass_mset set_mset_mset set_mset_add_mset_insert)

text \<open>The outer loop over \<open>i\<close>.\<close>

function exchange_sort :: "('a \<Rightarrow> 'a \<Rightarrow> bool) \<Rightarrow> 'a list \<Rightarrow> 'a list" where
  "exchange_sort gt [] = []"
| "exchange_sort gt (a # bs) = (case exchange_pass gt a bs of (m, r) \<Rightarrow> m # exchange_sort gt r)"
  by pat_completeness auto
termination
  by (relation "measure (length \<circ> snd)") (auto dest!: exchange_pass_length [OF sym])

lemma exchange_sort_mset [simp]: "mset (exchange_sort gt xs) = mset xs"
  by (induction gt xs rule: exchange_sort.induct) (auto split: prod.split dest!: exchange_pass_mset)

lemma exchange_sort_set [simp]: "set (exchange_sort gt xs) = set xs"
  by (metis exchange_sort_mset set_mset_mset)

lemma exchange_sort_length [simp]: "length (exchange_sort gt xs) = length xs"
  by (metis exchange_sort_mset size_mset)

lemma exchange_sort_distinct [simp]: "distinct (exchange_sort gt xs) = distinct xs"
  by (metis exchange_sort_mset mset_eq_imp_distinct_iff)

section \<open>Sorting\<close>

text \<open>The contract of the test: its negation is a total preorder.\<close>

locale exchange_order =
  fixes gt :: "'a \<Rightarrow> 'a \<Rightarrow> bool"
  assumes gt_irrefl: "\<not> gt a a"
    and gt_asym: "gt a b \<Longrightarrow> \<not> gt b a"
    and le_trans: "\<not> gt a b \<Longrightarrow> \<not> gt b c \<Longrightarrow> \<not> gt a c"
begin

lemma pass_min: "exchange_pass gt a bs = (m, r) \<Longrightarrow> \<not> gt m a \<and> (\<forall>x \<in> set r. \<not> gt m x)"
proof (induction bs arbitrary: a m r)
  case Nil
  then show ?case by (simp add: gt_irrefl)
next
  case (Cons b bs)
  show ?case
  proof (cases "gt a b")
    case True
    then obtain r' where r: "exchange_pass gt b bs = (m, r')" "r = a # r'"
      using Cons.prems by (auto split: prod.splits)
    then show ?thesis using Cons.IH [OF r(1)] le_trans [of m b a] gt_asym [OF True] by auto
  next
    case False
    then obtain r' where r: "exchange_pass gt a bs = (m, r')" "r = b # r'"
      using Cons.prems by (auto split: prod.splits)
    then show ?thesis using Cons.IH [OF r(1)] le_trans [of m a b] False by auto
  qed
qed

lemma sort_sorted: "sorted_wrt (\<lambda>a b. \<not> gt a b) (exchange_sort gt xs)"
proof (induction xs rule: length_induct)
  case (1 xs)
  show ?case
  proof (cases xs)
    case (Cons a bs)
    obtain m r where p: "exchange_pass gt a bs = (m, r)" by fastforce
    have "length r < length xs" using exchange_pass_length [OF p] Cons by simp
    then show ?thesis using 1 pass_min [OF p] p Cons by simp
  qed simp
qed

end

end
