(* ===== verification/Tile_Requests.thy ===== *)
theory Tile_Requests
  imports Tile_Cache Exchange_Sort
begin

text \<open>
  How \<open>L.CanvasTileLayer\<close> decides which tiles to ask the server for (layer/tile/CanvasTileLayer.js):
  the tiles of the visible area that are missing, their grouping into rectangles, and the
  \<open>tilecombine\<close> messages. \<open>getPxBoundList\<close> is from layer/SplitPanesContext.ts.
\<close>

named_theorems request_defs "definitions of the request functions"

section \<open>The layer\<close>

datatype doc_type = Text | Spreadsheet | Presentation | Drawing

text \<open>
  What the request functions read of the map is part of the state: \<open>pixelBoundsCore\<close> and
  \<open>pixelBounds\<close> are the values of \<open>map.getPixelBoundsCore(center, zoom)\<close> and
  \<open>map.getPixelBounds()\<close>, \<open>mapZoom\<close> is the rounded zoom. \<open>sendLive\<close> is the condition
  \<open>!map._fatal && app.idleHandler._active && app.socket.connected()\<close>. A pending timer is a
  field that is set (with the values its callback has captured). \<open>viewedRectangle\<close> is
  \<open>app.file.viewedRectangle\<close> and \<open>documentBounds\<close> the section container's \<open>getDocumentBounds()\<close>;
  both entries of \<open>app.tile.size.pixels\<close> are the tile size, as \<open>_reset\<close> sets them.
\<close>

record layer =
  geom :: layer_geom
  cache :: tile_cache
  selectedPart :: int
  selectedMode :: int
  splitPos :: "rat point option"
  docType :: doc_type
  documentInfo :: string
  canonicalIdInitialized :: bool
  gotFirstCellCursor :: bool
  docLoaded :: bool
  sendLive :: bool
  mapSize :: "int point"
  mapZoom :: int
  partsDirection :: int
  pixelBoundsCore :: "rat bounds"
  pixelBounds :: "rat bounds"
  clientVisibleArea :: string
  clientZoom :: string
  xSplitter :: "bool option"
  ySplitter :: "bool option"
  updateTimer :: bool
  partTilePreFetcher :: bool
  adjacentTilePreFetcher :: "(rat bounds \<times> int) option"
  fileBasedView :: bool
  isZooming :: bool
  partWidthTwips :: int
  partHeightTwips :: int
  spaceBetweenParts :: int
  partCount :: int
  viewedRectangle :: rectangle
  documentBounds :: "int bounds"

definition send :: "string \<Rightarrow> layer \<Rightarrow> layer" where
  "send msg ly = ly\<lparr>cache := emit (SendMessage msg) (cache ly)\<rparr>"

section \<open>The panes of a split view\<close>

definition getPxBoundList :: "rat point \<Rightarrow> rat bounds \<Rightarrow> rat bounds list" where
  [request_defs]: "getPxBoundList split b =
     (let topLeft = bounds_getTopLeft b;
          bottomRight = bounds_getBottomRight b;
          l1 = (if px split \<noteq> 0 \<and> py split \<noteq> 0 then [bounds_of (Pt 0 0) split] else []);
          l2 = (if py split \<noteq> 0
                then l1 @ [bounds_of (Pt (px topLeft + px split) 0) (Pt (px bottomRight) (py split))] else l1);
          l3 = (if px split \<noteq> 0
                then l2 @ [bounds_of (Pt 0 (py topLeft + py split)) (Pt (px split) (py bottomRight))] else l2)
      in if l3 = [] then [bounds_of topLeft bottomRight]
         else l3 @ [bounds_of (point_add topLeft split) bottomRight])"

definition pxBoundsToTileRanges :: "layer \<Rightarrow> rat bounds \<Rightarrow> int bounds list" where
  [request_defs]: "pxBoundsToTileRanges ly b =
     (case splitPos ly of
        None \<Rightarrow> [pxBoundsToTileRange (geom ly) b]
      | Some split \<Rightarrow> map (pxBoundsToTileRange (geom ly)) (getPxBoundList split b))"

text \<open>The grid positions of a range in the order of the two nested loops.\<close>

definition range_positions :: "int bounds \<Rightarrow> (int \<times> int) list" where
  "range_positions r =
     concat (map (\<lambda>j. map (\<lambda>i. (i, j)) [px (bmin r)..px (bmax r)]) [py (bmin r)..py (bmax r)])"

definition grid_coords :: "layer_geom \<Rightarrow> int \<Rightarrow> int \<Rightarrow> int \<Rightarrow> int \<times> int \<Rightarrow> tile_coords" where
  "grid_coords g zoom part mode ij = TileCoordData (fst ij * tileSize g) (snd ij * tileSize g) zoom part (Some mode)"

section \<open>Combined requests\<close>

text \<open>
  One \<open>tilecombine\<close> message: its part and mode and, per tile, the coordinates and the wire id of
  the copy we have.
\<close>

record tile_request =
  rq_part :: int
  rq_mode :: int
  rq_tiles :: "(tile_coords \<times> int) list"

definition pmKey :: "tile_coords \<Rightarrow> int" where
  [request_defs]: "pmKey c = to_int32 (tc_part c * 256) + tc_mode c"

definition add_to_bucket :: "tile_coords \<Rightarrow> (int, tile_coords list) object \<Rightarrow> (int, tile_coords list) object" where
  [request_defs]: "add_to_bucket c b =
     (case obj_get b (pmKey c) of
        None \<Rightarrow> obj_set (pmKey c) [c] b
      | Some cs \<Rightarrow> obj_set (pmKey c) (cs @ [c]) b)"

definition buckets :: "tile_coords list \<Rightarrow> (int, tile_coords list) object" where
  [request_defs]: "buckets queue = fold add_to_bucket queue []"

text \<open>
  \<open>for ... in\<close> visits the keys that are array indices first, in ascending order, then the others
  in the order of their creation.
\<close>

definition array_index :: "int \<Rightarrow> bool" where
  "array_index k \<longleftrightarrow> 0 \<le> k \<and> k < 2 ^ 32 - 1"

definition for_in_keys :: "int list \<Rightarrow> int list" where
  [request_defs]: "for_in_keys ks = sort (filter array_index ks) @ filter (\<lambda>k. \<not> array_index k) ks"

text \<open>The loop with the dictionary \<open>added\<close>: the first occurrence of each tile.\<close>

fun uniqify :: "(string, bool) object \<Rightarrow> tile_coords list \<Rightarrow> tile_coords list" where
  "uniqify added [] = []"
| "uniqify added (c # cs) =
     (if obj_get added (tc_key c) = Some True then uniqify added cs
      else c # uniqify (obj_set (tc_key c) True added) cs)"

definition old_wid :: "tile_cache \<Rightarrow> tile_coords \<Rightarrow> int" where
  "old_wid c coords = (case tile_addr c (tc_key coords) of Some a \<Rightarrow> t_wireId (tile_at c a) | None \<Rightarrow> 0)"

definition bucket_request :: "tile_cache \<Rightarrow> tile_coords list \<Rightarrow> tile_request" where
  [request_defs]: "bucket_request c cs =
     \<lparr>rq_part = tc_part (hd cs), rq_mode = tc_mode (hd cs),
      rq_tiles = map (\<lambda>x. (x, old_wid c x)) (uniqify [] cs)\<rparr>"

definition combine_requests :: "tile_cache \<Rightarrow> tile_coords list \<Rightarrow> tile_request list" where
  [request_defs]: "combine_requests c queue =
     (let b = buckets queue
      in map (\<lambda>k. bucket_request c (the (obj_get b k))) (for_in_keys (obj_keys b)))"

definition request_text :: "layer_geom \<Rightarrow> tile_request \<Rightarrow> string" where
  [request_defs]: "request_text g rq =
     (let twips = map (\<lambda>t. coordsToTwips g (fst t)) (rq_tiles rq) in
      ''tilecombine nviewid=0 part='' @ show_int (rq_part rq) @ '' '' @
      (if rq_mode rq \<noteq> 0 then ''mode='' @ show_int (rq_mode rq) @ '' '' else '''') @
      ''width='' @ show_int (tileWidthPx g) @ '' height='' @ show_int (tileHeightPx g) @
      '' tileposx='' @ join '','' (map (\<lambda>p. show_int (px p)) twips) @
      '' tileposy='' @ join '','' (map (\<lambda>p. show_int (py p)) twips) @
      '' oldwid='' @ join '','' (map (\<lambda>t. show_int (snd t)) (rq_tiles rq)) @
      '' tilewidth='' @ show_int (tileWidthTwips g) @ '' tileheight='' @ show_int (tileHeightTwips g))"

definition sendTileCombineRequest :: "layer_geom \<Rightarrow> tile_coords list \<Rightarrow> tile_cache \<Rightarrow> tile_cache" where
  [request_defs]: "sendTileCombineRequest g queue c =
     (if queue = [] then c
      else fold (\<lambda>rq. emit (SendMessage (request_text g rq))) (combine_requests c queue) c)"

section \<open>Acknowledgements\<close>

definition sendProcessedResponse :: "layer_geom \<Rightarrow> tile_cache \<Rightarrow> tile_cache" where
  [request_defs]: "sendProcessedResponse g c =
     (let toSend = queuedProcessed c;
          c1 = c\<lparr>queuedProcessed := []\<rparr>;
          c2 = (if toSend \<noteq> [] then emit (SendMessage (''tileprocessed wids='' @ join '','' (map show_int toSend))) c1 else c1)
      in if fetchKeyframeQueue c2 \<noteq> []
         then (sendTileCombineRequest g (fetchKeyframeQueue c2) c2)\<lparr>fetchKeyframeQueue := []\<rparr>
         else c2)"

section \<open>Missing tiles\<close>

definition missing_step :: "layer_geom \<Rightarrow> int \<Rightarrow> int \<Rightarrow> int \<Rightarrow> int \<times> int \<Rightarrow>
    tile_cache \<times> tile_coords list \<Rightarrow> tile_cache \<times> tile_coords list" where
  [request_defs]: "missing_step g zoom part mode ij s =
     (let (c, queue) = s;
          coords = grid_coords g zoom part mode ij
      in if \<not> isValidTile g coords then (c, queue)
         else (case tile_addr c (tc_key coords) of
                 Some a \<Rightarrow>
                   (if \<not> needsFetch (tile_at c a)
                    then (upd_tile a (\<lambda>t. t\<lparr>t_current := True\<rparr>) c, queue)
                    else (c, queue @ [coords]))
               | None \<Rightarrow> (c, queue @ [coords])))"

definition getMissingTiles :: "rat bounds \<Rightarrow> int \<Rightarrow> layer \<Rightarrow> layer \<times> tile_coords list" where
  [request_defs]: "getMissingTiles b zoom ly =
     (let (c, queue) = fold (missing_step (geom ly) zoom (selectedPart ly) (selectedMode ly))
            (concat (map range_positions (pxBoundsToTileRanges ly b))) (cache ly, [])
      in (ly\<lparr>cache := c\<rparr>, queue))"

text \<open>The loop that marks the tiles of other zoom levels, parts and modes as not shown.\<close>

definition mark_key :: "int \<Rightarrow> int \<Rightarrow> int \<Rightarrow> string \<Rightarrow> tile_cache \<Rightarrow> tile_cache" where
  [request_defs]: "mark_key zoom part mode key c =
     (case tc_parseKey key of
        Some k \<Rightarrow>
          (if tc_z k \<noteq> zoom \<or> tc_part k \<noteq> part \<or> tc_mode k \<noteq> mode
           then (case tile_addr c key of
                   Some a \<Rightarrow> upd_tile a (\<lambda>t. t\<lparr>t_current := False\<rparr>) c | None \<Rightarrow> c)
           else c)
      | None \<Rightarrow>
          (case tile_addr c key of
             Some a \<Rightarrow> upd_tile a (\<lambda>t. t\<lparr>t_current := False\<rparr>) c | None \<Rightarrow> c))"

definition mark_not_current :: "int \<Rightarrow> layer \<Rightarrow> layer" where
  [request_defs]: "mark_not_current zoom ly =
     ly\<lparr>cache := fold (mark_key zoom (selectedPart ly) (selectedMode ly)) (obj_keys (tiles (cache ly))) (cache ly)\<rparr>"

section \<open>Grouping into rectangles\<close>

text \<open>
  The inner loop of \<open>_addTiles\<close>: \<open>bx\<close> and \<open>yb\<close> are \<open>bound\<close>, \<open>kept\<close> the entries of the queue
  the index \<open>i\<close> has passed. The result is the rectangle and what stays in the queue.
\<close>

fun close_ones :: "int \<Rightarrow> int \<Rightarrow> int \<Rightarrow> bool \<Rightarrow> bool \<Rightarrow> tile_coords list \<Rightarrow> tile_coords list \<Rightarrow> tile_coords list \<Rightarrow>
    tile_coords list \<times> tile_coords list" where
  "close_ones ts bx yb0 rowLocked0 hasHole rect kept [] = (rect, kept)"
| "close_ones ts bx yb0 rowLocked0 hasHole rect kept (cur # rest) =
     (let extend = (\<not> hasHole \<and> tc_y cur = yb0 + ts);
          rowLocked = (rowLocked0 \<or> extend);
          yb = (if extend then yb0 + ts else yb0)
      in if tc_y cur > yb then (rect, kept @ cur # rest)
         else if \<not> rowLocked then
           (if tc_y cur = yb \<and> tc_x cur = bx + ts
            then close_ones ts (bx + ts) yb rowLocked hasHole (rect @ [cur]) kept rest
            else close_ones ts bx yb True hasHole rect (kept @ [cur]) rest)
         else if tc_x cur \<le> bx \<and> tc_y cur \<le> yb
           then close_ones ts bx yb rowLocked hasHole (rect @ [cur]) kept rest
         else close_ones ts bx yb rowLocked True rect (kept @ [cur]) rest)"

lemma close_ones_mset:
  "close_ones ts bx yb rl hh rect kept rest = (rect', kept') \<Longrightarrow>
   mset rect' + mset kept' = mset rect + mset kept + mset rest"
  by (induction ts bx yb rl hh rect kept rest arbitrary: rect' kept' rule: close_ones.induct)
    (auto simp: Let_def split: if_splits)

lemma close_ones_prefix:
  "close_ones ts bx yb rl hh rect kept rest = (rect', kept') \<Longrightarrow> \<exists>more. rect' = rect @ more"
proof (induction rest arbitrary: bx yb rl hh rect kept)
  case (Cons cur rest)
  have "\<exists>more. rect' = rect @ more" if "\<exists>more. rect' = (rect @ [cur]) @ more" using that by auto
  with Cons show ?case by (simp only: close_ones.simps Let_def split: if_splits) blast+
qed simp

lemma close_ones_length:
  "close_ones ts bx yb rl hh [c] [] rest = (rect', kept') \<Longrightarrow> length kept' \<le> length rest"
proof -
  assume r: "close_ones ts bx yb rl hh [c] [] rest = (rect', kept')"
  obtain more where "rect' = c # more" using close_ones_prefix [OF r] by auto
  moreover have "length rect' + length kept' = Suc (length rest)"
    using close_ones_mset [OF r] by (metis One_nat_def add.commute add_Suc length_Cons list.size(3) plus_1_eq_Suc size_mset size_union)
  ultimately show ?thesis by simp
qed

function group_tiles :: "int \<Rightarrow> (tile_coords \<Rightarrow> bool) \<Rightarrow> tile_coords list \<Rightarrow> tile_coords list list" where
  "group_tiles ts wanted [] = []"
| "group_tiles ts wanted (coords # queue) =
     (if \<not> wanted coords then group_tiles ts wanted queue
      else (case close_ones ts (tc_x coords) (tc_y coords) False False [coords] [] queue of
              (rect, rest) \<Rightarrow> rect # group_tiles ts wanted rest))"
  by pat_completeness auto
termination
  by (relation "measure (\<lambda>(ts, w, q). length q)") (auto dest!: close_ones_length [OF sym])

section \<open>Asking for tiles\<close>

definition initPreFetchPartTiles :: "layer \<Rightarrow> layer" where
  [request_defs]: "initPreFetchPartTiles ly = ly\<lparr>partTilePreFetcher := True\<rparr>"

definition create_if_selected :: "layer \<Rightarrow> int \<Rightarrow> tile_coords \<Rightarrow> tile_cache \<Rightarrow> tile_cache" where
  [request_defs]: "create_if_selected ly now coords c =
     (if tc_part coords = selectedPart ly \<and> tc_mode coords = selectedMode ly \<and> tile_addr c (tc_key coords) = None
      then snd (createTile coords (tc_key coords) now c) else c)"

definition row_compare :: "tile_coords \<Rightarrow> tile_coords \<Rightarrow> int" where
  [request_defs]: "row_compare a b = (if tc_y a \<noteq> tc_y b then tc_y a - tc_y b else tc_x a - tc_x b)"

definition wanted :: "layer \<Rightarrow> tile_cache \<Rightarrow> tile_coords \<Rightarrow> bool" where
  [request_defs]: "wanted ly c coords \<longleftrightarrow>
     tileNeedsFetch (tc_key coords) c \<and> tc_part coords = selectedPart ly \<and> tc_mode coords = selectedMode ly"

definition addTiles :: "int \<Rightarrow> tile_coords list \<Rightarrow> layer \<Rightarrow> layer" where
  [request_defs]: "addTiles now coordsQueue ly =
     (let c1 = fold (create_if_selected ly now) coordsQueue (cache ly);
          rectangles = group_tiles (tileSize (geom ly)) (wanted ly c1) (js_sort row_compare coordsQueue);
          ly1 = ly\<lparr>cache := fold (sendTileCombineRequest (geom ly)) rectangles c1\<rparr>
      in if docType ly = Presentation \<or> docType ly = Drawing then initPreFetchPartTiles ly1 else ly1)"

text \<open>The callback of the part timer; the part is not checked against the number of parts.\<close>

definition preFetchPartTiles :: "int \<Rightarrow> int \<Rightarrow> layer \<Rightarrow> layer" where
  [request_defs]: "preFetchPartTiles part mode ly =
     (let g = geom ly;
          queue = filter (\<lambda>coords. isValidTile g coords \<and> tileNeedsFetch (tc_key coords) (cache ly))
            (map (grid_coords g (mapZoom ly) part mode) (range_positions (pxBoundsToTileRange g (pixelBoundsCore ly))))
      in ly\<lparr>cache := sendTileCombineRequest g queue (cache ly)\<rparr>)"

definition partTimer :: "layer \<Rightarrow> layer" where
  [request_defs]: "partTimer ly =
     preFetchPartTiles (selectedPart ly + partsDirection ly) (selectedMode ly) (ly\<lparr>partTilePreFetcher := False\<rparr>)"

definition sendClientZoom :: "bool \<Rightarrow> layer \<Rightarrow> layer" where
  [request_defs]: "sendClientZoom forceUpdate ly =
     (if \<not> docLoaded ly then ly
      else
        (let g = geom ly;
             newClientZoom = ''tilepixelwidth='' @ show_int (tileWidthPx g) @ '' tilepixelheight='' @
               show_int (tileHeightPx g) @ '' tiletwipwidth='' @ show_int (tileWidthTwips g) @
               '' tiletwipheight='' @ show_int (tileHeightTwips g)
         in if clientZoom ly \<noteq> newClientZoom \<or> forceUpdate
            then (let ly1 = send (''clientzoom '' @ newClientZoom) ly
                  in if sendLive ly then ly1\<lparr>clientZoom := newClientZoom\<rparr> else ly1)
            else ly))"

definition setSpliterGradient :: "bool option \<Rightarrow> rat \<Rightarrow> tile_cache \<Rightarrow> bool option \<times> tile_cache" where
  [request_defs]: "setSpliterGradient splitter visibleTopLeft c =
     (case splitter of
        None \<Rightarrow> (None, c)
      | Some orig \<Rightarrow>
          (let b = (js_round visibleTopLeft = 0)
           in (Some b, if orig \<noteq> b then emit (UiEffect ''splitter.onPositionChange'') c else c)))"

definition visible_area_text :: "layer \<Rightarrow> rat bounds \<Rightarrow> string" where
  [request_defs]: "visible_area_text ly visibleArea =
     (let split = corePixelsToTwips (geom ly)
            (case splitPos ly of Some s \<Rightarrow> point_divideBy s (dpiScale (geom ly)) | None \<Rightarrow> Pt 0 0);
          size = bounds_getSize visibleArea
      in ''clientvisiblearea x='' @ show_int (js_round (px (bmin visibleArea))) @
         '' y='' @ show_int (js_round (py (bmin visibleArea))) @
         '' width='' @ show_int (js_round (px size)) @ '' height='' @ show_int (js_round (py size)) @
         '' splitx='' @ show_int (js_round (px split)) @ '' splity='' @ show_int (js_round (py split)))"

definition sendClientVisibleArea :: "bool \<Rightarrow> layer \<Rightarrow> layer" where
  [request_defs]: "sendClientVisibleArea forceUpdate ly =
     (if \<not> docLoaded ly then ly
      else
        (let visibleArea = bounds_of (cssPixelsToTwips (geom ly) (bmin (pixelBounds ly)))
                                     (cssPixelsToTwips (geom ly) (bmax (pixelBounds ly)));
             newClientVisibleArea = visible_area_text ly visibleArea;
             (ys, c1) = setSpliterGradient (ySplitter ly) (py (bmin visibleArea)) (cache ly);
             (xs, c2) = setSpliterGradient (xSplitter ly) (px (bmin visibleArea)) c1;
             ly1 = ly\<lparr>ySplitter := ys, xSplitter := xs, cache := c2\<rparr>
         in if clientVisibleArea ly \<noteq> newClientVisibleArea \<or> forceUpdate
            then (let ly2 = send newClientVisibleArea ly1
                  in if sendLive ly then ly2\<lparr>clientVisibleArea := newClientVisibleArea\<rparr> else ly2)
            else ly1))"

section \<open>The file-based view\<close>

definition switch_tiles :: "tile_coords \<Rightarrow> tile_coords \<Rightarrow> bool" where
  [request_defs]: "switch_tiles a b =
     (if tc_part a = tc_part b then
        (if tc_y a > tc_y b then True
         else if tc_y a = tc_y b then tc_x a > tc_x b else False)
      else tc_part a > tc_part b)"

definition sortFileBasedQueue :: "tile_coords list \<Rightarrow> tile_coords list" where
  [request_defs]: "sortFileBasedQueue queue = exchange_sort switch_tiles queue"

definition zoomScale :: "int \<Rightarrow> int \<Rightarrow> rat" where
  "zoomScale toZoom fromZoom = power_int (6 / 5) toZoom / power_int (6 / 5) fromZoom"

text \<open>
  The tiles of the file-based view: every tile column of the viewed rectangle, for every part it
  touches, with all of the part's rows but those above the first part's start.
\<close>

definition part_pixels :: "layer \<Rightarrow> rat \<Rightarrow> int \<times> int" where
  [request_defs]: "part_pixels ly relScale =
     (let ratio = of_int (tileSize (geom ly)) * relScale / of_int (tileHeightTwips (geom ly))
      in (js_round (of_int (partWidthTwips ly) * ratio),
          js_round (of_int (partHeightTwips ly + spaceBetweenParts ly) * ratio)))"

text \<open>\<open>for (x = from; x <= to; x += step)\<close>, for a positive step.\<close>

definition stepping :: "int \<Rightarrow> int \<Rightarrow> int \<Rightarrow> int list" where
  "stepping lo hi step = map (\<lambda>n. lo + n * step) [0..(hi - lo) div step]"

definition file_queue :: "layer \<Rightarrow> int \<Rightarrow> int \<times> int \<Rightarrow> rectangle \<Rightarrow> tile_coords list" where
  [request_defs]: "file_queue ly zoom partPx r =
     (let ts = tileSize (geom ly);
          partHeightPixels = snd partPx;
          v = viewedRectangle ly;
          minLocalX = (rx r div ts) * ts;
          maxLocalX = ((rx r + rw r) div ts) * ts;
          startPart = ry r div partHeightPixels;
          startY = ((ry v - startPart * partHeightPixels) div ts) * ts;
          endPart = \<lceil>of_int (ry r + rh r) / (of_int partHeightPixels :: rat)\<rceil>;
          endY = ((ry v + rh v - endPart * partHeightPixels) div ts) * ts;
          vTileCountPerPart = \<lceil>of_int partHeightPixels / (of_int ts :: rat)\<rceil>
      in concat (map (\<lambda>i. concat (map (\<lambda>j.
             map (\<lambda>k. TileCoordData j k zoom i (Some 0))
               (filter (\<lambda>k. (i \<noteq> startPart \<or> k \<ge> startY) \<and> (i \<noteq> endPart \<or> k \<le> endY))
                  (stepping 0 (vTileCountPerPart * ts) ts)))
           (stepping minLocalX maxLocalX ts)))
         [startPart..endPart - 1]))"

definition mark_current :: "tile_coords \<Rightarrow> tile_cache \<Rightarrow> tile_cache" where
  [request_defs]: "mark_current coords c =
     (case tile_addr c (tc_key coords) of
        Some a \<Rightarrow> upd_tile a (\<lambda>t. t\<lparr>t_current := True\<rparr>) c | None \<Rightarrow> c)"

text \<open>
  The part of \<open>_updateFileBasedView\<close> that both modes share. The loop that should reset
  \<open>current\<close> counts up to \<open>this._tiles.length\<close>; \<open>_tiles\<close> is not an array, so its body never runs.
\<close>

definition fileBasedQueue :: "int option \<Rightarrow> layer \<Rightarrow> layer \<times> tile_coords list" where
  [request_defs]: "fileBasedQueue forZoom ly =
     (if partHeightTwips ly = 0 \<or> isZooming ly then (ly, [])
      else
        (let zoom = (case forZoom of Some z \<Rightarrow> if z \<noteq> 0 then z else mapZoom ly | None \<Rightarrow> mapZoom ly);
             relScale = (if mapZoom ly = zoom then 1 else zoomScale zoom (mapZoom ly));
             partPx = part_pixels ly relScale
         in case getIntersectionRectangle (viewedRectangle ly) (Rect 0 0 (fst partPx) (snd partPx * partCount ly)) of
              None \<Rightarrow> (ly, [])
            | Some r \<Rightarrow>
                (let queue = sortFileBasedQueue (file_queue ly zoom partPx r)
                 in (ly\<lparr>cache := fold mark_current queue (cache ly)\<rparr>, queue))))"

definition fetch_step :: "int \<Rightarrow> tile_coords \<Rightarrow> tile_cache \<times> tile_coords list \<Rightarrow> tile_cache \<times> tile_coords list" where
  [request_defs]: "fetch_step now coords s =
     (let (c, q) = s;
          (a, c1) = createTile coords (tc_key coords) now c
      in if needsFetch (tile_at c1 a) then (c1, q @ [coords]) else (c1, q))"

definition updateFileBasedView :: "int \<Rightarrow> layer \<Rightarrow> layer" where
  [request_defs]: "updateFileBasedView now ly =
     (if partHeightTwips ly = 0 \<or> isZooming ly then ly
      else
        (let (ly1, queue) = fileBasedQueue None ly;
             ly2 = sendClientZoom False (sendClientVisibleArea False ly1);
             (c, q) = fold (fetch_step now) queue (cache ly2, [])
         in ly2\<lparr>cache := sendTileCombineRequest (geom ly2) q c\<rparr>))"

fun distinct_parts :: "int list \<Rightarrow> tile_coords list \<Rightarrow> int list" where
  "distinct_parts parts [] = parts"
| "distinct_parts parts (c # cs) =
     distinct_parts (if tc_part c \<in> set parts then parts else parts @ [tc_part c]) cs"

definition getMostVisiblePart :: "layer \<Rightarrow> tile_coords list \<Rightarrow> int" where
  [request_defs]: "getMostVisiblePart ly queue =
     (let (partWidthPixels, partHeightPixels) = part_pixels ly 1;
          d = documentBounds ly;
          docRect = Rect (px (bmin d)) (py (bmin d)) (px (bmax d) - px (bmin d)) (py (bmax d) - py (bmin d))
      in snd (fold (\<lambda>part (maxArea, best).
            case getIntersectionRectangle (Rect 0 (partHeightPixels * part) partWidthPixels partHeightPixels) docRect of
              None \<Rightarrow> (maxArea, best)
            | Some r \<Rightarrow> if rw r * rh r > maxArea then (rw r * rh r, part) else (maxArea, best))
          (distinct_parts [] queue) (- 1, 0)))"

definition checkSelectedPart :: "layer \<Rightarrow> layer" where
  [request_defs]: "checkSelectedPart ly =
     (let (ly1, queue) = fileBasedQueue None ly
      in if queue \<noteq> [] then
           (let partToSelect = getMostVisiblePart ly1 queue
            in if selectedPart ly1 \<noteq> partToSelect
               then send (''setclientpart part='' @ show_int partToSelect)
                      (ly1\<lparr>selectedPart := partToSelect,
                           cache := emit (UiEffect ''highlightCurrentPart'') (emit (UiEffect ''scrollToPart'') (cache ly1))\<rparr>)
               else ly1)
         else ly1)"

definition pruneTiles :: "layer \<Rightarrow> layer" where
  [request_defs]: "pruneTiles ly =
     (let ly1 = (if fileBasedView ly then fst (fileBasedQueue None ly) else ly)
      in ly1\<lparr>cache := garbageCollect (cache ly1)\<rparr>)"

section \<open>Updating the view\<close>

definition initPreFetchAdjacentTiles :: "rat bounds \<Rightarrow> int \<Rightarrow> layer \<Rightarrow> layer" where
  [request_defs]: "initPreFetchAdjacentTiles b zoom ly = ly\<lparr>adjacentTilePreFetcher := Some (b, zoom)\<rparr>"

text \<open>
  The callback: a screen below and a screen above the view; \<open>~~\<close> truncates and wraps to 32 bits.
\<close>

definition truncate_rat :: "rat \<Rightarrow> int" where
  "truncate_rat x = (if 0 \<le> x then \<lfloor>x\<rfloor> else \<lceil>x\<rceil>)"

definition adjacentTimer :: "int \<Rightarrow> layer \<Rightarrow> layer" where
  [request_defs]: "adjacentTimer now ly =
     (case adjacentTilePreFetcher ly of
        None \<Rightarrow> ly
      | Some (b, zoom) \<Rightarrow>
          (let ly0 = ly\<lparr>adjacentTilePreFetcher := None\<rparr>;
               height = py (bounds_getSize b);
               nextHeight = (if docType ly = Spreadsheet
                             then of_int (to_int32 (truncate_rat (height * (3 / 2)))) else height);
               tl = bounds_getTopLeft b;
               br = bounds_getBottomRight b;
               tl1 = Pt (px tl) (py tl + height);
               br1 = Pt (px br) (py br + nextHeight);
               (ly1, q1) = getMissingTiles (bounds_of tl1 br1) zoom ly0;
               tl2 = Pt (px tl1) (py tl1 - (height + nextHeight));
               br2 = Pt (px br1) (py br1 - (height + nextHeight));
               (ly2, q2) = getMissingTiles (bounds_of tl2 br2) zoom ly1
           in if q1 @ q2 \<noteq> [] then addTiles now (q1 @ q2) ly2 else ly2))"

definition update :: "int \<Rightarrow> layer \<Rightarrow> layer" where
  [request_defs]: "update now ly =
     (if documentInfo ly = '''' \<or> \<not> canonicalIdInitialized ly then ly
      else if docType ly = Spreadsheet \<and> \<not> gotFirstCellCursor ly then ly
      else if px (mapSize ly) = 0 \<or> py (mapSize ly) = 0 then ly\<lparr>updateTimer := True\<rparr>
      else if fileBasedView ly then updateFileBasedView now ly
      else
        (let zoom = mapZoom ly;
             ly1 = mark_not_current zoom ly;
             (ly2, queue) = getMissingTiles (pixelBoundsCore ly) zoom ly1;
             ly3 = sendClientZoom False (sendClientVisibleArea False ly2);
             ly4 = (if queue \<noteq> [] then addTiles now queue ly3 else ly3)
         in if docType ly = Spreadsheet \<or> docType ly = Text
            then initPreFetchAdjacentTiles (pixelBoundsCore ly) zoom ly4 else ly4))"

definition create_step :: "int \<Rightarrow> tile_coords \<Rightarrow> tile_cache \<times> tile_coords list \<Rightarrow> tile_cache \<times> tile_coords list" where
  [request_defs]: "create_step now coords s =
     (let (c, q) = s;
          key = tc_key coords;
          c1 = (if tile_addr c key = None then snd (createTile coords key now c) else c)
      in if tileNeedsFetch key c1 then (c1, q @ [coords]) else (c1, q))"

text \<open>
  The test \<open>tileCombineQueue.length >= 0\<close> always holds, so the branch that schedules a paint
  is never taken.
\<close>

definition updateOnChangePart :: "int \<Rightarrow> layer \<Rightarrow> layer" where
  [request_defs]: "updateOnChangePart now ly =
     (if documentInfo ly = '''' then ly
      else
        (let zoom = mapZoom ly;
             ly1 = mark_not_current zoom ly;
             (ly2, queue) = getMissingTiles (pixelBoundsCore ly) zoom ly1;
             ly3 = (if queue \<noteq> [] then
                      (let (c, q) = fold (create_step now) queue (cache ly2, [])
                       in ly2\<lparr>cache := (if length q \<ge> 0 then sendTileCombineRequest (geom ly2) q c
                                        else emit (UiEffect ''painter.update'') c)\<rparr>)
                    else ly2)
         in if docType ly = Presentation \<or> docType ly = Drawing then initPreFetchPartTiles ly3 else ly3))"

end
