(* ===== verification/Tile_Coverage.thy ===== *)
theory Tile_Coverage
  imports Tile_Requests
begin

text \<open>
  What the request functions achieve: the file-based queue is sorted, no tile is lost or asked for
  twice when requests are bucketed and grouped, and after an update every visible tile is either
  fresh and marked as shown or asked for.
\<close>

section \<open>The order of the file-based queue\<close>

abbreviation file_le :: "tile_coords \<Rightarrow> tile_coords \<Rightarrow> bool" where
  "file_le a b \<equiv> \<not> switch_tiles a b"

interpretation file_order: exchange_order switch_tiles
  by unfold_locales (auto simp: switch_tiles_def split: if_splits)

lemma sortFileBasedQueue_mset: "mset (sortFileBasedQueue q) = mset q"
  by (simp add: sortFileBasedQueue_def)

lemma sortFileBasedQueue_sorted: "sorted_wrt file_le (sortFileBasedQueue q)"
  unfolding sortFileBasedQueue_def by (rule file_order.sort_sorted)

section \<open>Buckets\<close>

lemma obj_get_buckets_from:
  "obj_get (fold add_to_bucket q b) k =
     (case obj_get b k of
        None \<Rightarrow> (if filter (\<lambda>c. pmKey c = k) q = [] then None else Some (filter (\<lambda>c. pmKey c = k) q))
      | Some cs \<Rightarrow> Some (cs @ filter (\<lambda>c. pmKey c = k) q))"
  by (induction q arbitrary: b) (auto simp: add_to_bucket_def js_object split: option.split)

lemma obj_get_buckets:
  "obj_get (buckets q) k = (if filter (\<lambda>c. pmKey c = k) q = [] then None else Some (filter (\<lambda>c. pmKey c = k) q))"
  by (simp add: buckets_def obj_get_buckets_from)

lemma buckets_ok: "obj_ok (buckets q)"
proof -
  have "obj_ok b \<Longrightarrow> obj_ok (fold add_to_bucket q b)" for b
    by (induction q arbitrary: b) (auto simp: add_to_bucket_def split: option.split)
  then show ?thesis by (simp add: buckets_def)
qed

lemma set_keys_buckets: "set (obj_keys (buckets q)) = pmKey ` set q"
proof -
  have "k \<in> set (obj_keys (buckets q)) \<longleftrightarrow> k \<in> pmKey ` set q" for k
    unfolding obj_get_iff_key [symmetric] obj_get_buckets filter_empty_conv by auto
  then show ?thesis by blast
qed

lemma in_keys_buckets: "k \<in> set (for_in_keys (obj_keys (buckets q))) \<longleftrightarrow> k \<in> pmKey ` set q"
  unfolding set_keys_buckets [symmetric] by (auto simp: for_in_keys_def)

lemma for_in_keys_distinct: "distinct ks \<Longrightarrow> distinct (for_in_keys ks)"
  by (auto simp: for_in_keys_def)

lemma uniqify_spec:
  assumes "\<And>c. obj_get added (tc_key c) = Some True \<longleftrightarrow> c \<in> S"
  shows "distinct (uniqify added cs) \<and> set (uniqify added cs) = set cs - S"
  using assms
proof (induction cs arbitrary: added S)
  case (Cons c cs)
  show ?case
  proof (cases "c \<in> S")
    case True
    then show ?thesis using Cons by auto
  next
    case False
    have "obj_get (obj_set (tc_key c) True added) (tc_key d) = Some True \<longleftrightarrow> d \<in> insert c S" for d
      using Cons.prems by (auto simp: js_object)
    then show ?thesis using Cons.IH [of "obj_set (tc_key c) True added" "insert c S"] Cons.prems False by auto
  qed
qed simp

lemma uniqify_Nil: "distinct (uniqify [] cs)" "set (uniqify [] cs) = set cs"
  using uniqify_spec [of "[]" "{}" cs] by simp_all

definition rq_coords :: "tile_request \<Rightarrow> tile_coords list" where
  "rq_coords rq = map fst (rq_tiles rq)"

lemma rq_coords_bucket [simp]: "rq_coords (bucket_request c cs) = uniqify [] cs"
  by (simp add: rq_coords_def bucket_request_def comp_def)

lemma combine_requests_tiles:
  "set (concat (map rq_coords (combine_requests c q))) = set q"
  "distinct (concat (map rq_coords (combine_requests c q)))"
proof -
  let ?bk = "\<lambda>k. the (obj_get (buckets q) k)"
  have bk: "?bk k = filter (\<lambda>c. pmKey c = k) q" if "k \<in> pmKey ` set q" for k
    using that by (auto simp: obj_get_buckets filter_empty_conv)
  have eq: "map rq_coords (combine_requests c q) = map (\<lambda>k. uniqify [] (?bk k)) (for_in_keys (obj_keys (buckets q)))"
    by (simp add: combine_requests_def Let_def comp_def)
  show "set (concat (map rq_coords (combine_requests c q))) = set q"
    unfolding eq set_concat set_map by (auto simp: in_keys_buckets uniqify_Nil bk)
  have keys: "distinct (for_in_keys (obj_keys (buckets q)))"
    using buckets_ok for_in_keys_distinct by (auto simp: obj_ok_def)
  have dist: "distinct ks \<Longrightarrow> set ks \<subseteq> pmKey ` set q \<Longrightarrow> distinct (concat (map (\<lambda>k. uniqify [] (?bk k)) ks))" for ks
  proof (induction ks)
    case (Cons k ks)
    then show ?case by (auto simp: uniqify_Nil bk subset_iff)
  qed simp
  show "distinct (concat (map rq_coords (combine_requests c q)))"
    unfolding eq by (rule dist [OF keys]) (auto simp: in_keys_buckets)
qed

text \<open>Parts and modes of real documents fit into the two fields of the bucket key.\<close>

definition fits_pmKey :: "tile_coords \<Rightarrow> bool" where
  "fits_pmKey c \<longleftrightarrow> 0 \<le> tc_part c \<and> tc_part c < 2 ^ 23 \<and> 0 \<le> tc_mode c \<and> tc_mode c < 256"

lemma pmKey_inj:
  assumes "fits_pmKey c" "fits_pmKey d" "pmKey c = pmKey d"
  shows "tc_part c = tc_part d \<and> tc_mode c = tc_mode d"
proof -
  have "to_int32 (tc_part x * 256) = tc_part x * 256" if "fits_pmKey x" for x
    using that by (intro to_int32_id) (auto simp: fits_pmKey_def)
  then have "tc_part c * 256 + tc_mode c = tc_part d * 256 + tc_mode d" using assms by (simp add: pmKey_def)
  moreover have "(tc_part x * 256 + tc_mode x) mod 256 = tc_mode x" if "fits_pmKey x" for x
    using that by (simp add: fits_pmKey_def)
  ultimately have "tc_mode c = tc_mode d" using assms(1,2) by metis
  then show ?thesis using \<open>tc_part c * 256 + tc_mode c = tc_part d * 256 + tc_mode d\<close> by simp
qed

lemma combine_requests_uniform:
  assumes "\<forall>c \<in> set q. fits_pmKey c" "rq \<in> set (combine_requests c q)" "x \<in> set (rq_coords rq)"
  shows "tc_part x = rq_part rq \<and> tc_mode x = rq_mode rq"
proof -
  obtain k where k: "k \<in> set (for_in_keys (obj_keys (buckets q)))" "rq = bucket_request c (the (obj_get (buckets q) k))"
    using assms(2) unfolding combine_requests_def Let_def set_map by blast
  define cs where "cs = filter (\<lambda>c. pmKey c = k) q"
  have "cs \<noteq> []" "rq = bucket_request c cs"
    using k unfolding in_keys_buckets by (auto simp: obj_get_buckets filter_empty_conv cs_def)
  moreover from this have "hd cs \<in> set cs" "x \<in> set cs" using assms(3) by (simp_all add: uniqify_Nil)
  then have "pmKey x = pmKey (hd cs)" "x \<in> set q" "hd cs \<in> set q" by (auto simp: cs_def)
  ultimately show ?thesis using pmKey_inj [of x "hd cs"] assms(1) by (simp add: bucket_request_def)
qed

section \<open>Rectangles\<close>

lemma group_tiles_mset:
  "filter_mset w (mset (concat (group_tiles ts w q))) = filter_mset w (mset q)"
proof (induction ts w q rule: group_tiles.induct)
  case (2 ts w coords queue)
  show ?case
  proof (cases "w coords")
    case True
    obtain rect rest where r: "close_ones ts (tc_x coords) (tc_y coords) False False [coords] [] queue = (rect, rest)"
      by fastforce
    have "mset rect + mset rest = add_mset coords (mset queue)" using close_ones_mset [OF r] by simp
    then have "filter_mset w (mset rect) + filter_mset w (mset rest) = filter_mset w (add_mset coords (mset queue))"
      by (metis filter_union_mset)
    then show ?thesis using 2(2) [OF _ r [symmetric]] True r by simp
  qed (use 2 in simp)
qed simp

lemma group_tiles_subset: "set (concat (group_tiles ts w q)) \<subseteq> set q"
proof (induction ts w q rule: group_tiles.induct)
  case (2 ts w coords queue)
  show ?case
  proof (cases "w coords")
    case True
    obtain rect rest where r: "close_ones ts (tc_x coords) (tc_y coords) False False [coords] [] queue = (rect, rest)"
      by fastforce
    have "set_mset (mset rect + mset rest) = set (coords # queue)" using close_ones_mset [OF r] by simp
    then have "set rect \<subseteq> set (coords # queue)" "set rest \<subseteq> set (coords # queue)" by auto
    then show ?thesis using 2(2) [OF _ r [symmetric]] True r by auto
  qed (use 2 in auto)
qed simp

lemma js_sort_mset: "mset (js_sort cmp xs) = mset xs"
proof -
  have "mset (js_insort cmp x ys) = add_mset x (mset ys)" for x and ys :: "'a list"
    by (induction ys) (auto simp: add_mset_commute)
  then show ?thesis by (induction xs) (simp_all add: js_sort_def)
qed

section \<open>Sending leaves the tiles alone\<close>

text \<open>A cache that differs from another one only by messages and events appended to \<open>out\<close>.\<close>

definition extends :: "tile_cache \<Rightarrow> tile_cache \<Rightarrow> bool" where
  "extends c c' \<longleftrightarrow> tiles c' = tiles c \<and> heap c' = heap c \<and> (\<exists>more. out c' = out c @ more)"

lemma extends_refl [simp]: "extends c c"
  by (simp add: extends_def)

lemma extends_trans: "extends c d \<Longrightarrow> extends d e \<Longrightarrow> extends c e"
  by (auto simp: extends_def)

lemma extends_emit [simp]: "extends c (emit e c)"
  by (simp add: extends_def emit_def)

lemma extends_fold: "(\<And>x c. extends c (f x c)) \<Longrightarrow> extends c (fold f xs c)"
  by (induction xs arbitrary: c) (auto intro: extends_trans)

lemma extends_sendTC: "extends c (sendTileCombineRequest g q c)"
  by (auto simp: sendTileCombineRequest_def intro: extends_fold)

lemma extends_needsFetch: "extends c c' \<Longrightarrow> tileNeedsFetch k c' = tileNeedsFetch k c"
  by (auto simp: extends_def tileNeedsFetch_def split: option.split)

lemma extends_old_wid: "extends c c' \<Longrightarrow> old_wid c' x = old_wid c x"
  by (auto simp: extends_def old_wid_def split: option.split)

text \<open>A tile is requested: some message in \<open>out\<close> names it together with the wire id of our copy.\<close>

definition requested :: "layer_geom \<Rightarrow> tile_coords \<Rightarrow> tile_cache \<Rightarrow> bool" where
  "requested g coords c \<longleftrightarrow>
     (\<exists>rq. SendMessage (request_text g rq) \<in> set (out c) \<and> (coords, old_wid c coords) \<in> set (rq_tiles rq))"

lemma requested_extends: "extends c c' \<Longrightarrow> requested g x c \<Longrightarrow> requested g x c'"
  unfolding requested_def extends_old_wid by (auto simp: extends_def)

lemma fold_emit_out: "out (fold (\<lambda>x. emit (f x)) xs c) = out c @ map f xs"
  by (induction xs arbitrary: c) (simp_all add: emit_def)

lemma sendTC_requested:
  assumes "x \<in> set q"
  shows "requested g x (sendTileCombineRequest g q c)"
proof -
  have "x \<in> set (concat (map rq_coords (combine_requests c q)))" using assms by (simp only: combine_requests_tiles)
  then obtain rq where rq: "rq \<in> set (combine_requests c q)" "x \<in> set (rq_coords rq)" by auto
  obtain cs where "rq = bucket_request c cs" using rq(1) by (auto simp: combine_requests_def Let_def)
  then have "(x, old_wid c x) \<in> set (rq_tiles rq)" using rq(2) by (auto simp: rq_coords_def bucket_request_def)
  moreover have "old_wid (sendTileCombineRequest g q c) x = old_wid c x"
    by (rule extends_old_wid [OF extends_sendTC])
  moreover have "SendMessage (request_text g rq) \<in> set (out (sendTileCombineRequest g q c))"
    using assms rq(1) by (auto simp: sendTileCombineRequest_def fold_emit_out)
  ultimately show ?thesis unfolding requested_def by metis
qed

lemma fold_sendTC_requested:
  "x \<in> set (concat rs) \<Longrightarrow> requested g x (fold (sendTileCombineRequest g) rs c)"
proof (induction rs arbitrary: c)
  case (Cons r rs)
  have ext: "extends d (fold (sendTileCombineRequest g) rs d)" for d
    by (rule extends_fold) (rule extends_sendTC)
  show ?case
    using Cons requested_extends [OF ext sendTC_requested] by auto
qed simp

section \<open>Creating the queued tiles\<close>

lemma createTile_needsFetch:
  assumes "cache_ok c" "tileNeedsFetch k c"
  shows "tileNeedsFetch k (snd (createTile coords (tc_key coords) now c))"
  using assms cache_okD(3) [OF assms(1), of k]
  by (auto simp: createTile_def tileNeedsFetch_def needsFetch_def new_tile_def nth_append js_object split: option.splits)

lemma createTile_keeps:
  assumes "cache_ok c" "tile_addr c k = Some a"
  shows "tile_addr (snd (createTile coords (tc_key coords) now c)) k = Some a"
    "tile_at (snd (createTile coords (tc_key coords) now c)) a = tile_at c a"
  using assms(2) cache_okD(3) [OF assms] by (auto simp: createTile_def nth_append js_object split: option.splits)

lemma cache_ok_createTile: "cache_ok c \<Longrightarrow> cache_ok (snd (createTile coords (tc_key coords) now c))"
  using createTile_ok [of c coords now] by (metis prod.collapse)

lemma create_if_selected_ok: "cache_ok c \<Longrightarrow> cache_ok (create_if_selected ly now coords c)"
  by (simp add: create_if_selected_def cache_ok_createTile)

text \<open>What the creation of the queued tiles keeps: wanted tiles stay wanted, tiles that are there stay.\<close>

lemma fold_create_keeps:
  "cache_ok c \<Longrightarrow> tileNeedsFetch k c \<Longrightarrow> tileNeedsFetch k (fold (create_if_selected ly now) q c)"
  "cache_ok c \<Longrightarrow> tile_addr c k = Some a \<Longrightarrow> tile_addr (fold (create_if_selected ly now) q c) k = Some a \<and>
     tile_at (fold (create_if_selected ly now) q c) a = tile_at c a"
proof (induction q arbitrary: c)
  case (Cons x q)
  case 1
  then show ?case
    using Cons(1) [OF create_if_selected_ok] by (simp add: create_if_selected_def createTile_needsFetch)
next
  case (Cons x q)
  case 2
  have "tile_addr (create_if_selected ly now x c) k = Some a" "tile_at (create_if_selected ly now x c) a = tile_at c a"
    using createTile_keeps [OF 2] 2 by (simp_all add: create_if_selected_def)
  with 2 show ?case using Cons(2) [OF create_if_selected_ok [OF 2(1)], of ly now x] by simp
qed simp_all

lemma addTiles_requested:
  assumes "cache_ok (cache ly)" "x \<in> set q" "tileNeedsFetch (tc_key x) (cache ly)"
    "tc_part x = selectedPart ly" "tc_mode x = selectedMode ly"
  shows "requested (geom ly) x (cache (addTiles now q ly))"
proof -
  define c1 where "c1 = fold (create_if_selected ly now) q (cache ly)"
  define rs where "rs = group_tiles (tileSize (geom ly)) (wanted ly c1) (js_sort row_compare q)"
  have "wanted ly c1 x"
    using fold_create_keeps(1) [OF assms(1,3)] assms(4,5) by (simp add: wanted_def c1_def)
  moreover have "x \<in># mset (js_sort row_compare q)" using assms(2) by (simp add: js_sort_mset)
  ultimately have "x \<in># filter_mset (wanted ly c1) (mset (concat rs))" unfolding rs_def group_tiles_mset by simp
  then have "x \<in> set (concat rs)" by simp
  then have "requested (geom ly) x (fold (sendTileCombineRequest (geom ly)) rs c1)" by (rule fold_sendTC_requested)
  moreover have "cache (addTiles now q ly) = fold (sendTileCombineRequest (geom ly)) rs c1"
    by (simp add: addTiles_def Let_def initPreFetchPartTiles_def rs_def c1_def)
  ultimately show ?thesis by simp
qed

section \<open>Collecting the missing tiles\<close>

text \<open>
  Scanning the view changes only the mark \<open>current\<close>, and only to true.
\<close>

definition marked :: "tile_cache \<Rightarrow> tile_cache \<Rightarrow> bool" where
  "marked c c' \<longleftrightarrow> tiles c' = tiles c \<and> out c' = out c \<and> emptyTilesCount c' = emptyTilesCount c \<and> length (heap c') = length (heap c) \<and>
     (\<forall>a < length (heap c). (\<exists>b. tile_at c' a = (tile_at c a)\<lparr>t_current := b\<rparr> \<and> (t_current (tile_at c a) \<longrightarrow> b)))"

lemma marked_refl [simp]: "marked c c"
proof -
  have "tile_at c a = (tile_at c a)\<lparr>t_current := t_current (tile_at c a)\<rparr>" for a by simp
  then show ?thesis unfolding marked_def by blast
qed

lemma marked_trans:
  assumes "marked c d" "marked d e"
  shows "marked c e"
  unfolding marked_def
proof (intro conjI allI impI)
  fix a
  assume a: "a < length (heap c)"
  obtain b where b: "tile_at d a = (tile_at c a)\<lparr>t_current := b\<rparr>" "t_current (tile_at c a) \<longrightarrow> b"
    using assms(1) a unfolding marked_def by blast
  obtain b' where b': "tile_at e a = (tile_at d a)\<lparr>t_current := b'\<rparr>" "t_current (tile_at d a) \<longrightarrow> b'"
    using assms(1,2) a unfolding marked_def by metis
  show "\<exists>b. tile_at e a = (tile_at c a)\<lparr>t_current := b\<rparr> \<and> (t_current (tile_at c a) \<longrightarrow> b)"
    using b b' by (intro exI [of _ b']) simp
qed (use assms in \<open>simp_all add: marked_def\<close>)

lemma marked_upd: "marked c (upd_tile a (\<lambda>t. t\<lparr>t_current := True\<rparr>) c)"
proof -
  have "\<exists>b. tile_at (upd_tile a (\<lambda>t. t\<lparr>t_current := True\<rparr>) c) d = (tile_at c d)\<lparr>t_current := b\<rparr> \<and>
      (t_current (tile_at c d) \<longrightarrow> b)" if "d < length (heap c)" for d
    using that by (cases "a = d") (auto simp: tile_at_upd intro: exI [of _ True] exI [of _ "t_current (tile_at c d)"])
  then show ?thesis by (simp add: marked_def)
qed

lemma marked_facts:
  assumes "marked c c'" "cache_ok c"
  shows "cache_ok c'" "tileNeedsFetch k c' = tileNeedsFetch k c"
    "tile_addr c k = Some a \<Longrightarrow> t_current (tile_at c a) \<Longrightarrow> t_current (tile_at c' a)"
proof -
  have at: "\<exists>b. tile_at c' a = (tile_at c a)\<lparr>t_current := b\<rparr> \<and> (t_current (tile_at c a) \<longrightarrow> b)"
    if "tile_addr c k = Some a" for k a
    using assms(1) cache_okD(3) [OF assms(2) that] by (simp add: marked_def)
  have coords: "t_coords (tile_at c' a) = t_coords (tile_at c a)" "needsFetch (tile_at c' a) = needsFetch (tile_at c a)"
    if "tile_addr c k = Some a" for k a
    using at [OF that] by (auto simp: needsFetch_def hasContent_def hasKeyframe_def)
  have same: "tiles c' = tiles c" "emptyTilesCount c' = emptyTilesCount c" "length (heap c') = length (heap c)"
    using assms(1) by (simp_all add: marked_def)
  show "tileNeedsFetch k c' = tileNeedsFetch k c"
    using coords(2) same(1) by (auto simp: tileNeedsFetch_def split: option.split)
  show "tile_addr c k = Some a \<Longrightarrow> t_current (tile_at c a) \<Longrightarrow> t_current (tile_at c' a)"
    using at [of k a] by auto
  show "cache_ok c'"
    using assms(2) coords(1) same by (auto simp: cache_ok_def)
qed

lemma missing_step_marked:
  "missing_step g z p m ij (c, q) = (c', q') \<Longrightarrow> marked c c' \<and> (\<exists>more. q' = q @ more)"
  by (auto simp: missing_step_def Let_def marked_upd split: if_splits option.splits)

lemma missing_fold_marked:
  "fold (missing_step g z p m) ps (c, q) = (c', q') \<Longrightarrow> marked c c' \<and> (\<exists>more. q' = q @ more)"
proof (induction ps arbitrary: c q)
  case (Cons ij ps)
  obtain c1 q1 where s: "missing_step g z p m ij (c, q) = (c1, q1)" by fastforce
  have "fold (missing_step g z p m) ps (c1, q1) = (c', q')" using Cons.prems s by simp
  from Cons.IH [OF this] missing_step_marked [OF s] show ?case by (auto intro: marked_trans)
qed simp

lemma missing_step_covers:
  assumes "cache_ok c" "isValidTile g (grid_coords g z p m ij)" "missing_step g z p m ij (c, q) = (c', q')"
  shows "(tileNeedsFetch (tc_key (grid_coords g z p m ij)) c \<and> grid_coords g z p m ij \<in> set q') \<or>
     (\<not> tileNeedsFetch (tc_key (grid_coords g z p m ij)) c \<and>
      (\<exists>a. tile_addr c (tc_key (grid_coords g z p m ij)) = Some a \<and> t_current (tile_at c' a)))"
proof (cases "tile_addr c (tc_key (grid_coords g z p m ij))")
  case (Some a)
  then have "a < length (heap c)" by (rule cache_okD(3) [OF assms(1)])
  with Some assms(2,3) show ?thesis
    by (auto simp: missing_step_def tileNeedsFetch_def tile_at_upd split: if_splits)
qed (use assms in \<open>auto simp: missing_step_def tileNeedsFetch_def\<close>)

text \<open>After the scan every valid position is queued, or its tile is fresh and marked as shown.\<close>

lemma missing_fold_covers:
  assumes "cache_ok c" "ij \<in> set ps" "isValidTile g (grid_coords g z p m ij)"
    "fold (missing_step g z p m) ps (c, q) = (c', q')"
  shows "(tileNeedsFetch (tc_key (grid_coords g z p m ij)) c' \<and> grid_coords g z p m ij \<in> set q') \<or>
     (\<not> tileNeedsFetch (tc_key (grid_coords g z p m ij)) c' \<and>
      (\<exists>a. tile_addr c' (tc_key (grid_coords g z p m ij)) = Some a \<and> t_current (tile_at c' a)))"
proof -
  let ?x = "grid_coords g z p m ij"
  obtain us vs where ps: "ps = us @ ij # vs" using assms(2) by (meson split_list)
  obtain c1 q1 where u: "fold (missing_step g z p m) us (c, q) = (c1, q1)" by fastforce
  obtain c2 q2 where x: "missing_step g z p m ij (c1, q1) = (c2, q2)" by fastforce
  have v: "fold (missing_step g z p m) vs (c2, q2) = (c', q')" using assms(4) u x by (simp add: ps)
  have m: "marked c c1" "marked c1 c2" "marked c2 c'" "\<exists>more. q' = q2 @ more"
    using missing_fold_marked [OF u] missing_step_marked [OF x] missing_fold_marked [OF v] by auto
  have ok: "cache_ok c1" "cache_ok c2" using marked_facts(1) m assms(1) by blast+
  have nf: "tileNeedsFetch (tc_key ?x) c' = tileNeedsFetch (tc_key ?x) c1"
    using marked_facts(2) [OF m(3) ok(2)] marked_facts(2) [OF m(2) ok(1)] by simp
  have tl: "tile_addr c' k = tile_addr c1 k" "tile_addr c2 k = tile_addr c1 k" for k using m by (simp_all add: marked_def)
  have "t_current (tile_at c2 a) \<Longrightarrow> t_current (tile_at c' a)" if "tile_addr c1 (tc_key ?x) = Some a" for a
    using marked_facts(3) [OF m(3) ok(2)] that tl by simp
  with missing_step_covers [OF ok(1) assms(3) x] m(4) nf tl show ?thesis by auto
qed

section \<open>The functions around the scan\<close>

lemma mark_not_current_ok: "cache_ok (cache ly) \<Longrightarrow> cache_ok (cache (mark_not_current z ly))"
proof -
  have "cache_ok (mark_key z p m k c)" if "cache_ok c" for k c and p m
    using that by (auto simp: mark_key_def intro!: cache_ok_upd split: option.split)
  then have "cache_ok c \<Longrightarrow> cache_ok (fold (mark_key z (selectedPart ly) (selectedMode ly)) ks c)" for ks c
    by (induction ks arbitrary: c) auto
  then show "cache_ok (cache ly) \<Longrightarrow> cache_ok (cache (mark_not_current z ly))" by (simp add: mark_not_current_def)
qed

lemma mark_not_current_fields [simp]:
  "geom (mark_not_current z ly) = geom ly" "selectedPart (mark_not_current z ly) = selectedPart ly"
  "selectedMode (mark_not_current z ly) = selectedMode ly" "splitPos (mark_not_current z ly) = splitPos ly"
  by (simp_all add: mark_not_current_def)

lemma send_fields [simp]:
  "geom (send m ly) = geom ly" "selectedPart (send m ly) = selectedPart ly" "selectedMode (send m ly) = selectedMode ly"
  "cache (send m ly) = emit (SendMessage m) (cache ly)"
  by (simp_all add: send_def)

lemma sendClientZoom_fields [simp]:
  "geom (sendClientZoom f ly) = geom ly" "selectedPart (sendClientZoom f ly) = selectedPart ly"
  "selectedMode (sendClientZoom f ly) = selectedMode ly"
  by (simp_all add: sendClientZoom_def Let_def)

lemma sendClientVisibleArea_fields [simp]:
  "geom (sendClientVisibleArea f ly) = geom ly" "selectedPart (sendClientVisibleArea f ly) = selectedPart ly"
  "selectedMode (sendClientVisibleArea f ly) = selectedMode ly"
  by (simp_all add: sendClientVisibleArea_def Let_def split: prod.split)

lemma extends_sendClientZoom: "extends (cache ly) (cache (sendClientZoom f ly))"
  by (simp add: sendClientZoom_def Let_def)

lemma extends_gradient: "setSpliterGradient s v c = (s', c') \<Longrightarrow> extends c c'"
  by (auto simp: setSpliterGradient_def Let_def split: option.splits if_splits)

lemma extends_sendClientVisibleArea: "extends (cache ly) (cache (sendClientVisibleArea f ly))"
  by (auto simp: sendClientVisibleArea_def Let_def split: prod.split
      dest!: extends_gradient intro: extends_trans)

lemma cache_ok_extends:
  "extends c c' \<Longrightarrow> emptyTilesCount c' = emptyTilesCount c \<Longrightarrow> cache_ok c \<Longrightarrow> cache_ok c'"
  by (simp add: extends_def cache_ok_def)

lemma emptyTiles_sendClient:
  "emptyTilesCount (cache (sendClientZoom f (sendClientVisibleArea f' ly))) = emptyTilesCount (cache ly)"
proof -
  have "emptyTilesCount (emit e c) = emptyTilesCount c" for e c by (simp add: emit_def)
  then show ?thesis
    by (auto simp: sendClientZoom_def sendClientVisibleArea_def setSpliterGradient_def Let_def split: prod.split option.split)
qed

lemma addTiles_keeps:
  assumes "cache_ok (cache ly)" "tile_addr (cache ly) k = Some a"
  shows "tile_addr (cache (addTiles now q ly)) k = Some a \<and> tile_at (cache (addTiles now q ly)) a = tile_at (cache ly) a"
proof -
  have ext: "extends c (fold (sendTileCombineRequest (geom ly)) rs c)" for rs c
    by (rule extends_fold) (rule extends_sendTC)
  show ?thesis
    using fold_create_keeps(2) [OF assms, of ly now q] ext
    by (simp add: addTiles_def Let_def initPreFetchPartTiles_def extends_def)
qed

lemma set_range_positions:
  "(i, j) \<in> set (range_positions r) \<longleftrightarrow> px (bmin r) \<le> i \<and> i \<le> px (bmax r) \<and> py (bmin r) \<le> j \<and> j \<le> py (bmax r)"
  unfolding range_positions_def by (auto intro!: bexI [of _ j])

lemma tileRanges_mark_not_current [simp]:
  "pxBoundsToTileRanges (mark_not_current z ly) b = pxBoundsToTileRanges ly b"
  by (auto simp: pxBoundsToTileRanges_def split: option.split)

definition panes :: "layer \<Rightarrow> rat bounds list" where
  "panes ly = (case splitPos ly of None \<Rightarrow> [pixelBoundsCore ly] | Some s \<Rightarrow> getPxBoundList s (pixelBoundsCore ly))"

text \<open>The scan visits the grid position of every pixel of every pane.\<close>

lemma visible_position:
  assumes "0 < tileSize (geom ly)" "pane \<in> set (panes ly)" "bounds_contains_point pane p"
  shows "(\<lfloor>px p / of_int (tileSize (geom ly))\<rfloor>, \<lfloor>py p / of_int (tileSize (geom ly))\<rfloor>)
     \<in> set (concat (map range_positions (pxBoundsToTileRanges ly (pixelBoundsCore ly))))"
proof -
  have "pxBoundsToTileRange (geom ly) pane \<in> set (pxBoundsToTileRanges ly (pixelBoundsCore ly))"
    using assms(2) by (auto simp: pxBoundsToTileRanges_def panes_def split: option.splits)
  moreover have "(\<lfloor>px p / of_int (tileSize (geom ly))\<rfloor>, \<lfloor>py p / of_int (tileSize (geom ly))\<rfloor>)
      \<in> set (range_positions (pxBoundsToTileRange (geom ly) pane))"
    using pxBoundsToTileRange_contains [OF assms(1,3)]
    by (simp add: set_range_positions bounds_contains_point_iff point_floor_def point_divideBy_def)
  ultimately show ?thesis by (auto simp: set_concat)
qed

section \<open>Properties\<close>

text \<open>
  \<open>_sortFileBasedQueue\<close> sorts: its result has the same tiles, ordered by part, then
  row, then column.
\<close>

theorem sortFileBasedQueue_correct:
  "mset (sortFileBasedQueue q) = mset q \<and>
   sorted_wrt (\<lambda>a b. (tc_part a, tc_y a, tc_x a) = (tc_part b, tc_y b, tc_x b) \<or>
      tc_part a < tc_part b \<or> tc_part a = tc_part b \<and> (tc_y a < tc_y b \<or> tc_y a = tc_y b \<and> tc_x a < tc_x b))
     (sortFileBasedQueue q)"
proof -
  have "sorted_wrt (\<lambda>a b. (tc_part a, tc_y a, tc_x a) = (tc_part b, tc_y b, tc_x b) \<or>
      tc_part a < tc_part b \<or> tc_part a = tc_part b \<and> (tc_y a < tc_y b \<or> tc_y a = tc_y b \<and> tc_x a < tc_x b))
     (sortFileBasedQueue q)"
    by (rule sorted_wrt_mono_rel [OF _ sortFileBasedQueue_sorted]) (auto simp: switch_tiles_def split: if_splits)
  then show ?thesis using sortFileBasedQueue_mset by blast
qed

text \<open>
  C26 (functional). The \<open>tilecombine\<close> messages for a queue ask for every tile of the queue, for no
  other tile, and for no tile twice; all tiles of a message have the part and the mode it names.
\<close>

theorem tilecombine_requests_exact:
  assumes "\<forall>x \<in> set q. fits_pmKey x"
  shows "set (concat (map rq_coords (combine_requests c q))) = set q \<and>
     distinct (concat (map rq_coords (combine_requests c q))) \<and>
     (\<forall>rq \<in> set (combine_requests c q). \<forall>x \<in> set (rq_coords rq). tc_part x = rq_part rq \<and> tc_mode x = rq_mode rq)"
  using combine_requests_tiles combine_requests_uniform [OF assms] by blast

definition wit_queue :: "tile_coords list" where
  "wit_queue = [TileCoordData 256 0 10 1 (Some 0), TileCoordData 0 0 10 0 (Some 0), TileCoordData 256 0 10 1 (Some 0)]"

theorem tilecombine_requests_exact_witness:
  "map rq_part (combine_requests empty_cache wit_queue) = [0, 1] \<and>
   distinct (concat (map rq_coords (combine_requests empty_cache wit_queue)))"
proof -
  have "\<forall>x \<in> set wit_queue. fits_pmKey x" by (simp add: wit_queue_def fits_pmKey_def TileCoordData_def)
  moreover have "map rq_part (combine_requests empty_cache wit_queue) = [0, 1]" by code_simp
  ultimately show ?thesis using tilecombine_requests_exact [of wit_queue empty_cache] by blast
qed

text \<open>
  \<open>_addTiles\<close> groups its queue into rectangles without losing or doubling a tile
  that has to be fetched: the rectangles hold each such tile exactly as often as the queue, and
  nothing that is not in the queue.
\<close>

theorem rectangles_partition_queue:
  "filter_mset w (mset (concat (group_tiles ts w (js_sort row_compare q)))) = filter_mset w (mset q) \<and>
   set (concat (group_tiles ts w (js_sort row_compare q))) \<subseteq> set q"
proof -
  have "set (js_sort row_compare q) = set q" by (metis js_sort_mset set_mset_mset)
  then show ?thesis using group_tiles_mset [of w ts] group_tiles_subset [of ts w] js_sort_mset by metis
qed

text \<open>
  C3 (functional). After \<open>_update\<close> every tile that a pixel of the visible area lies in, in any pane
  of a split view, is either fresh and marked as shown, or asked for in a message that names it
  together with the wire id of the copy in the cache.
\<close>

theorem update_covers_view:
  assumes "cache_ok (cache ly)" "geom_ok (geom ly)"
    and "documentInfo ly \<noteq> ''''" "canonicalIdInitialized ly" "docType ly = Spreadsheet \<longrightarrow> gotFirstCellCursor ly"
    and "px (mapSize ly) \<noteq> 0" "py (mapSize ly) \<noteq> 0" "\<not> fileBasedView ly"
    and "pane \<in> set (panes ly)" "bounds_contains_point pane p"
    and "coords = TileCoordData (\<lfloor>px p / of_int (tileSize (geom ly))\<rfloor> * tileSize (geom ly))
       (\<lfloor>py p / of_int (tileSize (geom ly))\<rfloor> * tileSize (geom ly)) (mapZoom ly) (selectedPart ly) (Some (selectedMode ly))"
    and "isValidTile (geom ly) coords"
  shows "requested (geom ly) coords (cache (update now ly)) \<or>
     (\<exists>a. tile_addr (cache (update now ly)) (tc_key coords) = Some a \<and>
        \<not> needsFetch (tile_at (cache (update now ly)) a) \<and> t_current (tile_at (cache (update now ly)) a))"
proof -
  define g where "g = geom ly"
  define ij where "ij = (\<lfloor>px p / of_int (tileSize g)\<rfloor>, \<lfloor>py p / of_int (tileSize g)\<rfloor>)"
  define ps where "ps = concat (map range_positions (pxBoundsToTileRanges ly (pixelBoundsCore ly)))"
  have x: "coords = grid_coords g (mapZoom ly) (selectedPart ly) (selectedMode ly) ij"
    by (simp add: assms(11) grid_coords_def ij_def g_def)
  have ij: "ij \<in> set ps" using visible_position [OF _ assms(9,10)] assms(2) by (simp add: ij_def ps_def g_def geom_ok_def)
  define ly1 where "ly1 = mark_not_current (mapZoom ly) ly"
  have ok1: "cache_ok (cache ly1)" unfolding ly1_def by (rule mark_not_current_ok [OF assms(1)])
  obtain c2 q where m: "fold (missing_step g (mapZoom ly) (selectedPart ly) (selectedMode ly)) ps (cache ly1, []) = (c2, q)"
    by fastforce
  have gm: "getMissingTiles (pixelBoundsCore ly) (mapZoom ly) ly1 = (ly1\<lparr>cache := c2\<rparr>, q)"
    using m by (simp add: getMissingTiles_def ly1_def ps_def g_def)
  have ok2: "cache_ok c2" using missing_fold_marked [OF m] marked_facts(1) [OF _ ok1] by blast
  define ly3 where "ly3 = sendClientZoom False (sendClientVisibleArea False (ly1\<lparr>cache := c2\<rparr>))"
  have ext: "extends c2 (cache ly3)"
    unfolding ly3_def
    using extends_trans [OF extends_sendClientVisibleArea extends_sendClientZoom, of "ly1\<lparr>cache := c2\<rparr>"] by simp
  have ok3: "cache_ok (cache ly3)"
    by (rule cache_ok_extends [OF ext _ ok2]) (simp add: ly3_def emptyTiles_sendClient)
  have fields: "geom ly3 = g" "selectedPart ly3 = selectedPart ly" "selectedMode ly3 = selectedMode ly"
    by (simp_all add: ly3_def ly1_def g_def)
  have upd: "cache (update now ly) = (if q \<noteq> [] then cache (addTiles now q ly3) else cache ly3)"
    using assms(3-8) gm by (auto simp: update_def Let_def initPreFetchAdjacentTiles_def ly1_def [symmetric] ly3_def [symmetric])
  have xf: "tc_part coords = selectedPart ly3" "tc_mode coords = selectedMode ly3"
    by (simp_all add: x grid_coords_def TileCoordData_def fields)
  from missing_fold_covers [OF ok1 ij _ m] assms(12)
  consider "tileNeedsFetch (tc_key coords) c2" "coords \<in> set q"
    | a where "\<not> tileNeedsFetch (tc_key coords) c2" "tile_addr c2 (tc_key coords) = Some a" "t_current (tile_at c2 a)"
    by (auto simp: x g_def)
  then show ?thesis
  proof cases
    case 1
    then have "requested g coords (cache (addTiles now q ly3))"
      using addTiles_requested [OF ok3 1(2) _ xf] extends_needsFetch [OF ext] fields by simp
    then show ?thesis using 1(2) upd by (auto simp: g_def)
  next
    case 2
    then have t3: "tile_addr (cache ly3) (tc_key coords) = Some a" "tile_at (cache ly3) a = tile_at c2 a"
      using ext by (simp_all add: extends_def)
    have "tile_addr (cache (addTiles now q ly3)) (tc_key coords) = Some a \<and>
        tile_at (cache (addTiles now q ly3)) a = tile_at c2 a"
      using addTiles_keeps [OF ok3 t3(1)] t3(2) by simp
    then show ?thesis using upd t3 2 by (auto simp: tileNeedsFetch_def)
  qed
qed

definition wit_layer :: layer where
  "wit_layer = \<lparr>geom = \<lparr>tileSize = 256, tileWidthPx = 256, tileHeightPx = 256, tileWidthTwips = 3840,
        tileHeightTwips = 3840, docWidthTwips = 12240, docHeightTwips = 15840, dpiScale = 1\<rparr>,
     cache = empty_cache, selectedPart = 0, selectedMode = 0, splitPos = Some (Pt 0 100), docType = Text,
     documentInfo = ''status'', canonicalIdInitialized = True, gotFirstCellCursor = False, docLoaded = True,
     sendLive = True, mapSize = Pt 800 600, mapZoom = 10, partsDirection = 1,
     pixelBoundsCore = Bnd (Pt 0 300) (Pt 500 700), pixelBounds = Bnd (Pt 0 300) (Pt 500 700),
     clientVisibleArea = '''', clientZoom = '''', xSplitter = None, ySplitter = Some True, updateTimer = False,
     partTilePreFetcher = False, adjacentTilePreFetcher = None, fileBasedView = False, isZooming = False,
     partWidthTwips = 12240, partHeightTwips = 15840, spaceBetweenParts = 0, partCount = 1,
     viewedRectangle = Rect 0 300 500 400, documentBounds = Bnd (Pt 0 300) (Pt 500 700)\<rparr>"

theorem update_covers_view_witness:
  "requested (geom wit_layer) (TileCoordData 256 0 10 0 (Some 0)) (cache (update 7 wit_layer)) \<or>
   (\<exists>a. tile_addr (cache (update 7 wit_layer)) (tc_key (TileCoordData 256 0 10 0 (Some 0))) = Some a \<and>
      \<not> needsFetch (tile_at (cache (update 7 wit_layer)) a) \<and> t_current (tile_at (cache (update 7 wit_layer)) a))"
proof (rule update_covers_view [where pane = "Bnd (Pt 0 0) (Pt 500 100)" and p = "Pt 300 50"])
  show "Bnd (Pt 0 0) (Pt 500 100) \<in> set (panes wit_layer)"
    by (simp add: wit_layer_def panes_def getPxBoundList_def geometry_defs)
qed (simp_all add: wit_layer_def geom_ok_def isValidTile_def TileCoordData_def bounds_contains_point_iff floor_eq_iff)

end
