(* ===== verification/Prefetch.thy ===== *)
theory Prefetch
  imports Tile_Coverage
begin

text \<open>
  \<open>L.TilesPreFetcher\<close> and \<open>L.TilesPreFetcher.PaneBorder\<close> (layer/tile/CanvasTileLayer.js): while the
  user is idle, tiles around the visible area are fetched, border by border, a few per tick.
  \<open>getPanesProperties\<close> is from layer/SplitPanesContext.ts.
\<close>

named_theorems prefetch_defs "definitions of the prefetcher"

section \<open>State\<close>

record pane_border =
  pb_border :: "int bounds"
  pb_xFixed :: bool
  pb_yFixed :: bool
  pb_index :: nat

text \<open>
  \<open>None\<close> is \<open>undefined\<close>. \<open>pf_interval\<close> and \<open>pf_idle\<close> tell whether the interval timer and the
  idle timer are set.
\<close>

record prefetcher =
  pf_zoom :: "int option"
  pf_part :: "int option"
  pf_mode :: "int option"
  pf_hasEditPerm :: "bool option"
  pf_pixelBounds :: "rat bounds option"
  pf_splitPos :: "rat point option"
  pf_borders :: "pane_border list option"
  pf_cumTileCount :: int
  pf_interval :: bool
  pf_idle :: bool

definition new_prefetcher :: prefetcher where
  "new_prefetcher = \<lparr>pf_zoom = None, pf_part = None, pf_mode = None, pf_hasEditPerm = None, pf_pixelBounds = None,
     pf_splitPos = None, pf_borders = None, pf_cumTileCount = 0, pf_interval = False, pf_idle = False\<rparr>"

definition PaneBorder :: "int bounds \<Rightarrow> bool \<Rightarrow> bool \<Rightarrow> pane_border" where
  [prefetch_defs]: "PaneBorder b xFixed yFixed = \<lparr>pb_border = b, pb_xFixed = xFixed, pb_yFixed = yFixed, pb_index = 0\<rparr>"

definition getPanesProperties :: "rat point \<Rightarrow> (bool \<times> bool) list" where
  [prefetch_defs]: "getPanesProperties split =
     (if px split \<noteq> 0 \<and> py split \<noteq> 0 then [(True, True)] else []) @
     (if py split \<noteq> 0 then [(False, True)] else []) @
     (if px split \<noteq> 0 then [(True, False)] else []) @ [(False, False)]"

definition pane_status :: "layer \<Rightarrow> (bool \<times> bool) list" where
  [prefetch_defs]: "pane_status ly = (case splitPos ly of Some s \<Rightarrow> getPanesProperties s | None \<Rightarrow> [(False, False)])"

section \<open>Borders\<close>

definition make_border :: "int bounds \<times> bool \<times> bool \<Rightarrow> pane_border" where
  [prefetch_defs]: "make_border s =
     (case s of (r, xFixed, yFixed) \<Rightarrow>
        PaneBorder (bounds_of (point_add (bmin r) (Pt (- 1) (- 1))) (point_add (bmax r) (Pt 1 1))) xFixed yFixed)"

definition fresh_borders :: "layer \<Rightarrow> pane_border list" where
  [prefetch_defs]: "fresh_borders ly =
     map make_border (filter (\<lambda>(r, xFixed, yFixed). \<not> (xFixed \<and> yFixed))
       (zip (pxBoundsToTileRanges ly (pixelBoundsCore ly)) (pane_status ly)))"

definition validTileRange :: "layer_geom \<Rightarrow> int bounds" where
  [prefetch_defs]: "validTileRange g =
     bounds_of (Pt 0 0) (Pt ((docWidthTwips g - 1) div tileWidthTwips g) ((docHeightTwips g - 1) div tileHeightTwips g))"

text \<open>
  The tiles of one border, in the order below, above, right, left; \<open>None\<close> when no side of the
  border lies inside the document, where the loop ends.
\<close>

definition border_tiles :: "int \<Rightarrow> int bounds \<Rightarrow> pane_border \<Rightarrow> int point list option" where
  [prefetch_defs]: "border_tiles ts valid pb =
     (let b = pb_border pb;
          cl = bounds_clamp valid b;
          top = (\<not> pb_yFixed pb \<and> py (bmin b) = py (bmin cl));
          bottom = (\<not> pb_yFixed pb \<and> py (bmax b) = py (bmax cl));
          left = (\<not> pb_xFixed pb \<and> px (bmin b) = px (bmin cl));
          right = (\<not> pb_xFixed pb \<and> px (bmax b) = px (bmax cl));
          xs = [px (bmin cl)..px (bmax cl)];
          ys = [py (bmin cl)..py (bmax cl)]
      in if \<not> left \<and> \<not> right \<and> \<not> top \<and> \<not> bottom then None
         else Some ((if bottom then map (\<lambda>i. Pt (i * ts) (py (bmax b) * ts)) xs else []) @
                    (if top then map (\<lambda>i. Pt (i * ts) (py (bmin b) * ts)) xs else []) @
                    (if right then map (\<lambda>i. Pt (px (bmax b) * ts) (i * ts)) ys else []) @
                    (if left then map (\<lambda>i. Pt (px (bmin b) * ts) (i * ts)) ys else [])))"

definition grow_border :: "int bounds \<Rightarrow> pane_border \<Rightarrow> pane_border" where
  [prefetch_defs]: "grow_border valid pb =
     (let b = pb_border pb;
          minx = (if \<not> pb_xFixed pb \<and> px (bmin b) > 0 then px (bmin b) - 1 else px (bmin b));
          maxx = (if \<not> pb_xFixed pb \<and> px (bmax b) < px (bmax valid) then px (bmax b) + 1 else px (bmax b));
          miny = (if \<not> pb_yFixed pb \<and> py (bmin b) > 0 then py (bmin b) - 1 else py (bmin b));
          maxy = (if \<not> pb_yFixed pb \<and> py (bmax b) < py (bmax valid) then py (bmax b) + 1 else py (bmax b))
      in pb\<lparr>pb_border := Bnd (Pt minx miny) (Pt maxx maxy), pb_index := pb_index pb + 1\<rparr>)"

section \<open>Choosing tiles\<close>

text \<open>
  \<open>tilesToFetch\<close> is \<open>Infinity\<close> (here \<open>None\<close>) for an immediate fetch. The result of the scan of a
  queue also says whether tiles were left over.
\<close>

record fetch_state =
  fs_visited :: "(string, bool) object"
  fs_final :: "tile_coords list"
  fs_left :: "nat option"

definition has_left :: "nat option \<Rightarrow> bool" where
  "has_left l \<longleftrightarrow> (case l of None \<Rightarrow> True | Some n \<Rightarrow> n > 0)"

fun scan_queue :: "layer \<Rightarrow> (int point \<Rightarrow> tile_coords) \<Rightarrow> int point list \<Rightarrow> fetch_state \<times> bool \<Rightarrow> fetch_state \<times> bool" where
  "scan_queue ly mk [] s = s"
| "scan_queue ly mk (p # ps) (fs, pending) =
     (let coords = mk p;
          key = tc_key coords
      in if obj_get (fs_visited fs) key = Some True \<or> \<not> isValidTile (geom ly) coords \<or> \<not> tileNeedsFetch key (cache ly)
         then scan_queue ly mk ps (fs, pending)
         else if has_left (fs_left fs)
         then scan_queue ly mk ps
                (fs\<lparr>fs_visited := obj_set key True (fs_visited fs), fs_final := fs_final fs @ [coords],
                    fs_left := map_option (\<lambda>n. n - 1) (fs_left fs)\<rparr>, pending)
         else scan_queue ly mk ps (fs, True))"

lemma scan_queue_pending:
  "scan_queue ly mk ps (fs, pending) = (fs', True) \<Longrightarrow> \<not> pending \<Longrightarrow> fs_left fs' = Some 0"
proof (induction ps arbitrary: fs pending)
  case (Cons p ps)
  have stuck: "scan_queue ly mk qs (fs, True) = (fs', True) \<Longrightarrow> \<not> has_left (fs_left fs) \<Longrightarrow> fs_left fs' = Some 0" for qs
    by (induction qs) (auto simp: Let_def has_left_def split: if_splits option.splits)
  show ?case
    using Cons.prems Cons.IH stuck [of ps] by (auto simp: Let_def split: if_splits)
qed simp

text \<open>
  The border loop of one pane. After a scan that left tiles over the border stays as it is and
  the loop condition is checked again.
\<close>

function border_loop :: "layer \<Rightarrow> (int point \<Rightarrow> tile_coords) \<Rightarrow> nat \<Rightarrow> int bounds \<Rightarrow> pane_border \<Rightarrow> int point list \<Rightarrow>
    fetch_state \<Rightarrow> pane_border \<times> fetch_state" where
  "border_loop ly mk maxBorderWidth valid pb queue fs =
     (if has_left (fs_left fs) \<and> pb_index pb < maxBorderWidth then
        (case border_tiles (tileSize (geom ly)) valid pb of
           None \<Rightarrow> (pb, fs)
         | Some ps \<Rightarrow>
             (case scan_queue ly mk (queue @ ps) (fs, False) of
                (fs1, tilesPending) \<Rightarrow>
                  (if tilesPending then border_loop ly mk maxBorderWidth valid pb (queue @ ps) fs1
                   else border_loop ly mk maxBorderWidth valid (grow_border valid pb) (queue @ ps) fs1)))
      else (pb, fs))"
  by pat_completeness auto
termination
proof (relation "measures [\<lambda>(ly, mk, w, v, pb, q, fs). w - pb_index pb,
    \<lambda>(ly, mk, w, v, pb, q, fs). if has_left (fs_left fs) then 1 else 0]", goal_cases)
  case (2 ly mk w v pb q fs ps fs1 pending)
  have "fs_left fs1 = Some 0"
    using scan_queue_pending [of ly mk "q @ ps" fs False fs1] 2 by auto
  then show ?case using 2(1) by (simp add: has_left_def)
next
  case (3 ly mk w v pb q fs ps fs1 pending)
  then show ?case by (auto simp: grow_border_def Let_def)
qed simp_all

declare border_loop.simps [simp del]

definition pane_step :: "layer \<Rightarrow> (int point \<Rightarrow> tile_coords) \<Rightarrow> nat \<Rightarrow> int bounds \<Rightarrow> pane_border \<Rightarrow>
    pane_border list \<times> fetch_state \<times> bool \<Rightarrow> pane_border list \<times> fetch_state \<times> bool" where
  [prefetch_defs]: "pane_step ly mk maxBorderWidth valid pb s =
     (case s of (done, fs, doneAllPanes) \<Rightarrow>
        (case border_loop ly mk maxBorderWidth valid pb [] fs of
           (pb', fs') \<Rightarrow> (done @ [pb'], fs', doneAllPanes \<and> \<not> pb_index pb' < maxBorderWidth)))"

section \<open>Timers\<close>

definition clearTilesPreFetcher :: "prefetcher \<Rightarrow> prefetcher" where
  [prefetch_defs]: "clearTilesPreFetcher pf = (if pf_interval pf then pf\<lparr>pf_interval := False\<rparr> else pf)"

definition clearPreFetch :: "prefetcher \<Rightarrow> prefetcher" where
  [prefetch_defs]: "clearPreFetch pf =
     (let pf1 = clearTilesPreFetcher pf in if pf_idle pf1 then pf1\<lparr>pf_idle := False\<rparr> else pf1)"

definition resetPreFetching :: "layer \<Rightarrow> bool \<Rightarrow> prefetcher \<Rightarrow> prefetcher" where
  [prefetch_defs]: "resetPreFetching ly resetBorder pf =
     (let pf1 = clearPreFetch pf;
          pf2 = (if resetBorder then pf1\<lparr>pf_borders := None\<rparr> else pf1)
      in pf2\<lparr>pf_part := Some (selectedPart ly), pf_mode := Some (selectedMode ly), pf_idle := True\<rparr>)"

definition idleTimer :: "prefetcher \<Rightarrow> prefetcher" where
  [prefetch_defs]: "idleTimer pf = pf\<lparr>pf_interval := True, pf_idle := False, pf_cumTileCount := 0\<rparr>"

section \<open>A tick\<close>

definition max_tiles :: "bool \<Rightarrow> nat" where
  [prefetch_defs]: "max_tiles hasEditPerm = (if hasEditPerm then 5 else 10)"

definition max_width :: "bool \<Rightarrow> nat" where
  [prefetch_defs]: "max_width hasEditPerm = (if hasEditPerm then 3 else 5)"

definition or_set :: "'a option \<Rightarrow> 'a \<Rightarrow> 'a option" where
  "or_set x v = (case x of None \<Rightarrow> Some v | Some u \<Rightarrow> Some u)"

definition css_split :: "layer \<Rightarrow> rat point" where
  [prefetch_defs]: "css_split ly =
     (case splitPos ly of Some s \<Rightarrow> point_divideBy s (dpiScale (geom ly)) | None \<Rightarrow> Pt 0 0)"

definition default_fields :: "layer \<Rightarrow> bool \<Rightarrow> prefetcher \<Rightarrow> prefetcher" where
  [prefetch_defs]: "default_fields ly hasEditPerm pf =
     pf\<lparr>pf_zoom := or_set (pf_zoom pf) (mapZoom ly), pf_part := or_set (pf_part pf) (selectedPart ly),
        pf_mode := or_set (pf_mode pf) (selectedMode ly), pf_hasEditPerm := or_set (pf_hasEditPerm pf) hasEditPerm,
        pf_pixelBounds := or_set (pf_pixelBounds pf) (pixelBoundsCore ly),
        pf_splitPos := or_set (pf_splitPos pf) (css_split ly)\<rparr>"

definition borders_stale :: "layer \<Rightarrow> bool \<Rightarrow> prefetcher \<Rightarrow> bool" where
  [prefetch_defs]: "borders_stale ly hasEditPerm pf \<longleftrightarrow>
     pf_borders pf = None \<or> pf_borders pf = Some [] \<or> pf_zoom pf \<noteq> Some (mapZoom ly) \<or>
     pf_part pf \<noteq> Some (selectedPart ly) \<or> pf_mode pf \<noteq> Some (selectedMode ly) \<or>
     pf_hasEditPerm pf \<noteq> Some hasEditPerm \<or>
     \<not> bounds_equals (pixelBoundsCore ly) (the (pf_pixelBounds pf)) \<or>
     \<not> point_equals (css_split ly) (the (pf_splitPos pf))"

definition refresh_borders :: "layer \<Rightarrow> bool \<Rightarrow> bool \<Rightarrow> prefetcher \<Rightarrow> prefetcher" where
  [prefetch_defs]: "refresh_borders ly hasEditPerm force pf =
     (if force \<or> borders_stale ly hasEditPerm pf
      then pf\<lparr>pf_zoom := Some (mapZoom ly), pf_part := Some (selectedPart ly), pf_mode := Some (selectedMode ly),
              pf_hasEditPerm := Some hasEditPerm, pf_pixelBounds := Some (pixelBoundsCore ly),
              pf_splitPos := Some (css_split ly), pf_borders := Some (fresh_borders ly)\<rparr>
      else pf)"

definition choose_tiles :: "layer \<Rightarrow> bool \<Rightarrow> bool \<Rightarrow> prefetcher \<Rightarrow> pane_border list \<times> fetch_state \<times> bool" where
  [prefetch_defs]: "choose_tiles ly hasEditPerm immediate pf =
     fold (pane_step ly (\<lambda>p. TileCoordData (px p) (py p) (mapZoom ly) (the (pf_part pf)) (pf_mode pf))
            (max_width hasEditPerm) (validTileRange (geom ly)))
       (the (pf_borders pf))
       ([], \<lparr>fs_visited = [], fs_final = [], fs_left = (if immediate then None else Some (max_tiles hasEditPerm))\<rparr>, True)"

definition preFetchTiles :: "int \<Rightarrow> bool \<Rightarrow> bool \<Rightarrow> bool \<Rightarrow> layer \<Rightarrow> prefetcher \<Rightarrow> layer \<times> prefetcher" where
  [prefetch_defs]: "preFetchTiles now hasEditPerm forceBorderCalc immediate ly0 pf =
     (let ly = (if fileBasedView ly0 then updateFileBasedView now ly0 else ly0)
      in if emptyTilesCount (cache ly) > 0 \<or> \<not> canonicalIdInitialized ly then (ly, pf)
         else
           (let pf1 = refresh_borders ly hasEditPerm forceBorderCalc (default_fields ly hasEditPerm pf);
                (borders, fs, doneAllPanes) = choose_tiles ly hasEditPerm immediate pf1;
                pf2 = pf1\<lparr>pf_borders := Some borders\<rparr>;
                tilesRequested = (fs_final fs \<noteq> []);
                ly1 = (if tilesRequested then addTiles now (fs_final fs) ly else ly);
                pf3 = (if tilesRequested then pf2\<lparr>pf_cumTileCount := pf_cumTileCount pf2 + int (length (fs_final fs))\<rparr> else pf2)
            in (ly1, if \<not> tilesRequested \<or> doneAllPanes then (clearTilesPreFetcher pf3)\<lparr>pf_borders := None\<rparr> else pf3)))"

section \<open>What a tick fetches\<close>

text \<open>
  The invariant of the scan: the tiles chosen so far are distinct, valid, have to be fetched and
  belong to the part and mode being fetched; together with the tiles that may still be chosen
  they are as many as the limit allows.
\<close>

definition chosen_ok :: "layer \<Rightarrow> (int point \<Rightarrow> tile_coords) \<Rightarrow> nat option \<Rightarrow> fetch_state \<Rightarrow> bool" where
  "chosen_ok ly mk limit fs \<longleftrightarrow>
     distinct (fs_final fs) \<and>
     (\<forall>x. obj_get (fs_visited fs) (tc_key x) = Some True \<longleftrightarrow> x \<in> set (fs_final fs)) \<and>
     (\<forall>x \<in> set (fs_final fs). isValidTile (geom ly) x \<and> tileNeedsFetch (tc_key x) (cache ly) \<and> x \<in> range mk) \<and>
     (case limit of None \<Rightarrow> fs_left fs = None | Some n \<Rightarrow> \<exists>l. fs_left fs = Some l \<and> length (fs_final fs) + l = n)"

lemma scan_queue_ok:
  "chosen_ok ly mk limit fs \<Longrightarrow> scan_queue ly mk ps (fs, pending) = (fs', pending') \<Longrightarrow> chosen_ok ly mk limit fs'"
proof (induction ps arbitrary: fs pending)
  case (Cons p ps)
  let ?fs1 = "fs\<lparr>fs_visited := obj_set (tc_key (mk p)) True (fs_visited fs), fs_final := fs_final fs @ [mk p],
      fs_left := map_option (\<lambda>n. n - 1) (fs_left fs)\<rparr>"
  have new: "chosen_ok ly mk limit ?fs1"
    if "obj_get (fs_visited fs) (tc_key (mk p)) \<noteq> Some True" "isValidTile (geom ly) (mk p)"
      "tileNeedsFetch (tc_key (mk p)) (cache ly)" "has_left (fs_left fs)"
    using Cons.prems(1) that unfolding chosen_ok_def
    by (cases limit) (auto simp: js_object has_left_def)
  show ?case
    using Cons.prems Cons.IH new by (auto simp: Let_def split: if_splits)
qed simp

lemma border_loop_ok:
  "chosen_ok ly mk limit fs \<Longrightarrow> border_loop ly mk w v pb q fs = (pb', fs') \<Longrightarrow> chosen_ok ly mk limit fs'"
proof (induction ly mk w v pb q fs rule: border_loop.induct)
  case (1 ly mk w v pb q fs)
  show ?case
  proof (cases "has_left (fs_left fs) \<and> pb_index pb < w")
    case True
    note go = this
    show ?thesis
    proof (cases "border_tiles (tileSize (geom ly)) v pb")
      case None
      then show ?thesis using 1(3,4) go by (simp add: border_loop.simps [of ly mk w v pb q fs])
    next
      case (Some ps)
      obtain fs1 pending where s: "scan_queue ly mk (q @ ps) (fs, False) = (fs1, pending)" by fastforce
      have ok: "chosen_ok ly mk limit fs1" by (rule scan_queue_ok [OF 1(3) s])
      show ?thesis
        using 1(1) [OF go Some s [symmetric] _ ok] 1(2) [OF go Some s [symmetric] _ ok] 1(4) go Some s
        by (auto simp: border_loop.simps [of ly mk w v pb q fs] split: if_splits)
    qed
  qed (use 1 in \<open>auto simp: border_loop.simps [of ly mk w v pb q fs]\<close>)
qed

lemma choose_tiles_ok:
  assumes "choose_tiles ly e immediate pf = (borders, fs, d)"
  shows "chosen_ok ly (\<lambda>p. TileCoordData (px p) (py p) (mapZoom ly) (the (pf_part pf)) (pf_mode pf))
     (if immediate then None else Some (max_tiles e)) fs"
proof -
  let ?mk = "\<lambda>p. TileCoordData (px p) (py p) (mapZoom ly) (the (pf_part pf)) (pf_mode pf)"
  let ?lim = "if immediate then None else Some (max_tiles e)"
  have step: "chosen_ok ly ?mk ?lim fs \<Longrightarrow>
      fold (pane_step ly ?mk w v) bs (done, fs, d) = (done', fs', d') \<Longrightarrow> chosen_ok ly ?mk ?lim fs'"
    for w v bs "done" fs d done' fs' d'
  proof (induction bs arbitrary: "done" fs d)
    case (Cons pb bs)
    obtain pb' fs1 where b: "border_loop ly ?mk w v pb [] fs = (pb', fs1)" by fastforce
    then show ?case
      using Cons.IH [OF border_loop_ok [OF Cons.prems(1) b]] Cons.prems(2) by (auto simp: pane_step_def)
  qed simp
  have "chosen_ok ly ?mk ?lim \<lparr>fs_visited = [], fs_final = [], fs_left = ?lim\<rparr>"
    by (simp add: chosen_ok_def)
  from step [OF this] assms show ?thesis unfolding choose_tiles_def by blast
qed

section \<open>Timers as a state machine\<close>

text \<open>The prefetcher as its owner drives it; \<open>idleTimer\<close> fires only when it is set, so does the interval.\<close>

inductive prefetch_reachable :: "prefetcher \<Rightarrow> bool" where
  new: "prefetch_reachable new_prefetcher"
| reset: "prefetch_reachable pf \<Longrightarrow> prefetch_reachable (resetPreFetching ly resetBorder pf)"
| clear: "prefetch_reachable pf \<Longrightarrow> prefetch_reachable (clearPreFetch pf)"
| clear_interval: "prefetch_reachable pf \<Longrightarrow> prefetch_reachable (clearTilesPreFetcher pf)"
| idle: "prefetch_reachable pf \<Longrightarrow> pf_idle pf \<Longrightarrow> prefetch_reachable (idleTimer pf)"
| tick: "prefetch_reachable pf \<Longrightarrow> pf_interval pf \<or> immediate \<Longrightarrow>
    preFetchTiles now e force immediate ly pf = (ly', pf') \<Longrightarrow> prefetch_reachable pf'"

lemma preFetchTiles_timers:
  assumes "preFetchTiles now e force immediate ly pf = (ly', pf')"
  shows "pf_idle pf' = pf_idle pf \<and> (pf_interval pf' \<longrightarrow> pf_interval pf)"
proof -
  have "pf_idle (refresh_borders l e f (default_fields l e p)) = pf_idle p \<and>
      pf_interval (refresh_borders l e f (default_fields l e p)) = pf_interval p" for l f p
    by (simp add: refresh_borders_def default_fields_def)
  then show ?thesis
    using assms by (auto simp: preFetchTiles_def clearTilesPreFetcher_def Let_def split: if_splits prod.splits)
qed

section \<open>Properties\<close>

text \<open>
  C36 (bounds). A tick that is not immediate asks for at most 10 tiles, 5 when the document is being
  edited, as the code asserts; each of them lies in the document, has to be fetched, and is asked
  for once.
\<close>

theorem prefetch_tick_bounded:
  assumes "choose_tiles ly hasEditPerm False pf = (borders, fs, allDone)"
  shows "length (fs_final fs) \<le> (if hasEditPerm then 5 else 10) \<and> distinct (fs_final fs) \<and>
     list_all (\<lambda>x. isValidTile (geom ly) x \<and> tileNeedsFetch (tc_key x) (cache ly) \<and> tc_part x = the (pf_part pf)) (fs_final fs)"
proof -
  have ok: "chosen_ok ly (\<lambda>p. TileCoordData (px p) (py p) (mapZoom ly) (the (pf_part pf)) (pf_mode pf))
      (Some (max_tiles hasEditPerm)) fs"
    using choose_tiles_ok [OF assms] by simp
  have "length (fs_final fs) \<le> max_tiles hasEditPerm" using ok by (auto simp: chosen_ok_def)
  moreover have "list_all (\<lambda>x. isValidTile (geom ly) x \<and> tileNeedsFetch (tc_key x) (cache ly) \<and>
      tc_part x = the (pf_part pf)) (fs_final fs)"
    using ok by (fastforce simp: chosen_ok_def list_all_iff TileCoordData_def)
  ultimately show ?thesis using ok by (simp add: max_tiles_def chosen_ok_def)
qed

definition wit_prefetch :: prefetcher where
  "wit_prefetch = refresh_borders (wit_layer\<lparr>splitPos := None\<rparr>) True True (default_fields (wit_layer\<lparr>splitPos := None\<rparr>) True new_prefetcher)"

theorem prefetch_tick_bounded_witness:
  "length (fs_final (fst (snd (choose_tiles (wit_layer\<lparr>splitPos := None\<rparr>) True False wit_prefetch)))) \<le> 5"
  using prefetch_tick_bounded [of "wit_layer\<lparr>splitPos := None\<rparr>" True wit_prefetch] by (metis prod.collapse)

text \<open>
  The list of visible tile ranges and the list of pane properties that the prefetcher
  walks in step always have the same length, as the code asserts, and the first pane of a view that
  is split both ways, which never scrolls, gets no border.
\<close>

lemma panes_agree:
  "length (pxBoundsToTileRanges ly b) = length (pane_status ly) \<and>
   length (fresh_borders ly) =
     length (pane_status ly) - (case splitPos ly of None \<Rightarrow> 0 | Some s \<Rightarrow> if px s \<noteq> 0 \<and> py s \<noteq> 0 then 1 else 0)"
  by (auto simp: pxBoundsToTileRanges_def pane_status_def getPxBoundList_def getPanesProperties_def
      fresh_borders_def Let_def split: option.split)

text \<open>
  The idle timer and the interval timer of the prefetcher are never set at the same
  time, whatever sequence of resets, clears, timeouts and ticks it goes through.
\<close>

theorem prefetch_timers_exclusive:
  assumes "prefetch_reachable pf"
  shows "\<not> (pf_idle pf \<and> pf_interval pf)"
  using assms
proof (induction rule: prefetch_reachable.induct)
  case (tick pf immediate now e force ly ly' pf')
  then show ?case using preFetchTiles_timers [OF tick(3)] by auto
qed (auto simp: new_prefetcher_def resetPreFetching_def clearPreFetch_def clearTilesPreFetcher_def idleTimer_def Let_def)

theorem prefetch_timers_exclusive_witness:
  "\<not> (pf_idle (idleTimer (resetPreFetching wit_layer True new_prefetcher)) \<and>
      pf_interval (idleTimer (resetPreFetching wit_layer True new_prefetcher)))"
  by (rule prefetch_timers_exclusive, rule prefetch_reachable.idle,
      rule prefetch_reachable.reset [OF prefetch_reachable.new])
    (simp add: resetPreFetching_def Let_def)

end
