(* ===== verification/Server_Cmd.thy ===== *)
theory Server_Cmd
  imports Tile_Requests
begin

text \<open>
  The parser of server messages, \<open>parseServerCmd\<close> of core/Socket.js: a message is split at blanks
  and newlines, and every token that starts with a known key sets a property of the command. The
  chain of \<open>else if\<close> is a list of rules of which the first that applies is taken.
\<close>

named_theorems cmd_defs "definitions of the command parser"

section \<open>Reading numbers\<close>

datatype jsnum = NaN | Num int

definition js_space :: "char \<Rightarrow> bool" where
  "js_space c \<longleftrightarrow> c \<in> {CHR '' '', CHR 0x09, CHR 0x0A, CHR 0x0B, CHR 0x0C, CHR 0x0D, CHR 0xA0}"

definition hex_val :: "char \<Rightarrow> int option" where
  "hex_val c =
     (let n = of_char c :: int in
      if 48 \<le> n \<and> n \<le> 57 then Some (n - 48)
      else if 97 \<le> n \<and> n \<le> 102 then Some (n - 87)
      else if 65 \<le> n \<and> n \<le> 70 then Some (n - 55) else None)"

definition number_of :: "int \<Rightarrow> int list \<Rightarrow> jsnum" where
  "number_of base ds = (if ds = [] then NaN else Num (foldl (\<lambda>v d. v * base + d) 0 ds))"

text \<open>
  \<open>parseInt\<close> without a radix: leading blanks, a sign, then the longest run of digits, hexadecimal
  after \<open>0x\<close>; no digits give \<open>NaN\<close>.
\<close>

definition unsigned_int :: "string \<Rightarrow> jsnum" where
  [cmd_defs]: "unsigned_int s =
     (if take 2 s = ''0x'' \<or> take 2 s = ''0X''
      then number_of 16 (map (\<lambda>c. the (hex_val c)) (takeWhile (\<lambda>c. hex_val c \<noteq> None) (drop 2 s)))
      else number_of 10 (map (\<lambda>c. int (digit_val c)) (takeWhile is_digit s)))"

fun neg_num :: "jsnum \<Rightarrow> jsnum" where
  "neg_num NaN = NaN"
| "neg_num (Num n) = Num (- n)"

definition parseInt :: "string \<Rightarrow> jsnum" where
  [cmd_defs]: "parseInt s =
     (case dropWhile js_space s of
        [] \<Rightarrow> NaN
      | c # cs \<Rightarrow>
          (if c = CHR ''-'' then neg_num (unsigned_int cs)
           else if c = CHR ''+'' then unsigned_int cs
           else unsigned_int (c # cs)))"

section \<open>Tokens\<close>

definition is_sep :: "char \<Rightarrow> bool" where
  "is_sep c \<longleftrightarrow> c = CHR '' '' \<or> c = CHR 0x0A"

function split_tokens :: "string \<Rightarrow> string list" where
  "split_tokens s =
     (let rest = dropWhile (\<lambda>c. \<not> is_sep c) s
      in takeWhile (\<lambda>c. \<not> is_sep c) s # (if rest = [] then [] else split_tokens (dropWhile is_sep rest)))"
  by pat_completeness auto
termination
proof (relation "measure length", goal_cases)
  case (2 s rest)
  then have "is_sep (hd rest)" by (metis hd_dropWhile)
  then have "length (dropWhile is_sep rest) < length rest"
    using 2(2) length_dropWhile_le [of is_sep "tl rest"] by (cases rest) auto
  also have "length rest \<le> length s" unfolding 2(1) by (rule length_dropWhile_le)
  finally show ?case by simp
qed simp

declare split_tokens.simps [simp del]

section \<open>Commands\<close>

text \<open>A command is an object; its property values are what the parser can put there.\<close>

datatype cmd_val =
    VNum jsnum
  | VStr string
  | VStrs "string list"
  | VNums "jsnum list"
  | VRects "jsnum list list"
  | VBool bool

type_synonym command = "(string, cmd_val) object"

text \<open>How a rule turns the text behind its key into a value.\<close>

datatype value_kind = KInt | KStr | KLine | KStrList | KIntList | KRects

definition no_newlines :: "string \<Rightarrow> string" where
  "no_newlines s = filter (\<lambda>c. c \<noteq> CHR 0x0D \<and> c \<noteq> CHR 0x0A) s"

definition rect_numbers :: "string \<Rightarrow> jsnum list" where
  "rect_numbers element =
     (let ps = split_on (CHR '','') element
      in map (\<lambda>i. if i < length ps then parseInt (ps ! i) else NaN) [0, 1, 2, 3])"

fun read_value :: "value_kind \<Rightarrow> string \<Rightarrow> cmd_val" where
  "read_value KInt v = VNum (parseInt v)"
| "read_value KStr v = VStr v"
| "read_value KLine v = VStr (no_newlines v)"
| "read_value KStrList v = VStrs (split_on (CHR '','') v)"
| "read_value KIntList v = VNums (map parseInt (split_on (CHR '','') v))"
| "read_value KRects v = VRects (map rect_numbers (split_on (CHR '';'') v))"

text \<open>
  The chain of tests, in the order of the source: the key a token has to start with, the property
  it sets, and the kind of its value. The rule for the token \<open>nopng\<close>, which has no value, is the
  one without a kind; the value of \<open>wid=\<close> is read by \<open>getParameterValue\<close>.
\<close>

definition token_rules :: "(string \<times> string \<times> value_kind option) list" where
  [cmd_defs]: "token_rules =
     [(''tileposx='', ''x'', Some KInt), (''tileposy='', ''y'', Some KInt), (''x='', ''x'', Some KInt),
      (''y='', ''y'', Some KInt), (''tilewidth='', ''tileWidth'', Some KInt), (''tileheight='', ''tileHeight'', Some KInt),
      (''width='', ''width'', Some KInt), (''height='', ''height'', Some KInt), (''part='', ''part'', Some KInt),
      (''parts='', ''parts'', Some KInt), (''mode='', ''mode'', Some KInt), (''current='', ''selectedPart'', Some KInt),
      (''id='', ''id'', Some KLine), (''type='', ''type'', Some KLine), (''cmd='', ''errorCmd'', Some KStr),
      (''code='', ''errorCode'', Some KStr), (''kind='', ''errorKind'', Some KStr), (''jail='', ''jail'', Some KStr),
      (''dir='', ''dir'', Some KStr), (''downloadid='', ''downloadid'', Some KStr), (''name='', ''name'', Some KStr),
      (''filename='', ''filename'', Some KStr), (''port='', ''port'', Some KStr), (''font='', ''font'', Some KStr),
      (''char='', ''char'', Some KStr), (''url='', ''url'', Some KStr), (''viewid='', ''viewid'', Some KStr),
      (''nviewid='', ''nviewid'', Some KStr), (''params='', ''params'', Some KStrList),
      (''rendercount='', ''rendercount'', Some KInt), (''wid='', ''wireId'', Some KStr), (''title='', ''title'', Some KStr),
      (''dialogwidth='', ''dialogwidth'', Some KStr), (''dialogheight='', ''dialogheight'', Some KStr),
      (''rectangle='', ''rectangle'', Some KStr), (''hiddenparts='', ''hiddenparts'', Some KIntList),
      (''selectedparts='', ''selectedParts'', Some KIntList), (''rtlparts='', ''rtlParts'', Some KIntList),
      (''protectedparts='', ''protectedParts'', Some KIntList), (''hash='', ''hash'', Some KStr),
      (''nopng'', ''nopng'', None), (''username='', ''username'', Some KStr),
      (''pagerectangles='', ''pageRectangleList'', Some KRects), (''lastcolumn='', ''lastcolumn'', Some KInt),
      (''lastrow='', ''lastrow'', Some KInt), (''readonly='', ''readonly'', Some KInt)]"

definition rule_applies :: "string \<Rightarrow> string \<times> string \<times> value_kind option \<Rightarrow> bool" where
  [cmd_defs]: "rule_applies tok r =
     (case r of (key, property, kind) \<Rightarrow>
        (case kind of Some k \<Rightarrow> starts_with key tok | None \<Rightarrow> tok = key))"

fun apply_rules :: "(string \<times> string \<times> value_kind option) list \<Rightarrow> string \<Rightarrow> command \<Rightarrow> command" where
  "apply_rules [] tok cmd = cmd"
| "apply_rules (r # rs) tok cmd =
     (if rule_applies tok r then
        (case r of (key, property, kind) \<Rightarrow>
           obj_set property (case kind of Some k \<Rightarrow> read_value k (drop (length key) tok) | None \<Rightarrow> VBool True) cmd)
      else apply_rules rs tok cmd)"

definition parse_fields :: "string \<Rightarrow> command" where
  [cmd_defs]: "parse_fields msg = fold (apply_rules token_rules) (split_tokens msg) []"

text \<open>
  The zoom level of a tile message follows from its tile width: \<open>defaultZoom\<close> is
  \<open>map.options.zoom\<close>, \<open>optWidth\<close> is \<open>docLayer.options.tileWidthTwips\<close>; without a document layer
  there is no zoom. Numbers are real here, the logarithm has no rational value.
\<close>

definition zoom_of_width :: "int \<Rightarrow> int \<Rightarrow> int \<Rightarrow> int" where
  [cmd_defs]: "zoom_of_width defaultZoom optWidth tileWidth =
     \<lfloor>real_of_int defaultZoom - ln (real_of_int tileWidth / real_of_int optWidth) / ln (6 / 5) + 1 / 2\<rfloor>"

definition truthy_num :: "cmd_val option \<Rightarrow> bool" where
  "truthy_num v \<longleftrightarrow> (case v of Some (VNum (Num n)) \<Rightarrow> n \<noteq> 0 | _ \<Rightarrow> False)"

definition the_num :: "cmd_val option \<Rightarrow> int" where
  "the_num v = (case v of Some (VNum (Num n)) \<Rightarrow> n | _ \<Rightarrow> 0)"

definition parseServerCmd :: "(int \<times> int) option \<Rightarrow> string \<Rightarrow> command" where
  [cmd_defs]: "parseServerCmd docLayer msg =
     (let cmd = parse_fields msg
      in case docLayer of
           None \<Rightarrow> cmd
         | Some (defaultZoom, optWidth) \<Rightarrow>
             (if truthy_num (obj_get cmd ''tileWidth'') \<and> truthy_num (obj_get cmd ''tileHeight'')
              then obj_set ''zoom'' (VNum (Num (zoom_of_width defaultZoom optWidth (the_num (obj_get cmd ''tileWidth''))))) cmd
              else cmd))"

text \<open>\<open>getParameterValue\<close> gives what follows the first equals sign.\<close>

definition getParameterValue :: "string \<Rightarrow> string option" where
  [cmd_defs]: "getParameterValue s =
     (if CHR ''='' \<in> set s then Some (drop 1 (dropWhile (\<lambda>c. c \<noteq> CHR ''='') s)) else None)"

section \<open>Numbers read back\<close>

lemma number_of_digits:
  "ds \<noteq> [] \<Longrightarrow> number_of 10 (map (\<lambda>c. int (digit_val c)) ds) = Num (int (nat_of_digits ds))"
proof -
  have "foldl (\<lambda>v d. v * 10 + d) (int k) (map (\<lambda>c. int (digit_val c)) ds) =
      int (foldl (\<lambda>n c. 10 * n + digit_val c) k ds)" for k and ds :: string
  proof (induction ds arbitrary: k)
    case (Cons d ds)
    have "int k * 10 + int (digit_val d) = int (10 * k + digit_val d)" by simp
    then show ?case using Cons [of "10 * k + digit_val d"] by (simp only: foldl_Cons list.map)
  qed simp
  from this [of 0 ds] show "ds \<noteq> [] \<Longrightarrow> ?thesis" by (simp add: number_of_def nat_of_digits_def)
qed

lemma unsigned_int_digits: "ds \<noteq> [] \<Longrightarrow> list_all is_digit ds \<Longrightarrow> unsigned_int ds = Num (int (nat_of_digits ds))"
proof -
  assume d: "ds \<noteq> []" "list_all is_digit ds"
  have "x \<noteq> CHR ''x'' \<and> x \<noteq> CHR ''X''" if "is_digit x" for x using that by (auto simp: is_digit_def)
  moreover have "set (take 2 ds) \<subseteq> Collect is_digit" using d(2) by (auto simp: list_all_iff dest: in_set_takeD)
  ultimately have "take 2 ds \<noteq> ''0x''" "take 2 ds \<noteq> ''0X''" by fastforce+
  moreover have "takeWhile is_digit ds = ds" using d(2) by (simp add: list_all_iff takeWhile_eq_all_conv)
  ultimately show ?thesis using d(1) number_of_digits [of ds] unfolding unsigned_int_def by presburger
qed

lemma parseInt_show_int: "parseInt (show_int n) = Num n"
proof -
  have digit: "\<not> js_space c" "c \<noteq> CHR ''-''" "c \<noteq> CHR ''+''" if "is_digit c" for c
    using that by (auto simp: is_digit_def js_space_def)
  show ?thesis
  proof (cases "n < 0")
    case True
    then show ?thesis
      by (simp add: show_int_def parseInt_def js_space_def unsigned_int_digits show_nat_digits nat_of_digits_show_nat)
  next
    case False
    obtain c cs where s: "show_nat (nat n) = c # cs" by (cases "show_nat (nat n)") auto
    then have "is_digit c" using show_nat_digits [of "nat n"] by simp
    moreover have "unsigned_int (c # cs) = Num n"
      using unsigned_int_digits [of "show_nat (nat n)"] False by (simp add: show_nat_digits nat_of_digits_show_nat flip: s)
    ultimately show ?thesis using False digit [of c] by (simp add: show_int_def parseInt_def s)
  qed
qed

section \<open>Which rule applies\<close>

text \<open>A key: a name without an equals sign, and an equals sign.\<close>

definition key_name :: "string \<Rightarrow> string" where
  "key_name tok = takeWhile (\<lambda>c. c \<noteq> CHR ''='') tok"

definition is_key :: "string \<Rightarrow> bool" where
  "is_key k \<longleftrightarrow> k = key_name k @ ''=''"

lemma starts_with_key: "is_key k \<Longrightarrow> starts_with k tok \<longleftrightarrow> CHR ''='' \<in> set tok \<and> key_name tok = key_name k"
proof -
  assume k: "is_key k"
  let ?n = "key_name k"
  have no: "CHR ''='' \<notin> set ?n" by (auto simp: key_name_def dest: set_takeWhileD)
  have k': "k = ?n @ [CHR ''='']" using k by (simp add: is_key_def)
  show ?thesis
  proof
    assume "starts_with k tok"
    then have "tok = k @ drop (length k) tok" using append_take_drop_id [of "length k" tok] by (simp add: starts_with_def)
    also have "\<dots> = ?n @ CHR ''='' # drop (length k) tok" using k' by (metis append.assoc append_Cons append_Nil)
    finally have "tok = ?n @ CHR ''='' # drop (length k) tok" .
    moreover have "key_name (?n @ CHR ''='' # r) = ?n" for r
      using no unfolding key_name_def [of "_ @ _"] by (subst takeWhile_append2) auto
    ultimately show "CHR ''='' \<in> set tok \<and> key_name tok = ?n" by (metis in_set_conv_decomp)
  next
    assume t: "CHR ''='' \<in> set tok \<and> key_name tok = ?n"
    then have "dropWhile (\<lambda>c. c \<noteq> CHR ''='') tok \<noteq> []" by (simp add: dropWhile_eq_Nil_conv)
    then obtain r where "dropWhile (\<lambda>c. c \<noteq> CHR ''='') tok = CHR ''='' # r"
      using hd_dropWhile [of "\<lambda>c. c \<noteq> CHR ''=''" tok] by (cases "dropWhile (\<lambda>c. c \<noteq> CHR ''='') tok") auto
    then have "tok = ?n @ CHR ''='' # r"
      using t takeWhile_dropWhile_id [of "\<lambda>c. c \<noteq> CHR ''=''" tok] by (simp add: key_name_def)
    then show "starts_with k tok" unfolding starts_with_def by (subst (1 2) k') simp
  qed
qed

text \<open>
  A list of rules in which no key is given twice: the rule a token gets is found by its name.
\<close>

definition rules_ok :: "(string \<times> string \<times> value_kind option) list \<Rightarrow> bool" where
  "rules_ok rs \<longleftrightarrow> distinct (map fst rs) \<and>
     list_all (\<lambda>(key, property, kind). if kind = None then CHR ''='' \<notin> set key else is_key key) rs"

lemma apply_rules_key:
  assumes "rules_ok rs" "(key, property, Some k) \<in> set rs"
  shows "apply_rules rs (key @ v) cmd = obj_set property (read_value k v) cmd"
  using assms
proof (induction rs)
  case (Cons r rs)
  obtain key' property' kind' where r: "r = (key', property', kind')" by (cases r) auto
  have key: "is_key key" using Cons.prems by (auto simp: rules_ok_def list_all_iff)
  then have eq: "CHR ''='' \<in> set key" by (metis is_key_def in_set_conv_decomp)
  have name: "key_name (key @ v) = key_name key" using eq by (simp add: key_name_def takeWhile_append1)
  show ?case
  proof (cases "key' = key")
    case True
    then have "kind' = Some k" "property' = property"
      using Cons.prems r by (force simp: rules_ok_def image_iff)+
    then show ?thesis using True r by (simp add: rule_applies_def starts_with_def)
  next
    case False
    have "\<not> rule_applies (key @ v) r"
    proof (cases kind')
      case None
      then show ?thesis using r Cons.prems(1) eq by (auto simp: rule_applies_def rules_ok_def)
    next
      case (Some k')
      then have "is_key key'" using Cons.prems(1) r by (simp add: rules_ok_def)
      then have "key_name key' \<noteq> key_name key" using False key by (metis is_key_def)
      then show ?thesis using r Some name starts_with_key [OF \<open>is_key key'\<close>] by (simp add: rule_applies_def)
    qed
    moreover have "(key, property, Some k) \<in> set rs" using Cons.prems(2) r False by auto
    moreover have "rules_ok rs" using Cons.prems(1) by (simp add: rules_ok_def)
    ultimately show ?thesis using Cons.IH by simp
  qed
qed simp

lemma token_rules_ok: "rules_ok token_rules"
  unfolding rules_ok_def
proof
  show "distinct (map fst token_rules)" by code_simp
  show "list_all (\<lambda>(key, property, kind). if kind = None then CHR ''='' \<notin> set key else is_key key) token_rules"
    by code_simp
qed

section \<open>Whole messages\<close>

definition clean_token :: "string \<Rightarrow> bool" where
  "clean_token t \<longleftrightarrow> t \<noteq> [] \<and> list_all (\<lambda>c. \<not> is_sep c) t"

lemma takeWhile_clean: "clean_token t \<Longrightarrow> takeWhile (\<lambda>c. \<not> is_sep c) (t @ CHR '' '' # r) = t"
  "clean_token t \<Longrightarrow> dropWhile (\<lambda>c. \<not> is_sep c) (t @ CHR '' '' # r) = CHR '' '' # r"
  by (auto simp: clean_token_def list_all_iff is_sep_def takeWhile_append2 dropWhile_append2)

lemma split_tokens_join:
  "ts \<noteq> [] \<Longrightarrow> list_all clean_token ts \<Longrightarrow> split_tokens (join '' '' ts) = ts"
proof (induction "'' ''" ts rule: join.induct)
  case (2 x)
  then have "takeWhile (\<lambda>c. \<not> is_sep c) x = x" "dropWhile (\<lambda>c. \<not> is_sep c) x = []"
    by (auto simp: clean_token_def list_all_iff takeWhile_eq_all_conv)
  then show ?case by (simp add: split_tokens.simps [of x])
next
  case (3 x y ys)
  have y: "clean_token y" "clean_token x" using 3(3) by simp_all
  then obtain c cs where j: "join '' '' (y # ys) = c # cs" "\<not> is_sep c"
    by (cases ys; cases y) (auto simp: clean_token_def)
  have "dropWhile is_sep (CHR '' '' # join '' '' (y # ys)) = join '' '' (y # ys)"
    using j by (simp add: is_sep_def [of "CHR '' ''"])
  moreover have "split_tokens (join '' '' (y # ys)) = y # ys" using 3 by simp
  ultimately show ?case
    using takeWhile_clean [OF y(2), of "join '' '' (y # ys)"]
    by (simp add: split_tokens.simps [of "x @ CHR '' '' # join '' '' (y # ys)"] Let_def)
qed simp

text \<open>A field of a message: a key of the protocol and the text of its value.\<close>

definition known_field :: "string \<times> string \<Rightarrow> bool" where
  "known_field f \<longleftrightarrow> list_all (\<lambda>c. \<not> is_sep c) (snd f) \<and>
     list_ex (\<lambda>(key, property, kind). key = fst f \<and> kind \<noteq> None) token_rules"

definition set_field :: "string \<times> string \<Rightarrow> command \<Rightarrow> command" where
  "set_field f cmd =
     (case map_of token_rules (fst f) of
        Some (property, Some k) \<Rightarrow> obj_set property (read_value k (snd f)) cmd | _ \<Rightarrow> cmd)"

lemma known_field_rule:
  assumes "known_field f"
  obtains property k where "(fst f, property, Some k) \<in> set token_rules" "map_of token_rules (fst f) = Some (property, Some k)"
proof -
  obtain property k where r: "(fst f, property, Some k) \<in> set token_rules"
    using assms by (auto simp: known_field_def list_ex_iff)
  moreover have "distinct (map fst token_rules)" using token_rules_ok by (simp add: rules_ok_def)
  ultimately have "map_of token_rules (fst f) = Some (property, Some k)" by (simp add: map_of_is_SomeI)
  with r show ?thesis by (rule that)
qed

lemma known_field_clean: "known_field f \<Longrightarrow> clean_token (fst f @ snd f)"
proof -
  have keys: "list_all (\<lambda>r. clean_token (fst r)) token_rules" by code_simp
  assume "known_field f"
  moreover from this obtain property k where "(fst f, property, Some k) \<in> set token_rules" by (rule known_field_rule)
  then have "clean_token (fst f)" using keys by (auto simp: list_all_iff)
  ultimately show ?thesis by (simp add: clean_token_def known_field_def)
qed

lemma apply_rules_known: "known_field f \<Longrightarrow> apply_rules token_rules (fst f @ snd f) cmd = set_field f cmd"
  using apply_rules_key [OF token_rules_ok] by (metis (no_types, lifting) known_field_rule option.case(2) prod.case set_field_def)

lemma parse_fields_message:
  assumes "clean_token name" "\<forall>cmd. apply_rules token_rules name cmd = cmd" "list_all known_field fs"
  shows "parse_fields (join '' '' (name # map (\<lambda>f. fst f @ snd f) fs)) = fold set_field fs []"
proof -
  have "list_all clean_token (name # map (\<lambda>f. fst f @ snd f) fs)"
    using assms(1,3) known_field_clean by (auto simp: list_all_iff)
  moreover have "fold (apply_rules token_rules) (map (\<lambda>f. fst f @ snd f) fs) cmd = fold set_field fs cmd" for cmd
    using assms(3) by (induction fs arbitrary: cmd) (simp_all add: apply_rules_known)
  ultimately show ?thesis
    using assms(2) split_tokens_join [of "name # map (\<lambda>f. fst f @ snd f) fs"] by (simp add: parse_fields_def)
qed

section \<open>Zoom levels\<close>

lemma zoom_rounding:
  assumes "0 < (r::real)" "r\<^sup>2 < 6 / 5" "5 / 6 < r\<^sup>2"
  shows "\<lfloor>real_of_int z - ln r / ln (6 / 5) + 1 / 2\<rfloor> = z"
proof -
  have l: "0 < ln (6 / 5 :: real)" by simp
  have "ln (r\<^sup>2) < ln (6 / 5)" using assms by simp
  then have hi: "2 * ln r < ln (6 / 5)" using assms(1) by (simp add: ln_realpow)
  have "ln (5 / 6) < ln (r\<^sup>2)" using assms by simp
  moreover have "ln (5 / 6 :: real) = - ln (6 / 5)" using ln_inverse [of "6 / 5 :: real"] by simp
  ultimately have lo: "- ln (6 / 5) < 2 * ln r" using assms(1) by (simp add: ln_realpow)
  have "ln r / ln (6 / 5) < 1 / 2" "- 1 / 2 < ln r / ln (6 / 5)"
    using hi lo l by (simp_all add: field_simps)
  then show ?thesis by (simp add: floor_eq_iff)
qed

text \<open>
  \<open>_updateTileTwips\<close> of layer/tile/CanvasTileLayer.js: the twip size of a tile at a zoom level; what
  it derives from it in \<open>app\<close> is left out.
\<close>

definition twips_at_zoom :: "int \<Rightarrow> int \<Rightarrow> int \<Rightarrow> int" where
  [cmd_defs]: "twips_at_zoom optTwips defaultZoom zoom =
     js_round (of_int optTwips * power_int (6 / 5) (defaultZoom - zoom))"

definition updateTileTwips :: "int \<Rightarrow> int \<Rightarrow> int \<Rightarrow> int \<Rightarrow> layer_geom \<Rightarrow> layer_geom" where
  [cmd_defs]: "updateTileTwips optWidth optHeight defaultZoom tileZoom g =
     g\<lparr>tileWidthTwips := twips_at_zoom optWidth defaultZoom tileZoom,
       tileHeightTwips := twips_at_zoom optHeight defaultZoom tileZoom\<rparr>"

lemma zoom_of_twips:
  assumes "0 < optWidth" "10 \<le> (of_int optWidth * power_int (6 / 5) (defaultZoom - z) :: rat)"
  shows "zoom_of_width defaultZoom optWidth (twips_at_zoom optWidth defaultZoom z) = z"
proof -
  define q where "q = (of_int optWidth * power_int (6 / 5) (defaultZoom - z) :: rat)"
  define v where "v = (of_rat q :: real)"
  define n where "n = js_round q"
  have v: "v = real_of_int optWidth * power_int (6 / 5) (defaultZoom - z)"
    by (simp add: v_def q_def of_rat_mult of_rat_divide power_int_def of_rat_power of_rat_inverse)
  have q10: "10 \<le> q" using assms(2) by (simp add: q_def)
  then have "real_of_rat 10 \<le> v" unfolding v_def by (simp only: of_rat_less_eq)
  then have v10: "10 \<le> v" by simp
  have "real_of_rat (of_int n) \<le> real_of_rat (q + 1 / 2)" "real_of_rat (q - 1 / 2) < real_of_rat (of_int n)"
    using js_round_bounds [of q] unfolding n_def of_rat_less_eq of_rat_less by blast+
  then have n: "real_of_int n \<le> v + 1 / 2" "v - 1 / 2 < real_of_int n"
    by (simp_all add: v_def of_rat_add of_rat_diff of_rat_divide)
  define r where "r = real_of_int n / v"
  have r: "95 / 100 \<le> r" "r \<le> 105 / 100" using n v10 by (simp_all add: r_def field_simps)
  then have "r\<^sup>2 \<le> (105 / 100)\<^sup>2" "(95 / 100)\<^sup>2 \<le> r\<^sup>2" by (intro power_mono; simp)+
  then have r2: "r\<^sup>2 < 6 / 5" "5 / 6 < r\<^sup>2" by (simp_all add: power2_eq_square)
  have p: "0 < power_int (6 / 5 :: real) (defaultZoom - z)" by (simp add: zero_less_power_int)
  have "real_of_int n / real_of_int optWidth = r * power_int (6 / 5) (defaultZoom - z)"
    using p assms(1) by (simp add: r_def v)
  then have "ln (real_of_int n / real_of_int optWidth) = ln r + ln (power_int (6 / 5 :: real) (defaultZoom - z))"
    using p r by (simp add: ln_mult)
  moreover have "ln (power_int (6 / 5 :: real) (defaultZoom - z)) = real_of_int (defaultZoom - z) * ln (6 / 5)"
    by (simp add: ln_powr flip: powr_real_of_int')
  ultimately have "ln (real_of_int n / real_of_int optWidth) / ln (6 / 5) = ln r / ln (6 / 5) + real_of_int (defaultZoom - z)"
    by (simp add: add_divide_distrib)
  then have "zoom_of_width defaultZoom optWidth n = \<lfloor>real_of_int z - ln r / ln (6 / 5) + 1 / 2\<rfloor>"
    by (simp add: zoom_of_width_def)
  moreover have "0 < r" using r by simp
  ultimately show ?thesis
    using zoom_rounding [OF _ r2] by (simp add: twips_at_zoom_def n_def q_def)
qed

section \<open>Properties\<close>

lemma token_without_key:
  assumes "CHR ''='' \<notin> set t" "t \<noteq> ''nopng''"
  shows "apply_rules token_rules t cmd = cmd"
proof -
  have none: "list_all (\<lambda>(key, p, kind). kind = None \<longrightarrow> key = ''nopng'') token_rules" by code_simp
  have "\<not> rule_applies t r" if "r \<in> set token_rules" for r
  proof -
    obtain key p kind where r: "r = (key, p, kind)" by (cases r) auto
    have "if kind = None then True else is_key key"
      using token_rules_ok that r by (auto simp: rules_ok_def list_all_iff split: if_splits)
    then show ?thesis
      using none that r assms starts_with_key [of key t] by (auto simp: rule_applies_def list_all_iff split: option.split)
  qed
  then have "set rs \<subseteq> set token_rules \<Longrightarrow> apply_rules rs t cmd = cmd" for rs by (induction rs) auto
  then show ?thesis by simp
qed

text \<open>
  C29 (roundtrip). No rule of the parser hides another one: a message that consists of its name and
  of fields with keys of the protocol, separated by blanks, parses to exactly the properties that
  these fields name, later fields overwriting earlier ones; nothing else is set.
\<close>

theorem parse_message_roundtrip:
  assumes "clean_token name" "CHR ''='' \<notin> set name" "name \<noteq> ''nopng''" "list_all known_field fs"
  shows "parse_fields (join '' '' (name # map (\<lambda>f. fst f @ snd f) fs)) = fold set_field fs []"
  using parse_fields_message [OF assms(1) _ assms(4)] token_without_key [OF assms(2,3)] by blast

theorem parse_message_roundtrip_witness:
  "parse_fields ''tile: part=0 tileposx=3840 viewid=7'' =
     [(''part'', VNum (Num 0)), (''x'', VNum (Num 3840)), (''viewid'', VStr ''7'')]"
proof -
  let ?fs = "[(''part='', ''0''), (''tileposx='', ''3840''), (''viewid='', ''7'')]"
  have "list_all known_field ?fs" "clean_token ''tile:''" by code_simp+
  moreover have "fold set_field ?fs [] = [(''part'', VNum (Num 0)), (''x'', VNum (Num 3840)), (''viewid'', VStr ''7'')]"
    by code_simp
  ultimately show ?thesis using parse_message_roundtrip [of "''tile:''" ?fs] by simp
qed

text \<open>
  The zoom level is transmitted as the rounded twip width of a tile, and the
  parser recovers it exactly from that width, as long as a tile is at least ten twips wide.
\<close>

lemma zoom_roundtrip:
  assumes "0 < optWidth" "10 \<le> (of_int optWidth * power_int (6 / 5) (defaultZoom - z) :: rat)"
  shows "zoom_of_width defaultZoom optWidth (tileWidthTwips (updateTileTwips optWidth optHeight defaultZoom z g)) = z"
  using zoom_of_twips [OF assms] by (simp add: updateTileTwips_def)

definition sample_geom :: layer_geom where
  "sample_geom = \<lparr>tileSize = 256, tileWidthPx = 256, tileHeightPx = 256, tileWidthTwips = 3840,
     tileHeightTwips = 3840, docWidthTwips = 12240, docHeightTwips = 15840, dpiScale = 1\<rparr>"

lemma zoom_roundtrip_witness:
  "zoom_of_width 10 3840 (tileWidthTwips (updateTileTwips 3840 3840 10 12 sample_geom)) = 12"
  by (rule zoom_roundtrip) (simp_all add: power_int_def power2_eq_square)

end
