(* ===== verification/Socket_Queue.thy ===== *)
theory Socket_Queue
  imports Server_Cmd
begin

text \<open>
  The transport of core/Socket.js: messages to the server, which are queued while the socket is not
  open, and messages from the server, which are split into text and binary payload, slurped into a
  queue and emitted from a timer, in order, up to the first one whose image has not loaded.
\<close>

named_theorems socket_defs "definitions of the socket"

section \<open>Sending\<close>

datatype out_msg = TextOut string | BinaryOut bytes

text \<open>
  \<open>wire\<close> is what \<open>socket.send\<close> was called with, \<open>reloads\<close> counts the calls of
  \<open>map.loadDocument()\<close>, which opens a new connection.
\<close>

record outgoing =
  fatal :: bool
  idleActive :: bool
  uiBlocked :: bool
  readyState :: nat
  msgQueue :: "out_msg list"
  wire :: "out_msg list"
  reloads :: nat

definition connected :: "outgoing \<Rightarrow> bool" where
  [socket_defs]: "connected s \<longleftrightarrow> readyState s = 1"

definition doSend :: "out_msg \<Rightarrow> outgoing \<Rightarrow> outgoing" where
  [socket_defs]: "doSend m s = s\<lparr>wire := wire s @ [m]\<rparr>"

text \<open>While the user is inactive only the two messages about that are let through.\<close>

definition passes_idle :: "out_msg \<Rightarrow> bool" where
  [socket_defs]: "passes_idle m \<longleftrightarrow>
     (case m of BinaryOut b \<Rightarrow> False | TextOut t \<Rightarrow> starts_with ''useractive'' t \<or> starts_with ''userinactive'' t)"

definition sendMessage :: "out_msg \<Rightarrow> outgoing \<Rightarrow> outgoing" where
  [socket_defs]: "sendMessage m s =
     (if fatal s then s
      else if \<not> idleActive s \<and> \<not> passes_idle m then s
      else if uiBlocked s then s
      else
        (let state = readyState s;
             s1 = (if state = 2 \<or> state = 3 then s\<lparr>reloads := reloads s + 1\<rparr> else s)
         in if state = 1 then doSend m s1 else s1\<lparr>msgQueue := msgQueue s1 @ [m]\<rparr>))"

section \<open>Opening\<close>

text \<open>
  \<open>encodeURIComponent\<close> on characters up to 255: the unreserved characters stay, the others are
  written as their UTF-8 bytes.
\<close>

definition hex_digit :: "nat \<Rightarrow> char" where
  "hex_digit d = (if d < 10 then char_of (48 + d) else char_of (55 + d))"

definition percent :: "nat \<Rightarrow> string" where
  "percent b = [CHR ''%'', hex_digit (b div 16), hex_digit (b mod 16)]"

definition unreserved :: "char \<Rightarrow> bool" where
  "unreserved c \<longleftrightarrow>
     (let n = of_char c :: nat in (48 \<le> n \<and> n \<le> 57) \<or> (65 \<le> n \<and> n \<le> 90) \<or> (97 \<le> n \<and> n \<le> 122)) \<or>
     c \<in> set ''-_.!~*()'' \<or> of_char c = (39 :: nat)"

definition encodeURIComponent :: "string \<Rightarrow> string" where
  "encodeURIComponent s =
     concat (map (\<lambda>c. let n = of_char c :: nat in
       if unreserved c then [c] else if n < 128 then percent n
       else percent (192 + n div 64) @ percent (128 + n mod 64)) s)"

text \<open>
  What \<open>_onSocketOpen\<close> reads; a missing or empty string is left out of the message. Numbers of the
  clocks come printed. \<open>reconnectPart\<close> is the current part when there is a document layer.
\<close>

record load_options =
  lo_version :: string
  lo_epoch :: string
  lo_perfNow :: string
  lo_doc :: string
  lo_reconnectPart :: "int option"
  lo_timestamp :: string
  lo_password :: string
  lo_lang :: string
  lo_formFactor :: string
  lo_timezone :: string
  lo_rendering :: "string option"
  lo_localStorage :: bool
  lo_spellOnline :: string
  lo_accessibility :: bool

definition opt_field :: "string \<Rightarrow> string \<Rightarrow> string" where
  [socket_defs]: "opt_field key v = (if v \<noteq> '''' then key @ v else '''')"

definition load_message :: "load_options \<Rightarrow> string" where
  [socket_defs]: "load_message o1 =
     ''load url='' @ encodeURIComponent (lo_doc o1) @
     (case lo_reconnectPart o1 of Some p \<Rightarrow> '' part='' @ show_int p | None \<Rightarrow> '''') @
     opt_field '' timestamp='' (lo_timestamp o1) @ opt_field '' password='' (lo_password o1) @
     opt_field '' lang='' (lo_lang o1) @ opt_field '' deviceFormFactor='' (lo_formFactor o1) @
     '' timezone='' @ lo_timezone o1 @
     (case lo_rendering o1 of Some json \<Rightarrow> '' options={\"rendering\":'' @ json @ ''}'' | None \<Rightarrow> '''') @
     (if lo_localStorage o1
      then opt_field '' spellOnline='' (lo_spellOnline o1) @ '' accessibilityState='' @
           (if lo_accessibility o1 then ''true'' else ''false'')
      else '''')"

definition hello_message :: "load_options \<Rightarrow> string" where
  [socket_defs]: "hello_message o1 = ''oxoolclient '' @ lo_version o1 @ '' '' @ lo_epoch o1 @ '' '' @ lo_perfNow o1"

definition onSocketOpen :: "load_options \<Rightarrow> outgoing \<Rightarrow> outgoing" where
  [socket_defs]: "onSocketOpen o1 s =
     (let s1 = doSend (TextOut (load_message o1)) (doSend (TextOut (hello_message o1)) s);
          s2 = fold doSend (msgQueue s1) s1
      in s2\<lparr>msgQueue := [], idleActive := True\<rparr>)"

section \<open>Splitting incoming messages\<close>

datatype payload = TextData string | ObjectData bytes

text \<open>An image is raw tile data, a PNG preview (its data URL) or a dialog image that loads asynchronously.\<close>

datatype ev_image = RawTile bytes bool | PngTile string | PngDialog string

record ws_event =
  ev_id :: nat
  ev_data :: payload
  ev_textMsg :: string
  ev_imgBytes :: "bytes option"
  ev_imgIndex :: nat
  ev_image :: "ev_image option"
  ev_imageIsComplete :: bool

definition new_event :: "nat \<Rightarrow> payload \<Rightarrow> ws_event" where
  "new_event i d = \<lparr>ev_id = i, ev_data = d, ev_textMsg = '''', ev_imgBytes = None, ev_imgIndex = 0,
     ev_image = None, ev_imageIsComplete = False\<rparr>"

definition index_of :: "'a \<Rightarrow> 'a list \<Rightarrow> nat" where
  "index_of x xs = length (takeWhile (\<lambda>y. y \<noteq> x) xs)"

definition char_string :: "bytes \<Rightarrow> string" where
  "char_string bs = map (\<lambda>b. char_of (unat b)) bs"

definition extractCopyObject :: "bytes \<Rightarrow> ws_event \<Rightarrow> ws_event" where
  [socket_defs]: "extractCopyObject bs e =
     (let index = index_of 10 bs
      in e\<lparr>ev_imgBytes := Some bs, ev_textMsg := char_string (take index bs), ev_imgIndex := index + 1\<rparr>)"

text \<open>\<open>_strFromUint8\<close> converts in chunks of 4096 bytes.\<close>

function str_chunks :: "nat \<Rightarrow> string \<Rightarrow> bytes \<Rightarrow> nat \<Rightarrow> string" where
  "str_chunks chunk acc data i =
     (if i < length data \<and> 0 < chunk
      then str_chunks chunk (acc @ char_string (take chunk (drop i data))) data (i + chunk)
      else acc @ char_string (drop i data))"
  by pat_completeness auto
termination
  by (relation "measure (\<lambda>(ch, acc, d, i). length d - i)") auto

declare str_chunks.simps [simp del]

definition strFromUint8 :: "string \<Rightarrow> bytes \<Rightarrow> string" where
  [socket_defs]: "strFromUint8 pre data = str_chunks 4096 pre data 0"

definition base64_char :: "nat \<Rightarrow> char" where
  "base64_char n = ''ABCDEFGHIJKLMNOPQRSTUVWXYZabcdefghijklmnopqrstuvwxyz0123456789+/'' ! n"

fun btoa :: "string \<Rightarrow> string" where
  "btoa [] = []"
| "btoa [a] = (let x = of_char a :: nat in [base64_char (x div 4), base64_char ((x mod 4) * 16), CHR ''='', CHR ''=''])"
| "btoa [a, b] =
     (let x = of_char a :: nat; y = of_char b :: nat
      in [base64_char (x div 4), base64_char ((x mod 4) * 16 + y div 16), base64_char ((y mod 16) * 4), CHR ''=''])"
| "btoa (a # b # c # cs) =
     (let x = of_char a :: nat; y = of_char b :: nat; z = of_char c :: nat
      in [base64_char (x div 4), base64_char ((x mod 4) * 16 + y div 16),
          base64_char ((y mod 16) * 4 + z div 64), base64_char (z mod 64)] @ btoa cs)"

definition extractImage :: "ws_event \<Rightarrow> string" where
  [socket_defs]: "extractImage e =
     (let data = drop (ev_imgIndex e) (the (ev_imgBytes e));
          pre = (if data \<noteq> [] \<and> hd data = 137 then '''' else [CHR 0x89])
      in ''data:image/png;base64,'' @ btoa (strFromUint8 pre data))"

text \<open>
  The two platform flags are \<open>ThisIsTheiOSApp\<close> and \<open>ThisIsTheEmscriptenApp\<close>; there a string carries
  the binary payload.
\<close>

definition binary_prefixes :: "string list" where
  "binary_prefixes = [''tile:'', ''tilecombine:'', ''delta:'', ''renderfont:'', ''rendersearchlist:'', ''windowpaint:'']"

definition extract_text :: "bool \<Rightarrow> bool \<Rightarrow> ws_event \<Rightarrow> ws_event" where
  [socket_defs]: "extract_text ios emscripten e =
     (case ev_data e of
        TextData t \<Rightarrow>
          (if (ios \<or> emscripten) \<and> (emscripten \<or> list_ex (\<lambda>p. starts_with p t) binary_prefixes)
           then (let index = index_of (CHR 0x0A) t
                 in e\<lparr>ev_imgBytes := Some (map (\<lambda>c. of_nat (of_char c)) t), ev_imgIndex := index + 1,
                      ev_textMsg := take index t\<rparr>)
           else e\<lparr>ev_textMsg := t\<rparr>)
      | ObjectData bs \<Rightarrow> extractCopyObject bs e)"

text \<open>A substring test: \<open>s.indexOf(p) !== -1\<close>.\<close>

fun contains_str :: "string \<Rightarrow> string \<Rightarrow> bool" where
  "contains_str p [] = (p = [])"
| "contains_str p (c # cs) = (starts_with p (c # cs) \<or> contains_str p cs)"

text \<open>
  \<open>None\<close> is the \<open>TypeError\<close> of a message that announces an image but arrives as a string without
  payload.
\<close>

definition extractTextImg :: "bool \<Rightarrow> bool \<Rightarrow> ws_event \<Rightarrow> ws_event option" where
  [socket_defs]: "extractTextImg ios emscripten e0 =
     (let e = extract_text ios emscripten e0;
          t = ev_textMsg e;
          isTile = starts_with ''tile:'' t;
          isDelta = starts_with ''delta:'' t
      in if \<not> isTile \<and> \<not> isDelta \<and> \<not> starts_with ''renderfont:'' t \<and> \<not> starts_with ''windowpaint:'' t then Some e
         else if contains_str '' nopng'' t then Some e
         else
           (case ev_imgBytes e of
              None \<Rightarrow> None
            | Some bs \<Rightarrow>
                Some (if (isTile \<or> isDelta) \<and> \<not> (ev_imgIndex e < length bs \<and> bs ! ev_imgIndex e = 80)
                      then e\<lparr>ev_image := Some (RawTile (drop (ev_imgIndex e) bs) isTile), ev_imageIsComplete := True\<rparr>
                      else if isTile then e\<lparr>ev_image := Some (PngTile (extractImage e)), ev_imageIsComplete := True\<rparr>
                      else e\<lparr>ev_image := Some (PngDialog (extractImage e))\<rparr>)))"

definition isComplete :: "ws_event \<Rightarrow> bool" where
  [socket_defs]: "isComplete e = (if ev_image e \<noteq> None then ev_imageIsComplete e else True)"

section \<open>The slurp queue\<close>

text \<open>\<open>emitted\<close> is the sequence of events handed to \<open>_onMessage\<close>, which catches its exceptions.\<close>

record incoming =
  slurpQueue :: "ws_event list"
  slurpTimer :: bool
  emitted :: "ws_event list"
  messagesDone :: nat

definition queueSlurpEventEmission :: "incoming \<Rightarrow> incoming" where
  [socket_defs]: "queueSlurpEventEmission s = (if \<not> slurpTimer s then s\<lparr>slurpTimer := True\<rparr> else s)"

fun emit_loop :: "ws_event list \<Rightarrow> ws_event list \<times> ws_event list" where
  "emit_loop [] = ([], [])"
| "emit_loop (e # es) = (if isComplete e then (case emit_loop es of (done, rest) \<Rightarrow> (e # done, rest)) else ([], e # es))"

definition emitSlurpedEvents :: "incoming \<Rightarrow> incoming" where
  [socket_defs]: "emitSlurpedEvents s =
     (case emit_loop (slurpQueue s) of
        (done, rest) \<Rightarrow> s\<lparr>emitted := emitted s @ done, slurpQueue := rest, messagesDone := messagesDone s + 1\<rparr>)"

definition slurp_timer :: "incoming \<Rightarrow> incoming" where
  [socket_defs]: "slurp_timer s = emitSlurpedEvents (s\<lparr>slurpTimer := False\<rparr>)"

definition slurpMessage :: "bool \<Rightarrow> bool \<Rightarrow> ws_event \<Rightarrow> incoming \<Rightarrow> incoming" where
  [socket_defs]: "slurpMessage ios emscripten e s =
     (let s1 = (if slurpQueue s = [] then (queueSlurpEventEmission s)\<lparr>slurpQueue := []\<rparr> else s)
      in case extractTextImg ios emscripten e of
           None \<Rightarrow> s1
         | Some e1 \<Rightarrow> s1\<lparr>slurpQueue := slurpQueue s1 @ [e1]\<rparr>)"

text \<open>The callbacks \<open>onload\<close> and \<open>onerror\<close> of an event's image.\<close>

definition image_done :: "nat \<Rightarrow> incoming \<Rightarrow> incoming" where
  [socket_defs]: "image_done i s =
     queueSlurpEventEmission
       (s\<lparr>slurpQueue := map (\<lambda>e. if ev_id e = i then e\<lparr>ev_imageIsComplete := True\<rparr> else e) (slurpQueue s)\<rparr>)"

definition emptyQueue :: "bool \<Rightarrow> bool \<Rightarrow> ws_event list \<Rightarrow> incoming \<Rightarrow> incoming" where
  [socket_defs]: "emptyQueue ios emscripten early s = fold (slurpMessage ios emscripten) early s"

section \<open>Delayed messages\<close>

record delayed =
  delayedMessages :: "string list"
  handlingDelayed :: bool

definition delayMessage :: "string \<Rightarrow> delayed \<Rightarrow> delayed" where
  [socket_defs]: "delayMessage t d = d\<lparr>delayedMessages := delayedMessages d @ [t]\<rparr>"

text \<open>The messages handed to the document layer, whose exceptions are caught, in order.\<close>

fun drain :: "string list \<Rightarrow> string list \<Rightarrow> string list" where
  "drain handled [] = handled"
| "drain handled (m # ms) = drain (handled @ [m]) ms"

definition handleDelayedMessages :: "delayed \<Rightarrow> delayed \<times> string list" where
  [socket_defs]: "handleDelayedMessages d =
     (d\<lparr>delayedMessages := [], handlingDelayed := False\<rparr>, drain [] (delayedMessages d))"

section \<open>Permissions\<close>

text \<open>The handlers of \<open>perm:\<close> and \<open>filemode:\<close> in \<open>_onMessage\<close>.\<close>

record file_state =
  permission :: string
  readOnly :: bool
  editComment :: bool
  disableSidebar :: bool

definition perm_message :: "string \<Rightarrow> file_state \<Rightarrow> file_state" where
  [socket_defs]: "perm_message perm f =
     (let f1 = (if permission f = ''edit'' then f\<lparr>permission := perm\<rparr> else f)
      in f1\<lparr>disableSidebar := (perm \<noteq> ''edit''), readOnly := (permission f1 = ''readonly'')\<rparr>)"

definition filemode_message :: "bool \<Rightarrow> bool \<Rightarrow> file_state \<Rightarrow> file_state" where
  [socket_defs]: "filemode_message jsonReadOnly jsonEditComment f =
     (let f1 = (if permission f = ''edit'' \<and> jsonReadOnly then f\<lparr>permission := ''readonly''\<rparr> else f)
      in f1\<lparr>readOnly := (permission f1 = ''readonly''), editComment := jsonEditComment\<rparr>)"

section \<open>Runs of the slurp queue\<close>

definition no_incoming :: incoming where
  "no_incoming = \<lparr>slurpQueue = [], slurpTimer = False, emitted = [], messagesDone = 0\<rparr>"

text \<open>\<open>received\<close> is the log of the events that came in, as they were queued.\<close>

inductive slurp_run :: "bool \<Rightarrow> bool \<Rightarrow> ws_event list \<Rightarrow> incoming \<Rightarrow> bool" for ios emscripten where
  start: "slurp_run ios emscripten [] no_incoming"
| receive: "slurp_run ios emscripten received s \<Longrightarrow> extractTextImg ios emscripten e = Some e1 \<Longrightarrow>
    slurp_run ios emscripten (received @ [e1]) (slurpMessage ios emscripten e s)"
| reject: "slurp_run ios emscripten received s \<Longrightarrow> extractTextImg ios emscripten e = None \<Longrightarrow>
    slurp_run ios emscripten received (slurpMessage ios emscripten e s)"
| image: "slurp_run ios emscripten received s \<Longrightarrow> slurp_run ios emscripten received (image_done i s)"
| timer: "slurp_run ios emscripten received s \<Longrightarrow> slurpTimer s \<Longrightarrow> slurp_run ios emscripten received (slurp_timer s)"

text \<open>An event up to the completion flag of its image.\<close>

definition ev_core :: "ws_event \<Rightarrow> ws_event" where
  "ev_core e = e\<lparr>ev_imageIsComplete := False\<rparr>"

definition slurp_ok :: "ws_event list \<Rightarrow> incoming \<Rightarrow> bool" where
  "slurp_ok received s \<longleftrightarrow>
     map ev_core (emitted s @ slurpQueue s) = map ev_core received \<and> list_all isComplete (emitted s) \<and>
     (slurpQueue s = [] \<or> slurpTimer s \<or> \<not> isComplete (hd (slurpQueue s)))"

lemma emit_loop_spec:
  "emit_loop es = (done, rest) \<Longrightarrow>
   es = done @ rest \<and> list_all isComplete done \<and> (rest = [] \<or> \<not> isComplete (hd rest))"
  by (induction es arbitrary: "done") (auto split: if_splits prod.splits)

lemma slurp_run_ok: "slurp_run ios emscripten received s \<Longrightarrow> slurp_ok received s"
proof (induction rule: slurp_run.induct)
  case (image received s i)
  have "ev_core \<circ> (\<lambda>e. if ev_id e = i then e\<lparr>ev_imageIsComplete := True\<rparr> else e) = ev_core"
    by (auto simp: ev_core_def fun_eq_iff)
  with image show ?case
    by (simp add: slurp_ok_def image_done_def queueSlurpEventEmission_def)
next
  case (timer received s)
  obtain d r where l: "emit_loop (slurpQueue s) = (d, r)" by fastforce
  have t: "slurp_timer s = s\<lparr>slurpTimer := False, emitted := emitted s @ d, slurpQueue := r, messagesDone := messagesDone s + 1\<rparr>"
    by (simp add: slurp_timer_def emitSlurpedEvents_def l)
  show ?case
    using timer emit_loop_spec [OF l] unfolding t by (auto simp: slurp_ok_def)
qed (auto simp: slurp_ok_def no_incoming_def slurpMessage_def queueSlurpEventEmission_def Let_def)

section \<open>Runs of the outgoing side\<close>

definition accepts :: "out_msg \<Rightarrow> outgoing \<Rightarrow> bool" where
  "accepts m s \<longleftrightarrow> \<not> fatal s \<and> (idleActive s \<or> passes_idle m) \<and> \<not> uiBlocked s"

text \<open>
  The socket opens only from another state, and the browser changes the state and calls the
  handler in one step. Flags change at any time.
\<close>

inductive send_run :: "out_msg list \<Rightarrow> outgoing \<Rightarrow> bool" where
  start: "msgQueue s = [] \<Longrightarrow> wire s = [] \<Longrightarrow> readyState s \<noteq> 1 \<Longrightarrow> send_run [] s"
| send: "send_run acc s \<Longrightarrow> send_run (if accepts m s then acc @ [m] else acc) (sendMessage m s)"
| flags: "send_run acc s \<Longrightarrow> send_run acc (s\<lparr>fatal := f, idleActive := i, uiBlocked := u\<rparr>)"
| leave: "send_run acc s \<Longrightarrow> n \<noteq> 1 \<Longrightarrow> send_run acc (s\<lparr>readyState := n\<rparr>)"
| opened: "send_run acc s \<Longrightarrow> readyState s \<noteq> 1 \<Longrightarrow> send_run acc (onSocketOpen o1 (s\<lparr>readyState := 1\<rparr>))"

text \<open>The two messages \<open>_onSocketOpen\<close> adds are known by their first word.\<close>

definition is_handshake :: "out_msg \<Rightarrow> bool" where
  "is_handshake m \<longleftrightarrow> (case m of TextOut t \<Rightarrow> starts_with ''oxoolclient '' t \<or> starts_with ''load url='' t | BinaryOut b \<Rightarrow> False)"

definition in_order :: "out_msg list \<Rightarrow> outgoing \<Rightarrow> bool" where
  "in_order acc s \<longleftrightarrow>
     filter (\<lambda>m. \<not> is_handshake m) (wire s @ msgQueue s) = filter (\<lambda>m. \<not> is_handshake m) acc \<and>
     (readyState s = 1 \<longrightarrow> msgQueue s = [])"

lemma wire_fold_doSend: "wire (fold doSend ms s) = wire s @ ms" "readyState (fold doSend ms s) = readyState s"
  by (induction ms arbitrary: s) (simp_all add: doSend_def)

lemma send_run_in_order: "send_run acc s \<Longrightarrow> in_order acc s"
proof (induction rule: send_run.induct)
  case (send acc s m)
  then show ?case
    by (auto simp: in_order_def sendMessage_def accepts_def doSend_def Let_def)
next
  case (opened acc s o1)
  have "is_handshake (TextOut (load_message o1))" "is_handshake (TextOut (hello_message o1))"
    by (simp_all add: is_handshake_def load_message_def hello_message_def starts_with_def)
  with opened show ?case
    by (simp add: in_order_def onSocketOpen_def Let_def wire_fold_doSend doSend_def)
qed (auto simp: in_order_def)

section \<open>Chunks\<close>

lemma str_chunks_append: "0 < chunk \<Longrightarrow> str_chunks chunk acc data i = acc @ char_string (drop i data)"
proof (induction chunk acc data i rule: str_chunks.induct)
  case (1 chunk acc data i)
  show ?case
  proof (cases "i < length data")
    case True
    have "char_string (drop i data) = char_string (take chunk (drop i data)) @ char_string (drop (i + chunk) data)"
      by (simp add: char_string_def add.commute flip: map_append drop_drop)
    then show ?thesis using 1 True by (simp add: str_chunks.simps [of chunk acc data i])
  qed (simp add: str_chunks.simps [of chunk acc data i])
qed

section \<open>Properties\<close>

text \<open>
  C6 (invariant). Nothing the server sends is lost, doubled or reordered: in every state the events
  emitted so far, followed by those in the queue, are the events received; only events whose image
  is complete are emitted; and the queue never gets stuck: if its first event could be emitted, the
  timer that will do so is set.
\<close>

theorem slurp_queue_fifo:
  assumes "slurp_run ios emscripten received s"
  shows "map ev_core (emitted s @ slurpQueue s) = map ev_core received \<and> list_all isComplete (emitted s) \<and>
     (slurpQueue s = [] \<or> slurpTimer s \<or> \<not> isComplete (hd (slurpQueue s)))"
  using slurp_run_ok [OF assms] by (simp add: slurp_ok_def)

theorem slurp_queue_fifo_witness:
  "map ev_core (emitted (slurp_timer (slurpMessage False False (new_event 1 (TextData ''perm: edit'')) no_incoming))) =
     map ev_core [(new_event 1 (TextData ''perm: edit''))\<lparr>ev_textMsg := ''perm: edit''\<rparr>]"
proof -
  let ?e = "new_event 1 (TextData ''perm: edit'')"
  let ?e1 = "?e\<lparr>ev_textMsg := ''perm: edit''\<rparr>"
  let ?s = "slurpMessage False False ?e no_incoming"
  have x: "extractTextImg False False ?e = Some ?e1" by code_simp
  then have r: "slurp_run False False ([] @ [?e1]) ?s" by (rule slurp_run.receive [OF slurp_run.start])
  have t: "slurpTimer ?s" by code_simp
  have q: "slurpQueue (slurp_timer ?s) = []" by code_simp
  from slurp_queue_fifo [OF slurp_run.timer [OF r t]] q show ?thesis by simp
qed

text \<open>
  C5 (safety). Messages to the server keep their order over any number of connects and disconnects:
  apart from the handshake the messages sent so far, followed by those still queued, are exactly
  the messages accepted, in that order; while the socket is open nothing is left in the queue.
\<close>

theorem outgoing_in_order:
  assumes "send_run acc s"
  shows "filter (\<lambda>m. \<not> is_handshake m) (wire s @ msgQueue s) = filter (\<lambda>m. \<not> is_handshake m) acc \<and>
     (readyState s = 1 \<longrightarrow> msgQueue s = [])"
  using send_run_in_order [OF assms] by (simp add: in_order_def)

definition closed_socket :: outgoing where
  "closed_socket = \<lparr>fatal = False, idleActive = True, uiBlocked = False, readyState = 0, msgQueue = [], wire = [], reloads = 0\<rparr>"

theorem outgoing_in_order_witness:
  "filter (\<lambda>m. \<not> is_handshake m)
     (wire (sendMessage (TextOut ''b'') (sendMessage (TextOut ''a'') closed_socket)) @
      msgQueue (sendMessage (TextOut ''b'') (sendMessage (TextOut ''a'') closed_socket))) = [TextOut ''a'', TextOut ''b'']"
proof -
  have s: "send_run [] closed_socket" by (rule send_run.start) (simp_all add: closed_socket_def)
  have a: "accepts (TextOut ''a'') closed_socket" "accepts (TextOut ''b'') (sendMessage (TextOut ''a'') closed_socket)"
    by code_simp+
  have "send_run [TextOut ''a'', TextOut ''b''] (sendMessage (TextOut ''b'') (sendMessage (TextOut ''a'') closed_socket))"
    using send_run.send [OF send_run.send [OF s, of "TextOut ''a''"], of "TextOut ''b''"] a by simp
  from outgoing_in_order [OF this] show ?thesis by (simp add: is_handshake_def starts_with_def)
qed

text \<open>
  C38 (roundtrip). A binary message of the server - a line of text, a newline, and a payload that
  may hold any bytes - is taken apart exactly: the text is the line, and for a tile or delta
  message that is no PNG the image is the whole payload, a keyframe exactly for \<open>tile:\<close>.
\<close>

theorem binary_message_roundtrip:
  assumes "10 \<notin> set line" "data \<noteq> [] \<longrightarrow> hd data \<noteq> 80"
    and "starts_with ''tile:'' (char_string line) \<or> starts_with ''delta:'' (char_string line)"
    and "\<not> contains_str '' nopng'' (char_string line)"
  shows "\<exists>e. extractTextImg False False (new_event i (ObjectData (line @ 10 # data))) = Some e \<and>
     ev_textMsg e = char_string line \<and> isComplete e \<and>
     ev_image e = Some (RawTile data (starts_with ''tile:'' (char_string line)))"
proof -
  have idx: "index_of 10 (line @ 10 # data) = length line"
    unfolding index_of_def by (subst takeWhile_append2) (use assms(1) in auto)
  have png: "\<not> (Suc (length line) < length (line @ 10 # data) \<and> (line @ 10 # data) ! Suc (length line) = 80)"
    using assms(2) by (cases data) (simp_all add: nth_append)
  show ?thesis
    using assms(3,4) png
    by (auto simp: extractTextImg_def extract_text_def extractCopyObject_def new_event_def idx isComplete_def Let_def)
qed

theorem binary_message_roundtrip_witness:
  "\<exists>e. extractTextImg False False (new_event 3 (ObjectData ([116, 105, 108, 101, 58, 32, 120] @ 10 # [1, 10, 2]))) = Some e \<and>
     ev_textMsg e = char_string [116, 105, 108, 101, 58, 32, 120] \<and> isComplete e \<and>
     ev_image e = Some (RawTile [1, 10, 2] (starts_with ''tile:'' (char_string [116, 105, 108, 101, 58, 32, 120])))"
  by (rule binary_message_roundtrip) code_simp+

text \<open>
  Converting bytes to a string in chunks of 4096, as \<open>_strFromUint8\<close> does to
  spare the stack, gives the prefix followed by one character per byte.
\<close>

lemma strFromUint8_correct: "strFromUint8 pre data = pre @ map (\<lambda>b. char_of (unat b)) data"
  by (simp add: strFromUint8_def str_chunks_append char_string_def)

text \<open>
  C37 (safety). A document that is not editable never becomes editable again through \<open>perm:\<close> and
  \<open>filemode:\<close> messages, in any number and order, and \<open>readOnly\<close> agrees with the permission after
  each of them.
\<close>

theorem permission_never_widens:
  assumes "permission f \<noteq> ''edit''"
  shows "permission (fold (\<lambda>m. case m of Inl p \<Rightarrow> perm_message p | Inr (r, c) \<Rightarrow> filemode_message r c) ms f) = permission f \<and>
     (ms \<noteq> [] \<longrightarrow> readOnly (fold (\<lambda>m. case m of Inl p \<Rightarrow> perm_message p | Inr (r, c) \<Rightarrow> filemode_message r c) ms f) =
        (permission f = ''readonly''))"
proof -
  let ?h = "\<lambda>m. case m of Inl p \<Rightarrow> perm_message p | Inr (r, c) \<Rightarrow> filemode_message r c"
  have step: "permission (?h m f) = permission f \<and> readOnly (?h m f) = (permission f = ''readonly'')"
    if "permission f \<noteq> ''edit''" for m f
    using that by (auto simp: perm_message_def filemode_message_def Let_def split: sum.split)
  show ?thesis
    using assms
  proof (induction ms rule: rev_induct)
    case (snoc m ms)
    then show ?case using step [of "fold ?h ms f" m] by simp
  qed simp
qed

theorem permission_never_widens_witness:
  "permission (perm_message ''edit'' \<lparr>permission = ''readonly'', readOnly = True, editComment = False, disableSidebar = True\<rparr>) = ''readonly''"
  using permission_never_widens [of "\<lparr>permission = ''readonly'', readOnly = True, editComment = False, disableSidebar = True\<rparr>"
      "[Inl ''edit'']"] by simp

end
