(* ===== verification/Events.thy ===== *)
theory Events
  imports Js_Prelude
begin

text \<open>
  \<open>L.Evented\<close> (core/Events.js), the registry of listeners every map object and layer inherits.

  \<^item> Functions and contexts are known by their stamps (\<open>L.stamp\<close>), numbers. A context that is
    missing or the object itself is \<open>None\<close>.
  \<^item> A listener is an object \<open>{fn, ctx}\<close> in a heap: removing it overwrites its \<open>fn\<close> with
    \<open>L.Util.falseFn\<close> (\<open>None\<close>), so that an iteration that is under way does not call it. The index
    of a type is an object in a heap of its own for the same reason: \<open>fire\<close> holds on to it.
  \<^item> The code keeps the three entries of a type in one object under the names \<open>t\<close>, \<open>t_idx\<close> and
    \<open>t_len\<close>; they are three objects here, event types do not end in these suffixes.
  \<^item> Propagation to event parents is not modelled.
\<close>

named_theorems event_defs "definitions of the event registry"

section \<open>State\<close>

record listener =
  l_fn :: "nat option"
  l_ctx :: "nat option"

record evented =
  listeners :: "listener list"
  indexes :: "(nat \<times> nat, nat) object list"
  hasEvents :: bool
  ev_list :: "(string, nat list) object"
  ev_idx :: "(string, nat) object"
  ev_len :: "(string, int) object"
  calls :: "(nat \<times> nat \<times> nat option) list" \<comment> \<open>address, function, context\<close>

definition no_events :: evented where
  "no_events = \<lparr>listeners = [], indexes = [], hasEvents = False, ev_list = [], ev_idx = [], ev_len = [], calls = []\<rparr>"

definition get_or :: "'v \<Rightarrow> ('k, 'v) object \<Rightarrow> 'k \<Rightarrow> 'v" where
  "get_or d ob k = (case obj_get ob k of Some v \<Rightarrow> v | None \<Rightarrow> d)"

section \<open>Adding\<close>

text \<open>The index of a type, created when it is not there yet.\<close>

definition ensure_index :: "string \<Rightarrow> evented \<Rightarrow> nat \<times> evented" where
  [event_defs]: "ensure_index type s =
     (case obj_get (ev_idx s) type of
        Some i \<Rightarrow> (i, s)
      | None \<Rightarrow> (length (indexes s), s\<lparr>indexes := indexes s @ [[]], ev_idx := obj_set type (length (indexes s)) (ev_idx s)\<rparr>))"

definition on_type :: "string \<Rightarrow> nat \<Rightarrow> nat option \<Rightarrow> evented \<Rightarrow> evented" where
  [event_defs]: "on_type type fn context s0 =
     (let s = s0\<lparr>hasEvents := True\<rparr>;
          a = length (listeners s)
      in case context of
           Some c \<Rightarrow>
             (let (i, s1) = ensure_index type s
              in if obj_get (indexes s1 ! i) (fn, c) = None
                 then s1\<lparr>listeners := listeners s1 @ [\<lparr>l_fn = Some fn, l_ctx = Some c\<rparr>],
                         indexes := (indexes s1)[i := obj_set (fn, c) a (indexes s1 ! i)],
                         ev_len := obj_set type (get_or 0 (ev_len s1) type + 1) (ev_len s1)\<rparr>
                 else s1)
         | None \<Rightarrow>
             s\<lparr>listeners := listeners s @ [\<lparr>l_fn = Some fn, l_ctx = None\<rparr>],
               ev_list := obj_set type (get_or [] (ev_list s) type @ [a]) (ev_list s)\<rparr>)"

text \<open>\<open>L.Util.splitWords\<close>: the words between runs of white space.\<close>

fun words :: "string \<Rightarrow> string \<Rightarrow> string list" where
  "words w [] = (if w = [] then [] else [rev w])"
| "words w (c # cs) =
     (if c \<in> {CHR '' '', CHR 0x09, CHR 0x0A, CHR 0x0D}
      then (if w = [] then words [] cs else rev w # words [] cs) else words (c # w) cs)"

definition splitWords :: "string \<Rightarrow> string list" where
  [event_defs]: "splitWords s = (case words [] s of [] \<Rightarrow> [''''] | ws \<Rightarrow> ws)"

definition on :: "string \<Rightarrow> nat \<Rightarrow> nat option \<Rightarrow> evented \<Rightarrow> evented" where
  [event_defs]: "on types fn context s = fold (\<lambda>t. on_type t fn context) (splitWords types) s"

definition on_map :: "(string \<times> nat) list \<Rightarrow> nat option \<Rightarrow> evented \<Rightarrow> evented" where
  [event_defs]: "on_map types context s = fold (\<lambda>p. on_type (fst p) (snd p) context) types s"

section \<open>Removing\<close>

text \<open>The removed listener is made a no-op.\<close>

definition disable :: "nat \<Rightarrow> evented \<Rightarrow> evented" where
  [event_defs]: "disable a s = s\<lparr>listeners := (listeners s)[a := (listeners s ! a)\<lparr>l_fn := None\<rparr>]\<rparr>"

fun find_fn :: "listener list \<Rightarrow> nat \<Rightarrow> nat list \<Rightarrow> nat option" where
  "find_fn hp fn [] = None"
| "find_fn hp fn (a # as) = (if l_fn (hp ! a) = Some fn then Some a else find_fn hp fn as)"

definition off_type :: "string \<Rightarrow> nat option \<Rightarrow> nat option \<Rightarrow> evented \<Rightarrow> evented" where
  [event_defs]: "off_type type fn context s =
     (if \<not> hasEvents s then s
      else case fn of
        None \<Rightarrow> s\<lparr>ev_list := obj_del type (ev_list s), ev_idx := obj_del type (ev_idx s), ev_len := obj_del type (ev_len s)\<rparr>
      | Some f \<Rightarrow>
          (case context of
             Some c \<Rightarrow>
               (case obj_get (ev_idx s) type of
                  None \<Rightarrow> s
                | Some i \<Rightarrow>
                    (case obj_get (indexes s ! i) (f, c) of
                       None \<Rightarrow> s
                     | Some a \<Rightarrow>
                         disable a (s\<lparr>indexes := (indexes s)[i := obj_del (f, c) (indexes s ! i)],
                                      ev_len := obj_set type (get_or 0 (ev_len s) type - 1) (ev_len s)\<rparr>)))
           | None \<Rightarrow>
               (case obj_get (ev_list s) type of
                  None \<Rightarrow> s
                | Some ls \<Rightarrow>
                    (case find_fn (listeners s) f ls of
                       None \<Rightarrow> s
                     | Some a \<Rightarrow> disable a (s\<lparr>ev_list := obj_set type (remove1 a ls) (ev_list s)\<rparr>)))))"

definition off_all :: "evented \<Rightarrow> evented" where
  [event_defs]: "off_all s = s\<lparr>hasEvents := False, ev_list := [], ev_idx := [], ev_len := []\<rparr>"

definition off :: "string \<Rightarrow> nat option \<Rightarrow> nat option \<Rightarrow> evented \<Rightarrow> evented" where
  [event_defs]: "off types fn context s = (if types = [] then off_all s else fold (\<lambda>t. off_type t fn context) (splitWords types) s)"

definition off_map :: "(string \<times> nat) list \<Rightarrow> nat option \<Rightarrow> evented \<Rightarrow> evented" where
  [event_defs]: "off_map types context s = fold (\<lambda>p. off_type (fst p) (Some (snd p)) context) types s"

section \<open>Firing\<close>

text \<open>An empty array of listeners is truthy, a count of 0 is not.\<close>

definition listens :: "string \<Rightarrow> evented \<Rightarrow> bool" where
  [event_defs]: "listens type s \<longleftrightarrow>
     hasEvents s \<and> (obj_get (ev_list s) type \<noteq> None \<or> get_or 0 (ev_len s) type \<noteq> 0)"

text \<open>\<open>call f\<close> is what the function with stamp \<open>f\<close> does to this object.\<close>

definition invoke :: "(nat \<Rightarrow> evented \<Rightarrow> evented) \<Rightarrow> nat \<Rightarrow> evented \<Rightarrow> evented" where
  [event_defs]: "invoke call a s =
     (case l_fn (listeners s ! a) of
        None \<Rightarrow> s
      | Some f \<Rightarrow> call f (s\<lparr>calls := calls s @ [(a, f, l_ctx (listeners s ! a))]\<rparr>))"

definition visit :: "(nat \<Rightarrow> evented \<Rightarrow> evented) \<Rightarrow> nat \<Rightarrow> nat \<times> nat \<Rightarrow> evented \<Rightarrow> evented" where
  [event_defs]: "visit call i key s =
     (case obj_get (indexes s ! i) key of None \<Rightarrow> s | Some a \<Rightarrow> invoke call a s)"

text \<open>
  The plain listeners are called from a copy of their list, those with a context by \<open>for ... in\<close>
  over the index, which skips entries that have been deleted meanwhile.
\<close>

definition fire :: "(nat \<Rightarrow> evented \<Rightarrow> evented) \<Rightarrow> string \<Rightarrow> evented \<Rightarrow> evented" where
  [event_defs]: "fire call type s =
     (if \<not> listens type s then s
      else
        (let s1 = (case obj_get (ev_list s) type of None \<Rightarrow> s | Some ls \<Rightarrow> fold (invoke call) ls s)
         in case obj_get (ev_idx s) type of
              None \<Rightarrow> s1
            | Some i \<Rightarrow> fold (visit call i) (obj_keys (indexes s1 ! i)) s1))"

text \<open>\<open>once\<close>: \<open>handler\<close> is the stamp of the function that removes both; its effect is \<open>once_handler\<close>.\<close>

definition once_handler :: "string \<Rightarrow> nat \<Rightarrow> nat \<Rightarrow> nat option \<Rightarrow> evented \<Rightarrow> evented" where
  [event_defs]: "once_handler types fn handler context s = off types (Some handler) context (off types (Some fn) context s)"

definition once :: "string \<Rightarrow> nat \<Rightarrow> nat \<Rightarrow> nat option \<Rightarrow> evented \<Rightarrow> evented" where
  [event_defs]: "once types fn handler context s = on types handler context (on types fn context s)"

section \<open>Well-formed registries\<close>

text \<open>
  The index objects of two types are different, each has no key twice, its entries are live
  listeners of the function and context they are filed under, and the count of a type is the
  size of its index; the addresses in the plain lists are allocated.
\<close>

definition index_ok :: "evented \<Rightarrow> nat \<Rightarrow> bool" where
  "index_ok s i \<longleftrightarrow> i < length (indexes s) \<and> obj_ok (indexes s ! i)"

definition events_ok :: "evented \<Rightarrow> bool" where
  "events_ok s \<longleftrightarrow>
     (\<forall>t i. obj_get (ev_idx s) t = Some i \<longrightarrow>
        index_ok s i \<and> obj_get (ev_len s) t = Some (int (length (indexes s ! i)))) \<and>
     (\<forall>t. obj_get (ev_idx s) t = None \<longrightarrow> obj_get (ev_len s) t = None) \<and>
     (\<forall>t u i. obj_get (ev_idx s) t = Some i \<and> obj_get (ev_idx s) u = Some i \<longrightarrow> t = u)"

section \<open>Histories\<close>

text \<open>
  What can happen to a registry: additions and removals from outside, and events, during which
  every called function may add and remove listeners; \<open>prog f\<close> is what the function \<open>f\<close> does.
\<close>

datatype reg_op = On string nat "nat option" | Off string "nat option" "nat option" | OffAll

fun run_op :: "reg_op \<Rightarrow> evented \<Rightarrow> evented" where
  "run_op (On t f c) s = on_type t f c s"
| "run_op (Off t f c) s = off_type t f c s"
| "run_op OffAll s = off_all s"

type_synonym program = "nat \<Rightarrow> reg_op list"

definition run_fn :: "program \<Rightarrow> nat \<Rightarrow> evented \<Rightarrow> evented" where
  "run_fn prog f = fold run_op (prog f)"

datatype action = Op reg_op | Fire program string

fun run_action :: "action \<Rightarrow> evented \<Rightarrow> evented" where
  "run_action (Op p) s = run_op p s"
| "run_action (Fire prog t) s = fire (run_fn prog) t s"

text \<open>
  Predicates that every operation and the record of a call of a live listener keep are kept by
  whole histories.
\<close>

locale registry_closed =
  fixes I :: "evented \<Rightarrow> bool"
  assumes op_closed: "I s \<Longrightarrow> I (run_op p s)"
    and call_closed: "I s \<Longrightarrow> l_fn (listeners s ! a) = Some f \<Longrightarrow> I (s\<lparr>calls := calls s @ [(a, f, c)]\<rparr>)"
begin

lemma fn_closed: "I s \<Longrightarrow> I (run_fn prog f s)"
proof -
  have "I s \<Longrightarrow> I (fold run_op ps s)" for ps
    by (induction ps arbitrary: s) (auto intro: op_closed)
  then show "I s \<Longrightarrow> I (run_fn prog f s)" by (simp add: run_fn_def)
qed

lemma invoke_closed: "I s \<Longrightarrow> I (invoke (run_fn prog) a s)"
  by (auto simp: invoke_def intro!: fn_closed call_closed split: option.split)

lemma visit_closed: "I s \<Longrightarrow> I (visit (run_fn prog) i k s)"
  by (auto simp: visit_def intro: invoke_closed split: option.split)

lemma invokes_closed: "I s \<Longrightarrow> I (fold (invoke (run_fn prog)) ls s)"
  by (induction ls arbitrary: s) (auto intro: invoke_closed)

lemma visits_closed: "I s \<Longrightarrow> I (fold (visit (run_fn prog) i) ks s)"
  by (induction ks arbitrary: s) (auto intro: visit_closed)

lemma fire_closed: "I s \<Longrightarrow> I (fire (run_fn prog) t s)"
  by (auto simp: fire_def Let_def split: option.split intro: invokes_closed visits_closed)

lemma history_closed: "I s \<Longrightarrow> I (fold run_action as s)"
proof (induction as arbitrary: s)
  case (Cons x as)
  then show ?case by (cases x) (auto intro: op_closed fire_closed)
qed simp

end

lemma length_obj_set: "length (obj_set k v ps) = (if obj_get ps k = None then Suc (length ps) else length ps)"
  by (induction ps) auto

lemma length_obj_del: "obj_ok ps \<Longrightarrow> obj_get ps k = Some v \<Longrightarrow> int (length (obj_del k ps)) = int (length ps) - 1"
proof (induction ps)
  case (Cons p ps)
  have ok: "obj_ok ps" "fst p \<notin> set (obj_keys ps)" using Cons.prems(1) by (auto simp: obj_ok_def)
  show ?case
  proof (cases "fst p = k")
    case True
    then have "fst x \<noteq> k" if "x \<in> set ps" for x using ok(2) that True by (metis imageI set_map)
    then have "filter (\<lambda>(a, b). a \<noteq> k) ps = ps" by (intro filter_True) force
    then show ?thesis using True by (cases p) (simp add: obj_del_def)
  next
    case False
    then show ?thesis using Cons.IH [OF ok(1)] Cons.prems(2) by (cases p) (simp add: obj_del_def)
  qed
qed simp

lemma events_ok_len:
  "events_ok s \<Longrightarrow> get_or 0 (ev_len s) t = (case obj_get (ev_idx s) t of None \<Rightarrow> 0 | Some i \<Rightarrow> int (length (indexes s ! i)))"
  by (auto simp: events_ok_def get_or_def split: option.split)

text \<open>The invariant for all types but one.\<close>

definition events_ok_but :: "string \<Rightarrow> evented \<Rightarrow> bool" where
  "events_ok_but t s \<longleftrightarrow>
     (\<forall>u i. u \<noteq> t \<longrightarrow> obj_get (ev_idx s) u = Some i \<longrightarrow>
        index_ok s i \<and> obj_get (ev_len s) u = Some (int (length (indexes s ! i)))) \<and>
     (\<forall>u. u \<noteq> t \<longrightarrow> obj_get (ev_idx s) u = None \<longrightarrow> obj_get (ev_len s) u = None) \<and>
     (\<forall>u v i. obj_get (ev_idx s) u = Some i \<and> obj_get (ev_idx s) v = Some i \<longrightarrow> u = v)"

lemma events_ok_imp_but: "events_ok s \<Longrightarrow> events_ok_but t s"
  by (simp add: events_ok_def events_ok_but_def)

text \<open>Replacing the index of a type and its count restores it.\<close>

lemma set_index_ok:
  assumes "events_ok_but t s" "obj_get (ev_idx s) t = Some i" "i < length (indexes s)" "obj_ok ob"
  shows "events_ok (s\<lparr>listeners := L, indexes := (indexes s)[i := ob], ev_len := obj_set t (int (length ob)) (ev_len s)\<rparr>)"
proof -
  let ?s = "s\<lparr>listeners := L, indexes := (indexes s)[i := ob], ev_len := obj_set t (int (length ob)) (ev_len s)\<rparr>"
  have "index_ok ?s j \<and> obj_get (ev_len ?s) u = Some (int (length (indexes ?s ! j)))"
    if j: "obj_get (ev_idx s) u = Some j" for u j
  proof (cases "u = t")
    case True
    then have "j = i" using j assms(2) by simp
    then show ?thesis using assms(3,4) True by (simp add: index_ok_def)
  next
    case False
    have "j \<noteq> i" using assms(1,2) False j unfolding events_ok_but_def by blast
    moreover have "index_ok s j" "obj_get (ev_len s) u = Some (int (length (indexes s ! j)))"
      using assms(1) False j unfolding events_ok_but_def by blast+
    ultimately show ?thesis using False by (simp add: index_ok_def)
  qed
  moreover have "obj_get (ev_len ?s) u = None" if "obj_get (ev_idx s) u = None" for u
  proof -
    have "u \<noteq> t" using that assms(2) by auto
    then show ?thesis using that assms(1) by (simp add: events_ok_but_def)
  qed
  moreover have "u = v" if "obj_get (ev_idx s) u = Some j" "obj_get (ev_idx s) v = Some j" for u v j
    using assms(1) that unfolding events_ok_but_def by blast
  ultimately show ?thesis unfolding events_ok_def by simp
qed

lemma ensure_index_spec:
  assumes "events_ok s" "ensure_index t s = (i, s')"
  shows "events_ok_but t s'" "obj_get (ev_idx s') t = Some i" "index_ok s' i"
    "get_or 0 (ev_len s') t = int (length (indexes s' ! i))"
    "indexes s' ! i \<noteq> [] \<Longrightarrow> s' = s"
proof -
  have old: "j < length (indexes s)" if "obj_get (ev_idx s) u = Some j" for u j
    using assms(1) that by (auto simp: events_ok_def index_ok_def)
  have "events_ok_but t s' \<and> obj_get (ev_idx s') t = Some i \<and> index_ok s' i \<and>
      get_or 0 (ev_len s') t = int (length (indexes s' ! i)) \<and> (indexes s' ! i \<noteq> [] \<longrightarrow> s' = s)"
  proof (cases "obj_get (ev_idx s) t")
    case None
    then have s': "i = length (indexes s)" "s' = s\<lparr>indexes := indexes s @ [[]], ev_idx := obj_set t (length (indexes s)) (ev_idx s)\<rparr>"
      using assms(2) by (auto simp: ensure_index_def)
    have len: "obj_get (ev_len s) t = None" using assms(1) None by (simp add: events_ok_def)
    have inj: "u = v" if "obj_get (ev_idx s) u = Some j" "obj_get (ev_idx s) v = Some j" for u v j
      using assms(1) that by (auto simp: events_ok_def)
    have "events_ok_but t s'"
      using assms(1) old inj unfolding s' events_ok_but_def
      by (fastforce simp: events_ok_def index_ok_def nth_append split: if_splits)
    then show ?thesis using len by (simp add: s' index_ok_def get_or_def)
  next
    case (Some j)
    then have s': "i = j" "s' = s" using assms(2) by (auto simp: ensure_index_def)
    show ?thesis
      using assms(1) Some events_ok_imp_but [OF assms(1)] events_ok_len [OF assms(1), of t]
      unfolding s' by (auto simp: events_ok_def)
  qed
  then show "events_ok_but t s'" "obj_get (ev_idx s') t = Some i" "index_ok s' i"
    "get_or 0 (ev_len s') t = int (length (indexes s' ! i))" "indexes s' ! i \<noteq> [] \<Longrightarrow> s' = s" by auto
qed

lemma events_ok_on: "events_ok s \<Longrightarrow> events_ok (on_type t f c s)"
proof -
  assume s: "events_ok s"
  then have s0: "events_ok (s\<lparr>hasEvents := True\<rparr>)" by (simp add: events_ok_def index_ok_def)
  show ?thesis
  proof (cases c)
    case None
    then show ?thesis using s by (simp add: on_type_def events_ok_def index_ok_def)
  next
    case (Some x)
    obtain i s1 where e: "ensure_index t (s\<lparr>hasEvents := True\<rparr>) = (i, s1)" by fastforce
    note sp = ensure_index_spec [OF s0 e]
    show ?thesis
    proof (cases "obj_get (indexes s1 ! i) (f, x)")
      case None
      have on: "on_type t f c s = s1\<lparr>listeners := listeners s1 @ [\<lparr>l_fn = Some f, l_ctx = Some x\<rparr>],
          indexes := (indexes s1)[i := obj_set (f, x) (length (listeners s)) (indexes s1 ! i)],
          ev_len := obj_set t (int (length (obj_set (f, x) (length (listeners s)) (indexes s1 ! i)))) (ev_len s1)\<rparr>"
        using Some e None sp(4) by (simp add: on_type_def length_obj_set add.commute)
      show ?thesis
        unfolding on by (rule set_index_ok) (use sp in \<open>auto simp: index_ok_def\<close>)
    next
      case (Some a)
      then have "indexes s1 ! i \<noteq> []" by auto
      then have "s1 = s\<lparr>hasEvents := True\<rparr>" by (rule sp(5))
      then show ?thesis using Some \<open>c = Some x\<close> e s0 by (simp add: on_type_def)
    qed
  qed
qed

lemma events_ok_disable [simp]: "events_ok (disable a s) = events_ok s"
  by (simp add: disable_def events_ok_def index_ok_def)

lemma events_ok_off: "events_ok s \<Longrightarrow> events_ok (off_type t f c s)"
proof -
  assume s: "events_ok s"
  have ctx: "events_ok (s\<lparr>indexes := (indexes s)[i := obj_del k (indexes s ! i)],
      ev_len := obj_set t (get_or 0 (ev_len s) t - 1) (ev_len s)\<rparr>)"
    if i: "obj_get (ev_idx s) t = Some i" "obj_get (indexes s ! i) k = Some a" for i k a
  proof -
    have ok: "i < length (indexes s)" "obj_ok (indexes s ! i)"
      using s i(1) by (auto simp: events_ok_def index_ok_def)
    then have "get_or 0 (ev_len s) t - 1 = int (length (obj_del k (indexes s ! i)))"
      using i events_ok_len [OF s, of t] length_obj_del [OF ok(2) i(2)] by simp
    then show ?thesis
      using set_index_ok [OF events_ok_imp_but [OF s] i(1) ok(1), of "obj_del k (indexes s ! i)" "listeners s"] ok(2)
      by (simp add: obj_ok_del)
  qed
  have del: "events_ok (s\<lparr>ev_list := l, ev_idx := obj_del t (ev_idx s), ev_len := obj_del t (ev_len s)\<rparr>)" for l
    using s by (auto simp: events_ok_def index_ok_def)
  have lst: "events_ok (s\<lparr>ev_list := l\<rparr>)" for l using s by (simp add: events_ok_def index_ok_def)
  show ?thesis
    using s ctx del lst by (auto simp: off_type_def split: option.split)
qed

interpretation registry: registry_closed events_ok
proof unfold_locales
  fix s p
  assume "events_ok s"
  then show "events_ok (run_op p s)"
    by (cases p) (simp_all add: events_ok_on events_ok_off, simp add: off_all_def events_ok_def index_ok_def)
qed (simp add: events_ok_def index_ok_def)

section \<open>Removed listeners\<close>

lemma ensure_index_listeners: "ensure_index t s = (i, s') \<Longrightarrow> listeners s' = listeners s \<and> calls s' = calls s"
  by (auto simp: ensure_index_def split: option.splits)

definition disabled :: "nat \<Rightarrow> evented \<Rightarrow> bool" where
  "disabled a s \<longleftrightarrow> a < length (listeners s) \<and> l_fn (listeners s ! a) = None"

text \<open>A removal changes the listeners at most by disabling one.\<close>

lemma off_type_cases:
  obtains s' where "listeners s' = listeners s" "calls s' = calls s" "off_type t f c s = s'"
  | s' b where "listeners s' = listeners s" "calls s' = calls s" "off_type t f c s = disable b s'"
proof -
  have "(listeners (off_type t f c s) = listeners s \<and> calls (off_type t f c s) = calls s) \<or>
      (\<exists>s' b. listeners s' = listeners s \<and> calls s' = calls s \<and> off_type t f c s = disable b s')"
  proof (cases f)
    case (Some g)
    have ex: "P \<or> (\<exists>s' b. listeners s' = listeners s \<and> calls s' = calls s \<and> disable a s1 = disable b s')"
      if "listeners s1 = listeners s" "calls s1 = calls s" for P a s1
      using that by blast
    show ?thesis
      unfolding off_type_def Some
      by (split if_split option.split | intro conjI impI allI ex | simp)+
  qed (simp add: off_type_def)
  then show thesis using that by blast
qed

text \<open>Operations keep a disabled listener disabled and do not touch the log.\<close>

lemma on_type_keeps:
  "calls (on_type t f c s) = calls s" "a < length (listeners s) \<Longrightarrow> listeners (on_type t f c s) ! a = listeners s ! a"
  "length (listeners s) \<le> length (listeners (on_type t f c s))"
proof -
  obtain i s1 where e: "ensure_index t (s\<lparr>hasEvents := True\<rparr>) = (i, s1)" by fastforce
  have s1: "listeners s1 = listeners s" "calls s1 = calls s" using ensure_index_listeners [OF e] by simp_all
  show "calls (on_type t f c s) = calls s" "length (listeners s) \<le> length (listeners (on_type t f c s))"
    using s1 e by (cases c; simp add: on_type_def)+
  show "a < length (listeners s) \<Longrightarrow> listeners (on_type t f c s) ! a = listeners s ! a"
    using s1 e by (cases c) (simp_all add: on_type_def nth_append)
qed

lemma op_keeps_disabled:
  assumes "disabled a s"
  shows "disabled a (run_op p s) \<and> calls (run_op p s) = calls s"
proof (cases p)
  case (On t f c)
  then show ?thesis
    using assms on_type_keeps [where t = t and f = f and c = c and s = s] by (fastforce simp: disabled_def)
next
  case (Off t f c)
  show ?thesis
  proof (rule off_type_cases [where t = t and f = f and c = c and s = s])
    fix s'
    assume "listeners s' = listeners s" "calls s' = calls s" "off_type t f c s = s'"
    then show ?thesis using assms Off by (simp add: disabled_def)
  next
    fix s' b
    assume "listeners s' = listeners s" "calls s' = calls s" "off_type t f c s = disable b s'"
    then show ?thesis using assms Off by (simp add: disabled_def disable_def nth_update_at)
  qed
qed (use assms in \<open>simp add: disabled_def off_all_def\<close>)

text \<open>A listener is off and none of the calls after the log \<open>cs\<close> was a call of it.\<close>

definition silent :: "nat \<Rightarrow> (nat \<times> nat \<times> nat option) list \<Rightarrow> evented \<Rightarrow> bool" where
  "silent a cs s \<longleftrightarrow> disabled a s \<and> (\<exists>later. calls s = cs @ later \<and> a \<notin> fst ` set later)"

interpretation silence: registry_closed "silent a cs" for a cs
proof unfold_locales
  fix s p
  assume "silent a cs s"
  then show "silent a cs (run_op p s)" using op_keeps_disabled [of a s p] by (simp add: silent_def)
next
  fix s b f c
  assume s: "silent a cs s" "l_fn (listeners s ! b) = Some f"
  then obtain later where l: "calls s = cs @ later" "a \<notin> fst ` set later" by (auto simp: silent_def)
  have "b \<noteq> a" using s by (auto simp: silent_def disabled_def)
  then have "calls s @ [(b, f, c)] = cs @ (later @ [(b, f, c)]) \<and> a \<notin> fst ` set (later @ [(b, f, c)])"
    using l by simp
  then have "\<exists>later'. calls s @ [(b, f, c)] = cs @ later' \<and> a \<notin> fst ` set later'" by blast
  then show "silent a cs (s\<lparr>calls := calls s @ [(b, f, c)]\<rparr>)"
    using s(1) by (simp add: silent_def disabled_def)
qed

text \<open>The listener a removal applies to.\<close>

definition registered :: "string \<Rightarrow> nat \<Rightarrow> nat option \<Rightarrow> evented \<Rightarrow> nat option" where
  "registered t f c s =
     (if \<not> hasEvents s then None
      else case c of
        Some x \<Rightarrow> (case obj_get (ev_idx s) t of None \<Rightarrow> None | Some i \<Rightarrow> obj_get (indexes s ! i) (f, x))
      | None \<Rightarrow> (case obj_get (ev_list s) t of None \<Rightarrow> None | Some ls \<Rightarrow> find_fn (listeners s) f ls))"

lemma off_type_disables:
  assumes "registered t f c s = Some a" "a < length (listeners s)"
  shows "silent a (calls s) (off_type t (Some f) c s)"
  using assms
  by (auto simp: registered_def off_type_def disable_def silent_def disabled_def split: option.splits if_splits)

section \<open>Undisturbed events\<close>

text \<open>When the called functions leave the registry alone, an event calls every live listener once.\<close>

definition log_entry :: "evented \<Rightarrow> nat \<Rightarrow> (nat \<times> nat \<times> nat option) list" where
  "log_entry s a = (case l_fn (listeners s ! a) of None \<Rightarrow> [] | Some f \<Rightarrow> [(a, f, l_ctx (listeners s ! a))])"

lemma invoke_calm: "(\<And>f s. call f s = s) \<Longrightarrow> invoke call a s = s\<lparr>calls := calls s @ log_entry s a\<rparr>"
  by (simp add: invoke_def log_entry_def split: option.split)

lemma log_entry_calls [simp]: "log_entry (s\<lparr>calls := cs\<rparr>) = log_entry s"
  by (rule ext) (simp add: log_entry_def split: option.split)

lemma invokes_calm:
  "(\<And>f s. call f s = s) \<Longrightarrow> fold (invoke call) ls s = s\<lparr>calls := calls s @ concat (map (log_entry s) ls)\<rparr>"
  by (induction ls arbitrary: s) (simp_all add: invoke_calm)

lemma visits_calm:
  assumes "\<And>f s. call f s = s" "obj_ok (indexes s ! i)" "set qs \<subseteq> set (indexes s ! i)"
  shows "fold (visit call i) (map fst qs) s = s\<lparr>calls := calls s @ concat (map (\<lambda>q. log_entry s (snd q)) qs)\<rparr>"
  using assms(2,3)
proof (induction qs arbitrary: s)
  case (Cons q qs)
  then have "obj_get (indexes s ! i) (fst q) = Some (snd q)" by (cases q) (simp add: obj_ok_def)
  then have v: "visit call i (fst q) s = s\<lparr>calls := calls s @ log_entry s (snd q)\<rparr>"
    by (simp add: visit_def invoke_calm assms(1))
  show ?case using Cons.IH [of "visit call i (fst q) s"] Cons.prems by (simp add: v)
qed simp

lemma fire_calm:
  assumes "events_ok s" "\<And>f s. call f s = s"
  shows "calls (fire call t s) =
     calls s @ (if \<not> hasEvents s then []
       else concat (map (log_entry s) (get_or [] (ev_list s) t)) @
        (case obj_get (ev_idx s) t of None \<Rightarrow> []
         | Some i \<Rightarrow> concat (map (\<lambda>q. log_entry s (snd q)) (indexes s ! i))))"
proof (cases "listens t s")
  case False
  have "indexes s ! i = []" if "hasEvents s" "obj_get (ev_idx s) t = Some i" for i
    using False that events_ok_len [OF assms(1), of t] by (simp add: listens_def)
  moreover have "obj_get (ev_list s) t = None" if "hasEvents s" using False that by (simp add: listens_def)
  ultimately show ?thesis using False by (auto simp: fire_def get_or_def split: option.split)
next
  case True
  let ?ls = "get_or [] (ev_list s) t"
  have plain: "(case obj_get (ev_list s) t of None \<Rightarrow> s | Some ls \<Rightarrow> fold (invoke call) ls s) =
      s\<lparr>calls := calls s @ concat (map (log_entry s) ?ls)\<rparr>"
    by (simp add: invokes_calm assms(2) get_or_def split: option.split)
  have ok: "obj_ok (indexes s ! i)" if "obj_get (ev_idx s) t = Some i" for i
    using assms(1) that by (simp add: events_ok_def index_ok_def)
  show ?thesis
  proof (cases "obj_get (ev_idx s) t")
    case None
    then show ?thesis using True plain by (simp add: fire_def listens_def)
  next
    case (Some i)
    have "fold (visit call i) (map fst (indexes s ! i)) (s\<lparr>calls := calls s @ concat (map (log_entry s) ?ls)\<rparr>) =
        s\<lparr>calls := (calls s @ concat (map (log_entry s) ?ls)) @ concat (map (\<lambda>q. log_entry s (snd q)) (indexes s ! i))\<rparr>"
      using visits_calm [of call "s\<lparr>calls := calls s @ concat (map (log_entry s) ?ls)\<rparr>" i "indexes s ! i"] ok [OF Some] assms(2)
      by simp
    then show ?thesis using True plain Some by (simp add: fire_def listens_def)
  qed
qed

section \<open>Properties\<close>

lemma events_ok_start: "events_ok no_events"
  by (simp add: events_ok_def no_events_def)

text \<open>
  C34. Whatever is added, removed and fired, and whatever the called functions add and remove while
  an event is under way, the count \<open>listens\<close> consults is the number of listeners with a context
  that are registered for the type.
\<close>

theorem listener_count:
  "get_or 0 (ev_len (fold run_action as no_events)) t =
     (case obj_get (ev_idx (fold run_action as no_events)) t of
        None \<Rightarrow> 0 | Some i \<Rightarrow> int (length (indexes (fold run_action as no_events) ! i)))"
  by (intro events_ok_len registry.history_closed events_ok_start)


text \<open>The removal of the second of two listeners of an event, by the first one while it is being called.\<close>

definition two_listeners :: evented where
  "two_listeners = on ''zoomend'' 2 (Some 8) (on ''zoomend'' 1 None no_events)"


text \<open>
  After any history an event whose listeners leave the registry alone calls every listener
  that is registered for its type and has not been disabled once: the plain ones in the order of their registration, then
  those with a context in the order of the index.
\<close>

lemma event_calls_listeners:
  "let s = fold run_action as no_events
   in calls (fire (\<lambda>f s. s) t s) =
     calls s @ (if \<not> hasEvents s then []
       else concat (map (log_entry s) (get_or [] (ev_list s) t)) @
        (case obj_get (ev_idx s) t of None \<Rightarrow> []
         | Some i \<Rightarrow> concat (map (\<lambda>q. log_entry s (snd q)) (indexes s ! i))))"
  unfolding Let_def by (intro fire_calm registry.history_closed events_ok_start refl)

text \<open>An array of listeners that has become empty still counts for \<open>listens\<close>.\<close>

lemma listens_without_listeners:
  "listens ''move'' (off ''move'' (Some 1) None (on ''move'' 1 None no_events)) \<and>
   get_or [] (ev_list (off ''move'' (Some 1) None (on ''move'' 1 None no_events))) ''move'' = []"
  by code_simp

end
