(* ===== verification/Message_Store.thy ===== *)
theory Message_Store
  imports Tile_Requests
begin

text \<open>
  \<open>L.MessageStore\<close> and its use in \<open>L.CanvasTileLayer\<close> (layer/tile/CanvasTileLayer.js): the last
  message of every type that carries print-twip coordinates is kept, per view for messages of other
  views, and replayed when the zoom or the sheet geometry changes.
\<close>

named_theorems store_defs "definitions of the message store"

section \<open>The store\<close>

text \<open>
  \<open>others\<close> maps a type to an array indexed by view id; the array is an object whose keys are
  view ids.
\<close>

record message_store =
  ownMessages :: "(string, string) object"
  othersMessages :: "(string, (int, string) object) object"

definition MessageStore :: "string list \<Rightarrow> string list \<Rightarrow> message_store" where
  [store_defs]: "MessageStore ownViewTypes otherViewTypes =
     \<lparr>ownMessages = fold (\<lambda>t. obj_set t '''') ownViewTypes [],
      othersMessages = fold (\<lambda>t. obj_set t []) otherViewTypes []\<rparr>"

definition store_clear :: "bool \<Rightarrow> message_store \<Rightarrow> message_store" where
  [store_defs]: "store_clear notOtherMsg s =
     (let s1 = s\<lparr>ownMessages := fold (\<lambda>t. obj_set t '''') (obj_keys (ownMessages s)) (ownMessages s)\<rparr>
      in if \<not> notOtherMsg
         then s1\<lparr>othersMessages := fold (\<lambda>t. obj_set t []) (obj_keys (othersMessages s1)) (othersMessages s1)\<rparr>
         else s1)"

text \<open>The view id is \<open>undefined\<close> for messages of the own view.\<close>

definition store_save :: "string \<Rightarrow> string \<Rightarrow> int option \<Rightarrow> message_store \<Rightarrow> message_store" where
  [store_defs]: "store_save msgType textMsg viewId s =
     (case viewId of
        None \<Rightarrow>
          (if obj_get (ownMessages s) msgType \<noteq> None
           then s\<lparr>ownMessages := obj_set msgType textMsg (ownMessages s)\<rparr> else s)
      | Some v \<Rightarrow>
          (case obj_get (othersMessages s) msgType of
             None \<Rightarrow> s
           | Some views \<Rightarrow> s\<lparr>othersMessages := obj_set msgType (obj_set v textMsg views) (othersMessages s)\<rparr>))"

definition store_get :: "message_store \<Rightarrow> string \<times> int option \<Rightarrow> string option" where
  [store_defs]: "store_get s k =
     (case k of (msgType, viewId) \<Rightarrow>
        (case viewId of
           None \<Rightarrow> obj_get (ownMessages s) msgType
         | Some v \<Rightarrow>
             (case obj_get (othersMessages s) msgType of
                None \<Rightarrow> None | Some views \<Rightarrow> obj_get views v)))"

text \<open>
  The guard of \<open>_cleanUpSelectionMessages\<close> starts with \<open>!messages\<close>, which is false for an object:
  the early return is never taken.
\<close>

definition cleanUpSelectionMessages :: "(string, string) object \<Rightarrow> (string, string) object" where
  [store_defs]: "cleanUpSelectionMessages msgs =
     obj_set ''textselectionend'' ''textselectionend: '' (obj_set ''textselectionstart'' ''textselectionstart: '' msgs)"

text \<open>
  \<open>forEach\<close> gives the messages in the order of the callbacks: the own ones, then per type those
  of the other views; \<open>Array.forEach\<close> visits the indices in ascending order and skips holes.
\<close>

definition array_values :: "(int, string) object \<Rightarrow> string list" where
  [store_defs]: "array_values views = map (\<lambda>v. the (obj_get views v)) (sort (filter array_index (obj_keys views)))"

definition store_forEach :: "message_store \<Rightarrow> message_store \<times> string list" where
  [store_defs]: "store_forEach s =
     (let s1 = s\<lparr>ownMessages := cleanUpSelectionMessages (ownMessages s)\<rparr>
      in (s1, map snd (ownMessages s1) @ concat (map (\<lambda>p. array_values (snd p)) (othersMessages s1))))"

section \<open>The layer's use of the store\<close>

definition ownViewTypes :: "doc_type \<Rightarrow> string list" where
  [store_defs]: "ownViewTypes dt =
     (if dt = Spreadsheet
      then [''cellcursor'', ''referencemarks'', ''cellselectionarea'', ''textselection'', ''invalidatecursor'',
            ''textselectionstart'', ''textselectionend'', ''graphicselection'']
      else [''invalidatecursor'', ''textselection'', ''graphicselection'']) @
     (if dt = Text then [''contentcontrol''] else [])"

definition otherViewTypes :: "doc_type \<Rightarrow> string list" where
  [store_defs]: "otherViewTypes dt =
     (if dt = Spreadsheet
      then [''cellviewcursor'', ''textviewselection'', ''invalidateviewcursor'', ''graphicviewselection'']
      else [''textviewselection'', ''invalidateviewcursor''])"

text \<open>\<open>None\<close> is the store before the first message.\<close>

definition saveMessageForReplay :: "doc_type \<Rightarrow> string \<Rightarrow> int option \<Rightarrow> message_store option \<Rightarrow> message_store option" where
  [store_defs]: "saveMessageForReplay dt textMsg viewId st =
     (let s = (case st of None \<Rightarrow> MessageStore (ownViewTypes dt) (otherViewTypes dt) | Some s \<Rightarrow> s)
      in if CHR '':'' \<notin> set textMsg then Some s
         else Some (store_save (takeWhile (\<lambda>c. c \<noteq> CHR '':'') textMsg) textMsg viewId s))"

definition clearMsgReplayStore :: "bool \<Rightarrow> message_store option \<Rightarrow> message_store option" where
  [store_defs]: "clearMsgReplayStore notOtherMsg st = map_option (store_clear notOtherMsg) st"

text \<open>The messages that are handed to \<open>_onMessage\<close> again, in order.\<close>

definition replayPrintTwipsMsgs :: "bool \<Rightarrow> message_store option \<Rightarrow> message_store option \<times> string list" where
  [store_defs]: "replayPrintTwipsMsgs differentSheet st =
     (case st of
        None \<Rightarrow> (None, [])
      | Some s \<Rightarrow>
          (case store_forEach s of
             (s1, msgs) \<Rightarrow> (Some s1, filter (\<lambda>m. \<not> (differentSheet \<and> starts_with ''graphicselection:'' m)) msgs)))"

definition replayPrintTwipsMsg :: "string \<Rightarrow> message_store \<Rightarrow> string option" where
  [store_defs]: "replayPrintTwipsMsg msgType s = store_get s (msgType, None)"

text \<open>\<open>viewIds\<close> are the keys of \<open>_cellViewCursors\<close>; an empty message is skipped like a missing one.\<close>

definition replayPrintTwipsMsgAllViews :: "string \<Rightarrow> int list \<Rightarrow> message_store \<Rightarrow> string list" where
  [store_defs]: "replayPrintTwipsMsgAllViews msgType viewIds s =
     concat (map (\<lambda>v. case store_get s (msgType, Some v) of
                        Some m \<Rightarrow> (if m \<noteq> '''' then [m] else []) | None \<Rightarrow> []) viewIds)"

section \<open>The contract of the store\<close>

text \<open>
  What users of such a store rely on: a slot the store knows holds what was last put there, and
  putting does not touch other slots. Then the content of a slot is a function of the log alone.
\<close>

definition latest :: "('k \<times> 'v) list \<Rightarrow> 'k \<Rightarrow> 'v option" where
  "latest lg k = map_of (rev lg) k"

lemma latest_snoc: "latest (lg @ [(k, v)]) = (latest lg)(k \<mapsto> v)"
  by (simp add: latest_def fun_eq_iff)

locale latest_store =
  fixes get :: "'s \<Rightarrow> 'k \<Rightarrow> 'v option"
    and put :: "'k \<Rightarrow> 'v \<Rightarrow> 's \<Rightarrow> 's"
    and knows :: "'s \<Rightarrow> 'k \<Rightarrow> bool"
  assumes get_put_same: "knows s k \<Longrightarrow> get (put k v s) k = Some v"
    and get_put_other: "k \<noteq> k' \<Longrightarrow> get (put k v s) k' = get s k'"
    and put_unknown: "\<not> knows s k \<Longrightarrow> put k v s = s"
    and knows_put: "knows (put k v s) k' = knows s k'"
begin

abbreviation put_all :: "('k \<times> 'v) list \<Rightarrow> 's \<Rightarrow> 's" where
  "put_all lg s \<equiv> fold (\<lambda>p. put (fst p) (snd p)) lg s"

lemma knows_put_all [simp]: "knows (put_all lg s) k = knows s k"
  by (induction lg arbitrary: s) (simp_all add: knows_put)

lemma get_put_all:
  "get (put_all lg s) k =
     (if knows s k then (case latest lg k of Some v \<Rightarrow> Some v | None \<Rightarrow> get s k) else get s k)"
proof (induction lg rule: rev_induct)
  case Nil
  then show ?case by (simp add: latest_def)
next
  case (snoc p lg)
  obtain k' v where p: "p = (k', v)" by fastforce
  have all: "put_all (lg @ [p]) s = put k' v (put_all lg s)" by (simp add: p)
  show ?case
  proof (cases "k' = k")
    case True
    have "get (put k v (put_all lg s)) k = (if knows s k then Some v else get s k)"
      using get_put_same [of "put_all lg s" k v] put_unknown [of "put_all lg s" k v] snoc by simp
    then show ?thesis using True all by (simp add: p latest_snoc)
  next
    case False
    then show ?thesis using snoc get_put_other [OF False] all by (simp add: p latest_snoc)
  qed
qed

end

definition store_put :: "string \<times> int option \<Rightarrow> string \<Rightarrow> message_store \<Rightarrow> message_store" where
  "store_put k m s = store_save (fst k) m (snd k) s"

definition store_knows :: "message_store \<Rightarrow> string \<times> int option \<Rightarrow> bool" where
  "store_knows s k \<longleftrightarrow>
     (case snd k of None \<Rightarrow> obj_get (ownMessages s) (fst k) \<noteq> None | Some v \<Rightarrow> obj_get (othersMessages s) (fst k) \<noteq> None)"

interpretation store: latest_store store_get store_put store_knows
proof unfold_locales
  fix s k m
  assume "store_knows s k"
  then show "store_get (store_put k m s) k = Some m"
    by (cases k) (auto simp: store_knows_def store_put_def store_save_def store_get_def js_object split: option.splits)
next
  fix s k m and k' :: "string \<times> int option"
  assume "k \<noteq> k'"
  then show "store_get (store_put k m s) k' = store_get s k'"
    by (cases k; cases k') (auto simp: store_put_def store_save_def store_get_def js_object split: option.splits)
next
  fix s k m
  assume "\<not> store_knows s k"
  then show "store_put k m s = s"
    by (auto simp: store_put_def store_save_def store_knows_def split: option.splits)
next
  fix s k m and k' :: "string \<times> int option"
  show "store_knows (store_put k m s) k' = store_knows s k'"
    by (auto simp: store_put_def store_save_def store_knows_def js_object split: option.splits)
qed

section \<open>Messages through the layer\<close>

text \<open>The slot a message is kept in: its type is the text before the first colon.\<close>

definition msg_type :: "string \<Rightarrow> string" where
  "msg_type m = takeWhile (\<lambda>c. c \<noteq> CHR '':'') m"

definition initial_store :: "doc_type \<Rightarrow> message_store" where
  "initial_store dt = MessageStore (ownViewTypes dt) (otherViewTypes dt)"

definition save_all :: "doc_type \<Rightarrow> (string \<times> int option) list \<Rightarrow> message_store option" where
  "save_all dt ms = fold (\<lambda>p. saveMessageForReplay dt (fst p) (snd p)) ms (Some (initial_store dt))"

definition msg_log :: "(string \<times> int option) list \<Rightarrow> ((string \<times> int option) \<times> string) list" where
  "msg_log ms = map (\<lambda>p. ((msg_type (fst p), snd p), fst p)) (filter (\<lambda>p. CHR '':'' \<in> set (fst p)) ms)"

lemma save_all_put_all: "save_all dt ms = Some (store.put_all (msg_log ms) (initial_store dt))"
proof -
  have "fold (\<lambda>p. saveMessageForReplay dt (fst p) (snd p)) ms (Some s) = Some (store.put_all (msg_log ms) s)" for s
    by (induction ms arbitrary: s)
      (simp_all add: saveMessageForReplay_def msg_log_def store_put_def msg_type_def)
  then show ?thesis by (simp add: save_all_def)
qed

lemma initial_knows:
  "store_knows (initial_store dt) (t, v) \<longleftrightarrow> (case v of None \<Rightarrow> t \<in> set (ownViewTypes dt) | Some i \<Rightarrow> t \<in> set (otherViewTypes dt))"
  by (auto simp: store_knows_def initial_store_def MessageStore_def obj_get_fold_set split: option.split)

lemma map_of_values: "obj_get ps k = Some v \<Longrightarrow> v \<in> snd ` set ps"
  using map_of_SomeD by force

lemma forEach_own:
  assumes "store_get s (t, None) = Some m" "t \<noteq> ''textselectionstart''" "t \<noteq> ''textselectionend''"
  shows "m \<in> set (snd (store_forEach s))"
proof -
  have "obj_get (cleanUpSelectionMessages (ownMessages s)) t = Some m"
    using assms by (simp add: store_get_def cleanUpSelectionMessages_def)
  then show ?thesis using map_of_values by (fastforce simp: store_forEach_def Let_def)
qed

lemma forEach_other:
  assumes "store_get s (t, Some i) = Some m" "array_index i"
  shows "m \<in> set (snd (store_forEach s))"
proof -
  obtain views where v: "obj_get (othersMessages s) t = Some views" "obj_get views i = Some m"
    using assms(1) by (auto simp: store_get_def split: option.splits)
  have "i \<in> set (filter array_index (obj_keys views))"
    using v(2) assms(2) obj_get_iff_key [of views i] by auto
  then have "m \<in> set (array_values views)"
    using v(2) by (force simp: array_values_def simp del: set_filter)
  moreover have "(t, views) \<in> set (othersMessages s)" using v(1) by (rule map_of_SomeD)
  ultimately show ?thesis by (force simp: store_forEach_def Let_def)
qed

section \<open>Properties\<close>

text \<open>
  C28 (refinement). The store is determined by the log of messages: after any sequence of messages
  a slot of a type the store keeps holds the latest message of that type and view, or its initial
  value if there was none; other types are never kept.
\<close>

theorem store_holds_latest:
  "\<exists>s. save_all dt ms = Some s \<and>
     (\<forall>t v. store_get s (t, v) =
        (if store_knows (initial_store dt) (t, v)
         then (case latest (msg_log ms) (t, v) of Some m \<Rightarrow> Some m | None \<Rightarrow> store_get (initial_store dt) (t, v))
         else store_get (initial_store dt) (t, v)))"
  using save_all_put_all store.get_put_all by auto

text \<open>
  A replay hands over the latest own message of every kept type but the selection
  handles, and the latest message of every other view; and it always sends both selection handles
  with an empty position and forgets the stored ones, whether or not there is a text selection.
\<close>

theorem replay_contents:
  assumes "save_all dt ms = Some s" "latest (msg_log ms) (t, v) = Some m"
    and "case v of None \<Rightarrow> t \<in> set (ownViewTypes dt) \<and> t \<noteq> ''textselectionstart'' \<and> t \<noteq> ''textselectionend''
         | Some i \<Rightarrow> t \<in> set (otherViewTypes dt) \<and> array_index i"
  shows "m \<in> set (snd (replayPrintTwipsMsgs False (Some s))) \<and>
     ''textselectionstart: '' \<in> set (snd (replayPrintTwipsMsgs False (Some s))) \<and>
     ''textselectionend: '' \<in> set (snd (replayPrintTwipsMsgs False (Some s))) \<and>
     store_get (the (fst (replayPrintTwipsMsgs False (Some s)))) (''textselectionstart'', None) = Some ''textselectionstart: ''"
proof -
  have "store_knows (initial_store dt) (t, v)" using assms(3) by (auto simp: initial_knows split: option.splits)
  then have get: "store_get s (t, v) = Some m"
    using assms(1,2) store.get_put_all [of "msg_log ms" "initial_store dt" "(t, v)"] by (simp add: save_all_put_all)
  have replay: "snd (replayPrintTwipsMsgs False (Some s)) = snd (store_forEach s)"
    "fst (replayPrintTwipsMsgs False (Some s)) = Some (fst (store_forEach s))"
    by (simp_all add: replayPrintTwipsMsgs_def split: prod.split)
  have own: "obj_get (ownMessages (fst (store_forEach s))) ''textselectionstart'' = Some ''textselectionstart: ''"
    "obj_get (ownMessages (fst (store_forEach s))) ''textselectionend'' = Some ''textselectionend: ''"
    by (simp_all add: store_forEach_def cleanUpSelectionMessages_def)
  have "snd (store_forEach s) = map snd (ownMessages (fst (store_forEach s))) @
      concat (map (\<lambda>p. array_values (snd p)) (othersMessages s))"
    by (simp add: store_forEach_def Let_def)
  then have "''textselectionstart: '' \<in> set (snd (store_forEach s))" "''textselectionend: '' \<in> set (snd (store_forEach s))"
    using map_of_values [OF own(1)] map_of_values [OF own(2)] by simp_all
  moreover have "m \<in> set (snd (store_forEach s))"
    using get assms(3) forEach_own [of s t m] forEach_other [of s t _ m] by (cases v) auto
  ultimately show ?thesis using own(1) unfolding replay by (simp add: store_get_def)
qed

theorem replay_contents_witness:
  "''textselection: 1, 2, 3, 4'' \<in> set (snd (replayPrintTwipsMsgs False
     (save_all Text [(''textselectionstart: 1, 2, 3, 4'', None), (''textselection: 1, 2, 3, 4'', None)])))"
proof -
  let ?ms = "[(''textselectionstart: 1, 2, 3, 4'', None), (''textselection: 1, 2, 3, 4'', None)] :: (string \<times> int option) list"
  have "latest (msg_log ?ms) (''textselection'', None) = Some ''textselection: 1, 2, 3, 4''" by code_simp
  from replay_contents [OF save_all_put_all this, of Text] show ?thesis
    unfolding save_all_put_all by (simp add: ownViewTypes_def)
qed

end
