(* ===== verification/Sheet_Switch.thy ===== *)
theory Sheet_Switch
  imports Geometry
begin

text \<open>
  \<open>SheetSwitchViewRestore\<close> (layer/tile/SheetSwitch.ts): the centre of the view of every sheet that
  has been left is kept, renumbered when sheets are moved, inserted and deleted, and restored when
  the user comes back.

  \<^item> A \<open>Map\<close> from sheet numbers to centres is a map; centres are points and always truthy.
  \<^item> What the class asks of the map object, the selected sheet, the current centre and the number of
    sheets, are arguments. An index that is \<open>undefined\<close> is \<open>None\<close>: every comparison with it is false.
\<close>

named_theorems switch_defs "definitions of the sheet switch"

section \<open>State and operations\<close>

record sheet_switch =
  centerOfSheet :: "int \<rightharpoonup> rat point"
  mayRestore :: bool
  restorePart :: int
  setPartRecvd :: bool
  currentSheetIndexReassigned :: bool

definition new_switch :: sheet_switch where
  "new_switch = \<lparr>centerOfSheet = Map.empty, mayRestore = False, restorePart = -1, setPartRecvd = False,
     currentSheetIndexReassigned = False\<rparr>"

text \<open>\<open>toPart\<close> may also be one of the strings \<open>'prev'\<close> and \<open>'next'\<close> (\<open>None\<close>), which are no keys.\<close>

definition switch_save :: "int \<Rightarrow> rat point \<Rightarrow> int option \<Rightarrow> sheet_switch \<Rightarrow> sheet_switch" where
  [switch_defs]: "switch_save selected center toPart s =
     (let s1 = (if \<not> currentSheetIndexReassigned s
                then s\<lparr>centerOfSheet := (centerOfSheet s)(selected \<mapsto> center)\<rparr>
                else s\<lparr>currentSheetIndexReassigned := False\<rparr>);
          may = (case toPart of None \<Rightarrow> False | Some p \<Rightarrow> centerOfSheet s1 p \<noteq> None)
      in s1\<lparr>mayRestore := may, restorePart := (if may then the toPart else -1), setPartRecvd := False\<rparr>)"

text \<open>\<open>centerOfSheet.set(to, center)\<close> if there is a centre, else \<open>delete\<close>.\<close>

definition copy_center :: "int \<Rightarrow> int \<Rightarrow> (int \<rightharpoonup> rat point) \<Rightarrow> int \<rightharpoonup> rat point" where
  [switch_defs]: "copy_center from_i to_i m = m(to_i := m from_i)"

definition updateOnSheetMoved :: "int \<Rightarrow> int \<Rightarrow> sheet_switch \<Rightarrow> sheet_switch" where
  [switch_defs]: "updateOnSheetMoved oldIndex newIndex s =
     (if oldIndex < 0 \<or> newIndex < 0 \<or> oldIndex = newIndex then s
      else
        (let moved = centerOfSheet s oldIndex;
             m = (if oldIndex < newIndex
                  then fold (\<lambda>i. copy_center (i + 1) i) [oldIndex..newIndex - 1] (centerOfSheet s)
                  else fold (\<lambda>i. copy_center (i - 1) i) (rev [newIndex + 1..oldIndex]) (centerOfSheet s))
         in s\<lparr>centerOfSheet := m(newIndex := moved)\<rparr>))"

definition updateOnSheetInsertion :: "int \<Rightarrow> rat point \<Rightarrow> int \<Rightarrow> int option \<Rightarrow> sheet_switch \<Rightarrow> sheet_switch" where
  [switch_defs]: "updateOnSheetInsertion selected center numberOfSheets index s =
     (case index of
        None \<Rightarrow> s\<lparr>centerOfSheet := (centerOfSheet s)(selected \<mapsto> center), currentSheetIndexReassigned := False\<rparr>
      | Some i0 \<Rightarrow>
          if i0 < 0 then s
          else
            (let m0 = (centerOfSheet s)(selected \<mapsto> center);
                 m1 = fold (\<lambda>i. copy_center (i - 1) i) (rev [i0 + 1..numberOfSheets]) m0;
                 m2 = m1(i0 := None);
                 re = (i0 \<le> selected);
                 m3 = (if re then m2(selected + 1 \<mapsto> center) else m2)
             in s\<lparr>centerOfSheet := m3, currentSheetIndexReassigned := re\<rparr>))"

definition updateOnSheetDeleted :: "int \<Rightarrow> rat point \<Rightarrow> int \<Rightarrow> int option \<Rightarrow> sheet_switch \<Rightarrow> sheet_switch" where
  [switch_defs]: "updateOnSheetDeleted selected center numberOfSheets index s =
     (case index of
        None \<Rightarrow> s\<lparr>currentSheetIndexReassigned := False\<rparr>
      | Some i0 \<Rightarrow>
          if i0 < 0 then s
          else
            (let m1 = fold (\<lambda>i. copy_center (i + 1) i) [i0..numberOfSheets - 1] (centerOfSheet s);
                 m2 = (if i0 < selected then m1(selected - 1 \<mapsto> center) else m1)
             in s\<lparr>centerOfSheet := m2, currentSheetIndexReassigned := i0 \<le> selected\<rparr>))"

definition gotSetPart :: "int \<Rightarrow> sheet_switch \<Rightarrow> sheet_switch" where
  [switch_defs]: "gotSetPart part s = s\<lparr>setPartRecvd := (part = restorePart s)\<rparr>"

definition switch_reset :: "sheet_switch \<Rightarrow> sheet_switch" where
  [switch_defs]: "switch_reset s = s\<lparr>restorePart := -1, mayRestore := False\<rparr>"

text \<open>The second result is the centre the view is set to.\<close>

definition restoreView :: "sheet_switch \<Rightarrow> sheet_switch \<times> rat point option" where
  [switch_defs]: "restoreView s =
     (case centerOfSheet s (restorePart s) of
        None \<Rightarrow> (switch_reset s, None)
      | Some c \<Rightarrow> (if setPartRecvd s then switch_reset s else s, Some c))"

definition tryRestore :: "bool \<Rightarrow> int \<Rightarrow> sheet_switch \<Rightarrow> sheet_switch \<times> rat point option \<times> bool" where
  [switch_defs]: "tryRestore duplicateCursor currentPart s =
     (let attemptRestore = (mayRestore s \<and> currentPart = restorePart s);
          s1 = (if attemptRestore \<and> setPartRecvd s \<and> duplicateCursor then switch_reset s else s);
          (s2, view) = (if attemptRestore \<and> \<not> setPartRecvd s1 then restoreView s1 else (s1, None))
      in (s2, view, (\<not> attemptRestore \<or> setPartRecvd s2) \<and> \<not> duplicateCursor))"

section \<open>Lemmas\<close>

text \<open>The loops shift a range of the map by one.\<close>

lemma shift_down:
  "lo \<le> hi + 1 \<Longrightarrow> fold (\<lambda>i. copy_center (i + 1) i) [lo..hi] m = (\<lambda>k. if lo \<le> k \<and> k \<le> hi then m (k + 1) else m k)"
proof (induction "nat (hi + 1 - lo)" arbitrary: lo m)
  case (Suc n)
  then have "[lo..hi] = lo # [lo + 1..hi]" by (simp add: upto.simps)
  then show ?case
    using Suc(1) [of "lo + 1" "copy_center (lo + 1) lo m"] Suc(2,3) by (auto simp: copy_center_def fun_eq_iff)
qed (auto simp: fun_eq_iff)

lemma shift_up:
  "lo \<le> hi + 1 \<Longrightarrow> fold (\<lambda>i. copy_center (i - 1) i) (rev [lo..hi]) m = (\<lambda>k. if lo \<le> k \<and> k \<le> hi then m (k - 1) else m k)"
proof (induction "nat (hi + 1 - lo)" arbitrary: hi m)
  case (Suc n)
  then have "[lo..hi] = [lo..hi - 1] @ [hi]" using upto_rec2 [of lo hi] by simp
  then show ?case
    using Suc(1) [of "hi - 1" "copy_center (hi - 1) hi m"] Suc(2,3) by (auto simp: copy_center_def fun_eq_iff)
qed (auto simp: fun_eq_iff)

section \<open>The centres as a list\<close>

text \<open>
  Abstractly the class keeps one entry per sheet, in the order of the sheets, and follows the
  operations on that list.
\<close>

definition centers :: "int \<Rightarrow> sheet_switch \<Rightarrow> rat point option list" where
  "centers n s = map (centerOfSheet s) [0..n - 1]"

definition insert_at :: "nat \<Rightarrow> 'a \<Rightarrow> 'a list \<Rightarrow> 'a list" where
  "insert_at i x xs = take i xs @ x # drop i xs"

definition delete_at :: "nat \<Rightarrow> 'a list \<Rightarrow> 'a list" where
  "delete_at i xs = take i xs @ drop (Suc i) xs"

lemma centers_length [simp]: "length (centers n s) = nat n"
  by (simp add: centers_def)

lemma centers_nth [simp]: "int k < n \<Longrightarrow> centers n s ! k = centerOfSheet s (int k)"
  by (simp add: centers_def)

lemma nth_insert_at:
  "i \<le> length xs \<Longrightarrow> k \<le> length xs \<Longrightarrow> insert_at i x xs ! k = (if k < i then xs ! k else if k = i then x else xs ! (k - 1))"
  by (auto simp: insert_at_def nth_append nth_Cons' min_def)

lemma nth_delete_at:
  "i < length xs \<Longrightarrow> k < length xs - 1 \<Longrightarrow> delete_at i xs ! k = (if k < i then xs ! k else xs ! Suc k)"
  by (auto simp: delete_at_def nth_append min_def)

lemma length_insert_at [simp]: "length (insert_at i x xs) = Suc (length xs)"
  by (simp add: insert_at_def)

lemma length_delete_at [simp]: "i < length xs \<Longrightarrow> length (delete_at i xs) = length xs - 1"
  by (simp add: delete_at_def)

lemma int_le_nat: "int k < i \<longleftrightarrow> k < nat i" "0 \<le> i \<Longrightarrow> int k = i \<longleftrightarrow> k = nat i"
  by auto

lemma insertion_refines:
  assumes "0 \<le> i" "i \<le> n" "0 \<le> selected" "selected < n"
  shows "centers (n + 1) (updateOnSheetInsertion selected center n (Some i) s) =
     insert_at (nat i) None ((centers n s)[nat selected := Some center])"
proof (rule nth_equalityI)
  fix k
  assume "k < length (centers (n + 1) (updateOnSheetInsertion selected center n (Some i) s))"
  then have k: "int k < n + 1" by simp
  show "centers (n + 1) (updateOnSheetInsertion selected center n (Some i) s) ! k =
      insert_at (nat i) None ((centers n s)[nat selected := Some center]) ! k"
    using k assms
    by (auto simp: updateOnSheetInsertion_def Let_def shift_up nth_insert_at nth_list_update of_nat_diff int_le_nat nat_le_iff)
qed (use assms in simp)

lemma deletion_refines:
  assumes "0 \<le> i" "i < n" "0 \<le> selected" "selected < n"
  shows "centers (n - 1) (updateOnSheetDeleted selected center n (Some i) s) =
     delete_at (nat i) (if i < selected then (centers n s)[nat selected := Some center] else centers n s)"
proof (rule nth_equalityI)
  fix k
  assume "k < length (centers (n - 1) (updateOnSheetDeleted selected center n (Some i) s))"
  then have k: "int k < n - 1" by simp
  show "centers (n - 1) (updateOnSheetDeleted selected center n (Some i) s) ! k =
      delete_at (nat i) (if i < selected then (centers n s)[nat selected := Some center] else centers n s) ! k"
    using k assms
    by (auto simp: updateOnSheetDeleted_def Let_def shift_down nth_delete_at nth_list_update int_le_nat add.commute)
qed (use assms in auto)

lemma move_refines:
  assumes "0 \<le> i" "i < n" "0 \<le> j" "j < n"
  shows "centers n (updateOnSheetMoved i j s) = insert_at (nat j) (centers n s ! nat i) (delete_at (nat i) (centers n s))"
proof (rule nth_equalityI)
  fix k
  assume "k < length (centers n (updateOnSheetMoved i j s))"
  then have k: "int k < n" by simp
  show "centers n (updateOnSheetMoved i j s) ! k =
      insert_at (nat j) (centers n s ! nat i) (delete_at (nat i) (centers n s)) ! k"
    using k assms
    by (auto simp: updateOnSheetMoved_def Let_def shift_up shift_down nth_insert_at nth_delete_at of_nat_diff int_le_nat add.commute)
qed (use assms in auto)


section \<open>Properties\<close>

text \<open>
  C18. Inserting, deleting and moving a sheet does to the list of remembered centres what it does to
  the list of sheets: a new sheet has no centre, a deleted sheet takes its centre with it, a moved
  sheet keeps its centre, and the sheet that is shown has its current centre recorded when its
  number changes.
\<close>

theorem sheet_centers_follow:
  assumes "0 \<le> selected" "selected < n" "0 \<le> i" "i < n" "0 \<le> j" "j < n"
  shows "centers (n + 1) (updateOnSheetInsertion selected center n (Some i) s) =
       insert_at (nat i) None ((centers n s)[nat selected := Some center]) \<and>
     centers (n - 1) (updateOnSheetDeleted selected center n (Some i) s) =
       delete_at (nat i) (if i < selected then (centers n s)[nat selected := Some center] else centers n s) \<and>
     centers n (updateOnSheetMoved i j s) =
       insert_at (nat j) (centers n s ! nat i) (delete_at (nat i) (centers n s))"
  using assms by (simp add: insertion_refines deletion_refines move_refines)

definition wit_switch :: sheet_switch where
  "wit_switch = new_switch\<lparr>centerOfSheet := [0 \<mapsto> Pt 1 1, 2 \<mapsto> Pt 5 7]\<rparr>"

theorem sheet_centers_follow_witness:
  "centers 4 (updateOnSheetInsertion 1 (Pt 9 9) 3 (Some 2) wit_switch) = [Some (Pt 1 1), Some (Pt 9 9), None, Some (Pt 5 7)] \<and>
   centers 2 (updateOnSheetDeleted 1 (Pt 9 9) 3 (Some 0) wit_switch) = [Some (Pt 9 9), Some (Pt 5 7)] \<and>
   centers 3 (updateOnSheetMoved 2 0 wit_switch) = [Some (Pt 5 7), Some (Pt 1 1), None]"
  using sheet_centers_follow [of 1 3 2 0 "Pt 9 9" wit_switch] sheet_centers_follow [of 1 3 0 0 "Pt 9 9" wit_switch]
  by (simp add: wit_switch_def new_switch_def centers_def insert_at_def delete_at_def numeral_2_eq_2 upto.simps)

text \<open>
  A user who leaves a sheet and comes back to it finds the view where it was: the first cell
  cursor that arrives for the sheet sets the view to the centre it had, and does not scroll to the
  cursor.
\<close>

lemma view_restored:
  assumes "a \<noteq> b" "\<not> currentSheetIndexReassigned s"
  shows "\<exists>s'. tryRestore dup a (switch_save b center' (Some a) (switch_save a center (Some b) s)) = (s', Some center, False)"
proof -
  define s1 where "s1 = switch_save a center (Some b) s"
  define s2 where "s2 = switch_save b center' (Some a) s1"
  have "centerOfSheet s1 a = Some center" "\<not> currentSheetIndexReassigned s1"
    using assms(2) by (simp_all add: s1_def switch_save_def Let_def)
  then have "mayRestore s2" "restorePart s2 = a" "\<not> setPartRecvd s2" "centerOfSheet s2 a = Some center"
    using assms(1) by (simp_all add: s2_def switch_save_def Let_def)
  then have "tryRestore dup a s2 = (s2, Some center, False)" by (simp add: tryRestore_def restoreView_def)
  then show ?thesis by (simp add: s2_def s1_def)
qed

theorem view_restored_witness:
  "\<exists>s'. tryRestore False 0 (switch_save 3 (Pt 2 2) (Some 0) (switch_save 0 (Pt 7 8) (Some 3) new_switch)) = (s', Some (Pt 7 8), False)"
  by (rule view_restored) (simp_all add: new_switch_def)

end
