(* ===== verification/Previews.thy ===== *)
theory Previews
  imports Message_Store Tile_Coverage Sheet_Switch
begin

text \<open>
  The previews of the parts of a document (control/Parts.js, \<open>_invalidatePreviews\<close> of
  layer/tile/CanvasTileLayer.js and \<open>_updatePreview\<close> of control/Control.PartsPreview.js): which
  previews exist, the queue of their tile requests and the number of requests that wait for an
  answer.

  \<^item> \<open>doc_map\<close> is the part of \<open>L.Map\<close> and its document layer that part switching works on; it
    contains the \<open>layer\<close> of the tile theories, so that messages and effects share one log.
  \<^item> Whether a preview can be seen depends on the geometry of the page; \<open>visible\<close> is a parameter.
  \<^item> The ids of previews are part numbers. An object with such keys enumerates them in ascending
    order.
\<close>

named_theorems part_defs "definitions of part switching and previews"

section \<open>State\<close>

text \<open>A preview of a part or page, or (\<open>CustomPreview\<close>) of a section of a part.\<close>

datatype preview =
    PartPreview (pv_id: int) (pv_index: int) (pv_maxWidth: int) (pv_maxHeight: int) (autoUpdate: bool) (pv_invalid: bool)
  | CustomPreview (pv_id: int) (pv_part: int) (pv_width: int) (pv_height: int) (pv_tilePosX: int) (pv_tilePosY: int)
      (pv_tileWidth: int) (pv_tileHeight: int) (autoUpdate: bool) (pv_invalid: bool)

record doc_map =
  ly :: layer
  msgStore :: "message_store option"
  sheetSwitch :: sheet_switch
  mapCenter :: "rat point"
  prevSelectedPart :: "int option"
  selectedParts :: "int list"
  prevSelectedPartNeedsUpdate :: bool
  anyCommentEdit :: bool
  cursorVisible :: bool
  searchRequested :: bool
  hiddenParts :: "int list"
  hiddenSlides :: "int list"
  docPreviews :: "(int, preview) object"
  previewQueue :: "(int \<times> string) list"
  previewRequestsOnFly :: int
  timeToEmptyQueue :: int
  previewInvalidations :: "int bounds list"
  partPageRectanglesTwips :: "int bounds list"
  roundedDpiScale :: int
  editMode :: bool
  currentPage :: int
  pages :: int
  pageRectangleList :: "int list list"

definition tell :: "string \<Rightarrow> doc_map \<Rightarrow> doc_map" where
  "tell msg m = m\<lparr>ly := send msg (ly m)\<rparr>"

definition ui :: "string \<Rightarrow> doc_map \<Rightarrow> doc_map" where
  "ui what m = m\<lparr>ly := (ly m)\<lparr>cache := emit (UiEffect what) (cache (ly m))\<rparr>\<rparr>"

section \<open>The queue of preview requests\<close>

text \<open>The loop of \<open>_processPreviewQueue\<close>: the messages it sends, the new count and the rest of the queue.\<close>

fun take_previews :: "(int \<Rightarrow> bool) \<Rightarrow> int \<Rightarrow> (int \<times> string) list \<Rightarrow> string list \<times> int \<times> (int \<times> string) list" where
  "take_previews visible n [] = ([], n, [])"
| "take_previews visible n ((part, msg) # q) =
     (if n < 3
      then if visible part
           then (case take_previews visible (n + 1) q of (ms, n', q') \<Rightarrow> (msg # ms, n', q'))
           else take_previews visible n q
      else ([], n, (part, msg) # q))"

definition processPreviewQueue :: "(int \<Rightarrow> bool) \<Rightarrow> int \<Rightarrow> doc_map \<Rightarrow> doc_map" where
  [part_defs]: "processPreviewQueue visible now m =
     (if \<not> canonicalIdInitialized (ly m) then m
      else if previewRequestsOnFly m > 1 \<and> now - timeToEmptyQueue m < 2000 then m
      else
        (let m1 = (if previewRequestsOnFly m > 1
                   then m\<lparr>previewRequestsOnFly := 0, timeToEmptyQueue := now\<rparr> else m);
             (msgs, n, q) = take_previews visible (previewRequestsOnFly m1) (previewQueue m1)
         in fold tell msgs (m1\<lparr>previewRequestsOnFly := n, previewQueue := q\<rparr>)))"

text \<open>
  \<open>for (var tile in this._previewQueue)\<close> runs over the indices of the array, so \<open>tile[0]\<close> is the
  first digit of an index, a string, which is never equal to the number \<open>part\<close>: the request is
  always added.
\<close>

definition addPreviewToQueue :: "int \<Rightarrow> string \<Rightarrow> doc_map \<Rightarrow> doc_map" where
  [part_defs]: "addPreviewToQueue part tileMsg m = m\<lparr>previewQueue := previewQueue m @ [(part, tileMsg)]\<rparr>"

definition preview_msg :: "doc_map \<Rightarrow> int \<Rightarrow> int \<Rightarrow> int \<Rightarrow> int \<Rightarrow> int \<Rightarrow> int \<Rightarrow> int \<Rightarrow> int \<Rightarrow> string" where
  [part_defs]: "preview_msg m part width height tilePosX tilePosY tileWidth tileHeight pid =
     ''tile nviewid=0 part='' @ show_int part @ '' '' @
     (if selectedMode (ly m) \<noteq> 0 then ''mode='' @ show_int (selectedMode (ly m)) @ '' '' else '''') @
     ''width='' @ show_int (width * roundedDpiScale m) @ '' height='' @ show_int (height * roundedDpiScale m) @
     '' tileposx='' @ show_int tilePosX @ '' tileposy='' @ show_int tilePosY @
     '' tilewidth='' @ show_int tileWidth @ '' tileheight='' @ show_int tileHeight @ '' id='' @ show_int pid"

text \<open>Fitting a box into a given one with the ratio of the document; both heights are positive.\<close>

definition fit_size :: "int \<Rightarrow> int \<Rightarrow> int \<Rightarrow> int \<Rightarrow> int \<times> int" where
  [part_defs]: "fit_size tileWidth tileHeight maxWidth maxHeight =
     (let docRatio = of_int tileWidth / of_int tileHeight :: rat;
          imgRatio = of_int maxWidth / of_int maxHeight
      in if imgRatio > docRatio
         then (js_round (of_int (tileWidth * maxHeight) / of_int tileHeight), maxHeight)
         else (maxWidth, js_round (of_int (tileHeight * maxWidth) / of_int tileWidth)))"

text \<open>The option \<open>fetchThumbnail\<close> has the default \<open>true\<close>, which also replaces \<open>false\<close>.\<close>

definition getPreview :: "(int \<Rightarrow> bool) \<Rightarrow> int \<Rightarrow> int \<Rightarrow> int \<Rightarrow> int \<Rightarrow> int \<Rightarrow> bool \<Rightarrow> bool \<Rightarrow> doc_map \<Rightarrow> (int \<times> int) option \<times> doc_map" where
  [part_defs]: "getPreview visible now pid index maxW maxH autoUpd fetchOption m =
     (let fetchThumbnail = (if fetchOption then fetchOption else True);
          m1 = m\<lparr>docPreviews := obj_set pid (PartPreview pid index maxW maxH autoUpd False) (docPreviews m)\<rparr>
      in if docType (ly m) = Text then (None, m1)
         else
           (let tileWidth = (if partWidthTwips (ly m) \<noteq> 0 then partWidthTwips (ly m) else docWidthTwips (geom (ly m)));
                tileHeight = (if partHeightTwips (ly m) \<noteq> 0 then partHeightTwips (ly m) else docHeightTwips (geom (ly m)));
                (w, h) = fit_size tileWidth tileHeight maxW maxH
            in (Some (w, h),
                if fetchThumbnail
                then processPreviewQueue visible now
                       (addPreviewToQueue index (preview_msg m index w h 0 0 tileWidth tileHeight pid) m1)
                else m1)))"

definition getCustomPreview :: "(int \<Rightarrow> bool) \<Rightarrow> int \<Rightarrow> int \<Rightarrow> int \<Rightarrow> int \<Rightarrow> int \<Rightarrow> int \<Rightarrow> int \<Rightarrow> int \<Rightarrow> int \<Rightarrow> bool \<Rightarrow> doc_map \<Rightarrow> doc_map" where
  [part_defs]: "getCustomPreview visible now pid part width height tilePosX tilePosY tileWidth tileHeight autoUpd m =
     processPreviewQueue visible now
       (addPreviewToQueue part (preview_msg m part width height tilePosX tilePosY tileWidth tileHeight pid)
          (m\<lparr>docPreviews := obj_set pid
               (CustomPreview pid part width height tilePosX tilePosY tileWidth tileHeight autoUpd False) (docPreviews m)\<rparr>))"

text \<open>A preview tile has arrived; showing it is left to the page.\<close>

definition updatePreview :: "(int \<Rightarrow> bool) \<Rightarrow> int \<Rightarrow> doc_map \<Rightarrow> doc_map" where
  [part_defs]: "updatePreview visible now m =
     (if docType (ly m) = Presentation \<or> docType (ly m) = Drawing
      then
        (let m1 = m\<lparr>previewRequestsOnFly := previewRequestsOnFly m - 1\<rparr>;
             m2 = (if previewRequestsOnFly m1 < 0 then m1\<lparr>previewRequestsOnFly := 0, timeToEmptyQueue := now\<rparr> else m1)
         in ui ''previewTile'' (processPreviewQueue visible now m2))
      else m)"

section \<open>Invalidation\<close>

text \<open>
  Whether a preview is affected by an invalidation, and whether it is that of the part that was
  left last, whose refresh is due once.
\<close>

definition preview_hit :: "doc_map \<Rightarrow> int bounds \<Rightarrow> preview \<Rightarrow> bool \<times> bool" where
  [part_defs]: "preview_hit m area p =
     (case p of
        PartPreview pid index w h au invalid \<Rightarrow>
          if docType (ly m) = Text
          then (invalid \<or> (int (length (partPageRectanglesTwips m)) > index \<and>
                  bounds_intersects area (partPageRectanglesTwips m ! nat index)), False)
          else
            (let hit = (invalid \<or> index = selectedPart (ly m) \<or>
                        (Some index = prevSelectedPart m \<and> prevSelectedPartNeedsUpdate m))
             in (hit, hit \<and> Some index = prevSelectedPart m))
      | CustomPreview pid part w h x y tw th au invalid \<Rightarrow>
          (let hit = (invalid \<or> ((part = selectedPart (ly m) \<or>
                        (Some part = prevSelectedPart m \<and> prevSelectedPartNeedsUpdate m)) \<and>
                      bounds_intersects area (bounds_of (Pt x y) (Pt (x + tw) (y + th)))))
           in (hit, hit \<and> prevSelectedPart m = None)))"

definition invalidate_step :: "int bounds \<Rightarrow> int \<Rightarrow> doc_map \<times> int list \<Rightarrow> doc_map \<times> int list" where
  [part_defs]: "invalidate_step area key s =
     (case s of (m, keys) \<Rightarrow>
        (case obj_get (docPreviews m) key of
           None \<Rightarrow> (m, keys)
         | Some p \<Rightarrow>
             (case preview_hit m area p of (hit, left) \<Rightarrow>
                (if left then m\<lparr>prevSelectedPartNeedsUpdate := False\<rparr> else m,
                 if hit then insort_insert key keys else keys))))"

definition refresh_preview :: "(int \<Rightarrow> bool) \<Rightarrow> int \<Rightarrow> int \<Rightarrow> doc_map \<Rightarrow> doc_map" where
  [part_defs]: "refresh_preview visible now key m =
     (case obj_get (docPreviews m) key of
        None \<Rightarrow> m
      | Some p \<Rightarrow>
          if \<not> autoUpdate p then m
          else (case p of
                  PartPreview pid index w h au area \<Rightarrow> snd (getPreview visible now pid index w h True True m)
                | CustomPreview pid part w h x y tw th au area \<Rightarrow> getCustomPreview visible now pid part w h x y tw th True m))"

definition invalidatePreviews :: "(int \<Rightarrow> bool) \<Rightarrow> int \<Rightarrow> doc_map \<Rightarrow> doc_map" where
  [part_defs]: "invalidatePreviews visible now m =
     (let keys = sort (obj_keys (docPreviews m));
          (m1, toInvalidate) = fold (\<lambda>area s. fold (invalidate_step area) keys s) (previewInvalidations m) (m, []);
          m2 = fold (refresh_preview visible now) toInvalidate m1
      in m2\<lparr>previewInvalidations := []\<rparr>)"

text \<open>Every preview is invalid afterwards, so the bounds that are recorded with it do not matter.\<close>

definition invalidateAllPreviews :: "(int \<Rightarrow> bool) \<Rightarrow> int \<Rightarrow> doc_map \<Rightarrow> doc_map" where
  [part_defs]: "invalidateAllPreviews visible now m =
     (let keys = sort (obj_keys (docPreviews m));
          set_invalid = (\<lambda>p. case p of PartPreview i x w h au area \<Rightarrow> PartPreview i x w h au True
                          | CustomPreview i part w h x y tw th au area \<Rightarrow> CustomPreview i part w h x y tw th au True);
          extent = (\<lambda>p. case p of PartPreview i x w h au area \<Rightarrow> bounds_of (Pt 0 0) (Pt w h)
                       | CustomPreview i part w h x y tw th au area \<Rightarrow> bounds_of (Pt 0 0) (Pt 0 0))
      in invalidatePreviews visible now
           (m\<lparr>docPreviews := map (\<lambda>(k, p). (k, set_invalid p)) (docPreviews m),
              previewInvalidations := map (\<lambda>k. extent (the (obj_get (docPreviews m) k))) keys\<rparr>))"

section \<open>Lemmas on the queue\<close>

lemma take_previews_spec:
  assumes "take_previews visible n q = (msgs, n', q')"
  shows "\<exists>taken. q = taken @ q' \<and> msgs = map snd (filter (visible \<circ> fst) taken)"
    "n' = n + int (length msgs)" "n \<le> 3 \<Longrightarrow> n' \<le> 3" "q' \<noteq> [] \<Longrightarrow> 3 \<le> n'"
proof -
  have "(\<exists>taken. q = taken @ q' \<and> msgs = map snd (filter (visible \<circ> fst) taken)) \<and>
      n' = n + int (length msgs) \<and> (n \<le> 3 \<longrightarrow> n' \<le> 3) \<and> (q' \<noteq> [] \<longrightarrow> 3 \<le> n')"
    using assms
  proof (induction visible n q arbitrary: msgs n' q' rule: take_previews.induct)
    case (2 visible n part msg q)
    show ?case
    proof (cases "n < 3")
      case True
      show ?thesis
      proof (cases "visible part")
        case vis: True
        obtain ms n1 q1 where t: "take_previews visible (n + 1) q = (ms, n1, q1)" by (metis prod_cases3)
        then have eq: "msgs = msg # ms" "n1 = n'" "q1 = q'" using 2(3) True vis by simp_all
        obtain taken where "q = taken @ q'" "ms = map snd (filter (visible \<circ> fst) taken)"
          using 2(1) [OF True vis t] eq by blast
        then have "(part, msg) # q = ((part, msg) # taken) @ q' \<and> msgs = map snd (filter (visible \<circ> fst) ((part, msg) # taken))"
          using vis eq by simp
        moreover have "n' = n + int (length msgs)" "n' \<le> 3" "q' \<noteq> [] \<longrightarrow> 3 \<le> n'"
          using 2(1) [OF True vis t] eq True by auto
        ultimately show ?thesis by blast
      next
        case inv: False
        then have t: "take_previews visible n q = (msgs, n', q')" using 2(3) True by simp
        obtain taken where "q = taken @ q'" "msgs = map snd (filter (visible \<circ> fst) taken)"
          using 2(2) [OF True inv t] by blast
        then have "(part, msg) # q = ((part, msg) # taken) @ q' \<and> msgs = map snd (filter (visible \<circ> fst) ((part, msg) # taken))"
          using inv by simp
        then show ?thesis using 2(2) [OF True inv t] by blast
      qed
    qed (use 2(3) in auto)
  qed auto
  then show "\<exists>taken. q = taken @ q' \<and> msgs = map snd (filter (visible \<circ> fst) taken)"
    "n' = n + int (length msgs)" "n \<le> 3 \<Longrightarrow> n' \<le> 3" "q' \<noteq> [] \<Longrightarrow> 3 \<le> n'" by auto
qed

text \<open>Sending adds to the log of the tile cache and changes nothing else.\<close>

lemma fold_tell:
  "fold tell msgs m = m\<lparr>ly := (ly m)\<lparr>cache := (cache (ly m))\<lparr>out := out (cache (ly m)) @ map SendMessage msgs\<rparr>\<rparr>\<rparr>"
  by (induction msgs arbitrary: m) (simp_all add: tell_def send_def emit_def)


section \<open>Requests under way\<close>

definition requests_ok :: "doc_map \<Rightarrow> bool" where
  "requests_ok m \<longleftrightarrow> 0 \<le> previewRequestsOnFly m \<and> previewRequestsOnFly m \<le> 3"

text \<open>
  Predicates on the queue and its counters that survive an addition and a run of the queue
  survive every operation on previews.
\<close>

locale preview_closed =
  fixes I :: "doc_map \<Rightarrow> bool"
  assumes process_closed: "I m \<Longrightarrow> I (processPreviewQueue visible now m)"
    and add_closed: "I m \<Longrightarrow> I (addPreviewToQueue part msg m)"
    and docPreviews_closed: "I m \<Longrightarrow> I (m\<lparr>docPreviews := ps\<rparr>)"
    and invalidations_closed: "I m \<Longrightarrow> I (m\<lparr>previewInvalidations := bs\<rparr>)"
    and needsUpdate_closed: "I m \<Longrightarrow> I (m\<lparr>prevSelectedPartNeedsUpdate := b\<rparr>)"
begin

lemma getPreview_closed: "I m \<Longrightarrow> I (snd (getPreview visible now pid index w h au ft m))"
  by (simp add: getPreview_def Let_def case_prod_beta process_closed add_closed docPreviews_closed)

lemma getCustomPreview_closed: "I m \<Longrightarrow> I (getCustomPreview visible now pid part w h x y tw th au m)"
  by (simp add: getCustomPreview_def process_closed add_closed docPreviews_closed)

lemma refresh_closed: "I m \<Longrightarrow> I (refresh_preview visible now key m)"
  by (simp add: refresh_preview_def getPreview_closed getCustomPreview_closed split: option.split preview.split)

lemma invalidate_step_closed: "I (fst s) \<Longrightarrow> I (fst (invalidate_step area key s))"
  by (cases s) (auto simp: invalidate_step_def needsUpdate_closed split: prod.split option.split)

lemma mark_closed: "I (fst s) \<Longrightarrow> I (fst (fold (\<lambda>area s. fold (invalidate_step area) keys s) areas s))"
proof (induction areas arbitrary: s)
  case (Cons area areas)
  have "I (fst s) \<Longrightarrow> I (fst (fold (invalidate_step area) ks s))" for ks s
    by (induction ks arbitrary: s) (simp_all add: invalidate_step_closed)
  then show ?case using Cons by simp
qed simp

lemma invalidatePreviews_closed: "I m \<Longrightarrow> I (invalidatePreviews visible now m)"
proof -
  assume m: "I m"
  obtain m1 keys where f: "fold (\<lambda>area s. fold (invalidate_step area) (sort (obj_keys (docPreviews m))) s)
      (previewInvalidations m) (m, []) = (m1, keys)" by fastforce
  have "I m1" using mark_closed [of "(m, [])" "sort (obj_keys (docPreviews m))" "previewInvalidations m"] m f by simp
  moreover have "I m \<Longrightarrow> I (fold (refresh_preview visible now) ks m)" for ks m
    by (induction ks arbitrary: m) (simp_all add: refresh_closed)
  ultimately show ?thesis using f by (simp add: invalidatePreviews_def invalidations_closed)
qed

lemma invalidateAllPreviews_closed: "I m \<Longrightarrow> I (invalidateAllPreviews visible now m)"
  unfolding invalidateAllPreviews_def Let_def
  by (intro invalidatePreviews_closed)
    (use docPreviews_closed invalidations_closed in fastforce)

end

lemma process_cases:
  obtains "processPreviewQueue visible now m = m"
  | k q n msgs where "processPreviewQueue visible now m =
        (m\<lparr>previewRequestsOnFly := k, previewQueue := q, timeToEmptyQueue := (if n = previewRequestsOnFly m then timeToEmptyQueue m else now),
           ly := (ly m)\<lparr>cache := (cache (ly m))\<lparr>out := out (cache (ly m)) @ map SendMessage msgs\<rparr>\<rparr>\<rparr>)"
      "n = (if previewRequestsOnFly m > 1 then 0 else previewRequestsOnFly m)"
      "take_previews visible n (previewQueue m) = (msgs, k, q)"
proof (cases "\<not> canonicalIdInitialized (ly m) \<or> previewRequestsOnFly m > 1 \<and> now - timeToEmptyQueue m < 2000")
  case True
  then show thesis using that(1) by (auto simp: processPreviewQueue_def)
next
  case False
  let ?n = "if previewRequestsOnFly m > 1 then 0 else previewRequestsOnFly m"
  obtain msgs k q where "take_previews visible ?n (previewQueue m) = (msgs, k, q)" by (metis prod_cases3)
  then show thesis
    using False by (intro that(2) [where k = k and q = q and n = ?n and msgs = msgs]) (auto simp: processPreviewQueue_def fold_tell Let_def)
qed

lemma requests_ok_process: "requests_ok m \<Longrightarrow> requests_ok (processPreviewQueue visible now m)"
proof (rule process_cases [of visible now m])
  fix n msgs k q
  assume m: "requests_ok m" and n: "n = (if previewRequestsOnFly m > 1 then 0 else previewRequestsOnFly m)"
    and t: "take_previews visible n (previewQueue m) = (msgs, k, q)"
    and eq: "processPreviewQueue visible now m =
        (m\<lparr>previewRequestsOnFly := k, previewQueue := q, timeToEmptyQueue := (if n = previewRequestsOnFly m then timeToEmptyQueue m else now),
           ly := (ly m)\<lparr>cache := (cache (ly m))\<lparr>out := out (cache (ly m)) @ map SendMessage msgs\<rparr>\<rparr>\<rparr>)"
  have "0 \<le> n" "n \<le> 3" using m n by (auto simp: requests_ok_def)
  then show ?thesis using take_previews_spec(2,3) [OF t] unfolding eq requests_ok_def by simp
qed simp

interpretation requests: preview_closed requests_ok
  by unfold_locales (simp_all add: requests_ok_process, simp_all add: requests_ok_def addPreviewToQueue_def)


section \<open>Properties\<close>

text \<open>
  When the queue is run and the client does not have to wait for answers, it takes requests
  off the front, drops those whose preview cannot be seen, sends the others in order, and stops
  when the queue is empty or three requests are under way.
\<close>

lemma preview_requests_sent:
  assumes "canonicalIdInitialized (ly m)" "previewRequestsOnFly m \<le> 1 \<or> 2000 \<le> now - timeToEmptyQueue m"
  shows "\<exists>taken. previewQueue m = taken @ previewQueue (processPreviewQueue visible now m) \<and>
      out (cache (ly (processPreviewQueue visible now m))) =
        out (cache (ly m)) @ map (SendMessage \<circ> snd) (filter (visible \<circ> fst) taken) \<and>
      (previewQueue (processPreviewQueue visible now m) = [] \<or>
       3 \<le> previewRequestsOnFly (processPreviewQueue visible now m))"
proof -
  let ?n = "if previewRequestsOnFly m > 1 then 0 else previewRequestsOnFly m"
  obtain msgs k q where t: "take_previews visible ?n (previewQueue m) = (msgs, k, q)" by (metis prod_cases3)
  have p: "previewQueue (processPreviewQueue visible now m) = q" "previewRequestsOnFly (processPreviewQueue visible now m) = k"
    "out (cache (ly (processPreviewQueue visible now m))) = out (cache (ly m)) @ map SendMessage msgs"
    using assms t by (auto simp: processPreviewQueue_def fold_tell Let_def)
  show ?thesis
    using take_previews_spec(1,4) [OF t] unfolding p by fastforce
qed

definition wit_map :: doc_map where
  "wit_map = \<lparr>ly = wit_layer\<lparr>docType := Presentation, partCount := 5, splitPos := None\<rparr>, msgStore = None,
     sheetSwitch = \<lparr>centerOfSheet = Map.empty, mayRestore = False, restorePart = -1, setPartRecvd = False,
       currentSheetIndexReassigned = False\<rparr>,
     mapCenter = Pt 0 0, prevSelectedPart = None, selectedParts = [0], prevSelectedPartNeedsUpdate = False,
     anyCommentEdit = False, cursorVisible = False, searchRequested = False, hiddenParts = [], hiddenSlides = [],
     docPreviews = [], previewQueue = [], previewRequestsOnFly = 0, timeToEmptyQueue = 0, previewInvalidations = [],
     partPageRectanglesTwips = [], roundedDpiScale = 1, editMode = True, currentPage = 0, pages = 1, pageRectangleList = []\<rparr>"

definition wit_queue :: doc_map where
  "wit_queue = fold (\<lambda>i. addPreviewToQueue i (''tile id='' @ show_int i)) [0, 1, 2, 3, 4] wit_map"

lemma preview_requests_sent_witness:
  "\<exists>taken. previewQueue wit_queue = taken @ previewQueue (processPreviewQueue (\<lambda>i. i \<noteq> 1) 50 wit_queue) \<and>
      out (cache (ly (processPreviewQueue (\<lambda>i. i \<noteq> 1) 50 wit_queue))) =
        out (cache (ly wit_queue)) @ map (SendMessage \<circ> snd) (filter ((\<lambda>i. i \<noteq> 1) \<circ> fst) taken) \<and>
      (previewQueue (processPreviewQueue (\<lambda>i. i \<noteq> 1) 50 wit_queue) = [] \<or>
       3 \<le> previewRequestsOnFly (processPreviewQueue (\<lambda>i. i \<noteq> 1) 50 wit_queue))"
  by (rule preview_requests_sent) (simp_all add: wit_queue_def addPreviewToQueue_def wit_map_def wit_layer_def)

text \<open>The operations on previews.\<close>

datatype preview_op =
    GetPreview int int int int bool bool
  | GetCustomPreview int int int int int int int int bool
  | PreviewArrived
  | InvalidatePreviews "int bounds list"
  | InvalidateAllPreviews

fun preview_step :: "(int \<Rightarrow> bool) \<Rightarrow> int \<Rightarrow> preview_op \<Rightarrow> doc_map \<Rightarrow> doc_map" where
  "preview_step visible now (GetPreview pid index w h au ft) m = snd (getPreview visible now pid index w h au ft m)"
| "preview_step visible now (GetCustomPreview pid part w h x y tw th au) m =
     getCustomPreview visible now pid part w h x y tw th au m"
| "preview_step visible now PreviewArrived m = updatePreview visible now m"
| "preview_step visible now (InvalidatePreviews areas) m =
     invalidatePreviews visible now (m\<lparr>previewInvalidations := previewInvalidations m @ areas\<rparr>)"
| "preview_step visible now InvalidateAllPreviews m = invalidateAllPreviews visible now m"

lemma requests_ok_arrived: "requests_ok m \<Longrightarrow> requests_ok (updatePreview visible now m)"
proof -
  have "requests_ok (ui what m) = requests_ok m" for what m by (simp add: ui_def requests_ok_def)
  moreover assume "requests_ok m"
  then have "requests_ok (if previewRequestsOnFly (m\<lparr>previewRequestsOnFly := previewRequestsOnFly m - 1\<rparr>) < 0
      then m\<lparr>previewRequestsOnFly := previewRequestsOnFly m - 1, previewRequestsOnFly := 0, timeToEmptyQueue := now\<rparr>
      else m\<lparr>previewRequestsOnFly := previewRequestsOnFly m - 1\<rparr>)"
    by (simp add: requests_ok_def)
  ultimately show ?thesis using \<open>requests_ok m\<close> requests_ok_process by (simp add: updatePreview_def Let_def)
qed



end
