(* ===== verification/Parts.thy ===== *)
theory Parts
  imports Previews
begin

text \<open>
  Switching and selecting the parts of a document (control/Parts.js): slides, sheets and the pages
  of a file-based view.

  \<^item> \<open>part_env\<close> holds what the code gets from the browser during a call: the time, which previews
    can be seen, and where the view of a file-based document is after the scrolling it asks for.
  \<^item> Overlays (cursors, selections, reference marks, search results), the listeners of the events
    that are fired and the focus are effects in the log, in the order of the code.
\<close>

section \<open>Arguments and environment\<close>

text \<open>\<open>'prev'\<close>, \<open>'next'\<close>, a number, or anything else.\<close>

datatype part_arg = PrevPart | NextPart | PartNo int | OtherArg

record part_env =
  env_now :: int
  env_visible :: "int \<Rightarrow> bool"
  env_view :: "rectangle \<times> int bounds"

definition arg_number :: "part_arg \<Rightarrow> int option" where
  "arg_number part = (case part of PartNo n \<Rightarrow> Some n | _ \<Rightarrow> None)"

definition scrolled :: "part_env \<Rightarrow> string \<Rightarrow> doc_map \<Rightarrow> doc_map" where
  "scrolled e what m =
     (let m1 = ui what m in m1\<lparr>ly := (ly m1)\<lparr>viewedRectangle := fst (env_view e), documentBounds := snd (env_view e)\<rparr>\<rparr>)"

section \<open>Selecting a part\<close>

text \<open>The new selected part and direction; \<open>None\<close> is the early return.\<close>

definition next_part :: "part_arg \<Rightarrow> layer \<Rightarrow> (int \<times> int) option" where
  [part_defs]: "next_part part l =
     (case part of
        PrevPart \<Rightarrow> Some (if selectedPart l > 0 then (selectedPart l - 1, -1) else (selectedPart l, partsDirection l))
      | NextPart \<Rightarrow>
          Some (if selectedPart l < partCount l - 1 then (selectedPart l + 1, 1) else (selectedPart l, partsDirection l))
      | PartNo n \<Rightarrow>
          if 0 \<le> n \<and> n < partCount l then Some (n, if n \<ge> selectedPart l then 1 else -1) else None
      | OtherArg \<Rightarrow> None)"

definition notifyServer :: "bool \<Rightarrow> int \<Rightarrow> doc_map \<Rightarrow> doc_map" where
  [part_defs]: "notifyServer external part m =
     (if \<not> external then tell (''setclientpart part='' @ show_int part) m else m)"

text \<open>The file-based view scrolls and leaves the selection to what is then visible.\<close>

definition set_part_file :: "part_env \<Rightarrow> part_arg \<Rightarrow> bool \<Rightarrow> int \<Rightarrow> doc_map \<Rightarrow> doc_map" where
  [part_defs]: "set_part_file e part external prev m =
     (let m1 = m\<lparr>ly := (ly m)\<lparr>selectedPart := prev\<rparr>\<rparr>
      in case arg_number part of
           None \<Rightarrow> (let m2 = scrolled e ''scrollViewByDirection'' m1 in m2\<lparr>ly := checkSelectedPart (ly m2)\<rparr>)
         | Some n \<Rightarrow>
             (let m2 = scrolled e ''scrollViewToPartPosition'' m1
              in notifyServer external n (m2\<lparr>ly := checkSelectedPart (ly m2)\<rparr>)))"

text \<open>Everything after the file-based branch.\<close>

definition show_part :: "part_env \<Rightarrow> bool \<Rightarrow> doc_map \<Rightarrow> doc_map" where
  [part_defs]: "show_part e external m0 =
     (let m1 = ui ''scrolltopart'' m0;
          m2 = m1\<lparr>selectedParts := selectedParts m1 @ [selectedPart (ly m1)]\<rparr>;
          m3 = (if cursorVisible m2 then tell ''resetselection'' m2 else m2);
          m4 = notifyServer external (selectedPart (ly m3)) m3;
          m5 = fold ui [''updateparts'', ''onUpdateViewCursor'', ''onUpdateCellViewCursor'',
                        ''onUpdateGraphicViewSelection'', ''onUpdateTextViewSelection'', ''clearSelections''] m4;
          m6 = m5\<lparr>ly := pruneTiles (updateOnChangePart (env_now e) (ly m5)), prevSelectedPartNeedsUpdate := True\<rparr>;
          m7 = invalidatePreviews (env_visible e) (env_now e) m6;
          m8 = ui ''drawSearchResults'' m7
      in if \<not> searchRequested m8 then ui ''focus'' m8 else m8)"

definition setPart :: "part_env \<Rightarrow> part_arg \<Rightarrow> bool \<Rightarrow> doc_map \<Rightarrow> doc_map" where
  [part_defs]: "setPart e part external m =
     (if anyCommentEdit m then ui ''showCommentEditingWarning'' m
      else if part = PartNo (selectedPart (ly m)) then m
      else
        (let prev = selectedPart (ly m);
             m1 = (if docType (ly m) = Spreadsheet
                   then m\<lparr>sheetSwitch := switch_save prev (mapCenter m) (arg_number part) (sheetSwitch m)\<rparr> else m);
             m2 = m1\<lparr>msgStore := clearMsgReplayStore True (msgStore m1), prevSelectedPart := Some prev, selectedParts := []\<rparr>
         in case next_part part (ly m2) of
              None \<Rightarrow> m2
            | Some (sel, dir) \<Rightarrow>
                (let m3 = m2\<lparr>ly := (ly m2)\<lparr>selectedPart := sel, partsDirection := dir\<rparr>\<rparr>;
                     m4 = (case part of PartNo n \<Rightarrow> ui ''updateReferenceMarks'' m3 | _ \<Rightarrow> m3)
                 in if fileBasedView (ly m4) then set_part_file e part external prev m4 else show_part e external m4)))"

text \<open>\<open>how\<close> is 0 to deselect, 1 to select and 2 to toggle.\<close>

definition selectPart :: "int \<Rightarrow> int \<Rightarrow> bool \<Rightarrow> doc_map \<Rightarrow> doc_map" where
  [part_defs]: "selectPart part how external m =
     (let sel = (if part \<in> set (selectedParts m) \<and> how \<noteq> 1 then remove1 part (selectedParts m)
                 else if how \<noteq> 0 then selectedParts m @ [part] else selectedParts m);
          m1 = ui ''updateparts'' (m\<lparr>selectedParts := sel\<rparr>)
      in if \<not> external
         then tell (''selectclientpart part='' @ show_int part @ '' how='' @ show_int how) m1 else m1)"

lemma selectedParts_frame [simp]:
  "selectedParts (ui what m) = selectedParts m" "selectedParts (tell msg m) = selectedParts m"
  by (simp_all add: ui_def tell_def)

function deselectAll :: "doc_map \<Rightarrow> doc_map" where
  "deselectAll m = (case selectedParts m of [] \<Rightarrow> m | p # ps \<Rightarrow> deselectAll (selectPart p 0 False m))"
  by pat_completeness auto

termination
  by (relation "measure (length \<circ> selectedParts)") (simp_all add: selectPart_def Let_def)

declare deselectAll.simps [simp del]

section \<open>Inserting, duplicating, deleting and renaming\<close>

text \<open>\<open>JSON.stringify\<close> of a string and of a number or \<open>NaN\<close>.\<close>

definition hex_digit :: "nat \<Rightarrow> char" where
  "hex_digit d = (if d < 10 then char_of (48 + d) else char_of (87 + d))"

definition json_char :: "char \<Rightarrow> string" where
  "json_char c =
     (if c = CHR 0x22 then [CHR 0x5C, CHR 0x22] else if c = CHR 0x5C then [CHR 0x5C, CHR 0x5C]
      else if c = CHR 0x08 then [CHR 0x5C, CHR ''b''] else if c = CHR 0x0C then [CHR 0x5C, CHR ''f'']
      else if c = CHR 0x0A then [CHR 0x5C, CHR ''n''] else if c = CHR 0x0D then [CHR 0x5C, CHR ''r'']
      else if c = CHR 0x09 then [CHR 0x5C, CHR ''t'']
      else if (of_char c :: nat) < 32
        then CHR 0x5C # ''u00'' @ [hex_digit (of_char c div 16), hex_digit (of_char c mod 16)]
      else [c])"

definition json_string :: "string \<Rightarrow> string" where
  "json_string s = CHR 0x22 # concat (map json_char s) @ [CHR 0x22]"

definition json_number :: "int option \<Rightarrow> string" where
  "json_number n = (case n of None \<Rightarrow> ''null'' | Some k \<Rightarrow> show_int k)"

text \<open>An argument \<open>{name: {type: t, value: v}, ...}\<close> of a command.\<close>

definition json_args :: "(string \<times> string \<times> string) list \<Rightarrow> string" where
  "json_args as =
     ''{'' @ join '','' (map (\<lambda>(name, t, v). json_string name @ '':{'' @ json_string ''type'' @ '':'' @ json_string t @
       '','' @ json_string ''value'' @ '':'' @ v @ ''}'') as) @ ''}''"

definition is_slides :: "doc_map \<Rightarrow> bool" where
  [part_defs]: "is_slides m \<longleftrightarrow> docType (ly m) = Presentation \<or> docType (ly m) = Drawing"

definition add_parts :: "int \<Rightarrow> doc_map \<Rightarrow> doc_map" where
  [part_defs]: "add_parts k m = m\<lparr>ly := (ly m)\<lparr>partCount := partCount (ly m) + k\<rparr>\<rparr>"

definition insertPage :: "part_env \<Rightarrow> int option \<Rightarrow> doc_map \<Rightarrow> doc_map" where
  [part_defs]: "insertPage e nPos m =
     (let target = (case nPos of Some n \<Rightarrow> PartNo n | None \<Rightarrow> NextPart)
      in if anyCommentEdit m then ui ''showCommentEditingWarning'' m
         else if is_slides m
         then setPart e target False (add_parts 1 (tell ''uno .uno:InsertPage'' m))
         else if docType (ly m) = Spreadsheet
         then
           (let m1 = m\<lparr>sheetSwitch := updateOnSheetInsertion (selectedPart (ly m)) (mapCenter m) (partCount (ly m)) nPos (sheetSwitch m)\<rparr>;
                m2 = tell (''uno .uno:Insert '' @ json_args [(''Name'', ''string'', json_string ''''),
                       (''Index'', ''long'', json_number (map_option (\<lambda>n. n + 1) nPos))]) m1
            in setPart e target False (add_parts 1 (ui ''insertpage'' m2)))
         else m)"

definition duplicatePage :: "part_env \<Rightarrow> int option \<Rightarrow> doc_map \<Rightarrow> doc_map" where
  [part_defs]: "duplicatePage e pos m =
     (if \<not> is_slides m then m
      else
        setPart e NextPart False (add_parts 1
          (tell (case pos of None \<Rightarrow> ''uno .uno:DuplicatePage''
                 | Some n \<Rightarrow> ''uno .uno:DuplicatePage '' @ json_args [(''InsertPos'', ''int16'', show_int n)]) m)))"

text \<open>What follows the message: the count and the selection, unless the last part is asked to go.\<close>

definition delete_part :: "part_env \<Rightarrow> int option \<Rightarrow> doc_map \<Rightarrow> doc_map" where
  [part_defs]: "delete_part e nPos m =
     (if partCount (ly m) = 1 then m
      else if docType (ly m) = Spreadsheet \<and> partCount (ly m) \<le> int (length (hiddenParts m)) + 1 then m
      else
        (let m1 = (if \<not> is_slides m then ui ''deletepage'' m else m);
             m2 = add_parts (-1) m1;
             m3 = (if selectedPart (ly m2) \<ge> partCount (ly m2)
                   then m2\<lparr>ly := (ly m2)\<lparr>selectedPart := selectedPart (ly m2) - 1\<rparr>\<rparr> else m2)
         in setPart e (case nPos of Some n \<Rightarrow> PartNo n | None \<Rightarrow> PartNo (selectedPart (ly m3))) False m3))"

definition deletePage :: "part_env \<Rightarrow> int option \<Rightarrow> doc_map \<Rightarrow> doc_map" where
  [part_defs]: "deletePage e nPos m =
     (if is_slides m then delete_part e nPos (tell ''uno .uno:DeletePage'' m)
      else if docType (ly m) = Spreadsheet
      then
        (let m1 = m\<lparr>sheetSwitch := updateOnSheetDeleted (selectedPart (ly m)) (mapCenter m) (partCount (ly m)) nPos (sheetSwitch m)\<rparr>
         in delete_part e nPos
              (tell (''uno .uno:Remove '' @ json_args [(''Index'', ''long'', json_number (map_option (\<lambda>n. n + 1) nPos))]) m1))
      else m)"

text \<open>The layer object itself is passed as the part to select.\<close>

definition renamePage :: "part_env \<Rightarrow> string \<Rightarrow> int \<Rightarrow> doc_map \<Rightarrow> doc_map" where
  [part_defs]: "renamePage e name nPos m =
     (if docType (ly m) = Spreadsheet
      then setPart e OtherArg False
             (tell (''uno .uno:Name '' @ json_args [(''Name'', ''string'', json_string name), (''Index'', ''long'', show_int (nPos + 1))]) m)
      else m)"

section \<open>Hiding and showing\<close>

definition getNumberOfVisibleParts :: "doc_map \<Rightarrow> int" where
  [part_defs]: "getNumberOfVisibleParts m = partCount (ly m) - int (length (hiddenParts m))"

definition isHiddenPart :: "int \<Rightarrow> doc_map \<Rightarrow> bool" where
  [part_defs]: "isHiddenPart part m \<longleftrightarrow> docType (ly m) = Spreadsheet \<and> part \<in> set (hiddenParts m)"

definition hasAnyHiddenPart :: "doc_map \<Rightarrow> bool" where
  [part_defs]: "hasAnyHiddenPart m \<longleftrightarrow> docType (ly m) = Spreadsheet \<and> hiddenParts m \<noteq> []"

text \<open>The callback of the dialog that \<open>showPage\<close> opens; \<open>checked\<close> are the boxes that are ticked.\<close>

definition show_checked :: "(int \<Rightarrow> string) \<Rightarrow> (int \<Rightarrow> bool) \<Rightarrow> doc_map \<Rightarrow> doc_map" where
  [part_defs]: "show_checked partNames checked m =
     fold (\<lambda>p. tell (''uno .uno:Show '' @ json_args [(''aTableName'', ''string'', json_string (partNames p))]))
       (filter checked (hiddenParts m)) m"

definition hidePage :: "int \<Rightarrow> doc_map \<Rightarrow> doc_map" where
  [part_defs]: "hidePage tabNumber m =
     (if docType (ly m) = Spreadsheet \<and> getNumberOfVisibleParts m > 1
      then tell (''uno .uno:Hide '' @ json_args [(''nTabNumber'', ''int16'', show_int tabNumber)]) m else m)"

definition hideSlide :: "doc_map \<Rightarrow> doc_map" where
  [part_defs]: "hideSlide m =
     ui ''toggleslidehide'' (tell ''uno .uno:HideSlide''
       (fold (\<lambda>p m. (ui ''addClass hidden-slide'' m)\<lparr>hiddenSlides := List.insert p (hiddenSlides m)\<rparr>) (selectedParts m) m))"

definition showSlide :: "doc_map \<Rightarrow> doc_map" where
  [part_defs]: "showSlide m =
     ui ''toggleslidehide'' (tell ''uno .uno:ShowSlide''
       (fold (\<lambda>p m. (ui ''removeClass hidden-slide'' m)\<lparr>hiddenSlides := removeAll p (hiddenSlides m)\<rparr>) (selectedParts m) m))"

section \<open>Pages of a text document\<close>

definition goToPage :: "part_arg \<Rightarrow> doc_map \<Rightarrow> doc_map" where
  [part_defs]: "goToPage page m =
     (let p = (case page of
                 PrevPart \<Rightarrow> if currentPage m > 0 then currentPage m - 1 else currentPage m
               | NextPart \<Rightarrow> if currentPage m < pages m - 1 then currentPage m + 1 else currentPage m
               | PartNo n \<Rightarrow> if 0 \<le> n \<and> n < pages m then n else currentPage m
               | OtherArg \<Rightarrow> currentPage m);
          m1 = m\<lparr>currentPage := p\<rparr>;
          m2 = (if \<not> editMode m1 \<and> int (length (pageRectangleList m1)) > p
                then ui (''updatestatepagenumber Page '' @ show_int (p + 1) @ '' of '' @ show_int (int (length (pageRectangleList m1))))
                       (ui ''scrollTop'' m1)
                else tell (''setpage page='' @ show_int p) m1)
      in ui ''pagenumberchanged'' m2)"

section \<open>What the operations leave alone\<close>

text \<open>The shape of a document: everything the range of its parts depends on but their selection.\<close>

definition shape :: "layer \<Rightarrow> int \<times> bool \<times> layer_geom \<times> int \<times> int \<times> int" where
  "shape l = (partCount l, fileBasedView l, geom l, partWidthTwips l, partHeightTwips l, spaceBetweenParts l)"

lemma frame_ui [simp]: "shape (ly (ui what m)) = shape (ly m)" "selectedPart (ly (ui what m)) = selectedPart (ly m)"
  by (simp_all add: ui_def shape_def)

lemma frame_tell [simp]: "shape (ly (tell msg m)) = shape (ly m)" "selectedPart (ly (tell msg m)) = selectedPart (ly m)"
  by (simp_all add: tell_def send_def shape_def)

lemma frame_notify [simp]:
  "shape (ly (notifyServer ext p m)) = shape (ly m)" "selectedPart (ly (notifyServer ext p m)) = selectedPart (ly m)"
  by (simp_all add: notifyServer_def)

lemma frame_fold_ui [simp]:
  "shape (ly (fold ui ws m)) = shape (ly m)" "selectedPart (ly (fold ui ws m)) = selectedPart (ly m)"
  by (induction ws arbitrary: m) simp_all

lemma frame_scrolled [simp]:
  "shape (ly (scrolled e w m)) = shape (ly m)" "selectedPart (ly (scrolled e w m)) = selectedPart (ly m)"
proof -
  have "shape (l\<lparr>viewedRectangle := v, documentBounds := b\<rparr>) = shape l" for l v b by (simp add: shape_def)
  then show "shape (ly (scrolled e w m)) = shape (ly m)" "selectedPart (ly (scrolled e w m)) = selectedPart (ly m)"
    by (simp_all add: scrolled_def Let_def)
qed

lemma frame_cache [simp]: "shape (l\<lparr>cache := c\<rparr>) = shape l" "shape (l\<lparr>partTilePreFetcher := b\<rparr>) = shape l"
  by (simp_all add: shape_def)

lemma frame_getMissingTiles:
  "getMissingTiles b z l = (l', q) \<Longrightarrow> shape l' = shape l \<and> selectedPart l' = selectedPart l"
  by (auto simp: getMissingTiles_def split: prod.splits)

lemma frame_updateOnChangePart [simp]:
  "shape (updateOnChangePart now l) = shape l" "selectedPart (updateOnChangePart now l) = selectedPart l"
proof -
  obtain l2 q where q: "getMissingTiles (pixelBoundsCore l) (mapZoom l) (mark_not_current (mapZoom l) l) = (l2, q)" by fastforce
  have "shape l2 = shape l" "selectedPart l2 = selectedPart l"
    using frame_getMissingTiles [OF q] by (simp_all add: mark_not_current_def)
  then show "shape (updateOnChangePart now l) = shape l" "selectedPart (updateOnChangePart now l) = selectedPart l"
    by (simp_all add: updateOnChangePart_def Let_def q initPreFetchPartTiles_def case_prod_beta)
qed

lemma frame_fileBasedQueue:
  "fileBasedQueue z l = (l', q) \<Longrightarrow> shape l' = shape l \<and> selectedPart l' = selectedPart l"
  by (auto simp: fileBasedQueue_def Let_def split: if_splits option.splits)

lemma frame_pruneTiles [simp]: "shape (pruneTiles l) = shape l" "selectedPart (pruneTiles l) = selectedPart l"
proof -
  obtain l' q where q: "fileBasedQueue None l = (l', q)" by fastforce
  show "shape (pruneTiles l) = shape l" "selectedPart (pruneTiles l) = selectedPart l"
    using frame_fileBasedQueue [OF q] q by (simp_all add: pruneTiles_def Let_def)
qed

text \<open>Preview operations change neither, an instance of the contract of the preview operations.\<close>

interpretation previews_frame: preview_closed "\<lambda>m. shape (ly m) = x \<and> selectedPart (ly m) = p" for x p
proof unfold_locales
  fix m :: doc_map and visible now
  assume "shape (ly m) = x \<and> selectedPart (ly m) = p"
  then show "shape (ly (processPreviewQueue visible now m)) = x \<and> selectedPart (ly (processPreviewQueue visible now m)) = p"
    by (rule_tac visible = visible and now = now and m = m in process_cases) auto
qed (simp_all add: addPreviewToQueue_def)

lemma frame_invalidatePreviews [simp]:
  "shape (ly (invalidatePreviews v now m)) = shape (ly m)" "selectedPart (ly (invalidatePreviews v now m)) = selectedPart (ly m)"
  using previews_frame.invalidatePreviews_closed [of m "shape (ly m)" "selectedPart (ly m)" v now] by simp_all

lemma frame_show_part [simp]:
  "shape (ly (show_part e ext m)) = shape (ly m)" "selectedPart (ly (show_part e ext m)) = selectedPart (ly m)"
  by (simp_all add: show_part_def Let_def)

section \<open>The parts of the file-based view\<close>

lemma file_queue_parts:
  assumes "x \<in> set (file_queue l z pp r)" "0 < snd pp" "0 \<le> ry r" "ry r + rh r \<le> snd pp * n"
  shows "0 \<le> tc_part x \<and> tc_part x < n"
proof -
  let ?e = "\<lceil>of_int (ry r + rh r) / (of_int (snd pp) :: rat)\<rceil>"
  have "ry r div snd pp \<le> tc_part x" "tc_part x < ?e"
    using assms(1) by (auto simp: file_queue_def Let_def TileCoordData_def)
  moreover have "0 \<le> ry r div snd pp" using assms(2,3) by (simp add: pos_imp_zdiv_nonneg_iff)
  moreover have "?e \<le> n"
  proof -
    have "(of_int (ry r + rh r) :: rat) \<le> of_int (snd pp * n)" using assms(4) by (rule of_int_le_iff [THEN iffD2])
    then have "of_int (ry r + rh r) / (of_int (snd pp) :: rat) \<le> of_int n"
      using assms(2) by (simp add: divide_le_eq mult.commute)
    then show ?thesis by (simp add: ceiling_le_iff)
  qed
  ultimately show ?thesis by linarith
qed

definition parts_ok :: "layer \<Rightarrow> bool" where
  "parts_ok l \<longleftrightarrow> 0 \<le> selectedPart l \<and> selectedPart l < partCount l \<and> (fileBasedView l \<longrightarrow> 0 < snd (part_pixels l 1))"

lemma parts_ok_shape:
  assumes "shape l' = shape l" "parts_ok l" "0 \<le> selectedPart l'" "selectedPart l' < partCount l"
  shows "parts_ok l'"
  using assms by (simp add: parts_ok_def shape_def part_pixels_def Let_def)

lemma parts_ok_frame: "shape l' = shape l \<Longrightarrow> selectedPart l' = selectedPart l \<Longrightarrow> parts_ok l' = parts_ok l"
  by (auto simp: parts_ok_def shape_def part_pixels_def Let_def)

lemma fileBasedQueue_parts:
  assumes "fileBasedQueue None l = (l', q)" "x \<in> set q" "0 < snd (part_pixels l 1)"
  shows "0 \<le> tc_part x \<and> tc_part x < partCount l"
proof -
  let ?R = "Rect 0 0 (fst (part_pixels l 1)) (snd (part_pixels l 1) * partCount l)"
  obtain r where r: "getIntersectionRectangle (viewedRectangle l) ?R = Some r"
    and q: "q = sortFileBasedQueue (file_queue l (mapZoom l) (part_pixels l 1) r)"
    using assms(1,2) by (auto simp: fileBasedQueue_def Let_def split: if_splits option.splits)
  have "set q = set (file_queue l (mapZoom l) (part_pixels l 1) r)"
    unfolding q by (metis set_mset_mset sortFileBasedQueue_mset)
  moreover have "0 \<le> ry r" "ry r + rh r \<le> snd (part_pixels l 1) * partCount l"
    using r by (auto simp: getIntersectionRectangle_def Let_def split: if_splits)
  ultimately show ?thesis using file_queue_parts assms(2,3) by blast
qed

lemma distinct_parts_set: "set (distinct_parts ps cs) \<subseteq> set ps \<union> tc_part ` set cs"
  by (induction ps cs rule: distinct_parts.induct) auto

lemma getMostVisiblePart_in: "getMostVisiblePart l q \<in> insert 0 (tc_part ` set q)"
proof -
  let ?f = "\<lambda>R part (maxArea, best). case getIntersectionRectangle (Rect 0 (snd (part_pixels l 1) * part) (fst (part_pixels l 1)) (snd (part_pixels l 1))) R of
      None \<Rightarrow> (maxArea, best) | Some r \<Rightarrow> if rw r * rh r > maxArea then (rw r * rh r, part) else (maxArea, best)"
  have "snd (fold (?f R) ps (a, b)) \<in> insert b (set ps)" for R ps a b
    by (induction ps arbitrary: a b) (fastforce split: option.splits if_splits)+
  then have "getMostVisiblePart l q \<in> insert 0 (set (distinct_parts [] q))"
    by (simp add: getMostVisiblePart_def Let_def case_prod_beta)
  then show ?thesis using distinct_parts_set [of "[]" q] by auto
qed

lemma parts_ok_checkSelectedPart:
  assumes "parts_ok l" "fileBasedView l"
  shows "parts_ok (checkSelectedPart l) \<and> shape (checkSelectedPart l) = shape l"
proof -
  obtain l' q where q: "fileBasedQueue None l = (l', q)" by fastforce
  note fr = frame_fileBasedQueue [OF q]
  have ok': "parts_ok l'" using fr assms(1) parts_ok_frame by blast
  let ?p = "getMostVisiblePart l' q"
  have px: "0 < snd (part_pixels l 1)" using assms by (simp add: parts_ok_def)
  have "0 < partCount l" using assms(1) by (simp add: parts_ok_def)
  then have p: "0 \<le> ?p" "?p < partCount l"
    using getMostVisiblePart_in [of l' q] fileBasedQueue_parts [OF q _ px] by auto
  have "parts_ok (l'\<lparr>selectedPart := ?p, cache := c\<rparr>)" "shape (l'\<lparr>selectedPart := ?p, cache := c\<rparr>) = shape l" for c
    using ok' p fr by (auto simp: parts_ok_def shape_def part_pixels_def Let_def)
  then show ?thesis using ok' fr q by (simp add: checkSelectedPart_def Let_def send_def)
qed

section \<open>The selected part stays in range\<close>

lemma next_part_range:
  "next_part part l = Some (sel, dir) \<Longrightarrow> 0 \<le> selectedPart l \<Longrightarrow> selectedPart l < partCount l \<Longrightarrow> 0 \<le> sel \<and> sel < partCount l"
  by (auto simp: next_part_def split: part_arg.splits if_splits)

lemma parts_ok_set_part_file:
  assumes "parts_ok ((ly m)\<lparr>selectedPart := prev\<rparr>)" "fileBasedView (ly m)"
  shows "parts_ok (ly (set_part_file e part ext prev m)) \<and> shape (ly (set_part_file e part ext prev m)) = shape (ly m)"
proof -
  let ?m = "\<lambda>w. scrolled e w (m\<lparr>ly := (ly m)\<lparr>selectedPart := prev\<rparr>\<rparr>)"
  have sh: "shape (ly (?m w)) = shape (ly m)" "parts_ok (ly (?m w))" "fileBasedView (ly (?m w))" for w
    using assms parts_ok_frame [of "ly (?m w)" "(ly m)\<lparr>selectedPart := prev\<rparr>"] by (simp_all add: shape_def scrolled_def ui_def)
  have ch: "parts_ok (checkSelectedPart (ly (?m w))) \<and> shape (checkSelectedPart (ly (?m w))) = shape (ly m)" for w
    using parts_ok_checkSelectedPart [OF sh(2,3)] sh(1) by simp
  have nt: "parts_ok (ly (notifyServer ext n (m1\<lparr>ly := l\<rparr>))) = parts_ok l" for n m1 l
    by (rule parts_ok_frame) simp_all
  show ?thesis
    using ch by (cases "arg_number part") (simp_all add: set_part_file_def Let_def nt)
qed

text \<open>\<open>setPart\<close> keeps the shape and leaves a part in range selected.\<close>

lemma parts_ok_setPart:
  assumes "parts_ok (ly m)"
  shows "parts_ok (ly (setPart e part ext m)) \<and> shape (ly (setPart e part ext m)) = shape (ly m)"
proof -
  let ?prev = "selectedPart (ly m)"
  define m2 where "m2 = (let m1 = (if docType (ly m) = Spreadsheet
                   then m\<lparr>sheetSwitch := switch_save ?prev (mapCenter m) (arg_number part) (sheetSwitch m)\<rparr> else m)
    in m1\<lparr>msgStore := clearMsgReplayStore True (msgStore m1), prevSelectedPart := Some ?prev, selectedParts := []\<rparr>)"
  have ly2: "ly m2 = ly m" by (simp add: m2_def Let_def)
  have cases: "setPart e part ext m \<in> {ui ''showCommentEditingWarning'' m, m} \<or> setPart e part ext m =
      (case next_part part (ly m2) of None \<Rightarrow> m2
       | Some (sel, dir) \<Rightarrow>
          (let m3 = m2\<lparr>ly := (ly m2)\<lparr>selectedPart := sel, partsDirection := dir\<rparr>\<rparr>;
               m4 = (case part of PartNo n \<Rightarrow> ui ''updateReferenceMarks'' m3 | _ \<Rightarrow> m3)
           in if fileBasedView (ly m4) then set_part_file e part ext ?prev m4 else show_part e ext m4))"
    unfolding setPart_def m2_def Let_def by simp
  have uiok: "parts_ok (ly (ui w m)) = parts_ok (ly m)" for w m by (rule parts_ok_frame) simp_all
  show ?thesis
  proof (cases "next_part part (ly m2)")
    case None
    then show ?thesis using cases assms ly2 uiok by auto
  next
    case (Some p)
    obtain sel dir where p: "p = (sel, dir)" by fastforce
    define m3 where "m3 = m2\<lparr>ly := (ly m2)\<lparr>selectedPart := sel, partsDirection := dir\<rparr>\<rparr>"
    define m4 where "m4 = (case part of PartNo n \<Rightarrow> ui ''updateReferenceMarks'' m3 | _ \<Rightarrow> m3)"
    have rng: "0 \<le> sel" "sel < partCount (ly m)"
      using next_part_range [OF Some [unfolded p]] assms ly2 by (simp_all add: parts_ok_def)
    have m4: "shape (ly m4) = shape (ly m)" "selectedPart (ly m4) = sel"
      by (simp_all add: m4_def m3_def ly2 shape_def ui_def split: part_arg.split)
    have "parts_ok ((ly m4)\<lparr>selectedPart := q\<rparr>)" if "0 \<le> q" "q < partCount (ly m)" for q
      by (rule parts_ok_shape [of _ "ly m"]) (use m4 assms that in \<open>simp_all add: shape_def\<close>)
    then have f: "fileBasedView (ly m4) \<Longrightarrow> parts_ok (ly (set_part_file e part ext ?prev m4)) \<and>
        shape (ly (set_part_file e part ext ?prev m4)) = shape (ly m)"
      using parts_ok_set_part_file m4(1) assms by (simp add: parts_ok_def)
    have g: "parts_ok (ly (show_part e ext m4)) \<and> shape (ly (show_part e ext m4)) = shape (ly m)"
      using parts_ok_shape [of "ly (show_part e ext m4)" "ly m"] m4 assms rng by simp
    have "setPart e part ext m \<in> {ui ''showCommentEditingWarning'' m, m} \<or>
        setPart e part ext m = (if fileBasedView (ly m4) then set_part_file e part ext ?prev m4 else show_part e ext m4)"
      using cases unfolding m4_def m3_def Let_def Some p by simp
    then show ?thesis using f g assms uiok by (auto split: if_splits)
  qed
qed

lemma parts_ok_add: "parts_ok (ly m) \<Longrightarrow> 0 \<le> k \<Longrightarrow> parts_ok (ly (add_parts k m))"
  by (simp add: parts_ok_def add_parts_def part_pixels_def Let_def)

lemma parts_ok_ui [simp]: "parts_ok (ly (ui w m)) = parts_ok (ly m)"
  by (rule parts_ok_frame) simp_all

lemma parts_ok_tell [simp]: "parts_ok (ly (tell w m)) = parts_ok (ly m)"
  by (rule parts_ok_frame) simp_all

lemma parts_ok_delete_part:
  assumes "parts_ok (ly m)"
  shows "parts_ok (ly (delete_part e nPos m))"
proof (cases "partCount (ly m) = 1 \<or> docType (ly m) = Spreadsheet \<and> partCount (ly m) \<le> int (length (hiddenParts m)) + 1")
  case True
  then show ?thesis using assms by (auto simp: delete_part_def)
next
  case False
  define m1 where "m1 = (if \<not> is_slides m then ui ''deletepage'' m else m)"
  define m2 where "m2 = add_parts (-1) m1"
  define m3 where "m3 = (if selectedPart (ly m2) \<ge> partCount (ly m2)
                   then m2\<lparr>ly := (ly m2)\<lparr>selectedPart := selectedPart (ly m2) - 1\<rparr>\<rparr> else m2)"
  have "parts_ok (ly m1)" "partCount (ly m1) \<noteq> 1" using assms False by (simp_all add: m1_def ui_def parts_ok_def part_pixels_def Let_def)
  then have "parts_ok (ly m3)" by (auto simp: m3_def m2_def add_parts_def parts_ok_def part_pixels_def Let_def)
  moreover have "delete_part e nPos m = setPart e (case nPos of Some n \<Rightarrow> PartNo n | None \<Rightarrow> PartNo (selectedPart (ly m3))) False m3"
  proof -
    have "(partCount (ly m) = 1) = False"
      "(docType (ly m) = Spreadsheet \<and> partCount (ly m) \<le> int (length (hiddenParts m)) + 1) = False" using False by auto
    then show ?thesis by (simp only: delete_part_def m1_def m2_def m3_def Let_def if_False)
  qed
  ultimately show ?thesis using parts_ok_setPart by simp
qed

section \<open>Histories of part operations\<close>

datatype part_op =
    SetPart part_arg bool
  | SelectPart int int bool
  | DeselectAll
  | InsertPage "int option"
  | DuplicatePage "int option"
  | DeletePage "int option"
  | RenamePage string int
  | HidePage int
  | HideSlide
  | ShowSlide
  | GoToPage part_arg

fun part_step :: "part_env \<Rightarrow> part_op \<Rightarrow> doc_map \<Rightarrow> doc_map" where
  "part_step e (SetPart part ext) m = setPart e part ext m"
| "part_step e (SelectPart part how ext) m = selectPart part how ext m"
| "part_step e DeselectAll m = deselectAll m"
| "part_step e (InsertPage nPos) m = insertPage e nPos m"
| "part_step e (DuplicatePage pos) m = duplicatePage e pos m"
| "part_step e (DeletePage nPos) m = deletePage e nPos m"
| "part_step e (RenamePage name nPos) m = renamePage e name nPos m"
| "part_step e (HidePage n) m = hidePage n m"
| "part_step e HideSlide m = hideSlide m"
| "part_step e ShowSlide m = showSlide m"
| "part_step e (GoToPage page) m = goToPage page m"

lemma parts_ok_selectPart [simp]: "parts_ok (ly (selectPart part how ext m)) = parts_ok (ly m)"
  by (simp add: selectPart_def Let_def)

lemma parts_ok_deselectAll [simp]: "parts_ok (ly (deselectAll m)) = parts_ok (ly m)"
  by (induction m rule: deselectAll.induct) (subst deselectAll.simps, simp split: list.split)

lemma parts_ok_slides:
  "parts_ok (ly (fold (\<lambda>p m. (ui w m)\<lparr>hiddenSlides := f p (hiddenSlides m)\<rparr>) ps m)) = parts_ok (ly m)"
  by (induction ps arbitrary: m) simp_all

lemma part_step_ok:
  assumes "parts_ok (ly m)"
  shows "parts_ok (ly (part_step e p m))"
proof -
  have set: "parts_ok (ly m) \<Longrightarrow> parts_ok (ly (setPart e a x m))" for a x m using parts_ok_setPart by blast
  show ?thesis
  proof (cases p)
    case (InsertPage nPos)
    then show ?thesis using assms by (simp add: insertPage_def Let_def set parts_ok_add)
  next
    case (DuplicatePage pos)
    then show ?thesis using assms by (simp add: duplicatePage_def set parts_ok_add)
  next
    case (DeletePage nPos)
    then show ?thesis using assms by (simp add: deletePage_def Let_def parts_ok_delete_part)
  next
    case (RenamePage name nPos)
    then show ?thesis using assms by (simp add: renamePage_def set)
  next
    case (GoToPage page)
    then show ?thesis using assms by (simp add: goToPage_def Let_def)
  qed (use assms in \<open>simp_all add: set hidePage_def hideSlide_def showSlide_def parts_ok_slides\<close>)
qed


section \<open>The order of messages\<close>

text \<open>The log of a layer starts with the given events.\<close>

definition logged :: "out_event list \<Rightarrow> tile_cache \<Rightarrow> bool" where
  "logged xs c \<longleftrightarrow> (\<exists>rest. out c = xs @ rest)"

lemma loggedI: "out c = xs @ ys \<Longrightarrow> logged xs c"
  by (auto simp: logged_def)

lemma logged_emit: "logged xs c \<Longrightarrow> logged xs (emit e c)"
  by (auto simp: logged_def emit_def)

lemma logged_upd: "logged xs (upd_tile a f c) = logged xs c"
  by (simp add: logged_def upd_tile_def)

interpretation log: gc_closed "logged xs" for xs
  by unfold_locales
    (auto simp: logged_upd logged_def removeTile_def reclaimTileCanvasMemory_def Let_def upd_tile_def split: option.splits if_splits)

lemma logged_fold: "(\<And>x c. logged xs c \<Longrightarrow> logged xs (f x c)) \<Longrightarrow> logged xs c \<Longrightarrow> logged xs (fold f ys c)"
  by (induction ys arbitrary: c) auto

lemma logged_fold_pair:
  "(\<And>x s. logged xs (fst s) \<Longrightarrow> logged xs (fst (f x s))) \<Longrightarrow> logged xs (fst s) \<Longrightarrow> logged xs (fst (fold f ys s))"
  by (induction ys arbitrary: s) auto

lemma logged_createTile: "logged xs c \<Longrightarrow> logged xs (snd (createTile coords k now c))"
  by (auto simp: createTile_def logged_def split: option.split)

lemma logged_combine: "logged xs c \<Longrightarrow> logged xs (sendTileCombineRequest g q c)"
  by (auto simp: sendTileCombineRequest_def intro!: logged_fold logged_emit)

lemma logged_create_step: "logged xs (fst s) \<Longrightarrow> logged xs (fst (create_step now coords s))"
  by (auto simp: create_step_def Let_def logged_createTile split: prod.split)

lemma logged_mark: "logged xs (cache l) \<Longrightarrow> logged xs (cache (mark_not_current z l))"
  unfolding mark_not_current_def
  by (simp, rule logged_fold) (auto simp: mark_key_def logged_upd split: option.split)

lemma logged_missing:
  "getMissingTiles b z l = (l', q) \<Longrightarrow> logged xs (cache l) \<Longrightarrow> logged xs (cache l')"
proof -
  have "logged xs (fst s) \<Longrightarrow> logged xs (fst (missing_step g z p md ij s))" for g z p md ij s
    by (auto simp: missing_step_def Let_def logged_upd split: prod.split option.split)
  then have "logged xs (fst (fold (missing_step g z p md) ps (c, [])))" if "logged xs c" for g z p md ps c
    using that by (intro logged_fold_pair) auto
  then show "getMissingTiles b z l = (l', q) \<Longrightarrow> logged xs (cache l) \<Longrightarrow> logged xs (cache l')"
    by (auto simp: getMissingTiles_def case_prod_beta Let_def)
qed

lemma logged_updateOnChangePart: "logged xs (cache l) \<Longrightarrow> logged xs (cache (updateOnChangePart now l))"
proof -
  assume l: "logged xs (cache l)"
  obtain l2 q where q: "getMissingTiles (pixelBoundsCore l) (mapZoom l) (mark_not_current (mapZoom l) l) = (l2, q)" by fastforce
  have "logged xs (cache l2)" by (rule logged_missing [OF q logged_mark [OF l]])
  then have "logged xs (fst (fold (create_step now) q (cache l2, [])))"
    by (intro logged_fold_pair) (simp_all add: logged_create_step)
  then show ?thesis
    using l \<open>logged xs (cache l2)\<close>
    by (simp add: updateOnChangePart_def Let_def q initPreFetchPartTiles_def case_prod_beta logged_combine)
qed

lemma logged_pruneTiles: "logged xs (cache l) \<Longrightarrow> logged xs (cache (pruneTiles l))"
proof -
  have "logged xs (cache l) \<Longrightarrow> logged xs (cache (fst (fileBasedQueue None l)))"
    by (auto simp: fileBasedQueue_def Let_def mark_current_def logged_upd intro!: logged_fold split: option.split)
  then show "logged xs (cache l) \<Longrightarrow> logged xs (cache (pruneTiles l))"
    by (simp add: pruneTiles_def Let_def log.garbageCollect_closed)
qed

text \<open>Preview operations extend the log and keep the selection.\<close>

interpretation previews_log: preview_closed "\<lambda>m. logged xs (cache (ly m)) \<and> selectedParts m = ps \<and> prevSelectedPart m = pv" for xs ps pv
proof unfold_locales
  fix m :: doc_map and visible now
  assume "logged xs (cache (ly m)) \<and> selectedParts m = ps \<and> prevSelectedPart m = pv"
  then show "logged xs (cache (ly (processPreviewQueue visible now m))) \<and>
      selectedParts (processPreviewQueue visible now m) = ps \<and> prevSelectedPart (processPreviewQueue visible now m) = pv"
    by (rule_tac visible = visible and now = now and m = m in process_cases) (auto simp: logged_def)
qed (simp_all add: addPreviewToQueue_def)

lemma logged_ui: "logged xs (cache (ly m)) \<Longrightarrow> logged xs (cache (ly (ui w m)))"
  by (simp add: ui_def logged_emit)


lemma select_frame [simp]:
  "prevSelectedPart (ui w m) = prevSelectedPart m" "prevSelectedPart (tell w m) = prevSelectedPart m"
  "fileBasedView (ly (ui w m)) = fileBasedView (ly m)" "searchRequested (ui w m) = searchRequested m" "cursorVisible (ui w m) = cursorVisible m"
  by (simp_all add: ui_def tell_def)

lemma fold_ui_frame:
  "logged xs (cache (ly m)) \<Longrightarrow> logged xs (cache (ly (fold ui ws m)))"
  "selectedParts (fold ui ws m) = selectedParts m" "prevSelectedPart (fold ui ws m) = prevSelectedPart m"
  by (induction ws arbitrary: m) (simp_all add: logged_ui)

lemma show_part_log:
  "logged (out (cache (ly m)) @ [UiEffect ''scrolltopart''] @ (if cursorVisible m then [SendMessage ''resetselection''] else []) @
      (if ext then [] else [SendMessage (''setclientpart part='' @ show_int (selectedPart (ly m)))])) (cache (ly (show_part e ext m))) \<and>
   selectedParts (show_part e ext m) = selectedParts m @ [selectedPart (ly m)] \<and>
   prevSelectedPart (show_part e ext m) = prevSelectedPart m"
  (is "logged ?xs _ \<and> _")
proof -
  define m2 where "m2 = (ui ''scrolltopart'' m)\<lparr>selectedParts := selectedParts (ui ''scrolltopart'' m) @ [selectedPart (ly (ui ''scrolltopart'' m))]\<rparr>"
  define m4 where "m4 = (let m3 = (if cursorVisible m2 then tell ''resetselection'' m2 else m2) in notifyServer ext (selectedPart (ly m3)) m3)"
  have m4: "out (cache (ly m4)) = ?xs" "selectedParts m4 = selectedParts m @ [selectedPart (ly m)]" "prevSelectedPart m4 = prevSelectedPart m"
    by (simp_all add: m4_def m2_def Let_def notifyServer_def tell_def send_def ui_def emit_def)
  define m5 where "m5 = fold ui [''updateparts'', ''onUpdateViewCursor'', ''onUpdateCellViewCursor'',
                        ''onUpdateGraphicViewSelection'', ''onUpdateTextViewSelection'', ''clearSelections''] m4"
  have "logged ?xs (cache (ly m5))" unfolding m5_def by (rule fold_ui_frame(1)) (simp add: logged_def m4)
  then have l6: "logged ?xs (cache (pruneTiles (updateOnChangePart (env_now e) (ly m5))))"
    by (intro logged_pruneTiles logged_updateOnChangePart)
  define m7 where "m7 = invalidatePreviews (env_visible e) (env_now e)
      (m5\<lparr>ly := pruneTiles (updateOnChangePart (env_now e) (ly m5)), prevSelectedPartNeedsUpdate := True\<rparr>)"
  have m7: "logged ?xs (cache (ly m7)) \<and> selectedParts m7 = selectedParts m4 \<and> prevSelectedPart m7 = prevSelectedPart m4"
    unfolding m7_def by (rule previews_log.invalidatePreviews_closed) (use l6 in \<open>simp add: m5_def\<close>)
  have "show_part e ext m = (if \<not> searchRequested (ui ''drawSearchResults'' m7) then ui ''focus'' (ui ''drawSearchResults'' m7)
      else ui ''drawSearchResults'' m7)"
    by (simp only: show_part_def m2_def m4_def m5_def m7_def Let_def)
  then show ?thesis using m7 m4 by (simp add: logged_ui)
qed

section \<open>Properties\<close>

text \<open>
  C16. Whatever sequence of switching, selecting, inserting, duplicating, deleting, renaming, hiding
  and showing parts a user goes through, with any arguments, the selected part is a part of the
  document. In a file-based view this rests on the height of a page being at least one pixel.
\<close>

theorem selected_part_in_range:
  assumes "0 \<le> selectedPart (ly m)" "selectedPart (ly m) < partCount (ly m)" "0 < snd (part_pixels (ly m) 1)"
  shows "0 \<le> selectedPart (ly (fold (\<lambda>(e, p). part_step e p) ops m)) \<and>
     selectedPart (ly (fold (\<lambda>(e, p). part_step e p) ops m)) < partCount (ly (fold (\<lambda>(e, p). part_step e p) ops m))"
proof -
  have "parts_ok (ly m) \<Longrightarrow> parts_ok (ly (fold (\<lambda>(e, p). part_step e p) ops m))" for m
    by (induction ops arbitrary: m) (auto simp: part_step_ok)
  then show ?thesis using assms by (simp add: parts_ok_def)
qed

definition wit_env :: part_env where
  "wit_env = \<lparr>env_now = 9, env_visible = (\<lambda>i. True), env_view = (Rect 0 0 100 100, bounds_of (Pt 0 0) (Pt 100 100))\<rparr>"

theorem selected_part_in_range_witness:
  "0 \<le> selectedPart (ly wit_map) \<and> selectedPart (ly wit_map) < partCount (ly wit_map) \<and> 0 < snd (part_pixels (ly wit_map) 1) \<and>
   0 \<le> selectedPart (ly (fold (\<lambda>(e, p). part_step e p) [(wit_env, SetPart (PartNo 4) False), (wit_env, DeletePage None)] wit_map)) \<and>
   selectedPart (ly (fold (\<lambda>(e, p). part_step e p) [(wit_env, SetPart (PartNo 4) False), (wit_env, DeletePage None)] wit_map)) <
     partCount (ly (fold (\<lambda>(e, p). part_step e p) [(wit_env, SetPart (PartNo 4) False), (wit_env, DeletePage None)] wit_map))"
proof -
  have "0 \<le> selectedPart (ly wit_map)" "selectedPart (ly wit_map) < partCount (ly wit_map)" "0 < snd (part_pixels (ly wit_map) 1)"
    by (simp_all add: wit_map_def wit_layer_def part_pixels_def js_round_def)
  then show ?thesis
    using selected_part_in_range [of wit_map "[(wit_env, SetPart (PartNo 4) False), (wit_env, DeletePage None)]"] by blast
qed



text \<open>Renaming a sheet passes the layer as the part to select, which empties the selection.\<close>

lemma rename_clears_selection:
  assumes "docType (ly m) = Spreadsheet" "\<not> anyCommentEdit m"
  shows "selectedParts (renamePage e name n m) = []"
  using assms by (simp add: renamePage_def setPart_def Let_def next_part_def tell_def send_def)

end
