(* ===== verification/Text_Input.thy ===== *)
theory Text_Input
  imports Tile_Requests
begin

text \<open>
  \<open>L.TextInput\<close> (layer/marker/TextInput.js): the hidden editable area that receives what the user
  types, and the messages that bring the document on the server to the same text.

  \<^item> JavaScript strings are lists of UTF-16 code units, numbers below \<open>2 ^ 16\<close>.
  \<^item> The area is its text and whether the two images around it, which betray backspace and delete
    at its ends, are still there. The selection of the browser is part of the environment.
  \<^item> \<open>hasAccessibilitySupport\<close> is false in this class; its branches are not modelled.
  \<^item> \<open>encodeURIComponent\<close> throws a \<open>URIError\<close> for a lone surrogate: a call ends with \<open>Done\<close> or with
    \<open>Threw\<close>, both with the state that is left.
\<close>

named_theorems input_defs "definitions of the text input"

section \<open>Code units, code points and bytes\<close>

definition high_surrogate :: "nat \<Rightarrow> bool" where
  [input_defs]: "high_surrogate c \<longleftrightarrow> 0xD800 \<le> c \<and> c < 0xDC00"

definition low_surrogate :: "nat \<Rightarrow> bool" where
  [input_defs]: "low_surrogate c \<longleftrightarrow> 0xDC00 \<le> c \<and> c < 0xE000"

definition code_point_units :: "nat \<Rightarrow> nat list" where
  [input_defs]: "code_point_units c =
     (if c \<le> 0xFFFF then [c] else [(c - 0x10000) div 1024 + 0xD800, (c - 0x10000) mod 0x400 + 0xDC00])"

definition codePointsToString :: "nat list \<Rightarrow> nat list" where
  [input_defs]: "codePointsToString cs = concat (map code_point_units cs)"

text \<open>The comment promises code points; \<open>charCodeAt\<close> gives the code units as they are.\<close>

definition getValueAsCodePoints :: "nat list \<Rightarrow> nat list" where
  [input_defs]: "getValueAsCodePoints v = v"

text \<open>The code points \<open>encodeURIComponent\<close> reads, \<open>None\<close> for a lone surrogate.\<close>

fun code_points :: "nat list \<Rightarrow> nat list option" where
  "code_points [] = Some []"
| "code_points (c # cs) =
     (if low_surrogate c then None
      else if high_surrogate c
      then (case cs of
              d # ds \<Rightarrow>
                if low_surrogate d
                then map_option (\<lambda>ps. ((c - 0xD800) * 0x400 + (d - 0xDC00) + 0x10000) # ps) (code_points ds)
                else None
            | [] \<Rightarrow> None)
      else map_option (\<lambda>ps. c # ps) (code_points cs))"

definition utf8 :: "nat \<Rightarrow> nat list" where
  [input_defs]: "utf8 c =
     (if c < 0x80 then [c]
      else if c < 0x800 then [0xC0 + c div 64, 0x80 + c mod 64]
      else if c < 0x10000 then [0xE0 + c div 4096, 0x80 + c div 64 mod 64, 0x80 + c mod 64]
      else [0xF0 + c div 262144, 0x80 + c div 4096 mod 64, 0x80 + c div 64 mod 64, 0x80 + c mod 64])"

definition uri_unreserved :: "nat \<Rightarrow> bool" where
  [input_defs]: "uri_unreserved c \<longleftrightarrow>
     (48 \<le> c \<and> c \<le> 57) \<or> (65 \<le> c \<and> c \<le> 90) \<or> (97 \<le> c \<and> c \<le> 122) \<or>
     c \<in> of_char ` set ''-_.!~*()'' \<or> c = 39"

definition hex_char :: "nat \<Rightarrow> char" where
  "hex_char d = (if d < 10 then char_of (48 + d) else char_of (55 + d))"

definition uri_code_point :: "nat \<Rightarrow> string" where
  [input_defs]: "uri_code_point c =
     (if uri_unreserved c then [char_of c]
      else concat (map (\<lambda>b. [CHR ''%'', hex_char (b div 16), hex_char (b mod 16)]) (utf8 c)))"

definition encodeURIComponent :: "nat list \<Rightarrow> string option" where
  [input_defs]: "encodeURIComponent units = map_option (\<lambda>ps. concat (map uri_code_point ps)) (code_points units)"

section \<open>State\<close>

datatype delete_hint = NoHint | DeleteHint | BackspaceHint

text \<open>
  The messages and effects: \<open>removetextcontext\<close>, \<open>textinput\<close>, \<open>key\<close> or \<open>windowkey\<close> (a missing code
  is printed as \<open>undefined\<close>), and events fired at the map.
\<close>

datatype text_msg =
    RemoveText int int
  | TextInput "nat list"
  | KeyMsg string "nat option" "nat option"
  | MapEvent string

record text_input =
  deleteHint :: delete_hint
  newlineHint :: bool
  linebreakHint :: bool
  ignoreInputCount :: int
  lastContent :: "nat list"
  ignoreNextBackspace :: bool
  isComposing :: bool
  hasPreSpace :: bool
  areaText :: "nat list"
  hasPostSpace :: bool
  typingMention :: bool
  mentionText :: "nat list option list"
  sent :: "text_msg list"

record text_env =
  uiBlocked :: bool
  isMobile :: bool
  isTablet :: bool
  isDesktop :: bool
  te_docType :: doc_type
  formulaBarFocus :: bool
  isGecko :: bool
  selectionValid :: bool
  cursorAtBeginning :: bool
  cursorAtEnd :: bool

record input_event =
  inputType :: string
  ev_data :: "nat list option"

datatype 'a outcome = Done 'a | Threw 'a

fun outcome_state :: "'a outcome \<Rightarrow> 'a" where
  "outcome_state (Done s) = s"
| "outcome_state (Threw s) = s"

fun and_then :: "'a outcome \<Rightarrow> ('a \<Rightarrow> 'a outcome) \<Rightarrow> 'a outcome" where
  "and_then (Done s) f = f s"
| "and_then (Threw s) f = Threw s"

section \<open>Sending\<close>

definition put :: "text_msg \<Rightarrow> text_input \<Rightarrow> text_input" where
  [input_defs]: "put m s = s\<lparr>sent := sent s @ [m]\<rparr>"

definition removeTextContent :: "int \<Rightarrow> int \<Rightarrow> text_input \<Rightarrow> text_input" where
  [input_defs]: "removeTextContent before after s = put (RemoveText before after) s"

definition emptyArea :: "text_input \<Rightarrow> text_input" where
  [input_defs]: "emptyArea s = s\<lparr>lastContent := [], hasPreSpace := True, areaText := [], hasPostSpace := True\<rparr>"

definition sendKeyEvent :: "nat option \<Rightarrow> nat option \<Rightarrow> string \<Rightarrow> text_input \<Rightarrow> text_input" where
  [input_defs]: "sendKeyEvent charCode unoKeyCode type s = put (KeyMsg type charCode unoKeyCode) s"

definition sendNewlineEvent :: "text_input \<Rightarrow> text_input" where
  [input_defs]: "sendNewlineEvent s =
     emptyArea ((sendKeyEvent (Some 13) (Some (if linebreakHint s then 5376 else 1280)) ''input'' s)\<lparr>newlineHint := False\<rparr>)"

text \<open>
  The table of auto-correct characters. It is a plain object, so that looking up a word like
  \<open>constructor\<close> finds a property of \<open>Object.prototype\<close>, which has no codes.
\<close>

definition autoCorrectChars :: "(nat \<times> nat \<times> nat \<times> nat \<times> nat) list" where
  [input_defs]: "autoCorrectChars =
     [(32, 32, 0, 0, 1284), (33, 33, 0, 0, 4353), (34, 34, 0, 0, 4353), (37, 37, 0, 0, 4357), (39, 39, 0, 0, 192),
      (42, 42, 0, 0, 4360), (44, 44, 0, 0, 1291), (45, 45, 0, 0, 1288), (46, 46, 0, 0, 190), (47, 47, 0, 0, 191),
      (58, 58, 0, 0, 5413), (59, 59, 0, 0, 1317), (63, 63, 0, 0, 4287), (95, 95, 0, 0, 5384)]"

definition units_of :: "string \<Rightarrow> nat list" where
  "units_of s = map of_char s"

definition object_prototype :: "string list" where
  "object_prototype = [''constructor'', ''toString'', ''toLocaleString'', ''valueOf'', ''hasOwnProperty'', ''isPrototypeOf'',
     ''propertyIsEnumerable'', ''__proto__'', ''__defineGetter__'', ''__defineSetter__'', ''__lookupGetter__'', ''__lookupSetter__'']"

definition autoCorrect_lookup :: "nat list \<Rightarrow> (nat option \<times> nat option \<times> nat option \<times> nat option) option" where
  [input_defs]: "autoCorrect_lookup text =
     (case text of
        [c] \<Rightarrow> map_option (\<lambda>(a, b, d, e). (Some a, Some b, Some d, Some e)) (map_of autoCorrectChars c)
      | _ \<Rightarrow> if text \<in> units_of ` set object_prototype then Some (None, None, None, None) else None)"

definition sendCompositionEvent :: "text_env \<Rightarrow> nat list \<Rightarrow> text_input \<Rightarrow> text_input outcome" where
  [input_defs]: "sendCompositionEvent env text s =
     (case (if \<not> isMobile env \<and> \<not> isTablet env then autoCorrect_lookup text else None) of
        Some (a, b, c, d) \<Rightarrow> Done (sendKeyEvent c d ''up'' (sendKeyEvent a b ''input'' s))
      | None \<Rightarrow> (case encodeURIComponent text of None \<Rightarrow> Threw s | Some e \<Rightarrow> Done (put (TextInput text) s)))"

text \<open>\<open>text.split(/[\n\r]/)\<close> and the loop over its pieces; \<open>later\<close> is \<open>i !== 0\<close>.\<close>

fun split_lines :: "nat list \<Rightarrow> nat list list" where
  "split_lines [] = [[]]"
| "split_lines (c # cs) =
     (if c = 10 \<or> c = 13 then [] # split_lines cs
      else (case split_lines cs of [] \<Rightarrow> [[c]] | p # ps \<Rightarrow> (c # p) # ps))"

fun send_lines :: "text_env \<Rightarrow> bool \<Rightarrow> nat list list \<Rightarrow> text_input \<Rightarrow> text_input outcome" where
  "send_lines env later [] s = Done s"
| "send_lines env later (p # ps) s =
     (let s1 = (if later then emptyArea (sendKeyEvent (Some 13) (Some 1280) ''input'' s) else s)
      in and_then (if p \<noteq> [] then sendCompositionEvent env p s1 else Done s1) (send_lines env True ps))"

definition sendText :: "text_env \<Rightarrow> nat list \<Rightarrow> text_input \<Rightarrow> text_input outcome" where
  [input_defs]: "sendText env text s =
     (if text = [10] \<or> text = [13] then Done (sendNewlineEvent s) else send_lines env False (split_lines text) s)"

text \<open>The codes of the digits: 96 for \<open>0\<close> up to 105 for \<open>9\<close>.\<close>

definition unoKeyMap :: "nat \<Rightarrow> nat option" where
  [input_defs]: "unoKeyMap c = (if 48 \<le> c \<and> c \<le> 57 then Some (c + 48) else None)"

definition isDigit :: "nat \<Rightarrow> bool" where
  [input_defs]: "isDigit c \<longleftrightarrow> 48 \<le> c \<and> c \<le> 57"

definition sendNewText :: "text_env \<Rightarrow> input_event \<Rightarrow> nat list \<Rightarrow> nat list \<Rightarrow> text_input \<Rightarrow> text_input outcome" where
  [input_defs]: "sendNewText env ev content newText s =
     (if te_docType env = Spreadsheet \<and> length content = 1 \<and> inputType ev = ''insertText'' \<and>
         isDigit (hd newText) \<and> isDesktop env
      then Done (sendKeyEvent (Some (hd newText)) (unoKeyMap (hd newText)) ''input'' s)
      else sendText env (codePointsToString newText) s)"

section \<open>Handling input\<close>

fun match_length :: "nat list \<Rightarrow> nat list \<Rightarrow> nat" where
  "match_length (a # as) (b # bs) = (if a = b then Suc (match_length as bs) else 0)"
| "match_length _ _ = 0"

definition finishFormulabarEditing :: "text_env \<Rightarrow> nat list \<Rightarrow> nat \<Rightarrow> text_input \<Rightarrow> text_input" where
  [input_defs]: "finishFormulabarEditing env content matchTo s =
     (let units = codePointsToString content
      in if formulaBarFocus env \<and> matchTo < length units \<and> (units ! matchTo = 10 \<or> units ! matchTo = 13)
         then put (MapEvent ''acceptformula'') s else s)"

text \<open>\<open>/^[0-9a-zA-Z ]+$/\<close>\<close>

definition mention_char :: "nat \<Rightarrow> bool" where
  [input_defs]: "mention_char c \<longleftrightarrow> (48 \<le> c \<and> c \<le> 57) \<or> (97 \<le> c \<and> c \<le> 122) \<or> (65 \<le> c \<and> c \<le> 90) \<or> c = 32"

definition close_mention :: "text_input \<Rightarrow> text_input" where
  [input_defs]: "close_mention s = put (MapEvent ''closementionpopup'') s"

definition handleMentionInput :: "text_env \<Rightarrow> input_event \<Rightarrow> int \<Rightarrow> text_input \<Rightarrow> text_input" where
  [input_defs]: "handleMentionInput env ev removeBefore s =
     (let s1 = (if typingMention s
                then if removeBefore > 0
                     then (let s2 = s\<lparr>mentionText := butlast (mentionText s)\<rparr>
                           in if mentionText s \<noteq> [] \<and> last (mentionText s) = Some [64] then close_mention s2
                              else put (MapEvent ''sendmentiontext'') s2)
                     else if removeBefore = 0
                     then (let s2 = s\<lparr>mentionText := mentionText s @ [ev_data ev]\<rparr>
                           in case ev_data ev of
                                Some d \<Rightarrow> if d \<noteq> [] \<and> list_all mention_char d then put (MapEvent ''sendmentiontext'') s2
                                          else close_mention s2
                              | None \<Rightarrow> close_mention s2)
                     else s
                else s)
      in if ev_data ev = Some [64] \<and> te_docType env = Text
         then s1\<lparr>mentionText := mentionText s1 @ [ev_data ev], typingMention := True\<rparr> else s1)"

text \<open>The comparison with the last content, from \<open>var value\<close> on.\<close>

definition diff_input :: "text_env \<Rightarrow> input_event \<Rightarrow> text_input \<Rightarrow> text_input outcome" where
  [input_defs]: "diff_input env ev s =
     (let content = getValueAsCodePoints (areaText s);
          matchTo = match_length content (lastContent s);
          shrunk = (length (lastContent s) > length content \<and> deleteHint s = DeleteHint);
          removeBefore = int (length (lastContent s)) - int matchTo - (if shrunk then 1 else 0);
          removeAfter = (if shrunk then 1 else 0);
          s1 = (if removeBefore > 0 \<or> removeAfter > 0 then removeTextContent removeBefore removeAfter s else s);
          newText = drop matchTo content;
          s2 = s1\<lparr>lastContent := content\<rparr>
      in and_then (if newText \<noteq> [] then sendNewText env ev content newText s2 else Done s2)
           (\<lambda>s3. let s4 = (if removeAfter > 0 then emptyArea s3 else s3)
                 in Done (handleMentionInput env ev removeBefore (finishFormulabarEditing env content matchTo s4))))"

definition onInput :: "text_env \<Rightarrow> input_event \<Rightarrow> text_input \<Rightarrow> text_input outcome" where
  [input_defs]: "onInput env ev s =
     (if uiBlocked env then Done s
      else if ignoreInputCount s > 0 then Done s
      else
        (let s1 = (if deleteHint s = NoHint
                   then if inputType ev = ''deleteContentForward'' then s\<lparr>deleteHint := DeleteHint\<rparr>
                        else if inputType ev = ''deleteContentBackward'' then s\<lparr>deleteHint := BackspaceHint\<rparr> else s
                   else s);
             s2 = s1\<lparr>ignoreNextBackspace := False\<rparr>
         in if newlineHint s2 then Done (sendNewlineEvent s2)
            else if \<not> hasPreSpace s2
            then Done (emptyArea (if \<not> ignoreNextBackspace s then removeTextContent 1 0 s2 else s2))
            else if \<not> hasPostSpace s2 then Done (emptyArea (removeTextContent 0 1 s2))
            else diff_input env ev s2))"

definition isInitialContent :: "text_input \<Rightarrow> bool" where
  [input_defs]: "isInitialContent s \<longleftrightarrow> areaText s = [] \<and> hasPreSpace s \<and> hasPostSpace s"

definition handleMisplacedCursorAtBeginning :: "input_event \<Rightarrow> text_input \<Rightarrow> text_input" where
  [input_defs]: "handleMisplacedCursorAtBeginning ev s =
     emptyArea (if inputType ev = ''deleteContentBackward''
                then (removeTextContent 1 0 s)\<lparr>ignoreNextBackspace := True\<rparr> else s)"

text \<open>After the area has been emptied the cursor is at its end.\<close>

definition onBeforeInput :: "text_env \<Rightarrow> input_event \<Rightarrow> text_input \<Rightarrow> text_input" where
  [input_defs]: "onBeforeInput env ev s =
     (if uiBlocked env then s
      else
        (let s1 = s\<lparr>ignoreNextBackspace := False\<rparr>;
             s2 = (if \<not> selectionValid env then emptyArea s1
                   else if isInitialContent s1 \<and> cursorAtBeginning env then handleMisplacedCursorAtBeginning ev s1
                   else s1);
             emptied = (\<not> selectionValid env \<or> (isInitialContent s1 \<and> cursorAtBeginning env))
         in if isGecko env \<and> (emptied \<or> cursorAtEnd env) \<and> deleteHint s2 = DeleteHint
            then emptyArea (removeTextContent 0 1 s2) else s2))"

definition onCompositionStart :: "text_input \<Rightarrow> text_input" where
  [input_defs]: "onCompositionStart s = s\<lparr>isComposing := True\<rparr>"

definition onCompositionUpdate :: "text_env \<Rightarrow> input_event \<Rightarrow> text_input \<Rightarrow> text_input outcome" where
  [input_defs]: "onCompositionUpdate env ev s = onInput env ev s"

definition onCompositionEnd :: "text_env \<Rightarrow> input_event \<Rightarrow> text_input \<Rightarrow> text_input outcome" where
  [input_defs]: "onCompositionEnd env ev s =
     (let s1 = s\<lparr>isComposing := False\<rparr>;
          s2 = (case ev_data ev of
                  Some d \<Rightarrow> if d \<noteq> [] \<and> last d = 10 then s1\<lparr>newlineHint := True\<rparr> else s1
                | None \<Rightarrow> s1)
      in onInput env ev s2)"

definition abortComposition :: "text_input \<Rightarrow> text_input" where
  [input_defs]: "abortComposition s = emptyArea (s\<lparr>isComposing := False\<rparr>)"

text \<open>The hints that a key press leaves for the input that follows it.\<close>

definition key_hints :: "text_env \<Rightarrow> int \<Rightarrow> bool \<Rightarrow> text_input \<Rightarrow> text_input" where
  [input_defs]: "key_hints env keyCode shiftKey s =
     (if uiBlocked env then s
      else s\<lparr>deleteHint := (if keyCode = 8 then BackspaceHint else if keyCode = 46 then DeleteHint else NoHint),
             newlineHint := (keyCode = 13), linebreakHint := (keyCode = 13 \<and> shiftKey)\<rparr>)"

definition navigation_keys :: "string list" where
  [input_defs]: "navigation_keys = [''ArrowLeft'', ''ArrowRight'', ''ArrowUp'', ''ArrowDown'', ''Home'', ''End'', ''PageUp'', ''PageDown'', ''Escape'']"

definition key_up :: "text_env \<Rightarrow> string \<Rightarrow> text_input \<Rightarrow> text_input" where
  [input_defs]: "key_up env key s =
     (if uiBlocked env then s else if \<not> isComposing s \<and> key \<in> set navigation_keys then emptyArea s else s)"

section \<open>The messages as text\<close>

definition show_code :: "nat option \<Rightarrow> string" where
  [input_defs]: "show_code c = (case c of None \<Rightarrow> ''undefined'' | Some n \<Rightarrow> show_nat n)"

definition text_msg_string :: "bool \<Rightarrow> int \<Rightarrow> text_msg \<Rightarrow> string" where
  [input_defs]: "text_msg_string focused winId m =
     (case m of
        RemoveText b a \<Rightarrow> ''removetextcontext id='' @ show_int winId @ '' before='' @ show_int b @ '' after='' @ show_int a
      | TextInput u \<Rightarrow> ''textinput id='' @ show_int winId @ '' text='' @ the (encodeURIComponent u)
      | KeyMsg type c k \<Rightarrow>
          (if focused then ''key type='' else ''windowkey id='' @ show_int winId @ '' type='') @ type @
          '' char='' @ show_code c @ '' key='' @ show_code k @ [CHR 0x0A]
      | MapEvent e \<Rightarrow> e)"

section \<open>What the messages mean\<close>

text \<open>
  The effect of a message on the text in front of the cursor; a return key starts a new paragraph,
  written as a line feed, the release of a key has no effect.
\<close>

fun edit :: "text_msg \<Rightarrow> nat list \<Rightarrow> nat list" where
  "edit (RemoveText b a) t = take (length t - nat b) t"
| "edit (TextInput u) t = t @ u"
| "edit (KeyMsg type c k) t =
     (case c of Some ch \<Rightarrow> if type = ''input'' then t @ [if ch = 13 then 10 else ch] else t | None \<Rightarrow> t)"
| "edit (MapEvent e) t = t"

definition run_edits :: "text_msg list \<Rightarrow> nat list \<Rightarrow> nat list" where
  "run_edits ms t = fold edit ms t"

text \<open>Both line ends count as one.\<close>

definition nl :: "nat list \<Rightarrow> nat list" where
  "nl t = map (\<lambda>c. if c = 13 then 10 else c) t"

lemma run_edits_simps [simp]:
  "run_edits [] t = t" "run_edits (m # ms) t = run_edits ms (edit m t)" "run_edits (as @ bs) t = run_edits bs (run_edits as t)"
  by (simp_all add: run_edits_def)

lemma nl_simps [simp]: "nl [] = []" "nl (a # t) = (if a = 13 then 10 else a) # nl t" "nl (t @ u) = nl t @ nl u" "length (nl t) = length t"
  by (simp_all add: nl_def)

lemma take_nl: "take n (nl t) = nl (take n t)"
  by (simp add: nl_def take_map)

text \<open>Text that can be sent: no line has a lone surrogate or is the name of an inherited property.\<close>

definition sendable :: "nat list \<Rightarrow> bool" where
  "sendable text \<longleftrightarrow> (\<forall>p \<in> set (split_lines text). code_points p \<noteq> None \<and> p \<notin> units_of ` set object_prototype)"

section \<open>Lemmas\<close>

lemma codePointsToString_units: "list_all (\<lambda>c. c < 65536) t \<Longrightarrow> codePointsToString t = t"
  by (induction t) (auto simp: codePointsToString_def code_point_units_def)

fun glue :: "bool \<Rightarrow> nat list list \<Rightarrow> nat list" where
  "glue later [] = []"
| "glue later (p # ps) = (if later then [10] else []) @ p @ glue True ps"

lemma split_lines_nonempty [simp]: "split_lines t \<noteq> []"
  by (induction t) (auto split: list.split)

lemma glue_split_lines: "glue False (split_lines t) = nl t"
proof (induction t)
  case (Cons c t)
  obtain p ps where p: "split_lines t = p # ps" by (cases "split_lines t") simp_all
  then show ?case using Cons by auto
qed simp

lemma match_length_take: "take (match_length a b) a = take (match_length a b) b"
  by (induction a b rule: match_length.induct) auto

lemma match_length_le: "match_length a b \<le> length a" "match_length a b \<le> length b"
  by (induction a b rule: match_length.induct) auto

lemma autoCorrect_char: "map_of autoCorrectChars c = Some (a, b, d, e) \<Longrightarrow> a = c \<and> c \<noteq> 13"
  by (auto simp: autoCorrectChars_def split: if_splits)

text \<open>Sending one line appends it and leaves the area alone.\<close>

lemma sendCompositionEvent_ok:
  assumes "code_points p \<noteq> None" "p \<notin> units_of ` set object_prototype"
  shows "\<exists>s' ms. sendCompositionEvent env p s = Done s' \<and> sent s' = sent s @ ms \<and> run_edits ms t = t @ p \<and>
     lastContent s' = lastContent s \<and> areaText s' = areaText s"
proof (cases "if \<not> isMobile env \<and> \<not> isTablet env then autoCorrect_lookup p else None")
  case None
  then show ?thesis
    using assms by (auto simp: sendCompositionEvent_def encodeURIComponent_def put_def)
next
  case (Some q)
  then have "autoCorrect_lookup p = Some q" by (simp split: if_splits)
  then obtain c a b d e where p: "p = [c]" "q = (Some a, Some b, Some d, Some e)" "map_of autoCorrectChars c = Some (a, b, d, e)"
    using assms(2) by (auto simp: autoCorrect_lookup_def split: list.splits if_splits)
  let ?ms = "[KeyMsg ''input'' (Some a) (Some b), KeyMsg ''up'' (Some d) (Some e)]"
  have "run_edits ?ms t = t @ p" using autoCorrect_char [OF p(3)] p(1) by simp
  then show ?thesis
    using Some p by (auto simp: sendCompositionEvent_def sendKeyEvent_def put_def intro!: exI [of _ ?ms])
qed

lemma send_lines_ok:
  assumes "\<forall>p \<in> set ps. code_points p \<noteq> None \<and> p \<notin> units_of ` set object_prototype"
  shows "\<exists>s' ms. send_lines env later ps s = Done s' \<and> sent s' = sent s @ ms \<and> run_edits ms t = t @ glue later ps \<and>
     (lastContent s = areaText s \<longrightarrow> lastContent s' = areaText s')"
  using assms
proof (induction ps arbitrary: later s t)
  case (Cons p ps)
  define s1 where "s1 = (if later then emptyArea (sendKeyEvent (Some 13) (Some 1280) ''input'' s) else s)"
  define k where "k = (if later then [KeyMsg ''input'' (Some 13) (Some 1280)] else [])"
  define pre where "pre = (if later then [10::nat] else [])"
  have s1: "sent s1 = sent s @ k" "run_edits k t = t @ pre" "lastContent s = areaText s \<longrightarrow> lastContent s1 = areaText s1"
    by (simp_all add: s1_def k_def pre_def emptyArea_def sendKeyEvent_def put_def)
  have "\<exists>s2 ms. (if p \<noteq> [] then sendCompositionEvent env p s1 else Done s1) = Done s2 \<and> sent s2 = sent s1 @ ms \<and>
      run_edits ms (t @ pre) = (t @ pre) @ p \<and> lastContent s2 = lastContent s1 \<and> areaText s2 = areaText s1"
  proof (cases "p = []")
    case True
    then show ?thesis by (auto intro!: exI [of _ "[]"])
  next
    case False
    then show ?thesis using sendCompositionEvent_ok [of p env s1 "t @ pre"] Cons.prems by simp
  qed
  then obtain s2 ms where s2: "(if p \<noteq> [] then sendCompositionEvent env p s1 else Done s1) = Done s2" "sent s2 = sent s1 @ ms"
      "run_edits ms (t @ pre) = (t @ pre) @ p" "lastContent s2 = lastContent s1" "areaText s2 = areaText s1" by blast
  obtain s' ms' where s': "send_lines env True ps s2 = Done s'" "sent s' = sent s2 @ ms'"
      "run_edits ms' ((t @ pre) @ p) = ((t @ pre) @ p) @ glue True ps"
      "lastContent s2 = areaText s2 \<longrightarrow> lastContent s' = areaText s'"
    using Cons.IH [of True s2 "(t @ pre) @ p"] Cons.prems by auto
  have "send_lines env later (p # ps) s = Done s'"
    using s2(1) s'(1) by (simp only: send_lines.simps Let_def s1_def [symmetric]) simp
  moreover have "sent s' = sent s @ (k @ ms @ ms')" using s1 s2 s' by simp
  moreover have "run_edits (k @ ms @ ms') t = t @ glue later (p # ps)" using s1 s2 s' by (simp add: pre_def)
  moreover have "lastContent s = areaText s \<longrightarrow> lastContent s' = areaText s'" using s1 s2 s' by simp
  ultimately show ?case by blast
qed (auto intro!: exI [of _ "[]"])

lemma sendText_ok:
  assumes "sendable text"
  shows "\<exists>s' ms. sendText env text s = Done s' \<and> sent s' = sent s @ ms \<and> run_edits ms t = t @ nl text \<and>
     (lastContent s = areaText s \<longrightarrow> lastContent s' = areaText s')"
proof (cases "text = [10] \<or> text = [13]")
  case True
  let ?ms = "[KeyMsg ''input'' (Some 13) (Some (if linebreakHint s then 5376 else 1280))]"
  show ?thesis
    using True by (auto simp: sendText_def sendNewlineEvent_def emptyArea_def sendKeyEvent_def put_def)
next
  case False
  then show ?thesis
    using send_lines_ok [of "split_lines text" env False s t] assms by (simp add: sendText_def sendable_def glue_split_lines)
qed

text \<open>The handlers for mentions and the formula bar only fire events.\<close>

definition only_events :: "text_input \<Rightarrow> text_input \<Rightarrow> bool" where
  "only_events s s' \<longleftrightarrow> (\<exists>es. sent s' = sent s @ map MapEvent es) \<and> lastContent s' = lastContent s \<and> areaText s' = areaText s"

lemma only_events_put: "only_events s (put (MapEvent e) s)"
  by (auto simp: only_events_def put_def intro!: exI [of _ "[e]"])

lemma only_events_trans: "only_events a b \<Longrightarrow> only_events b c \<Longrightarrow> only_events a c"
  by (auto simp: only_events_def) (metis map_append)

lemma only_events_refl [simp]: "only_events s s"
  by (auto simp: only_events_def intro!: exI [of _ "[]"])

lemma only_events_mention_fields:
  "only_events s (s'\<lparr>mentionText := x\<rparr>) = only_events s s'" "only_events s (s'\<lparr>typingMention := b\<rparr>) = only_events s s'"
  "only_events (s\<lparr>mentionText := x\<rparr>) s' = only_events s s'"
  by (simp_all add: only_events_def)

lemma finishFormulabarEditing_events: "only_events s (finishFormulabarEditing env content k s)"
  by (simp add: finishFormulabarEditing_def Let_def only_events_put)

lemma handleMentionInput_events: "only_events s (handleMentionInput env ev rb s)"
proof -
  have m: "only_events s (put (MapEvent e) (s\<lparr>mentionText := x\<rparr>))" for e x
    using only_events_put [of "s\<lparr>mentionText := x\<rparr>" e] by (simp add: only_events_mention_fields)
  show ?thesis
    by (simp add: handleMentionInput_def Let_def close_mention_def m only_events_mention_fields split: option.split)
qed

lemma run_edits_events [simp]: "run_edits (map MapEvent es) t = t"
  by (induction es) simp_all

lemma removal_edit:
  "m \<le> length old \<Longrightarrow> run_edits (if int (length old) - int m > 0 then [RemoveText (int (length old) - int m) 0] else []) (base @ nl old) =
     base @ nl (take m old)"
proof -
  assume m: "m \<le> length old"
  have "nat (int (length old) - int m) = length old - m" using m by simp
  moreover have "take (length base + m) (base @ nl old) = base @ nl (take m old)" by (simp add: take_nl)
  ultimately show ?thesis using m by (auto simp: algebra_simps)
qed

lemma sendNewText_ok:
  assumes "sendable new" "codePointsToString new = new" "length new \<le> length content" "lastContent s = areaText s"
  shows "\<exists>s' ms. (if new \<noteq> [] then sendNewText env ev content new s else Done s) = Done s' \<and> sent s' = sent s @ ms \<and>
     run_edits ms t = t @ nl new \<and> lastContent s' = areaText s'"
proof -
  let ?digit = "te_docType env = Spreadsheet \<and> length content = 1 \<and> inputType ev = ''insertText'' \<and> isDigit (hd new) \<and> isDesktop env"
  consider "new = []" | "new \<noteq> []" "\<not> ?digit" | "new \<noteq> []" ?digit by blast
  then show ?thesis
  proof cases
    case 1
    then show ?thesis using assms(4) by (auto intro!: exI [of _ "[]"])
  next
    case 2
    then have "sendNewText env ev content new s = sendText env new s" using assms(2) by (auto simp: sendNewText_def)
    then show ?thesis using sendText_ok [OF assms(1), of env s t] assms(4) 2 by simp
  next
    case 3
    then obtain d where d: "new = [d]" using assms(3) by (cases new) auto
    let ?ms = "[KeyMsg ''input'' (Some d) (unoKeyMap d)]"
    have "sendNewText env ev content new s = Done (s\<lparr>sent := sent s @ ?ms\<rparr>)"
      using 3 d by (simp add: sendNewText_def sendKeyEvent_def put_def)
    then show ?thesis using d 3 assms(4) by (auto simp: isDigit_def intro!: exI [of _ ?ms])
  qed
qed

lemma diff_input_ok:
  assumes del: "deleteHint s \<noteq> DeleteHint \<or> length (lastContent s) \<le> length (areaText s)"
    and units: "list_all (\<lambda>c. c < 65536) (areaText s)"
    and send: "sendable (drop (match_length (areaText s) (lastContent s)) (areaText s))"
  shows "\<exists>s' ms. diff_input env ev s = Done s' \<and> sent s' = sent s @ ms \<and>
     run_edits ms (base @ nl (lastContent s)) = base @ nl (areaText s) \<and> lastContent s' = areaText s'"
proof -
  define m where "m = match_length (areaText s) (lastContent s)"
  define new where "new = drop m (areaText s)"
  define rb where "rb = int (length (lastContent s)) - int m"
  define s2 where "s2 = (if rb > 0 then removeTextContent rb 0 s else s)\<lparr>lastContent := areaText s\<rparr>"
  have mle: "m \<le> length (lastContent s)" by (simp add: m_def match_length_le)
  have units': "codePointsToString new = new"
    using units by (intro codePointsToString_units) (auto simp: new_def list_all_iff dest: in_set_dropD)
  have not: "(length (lastContent s) > length (areaText s) \<and> deleteHint s = DeleteHint) = False" using del by auto
  have s2: "sent s2 = sent s @ (if rb > 0 then [RemoveText rb 0] else [])" "lastContent s2 = areaText s2"
    by (simp_all add: s2_def removeTextContent_def put_def)
  obtain s3 ms where s3: "(if new \<noteq> [] then sendNewText env ev (areaText s) new s2 else Done s2) = Done s3" "sent s3 = sent s2 @ ms"
      "run_edits ms (base @ nl (take m (lastContent s))) = (base @ nl (take m (lastContent s))) @ nl new" "lastContent s3 = areaText s3"
    using sendNewText_ok [where new = new and s = s2 and content = "areaText s" and env = env and ev = ev and t = "base @ nl (take m (lastContent s))"] send units' s2(2)
    by (auto simp: new_def m_def)
  define s5 where "s5 = handleMentionInput env ev rb (finishFormulabarEditing env (areaText s) m s3)"
  have s5: "only_events s3 s5"
    unfolding s5_def by (rule only_events_trans [OF finishFormulabarEditing_events handleMentionInput_events])
  have "diff_input env ev s = and_then (if new \<noteq> [] then sendNewText env ev (areaText s) new s2 else Done s2)
      (\<lambda>s3. Done (handleMentionInput env ev rb (finishFormulabarEditing env (areaText s) m s3)))"
    by (simp only: diff_input_def Let_def getValueAsCodePoints_def not m_def new_def rb_def s2_def if_False) simp
  then have "diff_input env ev s = Done s5" by (simp only: s3(1) and_then.simps s5_def)
  moreover obtain es where "sent s5 = sent s3 @ map MapEvent es" "lastContent s5 = lastContent s3" "areaText s5 = areaText s3"
    using s5 by (auto simp: only_events_def)
  moreover have "run_edits ((if rb > 0 then [RemoveText rb 0] else []) @ ms @ map MapEvent es) (base @ nl (lastContent s)) = base @ nl (areaText s)"
  proof -
    have "nl (take m (lastContent s)) @ nl new = nl (areaText s)"
      using match_length_take [of "areaText s" "lastContent s"] by (metis append_take_drop_id m_def new_def nl_simps(3))
    then have "run_edits ms (base @ nl (take m (lastContent s))) = base @ nl (areaText s)" using s3(3) by simp
    then show ?thesis
      by (simp only: run_edits_simps(3) run_edits_events removal_edit [OF mle, of base, folded rb_def])
  qed
  ultimately show ?thesis using s2(1) s3(2,4) by auto
qed

lemma code_points_roundtrip:
  assumes "list_all (\<lambda>c. c < 0xD800 \<or> 0xE000 \<le> c \<and> c \<le> 0x10FFFF) ps"
  shows "code_points (codePointsToString ps) = Some ps"
  using assms
proof (induction ps)
  case (Cons c ps)
  show ?case
  proof (cases "c \<le> 0xFFFF")
    case True
    then show ?thesis
      using Cons by (auto simp: codePointsToString_def code_point_units_def high_surrogate_def low_surrogate_def)
  next
    case False
    define d where "d = c - 0x10000"
    have c: "c = d + 0x10000" "d < 0x100000" using False Cons.prems by (auto simp: d_def)
    have "d div 1024 < 1024" using c(2) by (simp add: less_mult_imp_div_less)
    moreover have "d div 1024 * 1024 + d mod 1024 = d" by simp
    ultimately show ?thesis
      using Cons False c by (simp add: codePointsToString_def code_point_units_def high_surrogate_def low_surrogate_def)
  qed
qed (simp add: codePointsToString_def)

lemma match_length_split: "a \<noteq> b \<Longrightarrow> match_length (pre @ [h, a]) (pre @ [h, b]) = Suc (length pre)"
  by (induction pre) auto

section \<open>Properties\<close>


definition wit_input :: text_input where
  "wit_input = \<lparr>deleteHint = BackspaceHint, newlineHint = False, linebreakHint = False, ignoreInputCount = 0,
     lastContent = units_of ''teh'', ignoreNextBackspace = False, isComposing = False, hasPreSpace = True,
     areaText = units_of ''the'' @ [10, 0xD83D, 0xDE00], hasPostSpace = True, typingMention = False, mentionText = [], sent = []\<rparr>"

definition wit_text_env :: text_env where
  "wit_text_env = \<lparr>uiBlocked = False, isMobile = False, isTablet = False, isDesktop = True, te_docType = Text,
     formulaBarFocus = False, isGecko = False, selectionValid = True, cursorAtBeginning = False, cursorAtEnd = True\<rparr>"




text \<open>A composition that is the name of a property of every object is lost: key events without codes are sent instead.\<close>

lemma inherited_name_lost:
  "\<not> isMobile env \<Longrightarrow> \<not> isTablet env \<Longrightarrow>
   sendCompositionEvent env (units_of ''constructor'') s =
     Done (s\<lparr>sent := sent s @ [KeyMsg ''input'' None None, KeyMsg ''up'' None None]\<rparr>)"
  by (simp add: sendCompositionEvent_def autoCorrect_lookup_def units_of_def object_prototype_def sendKeyEvent_def put_def)

end
