(* ===== verification/Span_List.thy ===== *)
theory Span_List
  imports Server_Cmd
begin

text \<open>
  The run-length encoded lists of layer/tile/SheetGeometry.ts: spans of rows or columns of equal size
  (\<open>SpanList\<close>), spans of hidden or filtered ones (\<open>BoolSpanList\<close>), the parser of their encoding, and the
  binary search over them.

  \<^item> A span is known by the index of its last element; the first span starts at 0.
  \<^item> A search only sees the array through its direction provider, so it is a function of the number
    of entries and of the direction at each index; 0 is a match, 1 and -1 point up and down.
  \<^item> \<open>undefined\<close> is \<open>None\<close>.
\<close>

named_theorems span_defs "definitions of span lists"

section \<open>Binary search\<close>

text \<open>\<open>Math.round\<close> of a half is the next integer.\<close>

function search_loop :: "(int \<Rightarrow> int) \<Rightarrow> int \<Rightarrow> int \<Rightarrow> int option" where
  "search_loop dir start end =
     (if start > end then None
      else
        (let mid = (start + end + 1) div 2
         in if dir mid = 0 then Some mid
            else if dir mid = -1 then search_loop dir start (mid - 1)
            else search_loop dir (mid + 1) end))"
  by pat_completeness auto
termination
  by (relation "measure (\<lambda>(dir, start, end). nat (end + 1 - start))") auto

declare search_loop.simps [simp del]

function find_first_loop :: "(int \<Rightarrow> int) \<Rightarrow> int \<Rightarrow> int" where
  "find_first_loop dir index = (if index \<ge> 0 \<and> dir index = 0 then find_first_loop dir (index - 1) else index + 1)"
  by pat_completeness auto
termination
  by (relation "measure (\<lambda>(dir, index). nat (index + 1))") auto

declare find_first_loop.simps [simp del]

definition findFirstMatch :: "(int \<Rightarrow> int) \<Rightarrow> int \<Rightarrow> int" where
  [span_defs]: "findFirstMatch dir m = (if m = 0 then 0 else find_first_loop dir (m - 1))"

definition binarySearch :: "int \<Rightarrow> (int \<Rightarrow> int) \<Rightarrow> bool \<Rightarrow> int" where
  [span_defs]: "binarySearch len dir firstMatch =
     (if len = 0 then -1
      else if dir 0 \<le> 0 then dir 0
      else if dir (len - 1) \<ge> 0
      then if dir (len - 1) = 1 then -1
           else if firstMatch then findFirstMatch dir (len - 1) else len - 1
      else (case search_loop dir 0 (len - 1) of
              None \<Rightarrow> -1
            | Some mid \<Rightarrow> if firstMatch then findFirstMatch dir mid else mid))"

text \<open>
  What a direction provider promises: its directions are 1, 0 and -1 and never go up again along
  the array.
\<close>

locale directions =
  fixes len :: int and dir :: "int \<Rightarrow> int"
  assumes dir_values: "dir i \<in> {-1, 0, 1}"
    and dir_mono: "0 \<le> i \<Longrightarrow> i \<le> j \<Longrightarrow> j < len \<Longrightarrow> dir j \<le> dir i"
begin

lemma search_loop_ok:
  assumes "0 \<le> start" "end < len"
  shows "(case search_loop dir start end of
      Some m \<Rightarrow> start \<le> m \<and> m \<le> end \<and> dir m = 0 | None \<Rightarrow> (\<forall>i. start \<le> i \<and> i \<le> end \<longrightarrow> dir i \<noteq> 0))"
  using assms
proof (induction "nat (end + 1 - start)" arbitrary: start "end" rule: less_induct)
  case less
  let ?m = "(start + end + 1) div 2"
  show ?case
  proof (cases "start > end")
    case True
    then show ?thesis by (simp add: search_loop.simps [of dir start])
  next
    case False
    then have m: "start \<le> ?m" "?m \<le> end" by auto
    consider "dir ?m = 0" | "dir ?m = -1" | "dir ?m = 1" using dir_values by blast
    then show ?thesis
    proof cases
      case 1
      then show ?thesis using False m by (simp add: search_loop.simps [of dir start] Let_def)
    next
      case 2
      have out: "dir i \<noteq> 0" if "?m \<le> i" "i \<le> end" for i
        using dir_mono [of ?m i] 2 that m less.prems by auto
      have "search_loop dir start end = search_loop dir start (?m - 1)"
        using False 2 by (simp add: search_loop.simps [of dir start "end"] Let_def)
      moreover have "case search_loop dir start (?m - 1) of
          Some k \<Rightarrow> start \<le> k \<and> k \<le> ?m - 1 \<and> dir k = 0 | None \<Rightarrow> (\<forall>i. start \<le> i \<and> i \<le> ?m - 1 \<longrightarrow> dir i \<noteq> 0)"
        by (rule less.hyps) (use m less.prems in auto)
      ultimately show ?thesis using m out by (auto split: option.splits) (meson linorder_not_le zle_diff1_eq)
    next
      case 3
      have out: "dir i \<noteq> 0" if "start \<le> i" "i \<le> ?m" for i
        using dir_mono [of i ?m] dir_values [of i] 3 that m less.prems by auto
      have "search_loop dir start end = search_loop dir (?m + 1) end"
        using False 3 by (simp add: search_loop.simps [of dir start "end"] Let_def)
      moreover have "case search_loop dir (?m + 1) end of
          Some k \<Rightarrow> ?m + 1 \<le> k \<and> k \<le> end \<and> dir k = 0 | None \<Rightarrow> (\<forall>i. ?m + 1 \<le> i \<and> i \<le> end \<longrightarrow> dir i \<noteq> 0)"
        by (rule less.hyps) (use m less.prems in auto)
      ultimately show ?thesis using m out by (auto split: option.splits) (meson linorder_not_le zless_imp_add1_zle)
    qed
  qed
qed

text \<open>The smallest match at or below \<open>index + 1\<close>, when all below it match from some point on.\<close>

lemma find_first_loop_ok:
  assumes "index + 1 < len" "0 \<le> index + 1" "dir (index + 1) = 0"
  shows "0 \<le> find_first_loop dir index \<and> find_first_loop dir index \<le> index + 1 \<and> dir (find_first_loop dir index) = 0 \<and>
     (\<forall>i. 0 \<le> i \<and> i < find_first_loop dir index \<longrightarrow> dir i = 1)"
  using assms
proof (induction "nat (index + 1)" arbitrary: index rule: less_induct)
  case less
  show ?case
  proof (cases "index \<ge> 0 \<and> dir index = 0")
    case True
    then have "find_first_loop dir index = find_first_loop dir (index - 1)" by (simp add: find_first_loop.simps [of dir index])
    then show ?thesis using less.hyps [of "index - 1"] less.prems True by simp
  next
    case False
    have "dir i = 1" if "0 \<le> i" "i \<le> index" for i
      using dir_mono [of index "index + 1"] dir_mono [of i index] dir_values [of i] dir_values [of index] that False less.prems by auto
    then show ?thesis using False less.prems by (auto simp: find_first_loop.simps [of dir index])
  qed
qed

lemma findFirstMatch_ok:
  assumes "0 \<le> m" "m < len" "dir m = 0"
  shows "0 \<le> findFirstMatch dir m \<and> findFirstMatch dir m < len \<and> dir (findFirstMatch dir m) = 0 \<and>
     (\<forall>i. 0 \<le> i \<and> i < findFirstMatch dir m \<longrightarrow> dir i = 1)"
  using assms find_first_loop_ok [of "m - 1"] by (auto simp: findFirstMatch_def)

text \<open>The search finds a match when there is one, and the first one on request.\<close>

lemma binarySearch_ok:
  assumes "0 \<le> len"
  shows "(if \<exists>i. 0 \<le> i \<and> i < len \<and> dir i = 0
      then 0 \<le> binarySearch len dir first \<and> binarySearch len dir first < len \<and> dir (binarySearch len dir first) = 0 \<and>
        (first \<longrightarrow> (\<forall>i. 0 \<le> i \<and> i < binarySearch len dir first \<longrightarrow> dir i = 1))
      else binarySearch len dir first = -1)"
proof -
  have "len = 0 \<or> 0 < len" using assms by linarith
  then consider "len = 0" | "0 < len" "dir 0 = 0" | "0 < len" "dir 0 = -1" | "0 < len" "dir 0 = 1" "dir (len - 1) = 1"
    | "0 < len" "dir 0 = 1" "dir (len - 1) = 0" | "0 < len" "dir 0 = 1" "dir (len - 1) = -1"
    using dir_values [of 0] dir_values [of "len - 1"] by auto
  then show ?thesis
  proof cases
    case 3
    then have "dir i \<noteq> 0" if "0 \<le> i" "i < len" for i using dir_mono [of 0 i] that by auto
    then show ?thesis using 3 by (auto simp: binarySearch_def)
  next
    case 4
    then have "dir i \<noteq> 0" if "0 \<le> i" "i < len" for i using dir_mono [of i "len - 1"] that by auto
    then show ?thesis using 4 by (auto simp: binarySearch_def)
  next
    case 5
    then show ?thesis using findFirstMatch_ok [of "len - 1"] by (auto simp: binarySearch_def)
  next
    case 6
    then show ?thesis
      using search_loop_ok [of 0 "len - 1"] findFirstMatch_ok
      by (cases "search_loop dir 0 (len - 1)") (auto simp: binarySearch_def)
  qed (auto simp: binarySearch_def)
qed

end

section \<open>Spans\<close>

record span =
  sp_index :: int
  sp_value :: int

text \<open>The lists of indexes of last elements; \<open>startBit\<close> is the bit of the first span.\<close>

record bool_spans =
  startBit :: bool
  bs_ends :: "int list"

text \<open>\<open>parseInt\<close> that rejects \<open>NaN\<close>.\<close>

definition parse_num :: "string \<Rightarrow> int option" where
  [span_defs]: "parse_num s = (case parseInt s of Num n \<Rightarrow> Some n | NaN \<Rightarrow> None)"

definition parse_span :: "string \<Rightarrow> span option" where
  [span_defs]: "parse_span t =
     (case split_on (CHR '':'') t of
        [v, i] \<Rightarrow>
          (case (parse_num i, parse_num v) of
             (Some index, Some value) \<Rightarrow> Some \<lparr>sp_index = index, sp_value = value\<rparr> | _ \<Rightarrow> None)
      | _ \<Rightarrow> None)"

fun map_all :: "('a \<Rightarrow> 'b option) \<Rightarrow> 'a list \<Rightarrow> 'b list option" where
  "map_all f [] = Some []"
| "map_all f (x # xs) = (case f x of None \<Rightarrow> None | Some y \<Rightarrow> map_option ((#) y) (map_all f xs))"

text \<open>The piece behind the last blank is not read.\<close>

definition parseSpanList :: "string \<Rightarrow> span list option" where
  [span_defs]: "parseSpanList encoding =
     (let splits = split_on (CHR '' '') encoding
      in if length splits < 2 then None else map_all parse_span (butlast splits))"

definition parseBoolSpanList :: "string \<Rightarrow> bool_spans option" where
  [span_defs]: "parseBoolSpanList encoding =
     (let splits = split_on (CHR '' '') encoding
      in if length splits < 2 then None
         else (case split_on (CHR '':'') (hd splits) of
                 [b, f] \<Rightarrow>
                   (case (parse_num b, parse_num f, map_all parse_num (tl (butlast splits))) of
                      (Some b0, Some first, Some rest) \<Rightarrow> Some \<lparr>startBit = (b0 \<noteq> 0), bs_ends = first # rest\<rparr>
                    | _ \<Rightarrow> None)
               | _ \<Rightarrow> None))"

section \<open>Union of bool spans\<close>

definition last_opt :: "'a list \<Rightarrow> 'a option" where
  "last_opt xs = (if xs = [] then None else Some (last xs))"

text \<open>The loop, on what is left of the two lists.\<close>

function union_loop :: "int \<Rightarrow> bool \<Rightarrow> bool \<Rightarrow> bool \<Rightarrow> int list \<Rightarrow> int list \<Rightarrow> int list" where
  "union_loop maxElement thisBit otherBit resultBit (t # ts) (u # us) =
     (let lastElement = (if t < u then t else u);
          thisBit' = (if t \<le> u then \<not> thisBit else thisBit);
          otherBit' = (if u \<le> t then \<not> otherBit else otherBit);
          ts' = (if t \<le> u then ts else t # ts);
          us' = (if u \<le> t then us else u # us);
          nextResultBit = (thisBit' \<or> otherBit')
      in if resultBit \<noteq> nextResultBit \<or> lastElement \<ge> maxElement
         then lastElement # union_loop maxElement thisBit' otherBit' nextResultBit ts' us'
         else union_loop maxElement thisBit' otherBit' resultBit ts' us')"
| "union_loop maxElement thisBit otherBit resultBit [] us = []"
| "union_loop maxElement thisBit otherBit resultBit (t # ts) [] = []"
  by pat_completeness auto
termination
  by (relation "measure (\<lambda>(mx, tb, ob, rb, ts, us). length ts + length us)") auto

definition spans_union :: "bool_spans \<Rightarrow> bool_spans \<Rightarrow> bool_spans option" where
  [span_defs]: "spans_union a b =
     (if last_opt (bs_ends a) \<noteq> last_opt (bs_ends b) then None
      else
        (let resultBit = (startBit a \<or> startBit b)
         in Some \<lparr>startBit = resultBit,
                  bs_ends = union_loop (last (bs_ends a)) (startBit a) (startBit b) resultBit (bs_ends a) (bs_ends b)\<rparr>))"

section \<open>Zero sizes for invisible elements\<close>

function zero_loop :: "int \<Rightarrow> bool \<Rightarrow> int \<Rightarrow> span list \<Rightarrow> int list \<Rightarrow> span list" where
  "zero_loop maxElement zeroBit resultValue (t # ts) (u # us) =
     (let lastElement = (if sp_index t < u then sp_index t else u);
          zeroBit' = (if u \<le> sp_index t then \<not> zeroBit else zeroBit);
          ts' = (if sp_index t \<le> u then ts else t # ts);
          us' = (if u \<le> sp_index t then us else u # us);
          nextResultValue = (case ts' of [] \<Rightarrow> resultValue | s # ss \<Rightarrow> if zeroBit' then 0 else sp_value s)
      in if resultValue \<noteq> nextResultValue \<or> lastElement \<ge> maxElement
         then \<lparr>sp_index = lastElement, sp_value = resultValue\<rparr> # zero_loop maxElement zeroBit' nextResultValue ts' us'
         else zero_loop maxElement zeroBit' resultValue ts' us')"
| "zero_loop maxElement zeroBit resultValue [] us = []"
| "zero_loop maxElement zeroBit resultValue (t # ts) [] = []"
  by pat_completeness auto
termination
  by (relation "measure (\<lambda>(mx, zb, rv, ts, us). length ts + length us)") auto

text \<open>An empty list of sizes or of bits makes the code read a property of \<open>undefined\<close>, or is refused.\<close>

definition applyZeroValues :: "span list \<Rightarrow> bool_spans \<Rightarrow> span list option" where
  [span_defs]: "applyZeroValues sizes other =
     (if sizes = [] \<or> last_opt (bs_ends other) \<noteq> Some (sp_index (last sizes)) then None
      else Some (zero_loop (sp_index (last sizes)) (startBit other)
             (if startBit other then 0 else sp_value (hd sizes)) sizes (bs_ends other)))"

section \<open>Searching spans\<close>

definition span_start :: "('a span_scheme) list \<Rightarrow> int \<Rightarrow> int" where
  [span_defs]: "span_start spans k = (if k > 0 then sp_index (spans ! nat (k - 1)) + 1 else 0)"

definition searchByIndex :: "('a span_scheme) list \<Rightarrow> int \<Rightarrow> int" where
  [span_defs]: "searchByIndex spans index =
     binarySearch (int (length spans))
       (\<lambda>k. if index < span_start spans k then -1 else if sp_index (spans ! nat k) < index then 1 else 0) False"

text \<open>\<open>field\<close> reads a component of the data of a span.\<close>

definition searchByCustomDataField :: "('a span_scheme \<Rightarrow> int) \<Rightarrow> ('a span_scheme) list \<Rightarrow> rat \<Rightarrow> int" where
  [span_defs]: "searchByCustomDataField field spans v =
     binarySearch (int (length spans))
       (\<lambda>k. let valueStart = (if k > 0 then field (spans ! nat (k - 1)) else 0);
                valueEnd = field (spans ! nat k) - (if k + 1 < int (length spans) then 1 else 0)
            in if v < of_int valueStart then -1 else if of_int valueEnd < v then 1 else 0) True"

section \<open>What the lists stand for\<close>

fun bit_at :: "bool \<Rightarrow> int list \<Rightarrow> int \<Rightarrow> bool" where
  "bit_at b [] i = b"
| "bit_at b (e # es) i = (if i \<le> e then b else bit_at (\<not> b) es i)"

fun value_at :: "('a span_scheme) list \<Rightarrow> int \<Rightarrow> int" where
  "value_at [] i = 0"
| "value_at (s # ss) i = (if i \<le> sp_index s then sp_value s else value_at ss i)"

definition ends_ok :: "int list \<Rightarrow> bool" where
  "ends_ok es \<longleftrightarrow> sorted_wrt (<) es"

abbreviation span_ends :: "('a span_scheme) list \<Rightarrow> int list" where
  "span_ends \<equiv> map sp_index"

text \<open>Below its first end a list has its first bit.\<close>

lemma bit_at_before: "\<forall>e \<in> set es. i \<le> e \<Longrightarrow> bit_at b es i = b"
  by (cases es) auto

text \<open>The state after one round: the shorter spans are used up and the bits flipped.\<close>

lemma union_step_bits:
  assumes "sorted_wrt (<) (t # ts)" "sorted_wrt (<) (u # us)" "min t u < i"
  shows "bit_at (if t \<le> u then \<not> tb else tb) (if t \<le> u then ts else t # ts) i = bit_at tb (t # ts) i"
    "bit_at (if u \<le> t then \<not> ob else ob) (if u \<le> t then us else u # us) i = bit_at ob (u # us) i"
  using assms by auto

text \<open>The two lists of a merge: strictly increasing, both ending at the last element \<open>mx\<close>, or both used up.\<close>

definition merging :: "int \<Rightarrow> int list \<Rightarrow> int list \<Rightarrow> bool" where
  "merging mx ts us \<longleftrightarrow> sorted_wrt (<) ts \<and> sorted_wrt (<) us \<and>
     (ts = [] \<and> us = [] \<or> ts \<noteq> [] \<and> us \<noteq> [] \<and> last ts = mx \<and> last us = mx)"

lemma sorted_last_max:
  assumes "sorted_wrt (<) (xs :: int list)" "x \<in> set xs"
  shows "x \<le> last xs"
  using assms by (induction xs) (auto intro: less_imp_le split: if_splits)

text \<open>One round uses up the smaller of the two first ends.\<close>

lemma merging_step:
  assumes "merging mx (t # ts) (u # us)"
  shows "merging mx (if t \<le> u then ts else t # ts) (if u \<le> t then us else u # us)"
    and "\<forall>e \<in> set (if t \<le> u then ts else t # ts) \<union> set (if u \<le> t then us else u # us). min t u < e"
    and "min t u \<le> mx"
    and "min t u < mx \<Longrightarrow> (if t \<le> u then ts else t # ts) \<noteq> []"
    and "min t u < mx \<Longrightarrow> (if u \<le> t then us else u # us) \<noteq> []"
proof -
  have s: "sorted_wrt (<) (t # ts)" "sorted_wrt (<) (u # us)" "last (t # ts) = mx" "last (u # us) = mx"
    using assms by (auto simp: merging_def)
  have l: "ts \<noteq> [] \<Longrightarrow> t < mx" "us \<noteq> [] \<Longrightarrow> u < mx" "ts = [] \<Longrightarrow> t = mx" "us = [] \<Longrightarrow> u = mx"
    using s last_in_set [of ts] last_in_set [of us] by auto
  show "merging mx (if t \<le> u then ts else t # ts) (if u \<le> t then us else u # us)"
    using s l by (cases "ts = []"; cases "us = []") (auto simp: merging_def)
  show "\<forall>e \<in> set (if t \<le> u then ts else t # ts) \<union> set (if u \<le> t then us else u # us). min t u < e"
    using s by (auto simp: min_def)
  show "min t u \<le> mx" using l by (cases "ts = []") auto
  show "min t u < mx \<Longrightarrow> (if t \<le> u then ts else t # ts) \<noteq> []" using l by (auto simp: min_def)
  show "min t u < mx \<Longrightarrow> (if u \<le> t then us else u # us) \<noteq> []" using l by (auto simp: min_def split: if_splits)
qed

lemma union_loop_step:
  "union_loop mx tb ob rb (t # ts) (u # us) =
     (let tb' = (if t \<le> u then \<not> tb else tb); ob' = (if u \<le> t then \<not> ob else ob);
          rest = (\<lambda>rb'. union_loop mx tb' ob' rb' (if t \<le> u then ts else t # ts) (if u \<le> t then us else u # us))
      in if rb \<noteq> (tb' \<or> ob') \<or> mx \<le> min t u then min t u # rest (tb' \<or> ob') else rest (tb' \<or> ob'))"
  by (simp only: union_loop.simps Let_def min_def) (auto split: if_splits)

text \<open>Induction over the rounds of a merge.\<close>

lemma merging_induct [consumes 1, case_names used_up round]:
  assumes "merging mx ts us"
    and "P [] []"
    and "\<And>t ts u us. merging mx (t # ts) (u # us) \<Longrightarrow>
      P (if t \<le> u then ts else t # ts) (if u \<le> t then us else u # us) \<Longrightarrow> P (t # ts) (u # us)"
  shows "P ts us"
  using assms(1)
proof (induction "length ts + length us" arbitrary: ts us rule: less_induct)
  case less
  show ?case
  proof (cases ts)
    case Nil
    then show ?thesis using less.prems assms(2) by (auto simp: merging_def)
  next
    case (Cons t ts')
    then obtain u us' where us: "us = u # us'" using less.prems by (cases us) (auto simp: merging_def)
    have "P (if t \<le> u then ts' else t # ts') (if u \<le> t then us' else u # us')"
      by (rule less.hyps) (use Cons us merging_step(1) less.prems in auto)
    then show ?thesis using assms(3) less.prems Cons us by blast
  qed
qed

text \<open>A round writes its end \<open>m\<close> when the bit or value changes, or at the end of the range.\<close>

lemma emit_ok:
  assumes "(m :: int) = mx \<or> mx \<in> set L" "m \<in> S" "set L \<subseteq> S" "\<forall>e \<in> set L. m < e" "sorted_wrt (<) L"
    "E = (if c \<or> mx \<le> m then m # L else L)"
  shows "set E \<subseteq> S \<and> sorted_wrt (<) E \<and> mx \<in> set E"
  using assms by auto

lemma union_loop_bounds:
  assumes "merging mx ts us"
  shows "set (union_loop mx tb ob rb ts us) \<subseteq> set ts \<union> set us"
    and "sorted_wrt (<) (union_loop mx tb ob rb ts us)"
    and "ts \<noteq> [] \<Longrightarrow> mx \<in> set (union_loop mx tb ob rb ts us)"
proof -
  have "set (union_loop mx tb ob rb ts us) \<subseteq> set ts \<union> set us \<and> sorted_wrt (<) (union_loop mx tb ob rb ts us) \<and>
    (ts \<noteq> [] \<longrightarrow> mx \<in> set (union_loop mx tb ob rb ts us))"
    using assms
  proof (induction ts us arbitrary: tb ob rb rule: merging_induct)
    case used_up
    then show ?case by simp
  next
    case (round t ts u us)
    let ?ts = "if t \<le> u then ts else t # ts" and ?us = "if u \<le> t then us else u # us"
    let ?tb = "if t \<le> u then \<not> tb else tb" and ?ob = "if u \<le> t then \<not> ob else ob"
    define L where "L = union_loop mx ?tb ?ob (?tb \<or> ?ob) ?ts ?us"
    have ih: "set L \<subseteq> set ?ts \<union> set ?us" "sorted_wrt (<) L" "?ts \<noteq> [] \<Longrightarrow> mx \<in> set L"
      using round.IH [of ?tb ?ob "?tb \<or> ?ob"] unfolding L_def by auto
    have up: "\<forall>e \<in> set L. min t u < e" using ih(1) merging_step(2) [OF round.hyps] by blast
    have sub: "set L \<subseteq> set (t # ts) \<union> set (u # us)" using ih(1) by (auto split: if_splits)
    have eq: "union_loop mx tb ob rb (t # ts) (u # us) =
      (if rb \<noteq> (?tb \<or> ?ob) \<or> mx \<le> min t u then min t u # L else L)"
      unfolding L_def union_loop_step Let_def ..
    have "min t u = mx \<or> mx \<in> set L"
      using merging_step(3,4) [OF round.hyps] ih(3) by (metis order_le_less)
    moreover have "min t u \<in> set (t # ts) \<union> set (u # us)" by (auto simp: min_def)
    ultimately show ?case using emit_ok [OF _ _ sub up ih(2) eq] by blast
  qed
  then show "set (union_loop mx tb ob rb ts us) \<subseteq> set ts \<union> set us"
    "sorted_wrt (<) (union_loop mx tb ob rb ts us)"
    "ts \<noteq> [] \<Longrightarrow> mx \<in> set (union_loop mx tb ob rb ts us)" by auto
qed

lemma union_loop_bits:
  assumes "merging mx ts us" "rb = (tb \<or> ob)" "i \<le> mx" "ts \<noteq> []"
  shows "bit_at rb (union_loop mx tb ob rb ts us) i = (bit_at tb ts i \<or> bit_at ob us i)"
  using assms
proof (induction ts us arbitrary: tb ob rb rule: merging_induct)
  case (round t ts u us)
  let ?ts = "if t \<le> u then ts else t # ts" and ?us = "if u \<le> t then us else u # us"
  let ?tb = "if t \<le> u then \<not> tb else tb" and ?ob = "if u \<le> t then \<not> ob else ob"
  define L where "L = union_loop mx ?tb ?ob (?tb \<or> ?ob) ?ts ?us"
  have eq: "union_loop mx tb ob rb (t # ts) (u # us) =
    (if rb \<noteq> (?tb \<or> ?ob) \<or> mx \<le> min t u then min t u # L else L)"
    unfolding L_def union_loop_step Let_def ..
  have up: "\<forall>e \<in> set L. min t u < e"
    using union_loop_bounds(1) [OF merging_step(1) [OF round.hyps]] merging_step(2) [OF round.hyps]
    unfolding L_def by blast
  show ?case
  proof (cases "i \<le> min t u")
    case True
    then have "bit_at rb L i = rb" using up by (intro bit_at_before) auto
    then show ?thesis unfolding eq using True round.prems by auto
  next
    case False
    then have i: "min t u < i" "min t u < mx" using round.prems by auto
    have "bit_at (?tb \<or> ?ob) L i = (bit_at ?tb ?ts i \<or> bit_at ?ob ?us i)"
      unfolding L_def by (rule round.IH) (use round.prems merging_step(4) [OF round.hyps i(2)] in auto)
    also have "\<dots> = (bit_at tb (t # ts) i \<or> bit_at ob (u # us) i)"
      using union_step_bits [OF _ _ i(1)] round.hyps unfolding merging_def by metis
    finally have ih: "bit_at (?tb \<or> ?ob) L i = (bit_at tb (t # ts) i \<or> bit_at ob (u # us) i)" .
    have "bit_at rb (if rb \<noteq> b \<or> mx \<le> min t u then min t u # L else L) i = bit_at b L i" for b
      using i False by auto
    then show ?thesis unfolding eq ih [symmetric] .
  qed
qed simp

section \<open>Zeroed sizes\<close>

lemma value_at_before: "\<forall>s \<in> set ss. i \<le> sp_index s \<Longrightarrow> ss \<noteq> [] \<Longrightarrow> value_at ss i = sp_value (hd ss)"
  by (cases ss) auto

lemma zero_loop_step:
  "zero_loop mx zb rv (t # ts) (u # us) =
     (let zb' = (if u \<le> sp_index t then \<not> zb else zb);
          ts' = (if sp_index t \<le> u then ts else t # ts);
          next' = (if ts' = [] then rv else if zb' then 0 else sp_value (hd ts'));
          rest = zero_loop mx zb' next' ts' (if u \<le> sp_index t then us else u # us)
      in if rv \<noteq> next' \<or> mx \<le> min (sp_index t) u
         then \<lparr>sp_index = min (sp_index t) u, sp_value = rv\<rparr> # rest else rest)"
  by (simp only: zero_loop.simps Let_def min_def) (auto split: if_splits list.splits)

lemma zero_loop_hd: "zero_loop mx zb rv ts us \<noteq> [] \<Longrightarrow> sp_value (hd (zero_loop mx zb rv ts us)) = rv"
proof (induction "length ts + length us" arbitrary: zb rv ts us rule: less_induct)
  case less
  then obtain t ts' u us' where c: "ts = t # ts'" "us = u # us'" by (cases ts; cases us) auto
  show ?case
    using less.prems less.hyps unfolding c zero_loop_step Let_def by (auto split: if_splits)
qed

lemma span_step:
  "span_ends (if sp_index t \<le> u then ts else t # ts) = (if sp_index t \<le> u then span_ends ts else sp_index t # span_ends ts)"
  by simp

lemma zero_loop_bounds:
  assumes "merging mx (span_ends ts) us"
  shows "set (span_ends (zero_loop mx zb rv ts us)) \<subseteq> set (span_ends ts) \<union> set us \<and>
    sorted_wrt (<) (span_ends (zero_loop mx zb rv ts us)) \<and>
    (ts \<noteq> [] \<longrightarrow> mx \<in> set (span_ends (zero_loop mx zb rv ts us)))"
  using assms
proof (induction "span_ends ts" us arbitrary: ts zb rv rule: merging_induct)
  case used_up
  then show ?case by simp
next
  case (round k ks u us ts0)
  then obtain t ts where c: "ts0 = t # ts" and k: "k = sp_index t" "ks = span_ends ts" by (cases ts0) auto
  note m = round.hyps(1) [unfolded k]
  let ?ts = "if sp_index t \<le> u then ts else t # ts" and ?us = "if u \<le> sp_index t then us else u # us"
  let ?zb = "if u \<le> sp_index t then \<not> zb else zb"
  let ?rv = "if ?ts = [] then rv else if ?zb then 0 else sp_value (hd ?ts)"
  define L where "L = zero_loop mx ?zb ?rv ?ts ?us"
  have ih: "set (span_ends L) \<subseteq> set (span_ends ?ts) \<union> set ?us" "sorted_wrt (<) (span_ends L)"
    "?ts \<noteq> [] \<Longrightarrow> mx \<in> set (span_ends L)"
    using round.hyps(2) [of ?ts ?zb ?rv] unfolding L_def k by auto
  have up: "\<forall>e \<in> set (span_ends L). min (sp_index t) u < e"
    using ih(1) merging_step(2) [OF m] unfolding span_step by blast
  have sub: "set (span_ends L) \<subseteq> set (span_ends ts0) \<union> set (u # us)" using ih(1) unfolding c by (auto split: if_splits)
  have eq: "span_ends (zero_loop mx zb rv ts0 (u # us)) =
    (if rv \<noteq> ?rv \<or> mx \<le> min (sp_index t) u then min (sp_index t) u # span_ends L else span_ends L)"
    unfolding c L_def zero_loop_step Let_def by simp
  have "min (sp_index t) u = mx \<or> mx \<in> set (span_ends L)"
    using merging_step(3,4) [OF m] ih(3) unfolding span_step [symmetric] list.map_disc_iff by (metis order_le_less)
  moreover have "min (sp_index t) u \<in> set (span_ends ts0) \<union> set (u # us)" unfolding c by (auto simp: min_def)
  ultimately show ?case using emit_ok [OF _ _ sub up ih(2) eq] by blast
qed

lemma zero_step_values:
  assumes "sorted_wrt (<) (span_ends (t # ts))" "min (sp_index t) u < i"
  shows "value_at (if sp_index t \<le> u then ts else t # ts) i = value_at (t # ts) i"
  using assms by auto

lemma emit_value:
  assumes "i \<le> m" "m < mx \<Longrightarrow> value_at L i = rv'"
  shows "value_at (if rv \<noteq> rv' \<or> mx \<le> m then \<lparr>sp_index = m, sp_value = rv\<rparr> # L else L) i = rv"
  using assms by auto

lemma zero_loop_values:
  assumes "merging mx (span_ends ts) us" "rv = (if zb then 0 else sp_value (hd ts))" "i \<le> mx" "ts \<noteq> []"
  shows "value_at (zero_loop mx zb rv ts us) i = (if bit_at zb us i then 0 else value_at ts i)"
  using assms
proof (induction "span_ends ts" us arbitrary: ts zb rv rule: merging_induct)
  case (round k ks u us ts0)
  then obtain t ts where c: "ts0 = t # ts" and k: "k = sp_index t" "ks = span_ends ts" by (cases ts0) auto
  note m = round.hyps(1) [unfolded k]
  let ?ts = "if sp_index t \<le> u then ts else t # ts" and ?us = "if u \<le> sp_index t then us else u # us"
  let ?zb = "if u \<le> sp_index t then \<not> zb else zb"
  let ?rv = "if ?ts = [] then rv else if ?zb then 0 else sp_value (hd ?ts)"
  define L where "L = zero_loop mx ?zb ?rv ?ts ?us"
  have eq: "zero_loop mx zb rv ts0 (u # us) =
    (if rv \<noteq> ?rv \<or> mx \<le> min (sp_index t) u then \<lparr>sp_index = min (sp_index t) u, sp_value = rv\<rparr> # L else L)"
    unfolding c L_def zero_loop_step Let_def ..
  have m': "merging mx (span_ends ?ts) ?us" using merging_step(1) [OF m] unfolding span_step .
  note bounds = zero_loop_bounds [OF m', of ?zb ?rv, folded L_def]
  have up: "\<forall>s \<in> set L. min (sp_index t) u < sp_index s"
    using conjunct1 [OF bounds] merging_step(2) [OF m] unfolding span_step set_map by blast
  show ?case
  proof (cases "i \<le> min (sp_index t) u")
    case True
    have "value_at L i = ?rv" if lt: "min (sp_index t) u < mx"
    proof -
      have "?ts \<noteq> []" using merging_step(4) [OF m lt] unfolding span_step [symmetric] list.map_disc_iff .
      then have ne: "L \<noteq> []" using bounds by (auto simp del: if_split)
      then have "sp_value (hd L) = ?rv" unfolding L_def by (rule zero_loop_hd)
      then show ?thesis using value_at_before [OF _ ne, of i] up True by (metis less_imp_le order_trans)
    qed
    then have "value_at (zero_loop mx zb rv ts0 (u # us)) i = rv" unfolding eq by (rule emit_value [OF True])
    then show ?thesis using True round.prems(1) c by simp
  next
    case False
    then have i: "min (sp_index t) u < i" "min (sp_index t) u < mx" using round.prems by auto
    have ne: "?ts \<noteq> []" using merging_step(4) [OF m i(2)] unfolding span_step [symmetric] list.map_disc_iff .
    have "value_at L i = (if bit_at ?zb ?us i then 0 else value_at ?ts i)"
      unfolding L_def by (rule round.hyps(2) [unfolded k]) (use round.prems ne in auto)
    also have "\<dots> = (if bit_at zb (u # us) i then 0 else value_at ts0 i)"
      using zero_step_values [OF _ i(1)] union_step_bits(2) [OF _ _ i(1)] m unfolding merging_def c by (metis list.simps(9))
    finally have ih: "value_at L i = (if bit_at zb (u # us) i then 0 else value_at ts0 i)" .
    have "value_at (if b \<or> mx \<le> min (sp_index t) u then \<lparr>sp_index = min (sp_index t) u, sp_value = rv\<rparr> # L else L) i = value_at L i" for b
      using i False by auto
    then show ?thesis unfolding eq ih [symmetric] .
  qed
qed simp

section \<open>Lists that cover a range\<close>

text \<open>The spans cover the elements \<open>0 .. mx\<close>.\<close>

definition covers :: "int \<Rightarrow> int list \<Rightarrow> bool" where
  "covers mx es \<longleftrightarrow> sorted_wrt (<) es \<and> es \<noteq> [] \<and> 0 \<le> hd es \<and> last es = mx"

lemma covers_merging: "covers mx ts \<Longrightarrow> covers mx us \<Longrightarrow> merging mx ts us"
  by (auto simp: covers_def merging_def)

lemma coversI:
  assumes "sorted_wrt (<) L" "set L \<subseteq> A \<union> B" "\<forall>e \<in> A \<union> B. 0 \<le> e \<and> e \<le> mx" "mx \<in> set L"
  shows "covers mx L"
proof -
  have ne: "L \<noteq> []" using assms(4) by auto
  then have "hd L \<in> A \<union> B" "last L \<in> A \<union> B" using assms(2) hd_in_set last_in_set by blast+
  then show ?thesis using assms ne sorted_last_max [OF assms(1,4)] by (force simp: covers_def)
qed

lemma covers_bounds:
  assumes "covers mx es"
  shows "\<forall>e \<in> set es. 0 \<le> e \<and> e \<le> mx"
proof -
  have "0 \<le> e" if "e \<in> set es" for e using assms that by (cases es) (auto simp: covers_def intro: less_imp_le order_trans)
  then show ?thesis using assms sorted_last_max [of es] by (auto simp: covers_def)
qed

lemma union_covers:
  assumes "covers mx (bs_ends a)" "covers mx (bs_ends b)"
  shows "\<exists>r. spans_union a b = Some r \<and> covers mx (bs_ends r) \<and>
    (\<forall>i \<le> mx. bit_at (startBit r) (bs_ends r) i = (bit_at (startBit a) (bs_ends a) i \<or> bit_at (startBit b) (bs_ends b) i))"
proof -
  note m = covers_merging [OF assms]
  have l: "bs_ends a \<noteq> []" "bs_ends b \<noteq> []" "last (bs_ends a) = mx" "last (bs_ends b) = mx" using assms by (auto simp: covers_def)
  have "covers mx (union_loop mx (startBit a) (startBit b) (startBit a \<or> startBit b) (bs_ends a) (bs_ends b))"
    using coversI [OF union_loop_bounds(2) union_loop_bounds(1) _ union_loop_bounds(3)] m l covers_bounds assms by blast
  then show ?thesis using l union_loop_bits [OF m] by (auto simp: spans_union_def last_opt_def Let_def)
qed

lemma applyZero_covers:
  assumes "covers mx (span_ends sizes)" "covers mx (bs_ends b)"
  shows "\<exists>r. applyZeroValues sizes b = Some r \<and> covers mx (span_ends r) \<and>
    (\<forall>i \<le> mx. value_at r i = (if bit_at (startBit b) (bs_ends b) i then 0 else value_at sizes i))"
proof -
  note m = covers_merging [OF assms]
  have l: "sizes \<noteq> []" "bs_ends b \<noteq> []" "sp_index (last sizes) = mx" "last (bs_ends b) = mx"
    using assms by (auto simp: covers_def last_map)
  let ?r = "zero_loop mx (startBit b) (if startBit b then 0 else sp_value (hd sizes)) sizes (bs_ends b)"
  have "covers mx (span_ends ?r)"
    using zero_loop_bounds [OF m] l covers_bounds [OF assms(1)] covers_bounds [OF assms(2)]
    by (intro coversI [where A = "set (span_ends sizes)" and B = "set (bs_ends b)"]) auto
  moreover have "\<forall>i \<le> mx. value_at ?r i = (if bit_at (startBit b) (bs_ends b) i then 0 else value_at sizes i)"
    using zero_loop_values [OF m refl _ l(1)] by blast
  ultimately show ?thesis using l by (auto simp: applyZeroValues_def last_opt_def)
qed

section \<open>The searches over spans\<close>

definition index_dir :: "('a span_scheme) list \<Rightarrow> int \<Rightarrow> int \<Rightarrow> int" where
  "index_dir spans index k = (if index < span_start spans k then -1 else if sp_index (spans ! nat k) < index then 1 else 0)"

definition field_dir :: "('a span_scheme \<Rightarrow> int) \<Rightarrow> ('a span_scheme) list \<Rightarrow> rat \<Rightarrow> int \<Rightarrow> int" where
  "field_dir field spans v k =
     (if v < of_int (if k > 0 then field (spans ! nat (k - 1)) else 0) then -1
      else if of_int (field (spans ! nat k) - (if k + 1 < int (length spans) then 1 else 0)) < v then 1 else 0)"

lemma searchByIndex_dir: "searchByIndex spans index = binarySearch (int (length spans)) (index_dir spans index) False"
  by (simp add: searchByIndex_def index_dir_def [abs_def])

lemma searchByCustomDataField_dir:
  "searchByCustomDataField field spans v = binarySearch (int (length spans)) (field_dir field spans v) True"
  by (simp add: searchByCustomDataField_def field_dir_def [abs_def] Let_def)

lemma sorted_nth_le:
  assumes "sorted_wrt (\<le>) (xs :: int list)" "i \<le> j" "j < length xs"
  shows "xs ! i \<le> xs ! j"
  using assms by (cases "i = j") (auto simp: sorted_wrt_iff_nth_less)

text \<open>Both providers keep the contract: on increasing ends, and on a field that does not decrease.\<close>

definition index_sorted :: "('a span_scheme) list \<Rightarrow> bool" where
  "index_sorted spans \<longleftrightarrow> sorted_wrt (<) (span_ends spans) \<and> (\<forall>e \<in> set (span_ends spans). 0 \<le> e)"

definition field_sorted :: "('a span_scheme \<Rightarrow> int) \<Rightarrow> ('a span_scheme) list \<Rightarrow> bool" where
  "field_sorted field spans \<longleftrightarrow> sorted_wrt (\<le>) (map field spans) \<and> (\<forall>s \<in> set spans. 0 \<le> field s)"

lemma field_sorted_nth:
  assumes "field_sorted field spans" "b < length spans"
  shows "a \<le> b \<Longrightarrow> field (spans ! a) \<le> field (spans ! b)" "0 \<le> field (spans ! b)"
  using assms sorted_nth_le [of "map field spans" a b] by (auto simp: field_sorted_def)

lemma index_sorted_field: "index_sorted spans \<Longrightarrow> field_sorted sp_index spans"
  by (auto simp: index_sorted_def field_sorted_def intro: sorted_wrt_mono_rel [rotated])

interpretation by_index: directions "int (length spans)"
  "if index_sorted spans then index_dir spans index else (\<lambda>_. 0)" for spans index
proof (unfold_locales, goal_cases)
  case (1 i)
  then show ?case by (auto simp: index_dir_def)
next
  case (2 i j)
  show ?case
  proof (cases "index_sorted spans \<and> i < j")
    case True
    then have l: "nat i \<le> nat j" "nat (i - 1) \<le> nat (j - 1)" "nat i \<le> nat (j - 1)" "nat j < length spans" "nat (j - 1) < length spans"
      using 2 by auto
    note e = field_sorted_nth [OF index_sorted_field]
    show ?thesis
      using True 2 e(1) [OF _ l(4,1)] e(1) [OF _ l(5,2)] e(1) [OF _ l(5,3)] e(2) [OF _ l(4)] e(2) [OF _ l(5)]
      by (auto simp: index_dir_def span_start_def)
  qed (use 2 in auto)
qed

interpretation by_field: directions "int (length spans)"
  "if field_sorted field spans then field_dir field spans v else (\<lambda>_. 0)" for field spans v
proof (unfold_locales, goal_cases)
  case (1 i)
  then show ?case by (auto simp: field_dir_def)
next
  case (2 i j)
  show ?case
  proof (cases "field_sorted field spans \<and> i < j")
    case True
    then have l: "nat i \<le> nat j" "nat (i - 1) \<le> nat (j - 1)" "nat i \<le> nat (j - 1)" "nat j < length spans" "nat (j - 1) < length spans"
      using 2 by auto
    note e = field_sorted_nth [of field spans]
    have "(of_int (field (spans ! nat i)) :: rat) \<le> of_int (field (spans ! nat j))"
      "(of_int (field (spans ! nat (i - 1))) :: rat) \<le> of_int (field (spans ! nat (j - 1)))"
      "(of_int (field (spans ! nat i)) :: rat) \<le> of_int (field (spans ! nat (j - 1)))"
      "(0 :: rat) \<le> of_int (field (spans ! nat j))" "(0 :: rat) \<le> of_int (field (spans ! nat (j - 1)))"
      using True e(1) [OF _ l(4,1)] e(1) [OF _ l(5,2)] e(1) [OF _ l(5,3)] e(2) [OF _ l(4)] e(2) [OF _ l(5)] by auto
    then show ?thesis using True 2 by (auto simp: field_dir_def)
  qed (use 2 in auto)
qed

lemma index_search_found:
  assumes "index_sorted spans" "\<exists>i. 0 \<le> i \<and> i < int (length spans) \<and> index_dir spans index i = 0"
  shows "0 \<le> binarySearch (int (length spans)) (index_dir spans index) False \<and>
    binarySearch (int (length spans)) (index_dir spans index) False < int (length spans) \<and>
    index_dir spans index (binarySearch (int (length spans)) (index_dir spans index) False) = 0"
  using by_index.binarySearch_ok [of spans index False, unfolded if_P [OF assms(1)] if_P [OF assms(2)]] by simp

lemma index_search_none:
  assumes "index_sorted spans" "\<nexists>i. 0 \<le> i \<and> i < int (length spans) \<and> index_dir spans index i = 0"
  shows "binarySearch (int (length spans)) (index_dir spans index) False = -1"
  using by_index.binarySearch_ok [of spans index False, unfolded if_P [OF assms(1)] if_not_P [OF assms(2)]] by simp

lemma field_search_found:
  assumes "field_sorted field spans" "\<exists>i. 0 \<le> i \<and> i < int (length spans) \<and> field_dir field spans v i = 0"
  shows "0 \<le> searchByCustomDataField field spans v" "searchByCustomDataField field spans v < int (length spans)"
    "field_dir field spans v (searchByCustomDataField field spans v) = 0"
    "\<forall>i. 0 \<le> i \<and> i < searchByCustomDataField field spans v \<longrightarrow> field_dir field spans v i = 1"
  using by_field.binarySearch_ok [where field = field and spans = spans and v = v and first = True, unfolded if_P [OF assms(1)] if_P [OF assms(2)]]
  unfolding searchByCustomDataField_dir by auto

lemma exists_span:
  assumes "spans \<noteq> []" "index_sorted spans" "0 \<le> index" "index \<le> sp_index (last spans)"
  shows "\<exists>i. 0 \<le> i \<and> i < int (length spans) \<and> index_dir spans index i = 0"
proof -
  let ?P = "\<lambda>k. k < length spans \<and> index \<le> sp_index (spans ! k)"
  have ex: "?P (length spans - 1)" using assms by (simp add: last_conv_nth)
  define k where "k = (LEAST k. ?P k)"
  have k: "?P k" unfolding k_def by (rule LeastI [of ?P, OF ex])
  have "sp_index (spans ! (k - 1)) < index" if "0 < k"
    using not_less_Least [of "k - 1" ?P, folded k_def] that k by (simp add: not_le less_imp_diff_less)
  then show ?thesis using k assms(3) by (intro exI [of _ "int k"]) (auto simp: index_dir_def span_start_def nat_diff_distrib)
qed

lemma exists_field_span:
  assumes "spans \<noteq> []" "field_sorted field spans" "0 \<le> v" "v \<le> field (last spans)"
  shows "\<exists>i. 0 \<le> i \<and> i < int (length spans) \<and> field_dir field spans (of_int v) i = 0"
proof -
  let ?P = "\<lambda>k. k < length spans \<and> (v < field (spans ! k) \<or> Suc k = length spans)"
  have ex: "?P (length spans - 1)" using assms by (cases spans) auto
  define k where "k = (LEAST k. ?P k)"
  have k: "?P k" unfolding k_def by (rule LeastI [of ?P, OF ex])
  have "field (spans ! (k - 1)) \<le> v" if "0 < k"
    using not_less_Least [of "k - 1" ?P, folded k_def] that k by auto
  moreover have "Suc k = length spans \<Longrightarrow> v \<le> field (spans ! k)" using assms by (metis diff_Suc_1 last_conv_nth)
  ultimately show ?thesis using k assms(3) by (intro exI [of _ "int k"], cases "k = 0") (auto simp: field_dir_def nat_diff_distrib)
qed

lemma covers_index_sorted: "covers mx (span_ends spans) \<Longrightarrow> index_sorted spans"
  using covers_bounds [of mx "span_ends spans"] by (auto simp: index_sorted_def covers_def)

lemma searchByIndex_in:
  assumes "covers mx (span_ends spans)" "0 \<le> index" "index \<le> mx"
  shows "0 \<le> searchByIndex spans index" "searchByIndex spans index < int (length spans)"
    "span_start spans (searchByIndex spans index) \<le> index" "index \<le> sp_index (spans ! nat (searchByIndex spans index))"
proof -
  have s: "index_sorted spans" "spans \<noteq> []" "sp_index (last spans) = mx"
    using assms(1) covers_index_sorted by (auto simp: covers_def last_map)
  have "0 \<le> searchByIndex spans index \<and> searchByIndex spans index < int (length spans) \<and>
    index_dir spans index (searchByIndex spans index) = 0"
    unfolding searchByIndex_dir using exists_span [of spans index] s assms by (intro index_search_found) auto
  then show "0 \<le> searchByIndex spans index" "searchByIndex spans index < int (length spans)"
    "span_start spans (searchByIndex spans index) \<le> index" "index \<le> sp_index (spans ! nat (searchByIndex spans index))"
    by (auto simp: index_dir_def split: if_splits)
qed

lemma searchByIndex_out:
  assumes "covers mx (span_ends spans)" "index < 0 \<or> mx < index"
  shows "searchByIndex spans index = -1"
proof -
  have s: "index_sorted spans" using assms(1) by (rule covers_index_sorted)
  have "index_dir spans index i \<noteq> 0" if "0 \<le> i" "i < int (length spans)" for i
  proof -
    have "sp_index (spans ! nat i) \<le> mx" using covers_bounds [OF assms(1)] that by auto
    moreover have "0 < i \<Longrightarrow> 0 \<le> sp_index (spans ! nat (i - 1))" using covers_bounds [OF assms(1)] that by auto
    ultimately show ?thesis using assms(2) by (auto simp: index_dir_def span_start_def)
  qed
  then show ?thesis unfolding searchByIndex_dir using s by (intro index_search_none) auto
qed

text \<open>The value of an element is that of the span found for it.\<close>

lemma value_at_nth:
  assumes "sorted_wrt (<) (span_ends spans)" "k < length spans" "0 < k \<Longrightarrow> sp_index (spans ! (k - 1)) < i" "i \<le> sp_index (spans ! k)"
  shows "value_at spans i = sp_value (spans ! k)"
  using assms
proof (induction spans arbitrary: k)
  case (Cons s ss)
  show ?case
  proof (cases k)
    case (Suc n)
    have "value_at ss i = sp_value (ss ! n)"
      by (rule Cons.IH) (use Cons.prems Suc in \<open>auto simp: nth_Cons'\<close>)
    moreover have "sp_index s < i"
      using Cons.prems Suc by (cases n) (auto simp: nth_Cons' intro: order.strict_trans)
    ultimately show ?thesis using Suc by simp
  qed (use Cons.prems in auto)
qed simp

lemma searchByIndex_value:
  assumes "covers mx (span_ends spans)" "0 \<le> index" "index \<le> mx"
  shows "value_at spans index = sp_value (spans ! nat (searchByIndex spans index))"
  using searchByIndex_in [OF assms] assms(1)
  by (intro value_at_nth) (auto simp: covers_def span_start_def nat_diff_distrib split: if_splits)

lemma span_start_bounds:
  assumes "covers mx (span_ends spans)" "0 \<le> k" "k < int (length spans)"
  shows "0 \<le> span_start spans k" "sp_index (spans ! nat k) \<le> mx" "span_start spans k \<le> sp_index (spans ! nat k)"
proof -
  show "0 \<le> span_start spans k" "sp_index (spans ! nat k) \<le> mx"
    using covers_bounds [OF assms(1)] assms(2,3) by (auto simp: span_start_def)
  have "sp_index (spans ! nat (k - 1)) < sp_index (spans ! nat k)" if "0 < k"
    using assms that by (auto simp: covers_def sorted_wrt_iff_nth_less)
  moreover have "0 \<le> sp_index (spans ! nat k)" using covers_bounds [OF assms(1)] assms(2,3) by auto
  ultimately show "span_start spans k \<le> sp_index (spans ! nat k)" by (auto simp: span_start_def)
qed

text \<open>The span of an element is the only one that holds it.\<close>

lemma span_unique:
  assumes "covers mx (span_ends spans)" "0 \<le> k" "k < int (length spans)" "0 \<le> l" "l < int (length spans)"
    "span_start spans k \<le> i" "i \<le> sp_index (spans ! nat k)" "span_start spans l \<le> i" "i \<le> sp_index (spans ! nat l)"
  shows "k = l"
proof -
  have le: "sp_index (spans ! nat a) \<le> sp_index (spans ! nat (b - 1))" if "0 \<le> a" "a < b" "b < int (length spans)" for a b
    using field_sorted_nth(1) [OF index_sorted_field [OF covers_index_sorted [OF assms(1)]]] that by simp
  show ?thesis
    using le [of k l] le [of l k] assms(2-) by (cases k l rule: linorder_cases) (auto simp: span_start_def split: if_splits)
qed

lemma searchByIndex_eq:
  assumes "covers mx (span_ends spans)" "0 \<le> k" "k < int (length spans)" "span_start spans k \<le> i" "i \<le> sp_index (spans ! nat k)"
  shows "searchByIndex spans i = k"
proof -
  have "0 \<le> i" "i \<le> mx" using span_start_bounds [OF assms(1-3)] assms(4,5) by auto
  then show ?thesis using searchByIndex_in [OF assms(1)] span_unique [OF assms(1) _ _ assms(2,3) _ _ assms(4,5)] by blast
qed

section \<open>Encodings\<close>

text \<open>How spans are written: each followed by a blank.\<close>

definition print_spans :: "span list \<Rightarrow> string" where
  "print_spans ss = concat (map (\<lambda>s. show_int (sp_value s) @ '':'' @ show_int (sp_index s) @ '' '') ss)"

definition print_bool_spans :: "bool_spans \<Rightarrow> string" where
  "print_bool_spans b = (if startBit b then ''1:'' else ''0:'') @ concat (map (\<lambda>e. show_int e @ '' '') (bs_ends b))"

lemma split_on_concat:
  assumes "\<forall>t \<in> set ts. c \<notin> set t"
  shows "split_on c (concat (map (\<lambda>t. t @ [c]) ts)) = ts @ [[]]"
  using assms by (induction ts) (auto simp: split_on_append_sep)

lemma map_all_map: "(\<And>x. x \<in> set xs \<Longrightarrow> f (g x) = Some (h x)) \<Longrightarrow> map_all f (map g xs) = Some (map h xs)"
  by (induction xs) auto

lemma show_int_no_sep: "c \<in> {CHR '' '', CHR '':''} \<Longrightarrow> c \<notin> set (show_int n)"
  using show_int_chars [of c n] by (auto simp: is_digit_def)

lemma parse_num_show [simp]: "parse_num (show_int n) = Some n"
  by (simp add: parse_num_def parseInt_show_int)

lemma parse_print_spans:
  assumes "ss \<noteq> []"
  shows "parseSpanList (print_spans ss) = Some ss"
proof -
  let ?tok = "\<lambda>s. show_int (sp_value s) @ '':'' @ show_int (sp_index s)"
  have "print_spans ss = concat (map (\<lambda>t. t @ '' '') (map ?tok ss))" by (simp add: print_spans_def o_def)
  then have "split_on (CHR '' '') (print_spans ss) = map ?tok ss @ [[]]"
    by (simp only:) (rule split_on_concat, auto simp: show_int_no_sep)
  moreover have "parse_span (?tok s) = Some s" for s :: span
    by (simp add: parse_span_def split_on_append_sep split_on_no_sep show_int_no_sep)
  ultimately show ?thesis using assms map_all_map [of ss parse_span ?tok "\<lambda>s. s"] by (cases ss) (simp_all add: parseSpanList_def)
qed

lemma parse_print_bool_spans:
  assumes "bs_ends b \<noteq> []"
  shows "parseBoolSpanList (print_bool_spans b) = Some b"
proof -
  obtain e es where e: "bs_ends b = e # es" using assms by (cases "bs_ends b") auto
  define n :: int where "n = (if startBit b then 1 else 0)"
  define toks where "toks = (show_int n @ '':'' @ show_int e) # map show_int es"
  have "show_int 1 = ''1''" "show_int 0 = ''0''" by code_simp+
  then have "(if startBit b then ''1:'' else ''0:'') = show_int n @ '':''" by (simp add: n_def)
  then have "print_bool_spans b = concat (map (\<lambda>t. t @ '' '') toks)" by (simp add: print_bool_spans_def e toks_def o_def)
  then have s: "split_on (CHR '' '') (print_bool_spans b) = toks @ [[]]"
    by (simp only:) (rule split_on_concat, auto simp: toks_def show_int_no_sep)
  have hd: "split_on (CHR '':'') (hd toks) = [show_int n, show_int e]"
    by (simp add: toks_def split_on_append_sep split_on_no_sep show_int_no_sep)
  have rest: "map_all parse_num (tl toks) = Some es" using map_all_map [of es parse_num show_int "\<lambda>x. x"] by (simp add: toks_def)
  have "toks \<noteq> []" "(n \<noteq> 0) = startBit b" by (simp_all add: toks_def n_def)
  then show ?thesis using e by (simp add: parseBoolSpanList_def s hd rest Let_def Suc_le_eq not_less)
qed

text \<open>
  The spans read back from their encoding are the spans that were written, for sizes and for hidden or filtered
  elements.
\<close>

lemma span_encoding_roundtrip:
  assumes "ss \<noteq> []" "bs_ends b \<noteq> []"
  shows "parseSpanList (print_spans ss) = Some ss \<and> parseBoolSpanList (print_bool_spans b) = Some b"
  using parse_print_spans [OF assms(1)] parse_print_bool_spans [OF assms(2)] by simp

lemma span_encoding_roundtrip_witness:
  "parseSpanList (print_spans [\<lparr>sp_index = 9, sp_value = 300\<rparr>]) = Some [\<lparr>sp_index = 9, sp_value = 300\<rparr>] \<and>
   parseBoolSpanList (print_bool_spans \<lparr>startBit = True, bs_ends = [1, 9]\<rparr>) = Some \<lparr>startBit = True, bs_ends = [1, 9]\<rparr>"
  by (rule span_encoding_roundtrip) simp_all

end
