(* ===== verification/Sheet_Geometry.thy ===== *)
theory Sheet_Geometry
  imports Span_List Geometry
begin

text \<open>
  The geometry of a sheet (layer/tile/SheetGeometry.ts): \<open>SheetDimension\<close> keeps the sizes of the rows or of
  the columns and answers where an element is and which element is at a position, \<open>DimensionOutlines\<close>
  keeps the groups, \<open>SheetGeometry\<close> pairs the two dimensions.

  \<^item> Sizes, indexes and pixel positions are \<open>int\<close>; the twips of a pixel, zoom factors and positions
    handed in are \<open>rat\<close>, without the rounding of doubles.
  \<^item> \<open>undefined\<close> is \<open>None\<close>; reading a property of it is the outcome \<open>Inl TypeError\<close>.
  \<^item> An index or position that comes out of 0 / 0 is \<open>NaN\<close>: \<open>None\<close> in an \<open>int option\<close> that holds a number.
\<close>

named_theorems dim_defs "definitions of sheet dimensions"

datatype dim_error = TypeError

datatype geometry_unit = CorePixels | TileTwips | PrintTwips | OtherUnit

text \<open>A span with the custom data of \<open>_updatePositions\<close>: the positions are those of its end.\<close>

record vspan = span +
  sizecore :: int
  poscorepx :: int
  postiletwips :: int
  posprinttwips :: int

record span_view = vspan +
  sv_start :: int

record outline_entry =
  oe_start :: int
  oe_end :: int
  oe_hidden :: int
  oe_visible :: int

record sheet_dim =
  d_sizes :: "span list"
  d_hidden :: bool_spans
  d_filtered :: bool_spans
  d_outlines :: "outline_entry list list"
  visibleSizes :: "vspan list option"
  maxIndex :: int
  d_tileSize :: "(rat \<times> rat) option"
  coreZoomFactor :: rat
  twipsPerCorePixel :: rat
  viewRange :: "(int option \<times> int option) option"

record pos_size =
  startpos :: "int option"
  ps_size :: int

record dim_json =
  j_sizes :: "string option"
  j_hidden :: "string option"
  j_filtered :: "string option"
  j_groups :: "string option"

section \<open>Outlines\<close>

definition parse_outline_entry :: "string \<Rightarrow> outline_entry option" where
  [dim_defs]: "parse_outline_entry t =
     (case split_on (CHR '':'') t of
        a # b # c # d # _ \<Rightarrow>
          (case (parse_num a, parse_num b, parse_num c, parse_num d) of
             (Some start, Some n, Some hid, Some visible) \<Rightarrow>
               Some \<lparr>oe_start = start, oe_end = n + (start - 1), oe_hidden = hid, oe_visible = visible\<rparr>
           | _ \<Rightarrow> None)
      | _ \<Rightarrow> None)"

definition parse_outline_level :: "string \<Rightarrow> outline_entry list option" where
  [dim_defs]: "parse_outline_level level =
     (let collectionSplits = split_on (CHR '','') level
      in if length collectionSplits < 2 then None else map_all parse_outline_entry (butlast collectionSplits))"

definition outlines_load :: "string \<Rightarrow> outline_entry list list option" where
  [dim_defs]: "outlines_load encoding =
     (let levels = split_on (CHR '' '') encoding
      in if length levels < 2 then Some [] else map_all parse_outline_level (butlast levels))"

definition group_dir :: "outline_entry list \<Rightarrow> int \<Rightarrow> int \<Rightarrow> int" where
  [dim_defs]: "group_dir groups elementIdx k =
     (let curGroup = groups ! nat k;
          direction = (if elementIdx < oe_start curGroup then -1 else if oe_end curGroup < elementIdx then 1 else 0)
      in if direction \<ge> 0 then direction
         else if k = 0 \<or> oe_end (groups ! nat (k - 1)) < elementIdx then 0 else -1)"

text \<open>Comparison with a number that may be \<open>NaN\<close>.\<close>

definition num_less :: "int option \<Rightarrow> int \<Rightarrow> bool" where
  [dim_defs]: "num_less x n = (case x of None \<Rightarrow> False | Some m \<Rightarrow> m < n)"

text \<open>The calls of the callback in one level: index in the level, and group.\<close>

definition groups_in_level :: "outline_entry list \<Rightarrow> int \<Rightarrow> int option \<Rightarrow> (nat \<times> outline_entry) list" where
  [dim_defs]: "groups_in_level groups start end =
     (let startGroupIdx = binarySearch (int (length groups)) (group_dir groups start) False
      in if startGroupIdx = -1 then []
         else if num_less end (oe_start (groups ! nat startGroupIdx)) then []
         else filter (\<lambda>(k, g). \<not> num_less end (oe_start g)) (map (\<lambda>k. (k, groups ! k)) [nat startGroupIdx..<length groups]))"

text \<open>The last level comes first.\<close>

definition forEachGroupInRange :: "outline_entry list list \<Rightarrow> int \<Rightarrow> int option \<Rightarrow> (nat \<times> nat \<times> outline_entry) list" where
  [dim_defs]: "forEachGroupInRange outlines start end =
     (if outlines = [] \<or> num_less end start then []
      else concat (map (\<lambda>levelIdx. map (\<lambda>(k, g). (levelIdx, k, g)) (groups_in_level (outlines ! levelIdx) start end))
             (rev [0..<length outlines])))"

section \<open>Loading a dimension\<close>

definition new_dimension :: sheet_dim where
  [dim_defs]: "new_dimension =
     \<lparr>d_sizes = [], d_hidden = \<lparr>startBit = False, bs_ends = []\<rparr>, d_filtered = \<lparr>startBit = False, bs_ends = []\<rparr>,
      d_outlines = [], visibleSizes = None, maxIndex = 0, d_tileSize = None, coreZoomFactor = 0,
      twipsPerCorePixel = 0, viewRange = None\<rparr>"

text \<open>The loop of \<open>addCustomDataForEachSpan\<close> with the callback of \<open>_updatePositions\<close>.\<close>

fun add_positions :: "rat \<Rightarrow> int \<Rightarrow> int \<Rightarrow> int \<Rightarrow> ('a span_scheme) list \<Rightarrow> vspan list" where
  "add_positions tpcp prevIndex posCorePx posPrintTwips [] = []"
| "add_positions tpcp prevIndex posCorePx posPrintTwips (s # ss) =
     (let spanLength = sp_index s - prevIndex;
          sizeCorePxOne = \<lfloor>of_int (sp_value s) / tpcp\<rfloor>;
          px = posCorePx + sizeCorePxOne * spanLength;
          pt = posPrintTwips + sp_value s * spanLength
      in \<lparr>sp_index = sp_index s, sp_value = sp_value s, sizecore = sizeCorePxOne, poscorepx = px,
          postiletwips = \<lfloor>of_int px * tpcp\<rfloor>, posprinttwips = pt\<rparr> # add_positions tpcp (sp_index s) px pt ss)"

definition updatePositions :: "sheet_dim \<Rightarrow> sheet_dim \<times> (dim_error + unit)" where
  [dim_defs]: "updatePositions d =
     (case visibleSizes d of
        None \<Rightarrow> (d, Inl TypeError)
      | Some vs \<Rightarrow> (d\<lparr>visibleSizes := Some (add_positions (twipsPerCorePixel d) (-1) 0 0 vs)\<rparr>, Inr ()))"

text \<open>
  \<open>_visibleSizes\<close> is assigned and then its data filled in; without sizes \<open>applyZeroValues\<close> fails before
  the assignment.
\<close>

definition updateVisible :: "sheet_dim \<Rightarrow> sheet_dim \<times> (dim_error + unit)" where
  [dim_defs]: "updateVisible d =
     (case spans_union (d_hidden d) (d_filtered d) of
        None \<Rightarrow> updatePositions (d\<lparr>visibleSizes := None\<rparr>)
      | Some invisible \<Rightarrow>
          if d_sizes d = [] then (d, Inl TypeError)
          else updatePositions (d\<lparr>visibleSizes :=
                 map_option (add_positions (twipsPerCorePixel d) (-1) 0 0) (applyZeroValues (d_sizes d) invisible)\<rparr>))"

definition dim_update :: "sheet_dim \<Rightarrow> dim_json \<Rightarrow> sheet_dim \<times> (dim_error + bool)" where
  [dim_defs]: "dim_update d j =
     (let (d1, ok1) = (case j_sizes j of None \<Rightarrow> (d, True)
                       | Some e \<Rightarrow> (case parseSpanList e of None \<Rightarrow> (d, False) | Some ss \<Rightarrow> (d\<lparr>d_sizes := ss\<rparr>, True)));
          (d2, ok2) = (case j_hidden j of None \<Rightarrow> (d1, True)
                       | Some e \<Rightarrow> (case parseBoolSpanList e of None \<Rightarrow> (d1, False) | Some b \<Rightarrow> (d1\<lparr>d_hidden := b\<rparr>, True)));
          (d3, ok3) = (case j_filtered j of None \<Rightarrow> (d2, True)
                       | Some e \<Rightarrow> (case parseBoolSpanList e of None \<Rightarrow> (d2, False) | Some b \<Rightarrow> (d2\<lparr>d_filtered := b\<rparr>, True)));
          (d4, ok4) = (case j_groups j of None \<Rightarrow> (d3, True)
                       | Some e \<Rightarrow> (case outlines_load e of None \<Rightarrow> (d3, False) | Some os \<Rightarrow> (d3\<lparr>d_outlines := os\<rparr>, True)));
          loadsOK = (ok1 \<and> ok2 \<and> ok3 \<and> ok4);
          regenerate = (j_sizes j \<noteq> None \<or> j_hidden j \<noteq> None \<or> j_filtered j \<noteq> None)
      in if loadsOK \<and> regenerate
         then (case updateVisible d4 of (d5, Inl e) \<Rightarrow> (d5, Inl e) | (d5, Inr _) \<Rightarrow> (d5, Inr True))
         else (d4, Inr loadsOK))"

definition setMaxIndex :: "int \<Rightarrow> sheet_dim \<Rightarrow> sheet_dim" where
  [dim_defs]: "setMaxIndex m d = d\<lparr>maxIndex := m\<rparr>"

definition dim_setTileGeometryData :: "rat \<Rightarrow> rat \<Rightarrow> bool \<Rightarrow> sheet_dim \<Rightarrow> sheet_dim \<times> (dim_error + unit)" where
  [dim_defs]: "dim_setTileGeometryData tileSizeTwips tileSizePixels withPositions d =
     (if d_tileSize d = Some (tileSizeTwips, tileSizePixels) then (d, Inr ())
      else
        (let d' = d\<lparr>d_tileSize := Some (tileSizeTwips, tileSizePixels),
                    coreZoomFactor := tileSizePixels * 15 / tileSizeTwips,
                    twipsPerCorePixel := tileSizeTwips / tileSizePixels\<rparr>
         in if withPositions then updatePositions d' else (d', Inr ())))"

section \<open>Elements and positions\<close>

definition getSpanData :: "vspan list \<Rightarrow> int \<Rightarrow> span_view" where
  [dim_defs]: "getSpanData vs spanid =
     (let s = vs ! nat spanid
      in \<lparr>sp_index = sp_index s, sp_value = sp_value s, sizecore = sizecore s, poscorepx = poscorepx s,
          postiletwips = postiletwips s, posprinttwips = posprinttwips s, sv_start = span_start vs spanid\<rparr>)"

definition getSpanDataByIndex :: "vspan list \<Rightarrow> int \<Rightarrow> span_view option" where
  [dim_defs]: "getSpanDataByIndex vs index =
     (let spanid = searchByIndex vs index in if spanid = -1 then None else Some (getSpanData vs spanid))"

definition getSpanDataByCustomDataField :: "(vspan \<Rightarrow> int) \<Rightarrow> vspan list \<Rightarrow> rat \<Rightarrow> span_view option" where
  [dim_defs]: "getSpanDataByCustomDataField field vs v =
     (let spanid = searchByCustomDataField field vs v in if spanid = -1 then None else Some (getSpanData vs spanid))"

function span_loop :: "vspan list \<Rightarrow> int \<Rightarrow> int \<Rightarrow> span_view list" where
  "span_loop vs end spanid =
     (let s = getSpanData vs spanid
      in s # (if 0 \<le> spanid \<and> spanid + 1 < int (length vs) \<and> sp_index s \<le> end then span_loop vs end (spanid + 1) else []))"
  by pat_completeness auto
termination
  by (relation "measure (\<lambda>(vs, end, spanid). nat (int (length vs) - spanid))") auto

declare span_loop.simps [simp del]

definition forEachSpanInRange :: "vspan list \<Rightarrow> int \<Rightarrow> int \<Rightarrow> span_view list" where
  [dim_defs]: "forEachSpanInRange vs start end =
     (if start > end then []
      else (let spanid = searchByIndex vs start in if spanid = -1 then [] else span_loop vs end spanid))"

definition forEachSpan :: "vspan list \<Rightarrow> span_view list" where
  [dim_defs]: "forEachSpan vs = map (\<lambda>spanid. getSpanData vs (int spanid)) [0..<length vs]"

text \<open>Comparisons with \<open>NaN\<close> fail, so a \<open>NaN\<close> index passes the guard.\<close>

definition elementDataAnyFromSpan :: "rat \<Rightarrow> int option \<Rightarrow> span_view option \<Rightarrow> geometry_unit \<Rightarrow> pos_size option" where
  [dim_defs]: "elementDataAnyFromSpan tpcp index sv unitName =
     (case sv of
        None \<Rightarrow> None
      | Some s \<Rightarrow>
          if (case index of Some i \<Rightarrow> i < sv_start s \<or> sp_index s < i | None \<Rightarrow> False) then None
          else
            (let numSizes = map_option (\<lambda>i. sp_index s - i + 1) index
             in case unitName of
                  OtherUnit \<Rightarrow> None
                | CorePixels \<Rightarrow>
                    Some \<lparr>startpos = map_option (\<lambda>n. poscorepx s - sizecore s * n) numSizes, ps_size = sizecore s\<rparr>
                | PrintTwips \<Rightarrow>
                    Some \<lparr>startpos = map_option (\<lambda>n. posprinttwips s - sp_value s * n) numSizes, ps_size = sp_value s\<rparr>
                | TileTwips \<Rightarrow>
                    Some \<lparr>startpos = map_option (\<lambda>n. \<lfloor>of_int (poscorepx s - sizecore s * n) * tpcp\<rfloor>) numSizes,
                          ps_size = \<lfloor>of_int (sizecore s) * tpcp\<rfloor>\<rparr>))"

text \<open>The functions below read \<open>_visibleSizes\<close> first.\<close>

definition with_sizes :: "sheet_dim \<Rightarrow> (vspan list \<Rightarrow> dim_error + 'a) \<Rightarrow> dim_error + 'a" where
  [dim_defs]: "with_sizes d f = (case visibleSizes d of None \<Rightarrow> Inl TypeError | Some vs \<Rightarrow> f vs)"

definition getElementDataAny :: "sheet_dim \<Rightarrow> int \<Rightarrow> geometry_unit \<Rightarrow> dim_error + pos_size option" where
  [dim_defs]: "getElementDataAny d index unitName =
     with_sizes d (\<lambda>vs. Inr (elementDataAnyFromSpan (twipsPerCorePixel d) (Some index) (getSpanDataByIndex vs index) unitName))"

definition element_at_zoom :: "int \<Rightarrow> rat \<Rightarrow> span_view \<Rightarrow> int \<times> int \<Rightarrow> int \<times> int" where
  [dim_defs]: "element_at_zoom index zscale s acc =
     (let (start, size') = acc;
          n = sp_index s - sv_start s + 1;
          sizeOneCorePx = \<lfloor>of_int (sp_value s) * zscale / 15\<rfloor>
      in if index > sp_index s then (start + sizeOneCorePx * n, size')
         else if index \<ge> sv_start s \<and> index \<le> sp_index s then (start + sizeOneCorePx * (index - sv_start s), sizeOneCorePx)
         else (start, size'))"

definition getElementData :: "sheet_dim \<Rightarrow> int \<Rightarrow> rat option \<Rightarrow> dim_error + pos_size option" where
  [dim_defs]: "getElementData d index zscale =
     (case zscale of
        Some z \<Rightarrow> with_sizes d (\<lambda>vs.
          let (start, size') = fold (element_at_zoom index z) (forEachSpanInRange vs 0 index) (0, 0)
          in Inr (Some \<lparr>startpos = Some start, ps_size = size'\<rparr>))
      | None \<Rightarrow> getElementDataAny d index CorePixels)"

definition forEachInRange :: "sheet_dim \<Rightarrow> int \<Rightarrow> int \<Rightarrow> dim_error + (int \<times> pos_size option) list" where
  [dim_defs]: "forEachInRange d start end =
     with_sizes d (\<lambda>vs. Inr (concat (map (\<lambda>s.
        map (\<lambda>index. (index, elementDataAnyFromSpan (twipsPerCorePixel d) (Some index) (Some s) CorePixels))
          [max (sv_start s) start..min (sp_index s) end]) (forEachSpanInRange vs start end))))"

text \<open>The operator \<open>%\<close> for a positive divisor takes the sign of the dividend.\<close>

definition js_rem :: "int \<Rightarrow> int \<Rightarrow> int" where
  [dim_defs]: "js_rem x y = (if x \<ge> 0 then x mod y else - ((- x) mod y))"

function line_loop :: "int \<Rightarrow> int \<Rightarrow> int \<Rightarrow> int \<Rightarrow> (int \<times> int) list" where
  "line_loop size' lastCorePx pos index =
     (if size' > 0 \<and> pos \<le> lastCorePx then (pos, index) # line_loop size' lastCorePx (pos + size') (index + 1) else [])"
  by pat_completeness auto
termination
  by (relation "measure (\<lambda>(size', lastCorePx, pos, index). nat (lastCorePx + 1 - pos))") auto

declare line_loop.simps [simp del]

text \<open>
  For elements of no size the first position is \<open>NaN\<close> and the loop does not run. Sizes are never negative.
\<close>

definition lines_of_span :: "int \<Rightarrow> int \<Rightarrow> span_view \<Rightarrow> (int \<times> int) list" where
  [dim_defs]: "lines_of_span startPix endPix s =
     (let spanFirstCorePx = poscorepx s - sizecore s * (sp_index s - sv_start s + 1)
      in if spanFirstCorePx < endPix \<and> poscorepx s > startPix \<and> sizecore s \<noteq> 0
         then
           (let firstCorePx = max spanFirstCorePx (startPix + sizecore s - js_rem (startPix - spanFirstCorePx) (sizecore s));
                lastCorePx = min endPix (poscorepx s);
                index = sv_start s + (firstCorePx - spanFirstCorePx) div sizecore s
            in line_loop (sizecore s) lastCorePx firstCorePx index)
         else [])"

definition forEachInCorePixelRange :: "sheet_dim \<Rightarrow> int \<Rightarrow> int \<Rightarrow> dim_error + (int \<times> int) list" where
  [dim_defs]: "forEachInCorePixelRange d startPix endPix =
     with_sizes d (\<lambda>vs. Inr (concat (map (lines_of_span startPix endPix) (forEachSpan vs))))"

section \<open>From positions to elements\<close>

definition index_beyond :: "sheet_dim \<Rightarrow> vspan list \<Rightarrow> rat \<Rightarrow> int option \<times> span_view option" where
  [dim_defs]: "index_beyond d vs pos =
     (let index = (if pos \<ge> 0 then maxIndex d else 0) in (Some index, getSpanDataByIndex vs index))"

text \<open>
  The search only returns a span without extent when \<open>pos\<close> is its start, so a division by zero is 0 / 0.
\<close>

definition relative_index :: "span_view \<Rightarrow> rat \<Rightarrow> rat \<Rightarrow> rat \<Rightarrow> int option" where
  [dim_defs]: "relative_index s pos posStart sizeOne =
     (if sizeOne = 0 then None else Some (sv_start s + \<lfloor>(pos - posStart) / sizeOne\<rfloor>))"

definition spanAndIndexFromTileTwips :: "sheet_dim \<Rightarrow> vspan list \<Rightarrow> rat \<Rightarrow> int option \<times> span_view option" where
  [dim_defs]: "spanAndIndexFromTileTwips d vs pos =
     (case getSpanDataByCustomDataField postiletwips vs pos of
        None \<Rightarrow> index_beyond d vs pos
      | Some s \<Rightarrow>
          (let elementCount = sp_index s - sv_start s + 1;
               posStart = of_int (poscorepx s - sizecore s * elementCount) * twipsPerCorePixel d;
               posEnd = of_int (postiletwips s);
               sizeOne = (posEnd - posStart) / of_int elementCount
           in (relative_index s pos posStart sizeOne, Some s)))"

definition spanAndIndexFromPrintTwips :: "sheet_dim \<Rightarrow> vspan list \<Rightarrow> rat \<Rightarrow> int option \<times> span_view option" where
  [dim_defs]: "spanAndIndexFromPrintTwips d vs pos =
     (case getSpanDataByCustomDataField posprinttwips vs pos of
        None \<Rightarrow> index_beyond d vs pos
      | Some s \<Rightarrow>
          (let elementCount = sp_index s - sv_start s + 1;
               posStart = of_int (posprinttwips s - sp_value s * elementCount)
           in (relative_index s pos posStart (of_int (sp_value s)), Some s)))"

text \<open>\<open>Math.max\<close> and \<open>Math.min\<close> of \<open>NaN\<close> are \<open>NaN\<close>.\<close>

definition setViewLimits :: "rat \<Rightarrow> rat \<Rightarrow> sheet_dim \<Rightarrow> dim_error + sheet_dim" where
  [dim_defs]: "setViewLimits startPosTileTwips endPosTileTwips d =
     with_sizes d (\<lambda>vs. Inr
       (d\<lparr>viewRange := Some
          (map_option (max 0) (fst (spanAndIndexFromTileTwips d vs startPosTileTwips)),
           map_option (min (maxIndex d)) (fst (spanAndIndexFromTileTwips d vs endPosTileTwips)))\<rparr>))"

definition getIndexFromPos :: "sheet_dim \<Rightarrow> rat \<Rightarrow> geometry_unit \<Rightarrow> dim_error + int option" where
  [dim_defs]: "getIndexFromPos d pos u =
     with_sizes d (\<lambda>vs. Inr (fst (case u of
        CorePixels \<Rightarrow> spanAndIndexFromTileTwips d vs (pos * twipsPerCorePixel d)
      | TileTwips \<Rightarrow> spanAndIndexFromTileTwips d vs pos
      | _ \<Rightarrow> spanAndIndexFromPrintTwips d vs pos)))"

definition data_startpos :: "pos_size option \<Rightarrow> dim_error + int option" where
  [dim_defs]: "data_startpos data = (case data of None \<Rightarrow> Inl TypeError | Some p \<Rightarrow> Inr (startpos p))"

definition getSnapPos :: "sheet_dim \<Rightarrow> rat \<Rightarrow> geometry_unit \<Rightarrow> dim_error + int option" where
  [dim_defs]: "getSnapPos d pos u =
     with_sizes d (\<lambda>vs.
       let (index, sv) = (case u of
              CorePixels \<Rightarrow> spanAndIndexFromTileTwips d vs (pos * twipsPerCorePixel d)
            | TileTwips \<Rightarrow> spanAndIndexFromTileTwips d vs pos
            | _ \<Rightarrow> spanAndIndexFromPrintTwips d vs pos)
       in data_startpos (elementDataAnyFromSpan (twipsPerCorePixel d) index sv u))"

definition dim_getSize :: "sheet_dim \<Rightarrow> geometry_unit \<Rightarrow> dim_error + int option" where
  [dim_defs]: "dim_getSize d u =
     (case getElementDataAny d (maxIndex d) u of
        Inl e \<Rightarrow> Inl e
      | Inr None \<Rightarrow> Inr None
      | Inr (Some p) \<Rightarrow> Inr (map_option (\<lambda>x. x + ps_size p) (startpos p)))"

section \<open>Conversions\<close>

text \<open>The start in one unit plus the offset from the start in the other.\<close>

definition move_offset :: "pos_size option \<Rightarrow> pos_size option \<Rightarrow> rat \<Rightarrow> dim_error + rat option" where
  [dim_defs]: "move_offset from to pos =
     (case (from, to) of
        (Some f, Some t) \<Rightarrow>
          Inr (case (startpos f, startpos t) of (Some x, Some y) \<Rightarrow> Some (of_int y + (pos - of_int x)) | _ \<Rightarrow> None)
      | _ \<Rightarrow> Inl TypeError)"

definition print_to_tile_step :: "rat \<Rightarrow> rat \<Rightarrow> span_view \<Rightarrow> rat \<times> rat \<Rightarrow> rat \<times> rat" where
  [dim_defs]: "print_to_tile_step posPT zscale s acc =
     (let (posTT, posPTInc) = acc;
          n = sp_index s - sv_start s + 1;
          sizeSpanPT = of_int (sp_value s * n);
          sizeOneCorePx = \<lfloor>of_int (sp_value s) * zscale / 15\<rfloor>;
          sizeSpanTT = \<lfloor>of_int (sizeOneCorePx * n * 15) / zscale\<rfloor>
      in if posPTInc \<ge> posPT then (posTT, posPTInc)
         else if posPTInc + sizeSpanPT < posPT then (posTT + of_int sizeSpanTT, posPTInc + sizeSpanPT)
         else
           (let remainingPT = posPT - posPTInc;
                elemCountFinalSpan = \<lfloor>remainingPT / of_int (sp_value s)\<rfloor>;
                extra = remainingPT - of_int (elemCountFinalSpan * sp_value s)
            in (posTT + (of_int \<lfloor>(of_int (elemCountFinalSpan * sizeSpanTT) :: rat) / of_int n\<rfloor> + extra), posPT)))"

definition getTileTwipsPosFromPrint :: "sheet_dim \<Rightarrow> rat \<Rightarrow> rat option \<Rightarrow> dim_error + rat option" where
  [dim_defs]: "getTileTwipsPosFromPrint d posPT zscale =
     with_sizes d (\<lambda>vs.
       case zscale of
         Some z \<Rightarrow> Inr (Some (fst (fold (print_to_tile_step posPT z) (forEachSpan vs) (0, 0))))
       | None \<Rightarrow>
           (let (index, sv) = spanAndIndexFromPrintTwips d vs posPT
            in move_offset (elementDataAnyFromSpan (twipsPerCorePixel d) index sv PrintTwips)
                 (elementDataAnyFromSpan (twipsPerCorePixel d) index sv TileTwips) posPT))"

definition getPrintTwipsPosFromTile :: "sheet_dim \<Rightarrow> rat \<Rightarrow> dim_error + rat option" where
  [dim_defs]: "getPrintTwipsPosFromTile d posTT =
     with_sizes d (\<lambda>vs.
       let (index, sv) = spanAndIndexFromTileTwips d vs posTT
       in move_offset (elementDataAnyFromSpan (twipsPerCorePixel d) index sv TileTwips)
            (elementDataAnyFromSpan (twipsPerCorePixel d) index sv PrintTwips) posTT)"

text \<open>\<open>NaN\<close> falls through the comparisons of the loop and makes the result \<open>NaN\<close>.\<close>

definition dim_getTileTwipsAtZoom :: "sheet_dim \<Rightarrow> rat \<Rightarrow> rat \<Rightarrow> dim_error + rat option" where
  [dim_defs]: "dim_getTileTwipsAtZoom d posTT zscale =
     (case getPrintTwipsPosFromTile d posTT of
        Inl e \<Rightarrow> Inl e
      | Inr None \<Rightarrow> Inr None
      | Inr (Some posPT) \<Rightarrow> getTileTwipsPosFromPrint d posPT (Some zscale))"

definition getTileTwipsRangeFromPrint :: "sheet_dim \<Rightarrow> rat \<Rightarrow> rat \<Rightarrow> dim_error + int option \<times> int option" where
  [dim_defs]: "getTileTwipsRangeFromPrint d posStartPT posEndPT =
     with_sizes d (\<lambda>vs.
       let (i, sv) = spanAndIndexFromPrintTwips d vs posStartPT;
           startData = elementDataAnyFromSpan (twipsPerCorePixel d) i sv TileTwips
       in case startData of
            None \<Rightarrow> Inl TypeError
          | Some sd \<Rightarrow>
              if posStartPT = posEndPT
              then Inr (startpos sd, map_option (\<lambda>x. x + \<lfloor>twipsPerCorePixel d\<rfloor>) (startpos sd))
              else
                (let (j, ev) = spanAndIndexFromPrintTwips d vs posEndPT
                 in case elementDataAnyFromSpan (twipsPerCorePixel d) j ev TileTwips of
                      None \<Rightarrow> Inl TypeError
                    | Some ed \<Rightarrow>
                        (let endPos = map_option (\<lambda>x. x + ps_size ed) (startpos ed)
                         in Inr (startpos sd,
                                 case (endPos, startpos sd) of (Some e, Some b) \<Rightarrow> Some (max e b) | _ \<Rightarrow> endPos))))"

text \<open>\<open>sizeOne\<close> and \<open>sizeOneTo\<close> are the sizes of an element at the two zooms.\<close>

definition pixels_step :: "(span_view \<Rightarrow> int) \<Rightarrow> (span_view \<Rightarrow> int) \<Rightarrow> span_view \<Rightarrow> rat \<times> int \<Rightarrow> rat \<times> int" where
  [dim_defs]: "pixels_step sizeOne sizeOneTo s acc =
     (let (remaining, converted) = acc;
          elementCount = sp_index s - sv_start s + 1
      in if remaining < of_int (sizeOne s) then acc
         else if remaining \<ge> of_int (sizeOne s * elementCount)
         then (remaining - of_int (sizeOne s * elementCount), converted + sizeOneTo s * elementCount)
         else
           (let elems = \<lfloor>remaining / of_int (sizeOne s)\<rfloor>
            in (remaining - of_int (elems * sizeOne s), converted + elems * sizeOneTo s)))"

definition size_at_zoom :: "rat \<Rightarrow> span_view \<Rightarrow> int" where
  [dim_defs]: "size_at_zoom zscale s = \<lfloor>of_int (sp_value s) / 15 * zscale\<rfloor>"

definition dim_getCorePixelsAtZoom :: "sheet_dim \<Rightarrow> rat \<Rightarrow> rat \<Rightarrow> dim_error + rat" where
  [dim_defs]: "dim_getCorePixelsAtZoom d posCP zscale =
     with_sizes d (\<lambda>vs.
       let (posCPRem, posCPZ) = fold (pixels_step sizecore (size_at_zoom zscale)) (forEachSpan vs) (posCP, 0)
       in Inr (of_int posCPZ + posCPRem * zscale / coreZoomFactor d))"

definition dim_getCorePixelsFromZoom :: "sheet_dim \<Rightarrow> rat \<Rightarrow> rat \<Rightarrow> dim_error + rat" where
  [dim_defs]: "dim_getCorePixelsFromZoom d posCPZ zscale =
     with_sizes d (\<lambda>vs.
       let (posCPZRem, posCP) = fold (pixels_step (size_at_zoom zscale) sizecore) (forEachSpan vs) (posCPZ, 0)
       in Inr (of_int posCP + posCPZRem * coreZoomFactor d / zscale))"

section \<open>Groups in view\<close>

record group_data =
  gd_level :: string
  gd_index :: string
  gd_startPos :: string
  gd_endPos :: string
  gd_hidden :: string

text \<open>\<open>toString\<close> of a position.\<close>

definition show_pos :: "int option \<Rightarrow> string" where
  [dim_defs]: "show_pos x = (case x of None \<Rightarrow> ''NaN'' | Some n \<Rightarrow> show_int n)"

definition group_entry :: "sheet_dim \<Rightarrow> nat \<times> nat \<times> outline_entry \<Rightarrow> dim_error + group_data" where
  [dim_defs]: "group_entry d call =
     (case call of (levelIdx, groupIdx, g) \<Rightarrow>
        (case (getElementData d (oe_start g) None, getElementData d (oe_end g) None) of
           (Inr (Some s), Inr (Some e)) \<Rightarrow>
             Inr \<lparr>gd_level = show_int (int levelIdx + 1), gd_index = show_int (int groupIdx),
                  gd_startPos = show_pos (startpos s),
                  gd_endPos = show_pos (map_option (\<lambda>x. x + ps_size e) (startpos e)),
                  gd_hidden = (if oe_hidden g \<noteq> 0 then ''1'' else ''0'')\<rparr>
         | _ \<Rightarrow> Inl TypeError))"

fun group_entries :: "sheet_dim \<Rightarrow> (nat \<times> nat \<times> outline_entry) list \<Rightarrow> dim_error + group_data list" where
  "group_entries d [] = Inr []"
| "group_entries d (c # cs) =
     (case group_entry d c of
        Inl e \<Rightarrow> Inl e
      | Inr g \<Rightarrow> (case group_entries d cs of Inl e \<Rightarrow> Inl e | Inr gs \<Rightarrow> Inr (g # gs)))"

text \<open>Before the first \<open>setViewLimits\<close> the view end is not a number, and no group is reported.\<close>

definition getGroupsDataInView :: "sheet_dim \<Rightarrow> dim_error + group_data list" where
  [dim_defs]: "getGroupsDataInView d =
     (case viewRange d of
        None \<Rightarrow> Inr []
      | Some (_, viewEnd) \<Rightarrow> group_entries d (forEachGroupInRange (d_outlines d) 0 viewEnd))"

section \<open>Both dimensions\<close>

record sheet_geometry =
  sg_part :: int
  sg_columns :: sheet_dim
  sg_rows :: sheet_dim

record geom_json =
  commandName :: "string option"
  maxtiledcolumn :: "string option"
  maxtiledrow :: "string option"
  j_columns :: "dim_json option"
  j_rows :: "dim_json option"

definition decimal :: "string option \<Rightarrow> bool" where
  [dim_defs]: "decimal s = (case s of None \<Rightarrow> False | Some t \<Rightarrow> t \<noteq> [] \<and> list_all is_digit t)"

definition field_present :: "string option \<Rightarrow> bool" where
  [dim_defs]: "field_present s = (case s of None \<Rightarrow> False | Some t \<Rightarrow> t \<noteq> [])"

definition dim_complete :: "dim_json \<Rightarrow> bool" where
  [dim_defs]: "dim_complete j \<longleftrightarrow> field_present (j_sizes j) \<and> field_present (j_hidden j) \<and> field_present (j_filtered j)"

definition testValidity :: "geom_json \<Rightarrow> bool \<Rightarrow> bool" where
  [dim_defs]: "testValidity j checkCompleteness \<longleftrightarrow>
     commandName j = Some ''.uno:SheetGeometryData'' \<and> decimal (maxtiledcolumn j) \<and> decimal (maxtiledrow j) \<and>
     (checkCompleteness \<longrightarrow>
        (case (j_rows j, j_columns j) of (Some r, Some c) \<Rightarrow> dim_complete r \<and> dim_complete c | _ \<Rightarrow> False))"

definition dim_update_opt :: "sheet_dim \<Rightarrow> dim_json option \<Rightarrow> sheet_dim \<times> (dim_error + bool)" where
  [dim_defs]: "dim_update_opt d j = (case j of None \<Rightarrow> (d, Inr True) | Some j' \<Rightarrow> dim_update d j')"

definition decimal_value :: "string option \<Rightarrow> int" where
  [dim_defs]: "decimal_value s = (case s of None \<Rightarrow> 0 | Some t \<Rightarrow> int (nat_of_digits t))"

definition geometry_update :: "sheet_geometry \<Rightarrow> geom_json \<Rightarrow> bool \<Rightarrow> int \<Rightarrow> sheet_geometry \<times> (dim_error + bool)" where
  [dim_defs]: "geometry_update g j checkCompleteness part =
     (if \<not> testValidity j checkCompleteness then (g, Inr False)
      else
        (case dim_update_opt (sg_columns g) (j_columns j) of
           (c, Inl e) \<Rightarrow> (g\<lparr>sg_columns := c\<rparr>, Inl e)
         | (c, Inr okC) \<Rightarrow>
             (case dim_update_opt (sg_rows g) (j_rows j) of
                (r, Inl e) \<Rightarrow> (g\<lparr>sg_columns := c, sg_rows := r\<rparr>, Inl e)
              | (r, Inr okR) \<Rightarrow>
                  (g\<lparr>sg_part := (if okC \<and> okR then part else sg_part g),
                     sg_columns := setMaxIndex (decimal_value (maxtiledcolumn j)) c,
                     sg_rows := setMaxIndex (decimal_value (maxtiledrow j)) r\<rparr>, Inr (okC \<and> okR)))))"

definition geometry_setTileGeometryData ::
  "rat \<Rightarrow> rat \<Rightarrow> rat \<Rightarrow> bool \<Rightarrow> sheet_geometry \<Rightarrow> sheet_geometry \<times> (dim_error + unit)" where
  [dim_defs]: "geometry_setTileGeometryData tileWidth tileHeight tilePixels withPositions g =
     (case dim_setTileGeometryData tileWidth tilePixels withPositions (sg_columns g) of
        (c, Inl e) \<Rightarrow> (g\<lparr>sg_columns := c\<rparr>, Inl e)
      | (c, Inr _) \<Rightarrow>
          (case dim_setTileGeometryData tileHeight tilePixels withPositions (sg_rows g) of
             (r, res) \<Rightarrow> (g\<lparr>sg_columns := c, sg_rows := r\<rparr>, res)))"

definition new_geometry :: "geom_json \<Rightarrow> rat \<Rightarrow> rat \<Rightarrow> rat \<Rightarrow> int \<Rightarrow> sheet_geometry \<times> (dim_error + bool)" where
  [dim_defs]: "new_geometry j tileWidth tileHeight tilePixels part =
     geometry_update (fst (geometry_setTileGeometryData tileWidth tileHeight tilePixels False
         \<lparr>sg_part = -1, sg_columns = new_dimension, sg_rows = new_dimension\<rparr>)) j True part"

definition setViewArea :: "rat point \<Rightarrow> rat point \<Rightarrow> sheet_geometry \<Rightarrow> dim_error + sheet_geometry" where
  [dim_defs]: "setViewArea topLeft extent g =
     (case setViewLimits (px topLeft) (px topLeft + px extent) (sg_columns g) of
        Inl e \<Rightarrow> Inl e
      | Inr c \<Rightarrow>
          (case setViewLimits (py topLeft) (py topLeft + py extent) (sg_rows g) of
             Inl e \<Rightarrow> Inl e
           | Inr r \<Rightarrow> Inr (g\<lparr>sg_columns := c, sg_rows := r\<rparr>)))"

text \<open>A point is mapped by its columns first, then by its rows.\<close>

definition both :: "(sheet_dim \<Rightarrow> 'a \<Rightarrow> dim_error + 'b) \<Rightarrow> sheet_geometry \<Rightarrow> 'a \<Rightarrow> 'a \<Rightarrow> dim_error + 'b \<times> 'b" where
  [dim_defs]: "both f g x y =
     (case f (sg_columns g) x of
        Inl e \<Rightarrow> Inl e
      | Inr a \<Rightarrow> (case f (sg_rows g) y of Inl e \<Rightarrow> Inl e | Inr b \<Rightarrow> Inr (a, b)))"

definition getTileTwipsAtZoom :: "sheet_geometry \<Rightarrow> rat point \<Rightarrow> rat \<Rightarrow> dim_error + rat option \<times> rat option" where
  [dim_defs]: "getTileTwipsAtZoom g p z = both (\<lambda>d x. dim_getTileTwipsAtZoom d x z) g (px p) (py p)"

definition getCorePixelsAtZoom :: "sheet_geometry \<Rightarrow> rat point \<Rightarrow> rat \<Rightarrow> dim_error + rat \<times> rat" where
  [dim_defs]: "getCorePixelsAtZoom g p z = both (\<lambda>d x. dim_getCorePixelsAtZoom d x z) g (px p) (py p)"

definition getCorePixelsFromZoom :: "sheet_geometry \<Rightarrow> rat point \<Rightarrow> rat \<Rightarrow> dim_error + rat \<times> rat" where
  [dim_defs]: "getCorePixelsFromZoom g p z = both (\<lambda>d x. dim_getCorePixelsFromZoom d x z) g (px p) (py p)"

definition getTileTwipsPointFromPrint :: "sheet_geometry \<Rightarrow> rat point \<Rightarrow> dim_error + rat option \<times> rat option" where
  [dim_defs]: "getTileTwipsPointFromPrint g p = both (\<lambda>d x. getTileTwipsPosFromPrint d x None) g (px p) (py p)"

definition getPrintTwipsPointFromTile :: "sheet_geometry \<Rightarrow> rat point \<Rightarrow> dim_error + rat option \<times> rat option" where
  [dim_defs]: "getPrintTwipsPointFromTile g p = both getPrintTwipsPosFromTile g (px p) (py p)"

definition getCellFromPos :: "sheet_geometry \<Rightarrow> rat point \<Rightarrow> geometry_unit \<Rightarrow> dim_error + int option \<times> int option" where
  [dim_defs]: "getCellFromPos g p u = both (\<lambda>d x. getIndexFromPos d x u) g (px p) (py p)"

text \<open>The start and end of the area in both directions.\<close>

definition getTileTwipsSheetAreaFromPrint ::
  "sheet_geometry \<Rightarrow> rat bounds \<Rightarrow> dim_error + (int option \<times> int option) \<times> (int option \<times> int option)" where
  [dim_defs]: "getTileTwipsSheetAreaFromPrint g b =
     both (\<lambda>d (s, e). getTileTwipsRangeFromPrint d s e) g
       (px (bounds_getTopLeft b), px (bounds_getBottomRight b)) (py (bounds_getTopLeft b), py (bounds_getBottomRight b))"

definition getCellRect :: "sheet_geometry \<Rightarrow> int \<Rightarrow> int \<Rightarrow> rat \<Rightarrow> dim_error + int bounds" where
  [dim_defs]: "getCellRect g columnIndex rowIndex z =
     (case both (\<lambda>d i. getElementData d i (Some z)) g columnIndex rowIndex of
        Inr (Some h, Some v) \<Rightarrow>
          (case (startpos h, startpos v) of
             (Some x, Some y) \<Rightarrow> Inr (bounds_of \<lparr>px = x, py = y\<rparr> \<lparr>px = x + ps_size h, py = y + ps_size v\<rparr>)
           | _ \<Rightarrow> Inl TypeError)
      | _ \<Rightarrow> Inl TypeError)"

definition getSize :: "sheet_geometry \<Rightarrow> geometry_unit \<Rightarrow> dim_error + int option \<times> int option" where
  [dim_defs]: "getSize g u = both (\<lambda>d _. dim_getSize d u) g () ()"

definition getViewCellRange :: "sheet_geometry \<Rightarrow> (int option \<times> int option) option \<times> (int option \<times> int option) option" where
  [dim_defs]: "getViewCellRange g = (viewRange (sg_columns g), viewRange (sg_rows g))"

definition getSnapDocPosX :: "sheet_geometry \<Rightarrow> rat \<Rightarrow> geometry_unit \<Rightarrow> dim_error + int option" where
  [dim_defs]: "getSnapDocPosX g posX u = getSnapPos (sg_columns g) posX u"

definition getSnapDocPosY :: "sheet_geometry \<Rightarrow> rat \<Rightarrow> geometry_unit \<Rightarrow> dim_error + int option" where
  [dim_defs]: "getSnapDocPosY g posY u = getSnapPos (sg_rows g) posY u"

end
