(* ===== verification/Sheet_Positions.thy ===== *)
theory Sheet_Positions
  imports Sheet_Geometry
begin

text \<open>
  What the positions of \<open>Sheet_Geometry\<close> are: the spans of a dimension stand for one size per element, and every
  position is a sum of such sizes.
\<close>

section \<open>Sums over elements\<close>

text \<open>The size of an element in pixels of the core.\<close>

definition core_size :: "rat \<Rightarrow> int \<Rightarrow> int" where
  "core_size tpcp v = \<lfloor>of_int v / tpcp\<rfloor>"

text \<open>The summed sizes of the elements \<open>a\<close> to \<open>b - 1\<close>.\<close>

definition extent :: "(int \<Rightarrow> int) \<Rightarrow> int \<Rightarrow> int \<Rightarrow> int" where
  "extent f a b = sum f {a..<b}"

lemma extent_split: "a \<le> b \<Longrightarrow> b \<le> c \<Longrightarrow> extent f a c = extent f a b + extent f b c"
  unfolding extent_def by (subst sum.union_disjoint [symmetric]) (auto simp: ivl_disj_un)

lemma extent_const: "a \<le> b \<Longrightarrow> (\<And>j. a \<le> j \<Longrightarrow> j < b \<Longrightarrow> f j = c) \<Longrightarrow> extent f a b = c * (b - a)"
  by (simp add: extent_def)

lemma extent_cong: "(\<And>j. a \<le> j \<Longrightarrow> j < b \<Longrightarrow> f j = g j) \<Longrightarrow> extent f a b = extent g a b"
  unfolding extent_def by (rule sum.cong) auto

lemma extent_nonneg: "(\<And>j. a \<le> j \<Longrightarrow> j < b \<Longrightarrow> 0 \<le> f j) \<Longrightarrow> 0 \<le> extent f a b"
  unfolding extent_def by (rule sum_nonneg) auto

section \<open>The positions of the spans\<close>

lemma add_positions_shape:
  "length (add_positions t p x y ss) = length ss"
  "span_ends (add_positions t p x y ss) = span_ends ss"
  "map sp_value (add_positions t p x y ss) = map sp_value ss"
  by (induction ss arbitrary: p x y) (auto simp: Let_def)

lemma value_at_add_positions: "value_at (add_positions t p x y ss) i = value_at ss i"
  by (induction ss arbitrary: p x y) (auto simp: Let_def)

lemma add_positions_data:
  assumes "k < length ss"
  shows "sizecore (add_positions t p x y ss ! k) = core_size t (sp_value (ss ! k))"
    "postiletwips (add_positions t p x y ss ! k) = \<lfloor>of_int (poscorepx (add_positions t p x y ss ! k)) * t\<rfloor>"
  using assms by (induction ss arbitrary: p x y k) (auto simp: Let_def core_size_def nth_Cons')

lemma add_positions_sums:
  assumes "sorted_wrt (<) (p # span_ends ss)" "k < length ss"
  shows "posprinttwips (add_positions t p x y ss ! k) = y + extent (value_at ss) (p + 1) (sp_index (ss ! k) + 1)"
    "poscorepx (add_positions t p x y ss ! k) = x + extent (\<lambda>j. core_size t (value_at ss j)) (p + 1) (sp_index (ss ! k) + 1)"
proof -
  have "posprinttwips (add_positions t p x y ss ! k) = y + extent (value_at ss) (p + 1) (sp_index (ss ! k) + 1) \<and>
    poscorepx (add_positions t p x y ss ! k) = x + extent (\<lambda>j. core_size t (value_at ss j)) (p + 1) (sp_index (ss ! k) + 1)"
    using assms
  proof (induction ss arbitrary: p x y k)
    case (Cons s ss)
    have s: "p < sp_index s" "sorted_wrt (<) (sp_index s # span_ends ss)" using Cons.prems by auto
    have const: "extent (\<lambda>j. h (value_at (s # ss) j)) (p + 1) (sp_index s + 1) = h (sp_value s) * (sp_index s - p)" for h
      using extent_const [of "p + 1" "sp_index s + 1" "\<lambda>j. h (value_at (s # ss) j)" "h (sp_value s)"] s(1) by simp
    show ?case
    proof (cases k)
      case 0
      then show ?thesis using const [of "\<lambda>v. v"] const [of "core_size t"] by (simp add: Let_def core_size_def)
    next
      case (Suc n)
      have n: "n < length ss" using Cons.prems Suc by simp
      have lt: "sp_index s < sp_index (ss ! n)" using s(2) n by simp
      have split: "extent (\<lambda>j. h (value_at (s # ss) j)) (p + 1) (sp_index (ss ! n) + 1) =
        h (sp_value s) * (sp_index s - p) + extent (\<lambda>j. h (value_at ss j)) (sp_index s + 1) (sp_index (ss ! n) + 1)" for h
        using extent_split [of "p + 1" "sp_index s + 1" "sp_index (ss ! n) + 1"] s(1) lt const [of h]
          extent_cong [of "sp_index s + 1" "sp_index (ss ! n) + 1" "\<lambda>j. h (value_at (s # ss) j)" "\<lambda>j. h (value_at ss j)"]
        by simp
      show ?thesis using Cons.IH [OF s(2) n] split [of "\<lambda>v. v"] split [of "core_size t"] Suc
        by (simp add: Let_def core_size_def)
    qed
  qed simp
  then show "posprinttwips (add_positions t p x y ss ! k) = y + extent (value_at ss) (p + 1) (sp_index (ss ! k) + 1)"
    "poscorepx (add_positions t p x y ss ! k) = x + extent (\<lambda>j. core_size t (value_at ss j)) (p + 1) (sp_index (ss ! k) + 1)"
    by auto
qed

section \<open>Dimensions with positions\<close>

text \<open>
  The visible sizes of a dimension are spans over \<open>0 .. mx\<close> with their positions filled in, and \<open>sz\<close> is the
  size of each element.
\<close>

definition positioned :: "sheet_dim \<Rightarrow> int \<Rightarrow> (int \<Rightarrow> int) \<Rightarrow> bool" where
  "positioned d mx sz \<longleftrightarrow>
     (\<exists>ss :: span list. visibleSizes d = Some (add_positions (twipsPerCorePixel d) (-1) 0 0 ss) \<and>
        covers mx (span_ends ss) \<and> (\<forall>i. 0 \<le> i \<and> i \<le> mx \<longrightarrow> value_at ss i = sz i))"

lemma positionedE:
  assumes "positioned d mx sz"
  obtains vs where "visibleSizes d = Some vs" "covers mx (span_ends vs)"
    "\<And>i. 0 \<le> i \<Longrightarrow> i \<le> mx \<Longrightarrow> value_at vs i = sz i"
    "\<And>k. k < length vs \<Longrightarrow> sizecore (vs ! k) = core_size (twipsPerCorePixel d) (sp_value (vs ! k))"
    "\<And>k. k < length vs \<Longrightarrow> posprinttwips (vs ! k) = extent sz 0 (sp_index (vs ! k) + 1)"
    "\<And>k. k < length vs \<Longrightarrow> poscorepx (vs ! k) = extent (\<lambda>j. core_size (twipsPerCorePixel d) (sz j)) 0 (sp_index (vs ! k) + 1)"
    "\<And>k. k < length vs \<Longrightarrow> postiletwips (vs ! k) = \<lfloor>of_int (poscorepx (vs ! k)) * twipsPerCorePixel d\<rfloor>"
proof -
  let ?t = "twipsPerCorePixel d"
  obtain ss :: "span list" where vis: "visibleSizes d = Some (add_positions ?t (-1) 0 0 ss)" and c: "covers mx (span_ends ss)"
    and v: "\<And>i. 0 \<le> i \<Longrightarrow> i \<le> mx \<Longrightarrow> value_at ss i = sz i"
    using assms unfolding positioned_def by blast
  define vs where "vs = add_positions ?t (-1) 0 0 ss"
  have sorted: "sorted_wrt (<) (-1 # span_ends ss)" using c covers_bounds [OF c] by (auto simp: covers_def)
  have len: "length vs = length ss" and ends: "span_ends vs = span_ends ss" and vals: "map sp_value vs = map sp_value ss"
    unfolding vs_def by (simp_all add: add_positions_shape)
  have nth: "sp_index (vs ! k) = sp_index (ss ! k)" "sp_value (vs ! k) = sp_value (ss ! k)" "sp_index (ss ! k) \<le> mx"
    if "k < length vs" for k
    using that arg_cong [OF ends, of "\<lambda>xs. xs ! k"] arg_cong [OF vals, of "\<lambda>xs. xs ! k"] len covers_bounds [OF c] by simp_all
  have sums: "extent (\<lambda>j. h (value_at ss j)) 0 (sp_index (ss ! k) + 1) = extent (\<lambda>j. h (sz j)) 0 (sp_index (vs ! k) + 1)"
    if "k < length vs" for k h
    unfolding nth(1) [OF that] using nth(3) [OF that] v by (intro extent_cong) simp
  show ?thesis
  proof (rule that [of vs])
    show "visibleSizes d = Some vs" "covers mx (span_ends vs)" using vis c ends by (simp_all add: vs_def)
    show "\<And>i. 0 \<le> i \<Longrightarrow> i \<le> mx \<Longrightarrow> value_at vs i = sz i" using v by (simp add: vs_def value_at_add_positions)
    fix k assume k: "k < length vs"
    note k' = k [unfolded len]
    show "sizecore (vs ! k) = core_size ?t (sp_value (vs ! k))" "postiletwips (vs ! k) = \<lfloor>of_int (poscorepx (vs ! k)) * ?t\<rfloor>"
      using add_positions_data [OF k'] nth [OF k] by (simp_all add: vs_def)
    show "posprinttwips (vs ! k) = extent sz 0 (sp_index (vs ! k) + 1)"
      "poscorepx (vs ! k) = extent (\<lambda>j. core_size ?t (sz j)) 0 (sp_index (vs ! k) + 1)"
      using add_positions_sums [OF sorted k', of ?t 0 0, folded vs_def] sums [OF k, of "\<lambda>v. v"] sums [OF k, of "core_size ?t"]
      by simp_all
  qed
qed

text \<open>All elements of a span have its size.\<close>

lemma value_in_span:
  assumes "covers mx (span_ends vs)" "0 \<le> k" "k < int (length vs)" "span_start vs k \<le> i" "i \<le> sp_index (vs ! nat k)"
  shows "value_at vs i = sp_value (vs ! nat k)"
  using assms by (intro value_at_nth) (auto simp: covers_def span_start_def nat_diff_distrib)

text \<open>The data of an element, computed backwards from the end of its span.\<close>

lemma element_from_span_end:
  assumes "covers mx (span_ends vs)" "\<And>i. 0 \<le> i \<Longrightarrow> i \<le> mx \<Longrightarrow> value_at vs i = sz i"
    "0 \<le> k" "k < int (length vs)" "span_start vs k \<le> i" "i \<le> sp_index (vs ! nat k) + 1"
  shows "extent (\<lambda>j. h (sz j)) 0 (sp_index (vs ! nat k) + 1) - h (sp_value (vs ! nat k)) * (sp_index (vs ! nat k) - i + 1) =
    extent (\<lambda>j. h (sz j)) 0 i"
proof -
  note b = span_start_bounds [OF assms(1,3,4)]
  have "extent (\<lambda>j. h (sz j)) i (sp_index (vs ! nat k) + 1) = h (sp_value (vs ! nat k)) * (sp_index (vs ! nat k) + 1 - i)"
    using value_in_span [OF assms(1,3,4)] assms(2,5,6) b by (intro extent_const) (auto simp: less_le)
  then show ?thesis using extent_split [of 0 i "sp_index (vs ! nat k) + 1" "\<lambda>j. h (sz j)"] assms(5,6) b by (simp add: algebra_simps)
qed

lemma element_data:
  assumes "positioned d mx sz" "0 \<le> i" "i \<le> mx"
  shows "getElementDataAny d i PrintTwips = Inr (Some \<lparr>startpos = Some (extent sz 0 i), ps_size = sz i\<rparr>)"
    "getElementDataAny d i CorePixels =
       Inr (Some \<lparr>startpos = Some (extent (\<lambda>j. core_size (twipsPerCorePixel d) (sz j)) 0 i),
                  ps_size = core_size (twipsPerCorePixel d) (sz i)\<rparr>)"
    "getElementDataAny d i TileTwips =
       Inr (Some \<lparr>startpos = Some \<lfloor>of_int (extent (\<lambda>j. core_size (twipsPerCorePixel d) (sz j)) 0 i) * twipsPerCorePixel d\<rfloor>,
                  ps_size = \<lfloor>of_int (core_size (twipsPerCorePixel d) (sz i)) * twipsPerCorePixel d\<rfloor>\<rparr>)"
proof -
  obtain vs where vs: "visibleSizes d = Some vs" "covers mx (span_ends vs)"
    "\<And>i. 0 \<le> i \<Longrightarrow> i \<le> mx \<Longrightarrow> value_at vs i = sz i"
    "\<And>k. k < length vs \<Longrightarrow> sizecore (vs ! k) = core_size (twipsPerCorePixel d) (sp_value (vs ! k))"
    "\<And>k. k < length vs \<Longrightarrow> posprinttwips (vs ! k) = extent sz 0 (sp_index (vs ! k) + 1)"
    "\<And>k. k < length vs \<Longrightarrow> poscorepx (vs ! k) = extent (\<lambda>j. core_size (twipsPerCorePixel d) (sz j)) 0 (sp_index (vs ! k) + 1)"
    using positionedE [OF assms(1)] by metis
  define k where "k = searchByIndex vs i"
  have k: "0 \<le> k" "k < int (length vs)" "span_start vs k \<le> i" "i \<le> sp_index (vs ! nat k)"
    using searchByIndex_in [OF vs(2) assms(2,3)] by (simp_all add: k_def)
  have sz: "sz i = sp_value (vs ! nat k)" using value_in_span [OF vs(2) k] vs(3) assms by simp
  have nk: "nat k < length vs" using k by linarith
  have sums: "extent (\<lambda>j. h (sz j)) 0 (sp_index (vs ! nat k) + 1) - h (sp_value (vs ! nat k)) * (sp_index (vs ! nat k) - i + 1) =
    extent (\<lambda>j. h (sz j)) 0 i" for h
    by (rule element_from_span_end [OF vs(2,3) k(1-3)]) (use k in auto)
  note data = vs(4-6) [OF nk]
  have span: "getSpanDataByIndex vs i = Some (getSpanData vs k)" using k(1) by (simp add: getSpanDataByIndex_def k_def Let_def)
  show "getElementDataAny d i PrintTwips = Inr (Some \<lparr>startpos = Some (extent sz 0 i), ps_size = sz i\<rparr>)"
    using k(3,4) sums [of "\<lambda>v. v"] by (simp add: getElementDataAny_def with_sizes_def vs(1) span elementDataAnyFromSpan_def getSpanData_def Let_def data sz)
  show "getElementDataAny d i CorePixels =
       Inr (Some \<lparr>startpos = Some (extent (\<lambda>j. core_size (twipsPerCorePixel d) (sz j)) 0 i),
                  ps_size = core_size (twipsPerCorePixel d) (sz i)\<rparr>)"
    "getElementDataAny d i TileTwips =
       Inr (Some \<lparr>startpos = Some \<lfloor>of_int (extent (\<lambda>j. core_size (twipsPerCorePixel d) (sz j)) 0 i) * twipsPerCorePixel d\<rfloor>,
                  ps_size = \<lfloor>of_int (core_size (twipsPerCorePixel d) (sz i)) * twipsPerCorePixel d\<rfloor>\<rparr>)"
    using k(3,4) sums [of "core_size (twipsPerCorePixel d)"]
    by (simp_all add: getElementDataAny_def with_sizes_def vs(1) span elementDataAnyFromSpan_def getSpanData_def Let_def data sz
          del: of_int_diff of_int_mult of_int_add)
qed

section \<open>Loading sizes\<close>

lemma add_positions_again [simp]: "add_positions t p x y (add_positions t' p' x' y' ss) = add_positions t p x y ss"
  by (induction ss arbitrary: p x y p' x' y') (auto simp: Let_def)

text \<open>The size an element is shown with.\<close>

definition shown_size :: "span list \<Rightarrow> bool_spans \<Rightarrow> bool_spans \<Rightarrow> int \<Rightarrow> int" where
  "shown_size sizes hid filt i =
     (if bit_at (startBit hid) (bs_ends hid) i \<or> bit_at (startBit filt) (bs_ends filt) i then 0 else value_at sizes i)"

lemma updateVisible_positioned:
  assumes "covers mx (span_ends (d_sizes d))" "covers mx (bs_ends (d_hidden d))" "covers mx (bs_ends (d_filtered d))"
  shows "\<exists>d'. updateVisible d = (d', Inr ()) \<and> twipsPerCorePixel d' = twipsPerCorePixel d \<and>
    positioned d' mx (shown_size (d_sizes d) (d_hidden d) (d_filtered d))"
proof -
  obtain b where b: "spans_union (d_hidden d) (d_filtered d) = Some b" "covers mx (bs_ends b)"
    "\<And>i. i \<le> mx \<Longrightarrow> bit_at (startBit b) (bs_ends b) i =
       (bit_at (startBit (d_hidden d)) (bs_ends (d_hidden d)) i \<or> bit_at (startBit (d_filtered d)) (bs_ends (d_filtered d)) i)"
    using union_covers [OF assms(2,3)] by blast
  obtain r where r: "applyZeroValues (d_sizes d) b = Some r" "covers mx (span_ends r)"
    "\<And>i. i \<le> mx \<Longrightarrow> value_at r i = (if bit_at (startBit b) (bs_ends b) i then 0 else value_at (d_sizes d) i)"
    using applyZero_covers [OF assms(1) b(2)] by blast
  have ne: "d_sizes d \<noteq> []" using assms(1) by (auto simp: covers_def)
  have "updateVisible d = (d\<lparr>visibleSizes := Some (add_positions (twipsPerCorePixel d) (-1) 0 0 r)\<rparr>, Inr ())"
    using b(1) r(1) ne by (simp add: updateVisible_def updatePositions_def)
  moreover have "positioned (d\<lparr>visibleSizes := Some (add_positions (twipsPerCorePixel d) (-1) 0 0 r)\<rparr>) mx
    (shown_size (d_sizes d) (d_hidden d) (d_filtered d))"
    unfolding positioned_def using r(2,3) b(3) by (intro exI [of _ r]) (auto simp: shown_size_def)
  ultimately show ?thesis by (intro exI conjI) auto
qed

text \<open>An encoding is loaded when it is parsed and the three lists cover the same range.\<close>

definition loads :: "dim_json \<Rightarrow> int \<Rightarrow> span list \<Rightarrow> bool_spans \<Rightarrow> bool_spans \<Rightarrow> bool" where
  "loads j mx sizes hid filt \<longleftrightarrow>
     Option.bind (j_sizes j) parseSpanList = Some sizes \<and> Option.bind (j_hidden j) parseBoolSpanList = Some hid \<and>
     Option.bind (j_filtered j) parseBoolSpanList = Some filt \<and> j_groups j = None \<and>
     covers mx (span_ends sizes) \<and> covers mx (bs_ends hid) \<and> covers mx (bs_ends filt)"

lemma dim_update_positioned:
  assumes "loads j mx sizes hid filt"
  shows "\<exists>d'. dim_update d j = (d', Inr True) \<and> twipsPerCorePixel d' = twipsPerCorePixel d \<and>
    positioned d' mx (shown_size sizes hid filt)"
proof -
  obtain es eh ef where e: "j_sizes j = Some es" "parseSpanList es = Some sizes" "j_hidden j = Some eh"
    "parseBoolSpanList eh = Some hid" "j_filtered j = Some ef" "parseBoolSpanList ef = Some filt" "j_groups j = None"
    using assms by (auto simp: loads_def bind_eq_Some_conv)
  define d1 where "d1 = d\<lparr>d_sizes := sizes, d_hidden := hid, d_filtered := filt\<rparr>"
  obtain d' where "updateVisible d1 = (d', Inr ())" "twipsPerCorePixel d' = twipsPerCorePixel d1"
    "positioned d' mx (shown_size sizes hid filt)"
    using updateVisible_positioned [of mx d1] assms by (auto simp: d1_def loads_def)
  then show ?thesis by (intro exI [of _ d']) (simp add: dim_update_def e d1_def Let_def)
qed

text \<open>
  C8. After an update with sizes, hidden and filtered spans over the same range, every element starts where the visible
  elements before it end, in print twips, in pixels and in tile twips, and hidden and filtered elements have no size.
\<close>

theorem element_positions_are_sums:
  assumes "loads j mx sizes hid filt"
  shows "\<exists>d'. dim_update d j = (d', Inr True) \<and>
    (\<forall>i. 0 \<le> i \<and> i \<le> mx \<longrightarrow>
      (let sz = shown_size sizes hid filt; t = twipsPerCorePixel d; core = (\<lambda>j. core_size t (sz j)) in
       getElementDataAny d' i PrintTwips = Inr (Some \<lparr>startpos = Some (extent sz 0 i), ps_size = sz i\<rparr>) \<and>
       getElementDataAny d' i CorePixels = Inr (Some \<lparr>startpos = Some (extent core 0 i), ps_size = core i\<rparr>) \<and>
       getElementDataAny d' i TileTwips =
         Inr (Some \<lparr>startpos = Some \<lfloor>of_int (extent core 0 i) * t\<rfloor>, ps_size = \<lfloor>of_int (core i) * t\<rfloor>\<rparr>)))"
proof -
  obtain d' where d': "dim_update d j = (d', Inr True)" "twipsPerCorePixel d' = twipsPerCorePixel d"
    "positioned d' mx (shown_size sizes hid filt)"
    using dim_update_positioned [OF assms] by blast
  show ?thesis using d'(1) element_data [OF d'(3), unfolded d'(2)] by (intro exI [of _ d']) (simp add: Let_def)
qed

definition example_json :: dim_json where
  "example_json = \<lparr>j_sizes = Some ''1200:3 300:9 '', j_hidden = Some ''0:1 4 9 '', j_filtered = Some ''0:9 '', j_groups = None\<rparr>"

lemma example_loads:
  "loads example_json 9 [\<lparr>sp_index = 3, sp_value = 1200\<rparr>, \<lparr>sp_index = 9, sp_value = 300\<rparr>]
     \<lparr>startBit = False, bs_ends = [1, 4, 9]\<rparr> \<lparr>startBit = False, bs_ends = [9]\<rparr>"
  by code_simp

theorem element_positions_are_sums_witness:
  "\<exists>d'. dim_update (new_dimension\<lparr>twipsPerCorePixel := 15\<rparr>) example_json = (d', Inr True) \<and>
     getElementDataAny d' 6 PrintTwips = Inr (Some \<lparr>startpos = Some 2700, ps_size = 300\<rparr>)"
proof -
  have "extent (shown_size [\<lparr>sp_index = 3, sp_value = 1200\<rparr>, \<lparr>sp_index = 9, sp_value = 300\<rparr>]
     \<lparr>startBit = False, bs_ends = [1, 4, 9]\<rparr> \<lparr>startBit = False, bs_ends = [9]\<rparr>) 0 6 = 2700"
    by code_simp
  then show ?thesis
    using element_positions_are_sums [OF example_loads, of "new_dimension\<lparr>twipsPerCorePixel := 15\<rparr>"]
    by (auto simp: Let_def shown_size_def dest!: spec [where x = 6])
qed

section \<open>Ranges that do not fit\<close>



section \<open>The element at a position\<close>

lemma extent_mono:
  assumes "\<And>j. a \<le> j \<Longrightarrow> j < c \<Longrightarrow> 0 \<le> f j" "a \<le> b" "b \<le> c"
  shows "extent f a b \<le> extent f a c"
  using extent_split [of a b c f] extent_nonneg [of b c f] assms by auto

lemma field_sortedI:
  assumes "covers mx (span_ends vs)" "\<And>k. k < length vs \<Longrightarrow> field (vs ! k) = extent sz 0 (sp_index (vs ! k) + 1)"
    "\<And>i. 0 \<le> i \<Longrightarrow> i \<le> mx \<Longrightarrow> 0 \<le> sz i"
  shows "field_sorted field vs"
proof -
  have b: "0 \<le> sp_index (vs ! k)" "sp_index (vs ! k) \<le> mx" if "k < length vs" for k
    using covers_bounds [OF assms(1)] that by auto
  have "field (vs ! a) \<le> field (vs ! b)" if "a < b" "b < length vs" for a b
  proof -
    have "sp_index (vs ! a) < sp_index (vs ! b)" using assms(1) that by (auto simp: covers_def sorted_wrt_iff_nth_less)
    then show ?thesis using assms(2) [of a] assms(2) [of b] that b [of a] b [of b] assms(3) extent_mono [of 0 _ sz] by force
  qed
  moreover have "0 \<le> field (vs ! k)" if "k < length vs" for k
    using assms(2) [OF that] b [OF that] assms(3) by (auto intro: extent_nonneg)
  ultimately show ?thesis by (auto simp: field_sorted_def sorted_wrt_iff_nth_less in_set_conv_nth)
qed

text \<open>Dividing by the size of an element finds it in a span.\<close>

lemma index_in_span:
  assumes "0 \<le> (v :: int)" "q \<le> pos" "pos < q + v * n"
  shows "0 < v" "0 \<le> (pos - q) div v" "(pos - q) div v < n"
    "v * ((pos - q) div v) \<le> pos - q" "pos - q < v * ((pos - q) div v + 1)"
    "\<lfloor>(of_int pos - of_int q) / (of_int v :: rat)\<rfloor> = (pos - q) div v"
proof -
  show v: "0 < v" using assms by (cases "v = 0") auto
  show "0 \<le> (pos - q) div v" using v assms(2) by (simp add: pos_imp_zdiv_nonneg_iff)
  show le: "v * ((pos - q) div v) \<le> pos - q" using v mult_div_mod_eq [of v "pos - q"] pos_mod_sign [OF v, of "pos - q"] by linarith
  then have "v * ((pos - q) div v) < v * n" using assms(3) by linarith
  then show "(pos - q) div v < n" using v by (simp add: mult_less_cancel_left_pos)
  have "(pos - q) mod v < v" using v by simp
  then show "pos - q < v * ((pos - q) div v + 1)"
    using mult_div_mod_eq [of v "pos - q"] by (simp only: distrib_left mult_1_right)
  show "\<lfloor>(of_int pos - of_int q) / (of_int v :: rat)\<rfloor> = (pos - q) div v"
    using floor_divide_of_int_eq [of "pos - q" v, where ?'a = rat] by simp
qed

lemma print_index:
  assumes "positioned d mx sz" "\<And>i. 0 \<le> i \<Longrightarrow> i \<le> mx \<Longrightarrow> 0 \<le> sz i" "0 \<le> pos" "pos < extent sz 0 (mx + 1)"
  obtains vs i s where "visibleSizes d = Some vs" "spanAndIndexFromPrintTwips d vs (of_int pos) = (Some i, Some s)"
    "0 \<le> i" "i \<le> mx" "extent sz 0 i \<le> pos" "pos < extent sz 0 (i + 1)" "getSpanDataByIndex vs i = Some s"
proof -
  obtain vs where vs: "visibleSizes d = Some vs" "covers mx (span_ends vs)"
    "\<And>i. 0 \<le> i \<Longrightarrow> i \<le> mx \<Longrightarrow> value_at vs i = sz i"
    "\<And>k. k < length vs \<Longrightarrow> posprinttwips (vs ! k) = extent sz 0 (sp_index (vs ! k) + 1)"
    using positionedE [OF assms(1)] by metis
  have ne: "vs \<noteq> []" and lst: "posprinttwips (last vs) = extent sz 0 (mx + 1)"
    using vs(2,4) by (auto simp: covers_def last_map last_conv_nth)
  note fs = field_sortedI [OF vs(2) vs(4) assms(2)]
  have ex: "\<exists>i. 0 \<le> i \<and> i < int (length vs) \<and> field_dir posprinttwips vs (of_int pos) i = 0"
    using exists_field_span [OF ne fs] assms(3,4) lst by simp
  define k where "k = searchByCustomDataField posprinttwips vs (of_int pos)"
  have k: "0 \<le> k" "k < int (length vs)" "field_dir posprinttwips vs (of_int pos) k = 0"
    using field_search_found [OF fs ex] by (simp_all add: k_def)
  define s v n q where "s = getSpanData vs k" and "v = sp_value s" and "n = sp_index s - sv_start s + 1" and "q = extent sz 0 (sv_start s)"
  have nk: "nat k < length vs" using k by linarith
  have s: "sv_start s = span_start vs k" "sp_index s = sp_index (vs ! nat k)" "v = sp_value (vs ! nat k)"
    "posprinttwips s = extent sz 0 (sp_index (vs ! nat k) + 1)"
    using vs(4) [OF nk] by (simp_all add: s_def v_def getSpanData_def Let_def)
  have n: "0 < n" unfolding n_def s(1,2) using span_start_bounds(3) [OF vs(2) k(1,2)] by simp
  have sums: "extent sz 0 (sp_index (vs ! nat k) + 1) - v * (sp_index (vs ! nat k) - i + 1) = extent sz 0 i"
    if "span_start vs k \<le> i" "i \<le> sp_index (vs ! nat k) + 1" for i
    using element_from_span_end [OF vs(2,3) k(1,2) that, of "\<lambda>x. x"] unfolding s(3) .
  have q: "posprinttwips s - v * n = q" using sums [of "span_start vs k"] n unfolding n_def q_def s(1,2,4) by simp
  have "q \<le> pos"
    using k(3) vs(4) [of "nat (k - 1)"] nk assms(3) unfolding q_def s(1)
    by (auto simp: field_dir_def span_start_def extent_def split: if_splits)
  moreover have last_k: "extent sz 0 (sp_index (vs ! nat k) + 1) = extent sz 0 (mx + 1)" if "\<not> k + 1 < int (length vs)"
  proof -
    have "nat k = length vs - 1" using that k by linarith
    then show ?thesis using lst vs(4) [OF nk] ne by (simp add: last_conv_nth)
  qed
  moreover have "pos < q + v * n"
    using k(3) last_k assms(4) unfolding q [symmetric] s(4)
    by (auto simp: field_dir_def vs(4) [OF nk] split: if_splits)
  moreover have "0 \<le> v"
    using assms(2) [of "span_start vs k"] vs(3) [of "span_start vs k"] value_in_span [OF vs(2) k(1,2) order_refl]
      span_start_bounds [OF vs(2) k(1,2)] s(3) by simp
  ultimately have r: "0 \<le> v" "q \<le> pos" "pos < q + v * n" by auto
  note r = index_in_span [OF r]
  define i where "i = sv_start s + (pos - q) div v"
  have i: "span_start vs k \<le> i" "i \<le> sp_index (vs ! nat k)" using r(2,3) by (auto simp: i_def n_def s(1,2))
  have e: "extent sz 0 i = q + v * ((pos - q) div v)" "extent sz 0 (i + 1) = q + v * ((pos - q) div v + 1)"
    using sums [of i] sums [of "i + 1"] i q unfolding i_def n_def s by (simp_all add: algebra_simps)
  show ?thesis
  proof (rule that [of vs i s])
    show "visibleSizes d = Some vs" by (rule vs(1))
    show "spanAndIndexFromPrintTwips d vs (of_int pos) = (Some i, Some s)"
      using r(1,6) k(1) q unfolding i_def by (simp add: spanAndIndexFromPrintTwips_def getSpanDataByCustomDataField_def
        k_def [symmetric] s_def [symmetric] v_def [symmetric] n_def [symmetric] relative_index_def Let_def del: of_int_diff of_int_mult)
    show "0 \<le> i" "i \<le> mx" using i span_start_bounds [OF vs(2) k(1,2)] by auto
    show "extent sz 0 i \<le> pos" "pos < extent sz 0 (i + 1)" using r(4,5) by (simp_all add: e)
    show "getSpanDataByIndex vs i = Some s"
      using searchByIndex_eq [OF vs(2) k(1,2) i] k(1) by (simp add: getSpanDataByIndex_def s_def)
  qed
qed

text \<open>
  C20. A position in print twips inside the sheet belongs to the element that starts at or before it and ends behind it,
  and it is converted to tile twips by keeping its offset from the start of that element.
\<close>

theorem print_position_to_element:
  assumes "loads j mx sizes hid filt" "\<forall>i. 0 \<le> shown_size sizes hid filt i"
    "0 \<le> pos" "pos < extent (shown_size sizes hid filt) 0 (mx + 1)"
  shows "\<exists>i. let sz = shown_size sizes hid filt; t = twipsPerCorePixel d; d' = fst (dim_update d j) in
    getIndexFromPos d' (of_int pos) PrintTwips = Inr (Some i) \<and> 0 \<le> i \<and> i \<le> mx \<and>
    extent sz 0 i \<le> pos \<and> pos < extent sz 0 (i + 1) \<and>
    getSnapPos d' (of_int pos) PrintTwips = Inr (Some (extent sz 0 i)) \<and>
    getTileTwipsPosFromPrint d' (of_int pos) None =
      Inr (Some (of_int (\<lfloor>of_int (extent (\<lambda>j. core_size t (sz j)) 0 i) * t\<rfloor> + (pos - extent sz 0 i))))"
proof -
  let ?sz = "shown_size sizes hid filt"
  obtain d' where d': "dim_update d j = (d', Inr True)" "twipsPerCorePixel d' = twipsPerCorePixel d" "positioned d' mx ?sz"
    using dim_update_positioned [OF assms(1)] by blast
  obtain vs i s where i: "visibleSizes d' = Some vs" "spanAndIndexFromPrintTwips d' vs (of_int pos) = (Some i, Some s)"
    "0 \<le> i" "i \<le> mx" "extent ?sz 0 i \<le> pos" "pos < extent ?sz 0 (i + 1)" "getSpanDataByIndex vs i = Some s"
    using print_index [OF d'(3) _ assms(3,4)] assms(2) by metis
  have data: "getElementDataAny d' i u = Inr (elementDataAnyFromSpan (twipsPerCorePixel d) (Some i) (Some s) u)" for u
    by (simp add: getElementDataAny_def with_sizes_def i(1,7) d'(2))
  note e = element_data [OF d'(3) i(3,4), unfolded data d'(2)]
  show ?thesis
    using i e by (intro exI [of _ i]) (simp add: d'(1,2) Let_def getIndexFromPos_def getSnapPos_def getTileTwipsPosFromPrint_def
        with_sizes_def data_startpos_def move_offset_def)
qed

theorem print_position_to_element_witness:
  "\<exists>i. getIndexFromPos (fst (dim_update (new_dimension\<lparr>twipsPerCorePixel := 15\<rparr>) example_json)) 2450 PrintTwips = Inr (Some i) \<and>
     i \<le> 9"
proof -
  have "\<forall>i. 0 \<le> shown_size [\<lparr>sp_index = 3, sp_value = 1200\<rparr>, \<lparr>sp_index = 9, sp_value = 300\<rparr>]
     \<lparr>startBit = False, bs_ends = [1, 4, 9]\<rparr> \<lparr>startBit = False, bs_ends = [9]\<rparr> i"
    by (simp add: shown_size_def)
  moreover have "2450 < extent (shown_size [\<lparr>sp_index = 3, sp_value = 1200\<rparr>, \<lparr>sp_index = 9, sp_value = 300\<rparr>]
     \<lparr>startBit = False, bs_ends = [1, 4, 9]\<rparr> \<lparr>startBit = False, bs_ends = [9]\<rparr>) 0 (9 + 1)"
    by code_simp
  ultimately show ?thesis
    using print_position_to_element [OF example_loads, of 2450 "new_dimension\<lparr>twipsPerCorePixel := 15\<rparr>"] by (auto simp: Let_def)
qed

section \<open>Where the positions fail\<close>

text \<open>A dimension of two spans at 12.5 twips per pixel: a column of three pixels, then one of five.\<close>

definition narrow_json :: dim_json where
  "narrow_json = \<lparr>j_sizes = Some ''45:0 70:1 '', j_hidden = Some ''0:1 '', j_filtered = Some ''0:1 '', j_groups = None\<rparr>"

text \<open>
  The start of an element, as the code itself reports it in tile twips, can make the conversion back to print twips
  fail with a \<open>TypeError\<close>: the start is rounded down, below the exact start that the index is computed from.
\<close>

lemma tile_start_not_convertible:
  "let d = fst (dim_update (new_dimension\<lparr>twipsPerCorePixel := 25 / 2\<rparr>) narrow_json) in
   getElementDataAny d 1 TileTwips = Inr (Some \<lparr>startpos = Some 37, ps_size = 62\<rparr>) \<and>
   getIndexFromPos d 37 TileTwips = Inr (Some 0) \<and>
   getPrintTwipsPosFromTile d 37 = Inl TypeError"
  by code_simp

text \<open>
  The position just behind the last visible element has no element when the last elements are hidden: its index is
  \<open>NaN\<close>.
\<close>

lemma end_position_nan:
  "let d = fst (dim_update (new_dimension\<lparr>twipsPerCorePixel := 15\<rparr>) (example_json\<lparr>j_hidden := Some ''0:7 9 ''\<rparr>)) in
   getIndexFromPos d 6000 PrintTwips = Inr None \<and> getIndexFromPos d 5999 PrintTwips = Inr (Some 7)"
  by code_simp

section \<open>Groups\<close>

text \<open>The groups of a level follow each other without overlap.\<close>

definition groups_ok :: "outline_entry list \<Rightarrow> bool" where
  "groups_ok gs \<longleftrightarrow> sorted_wrt (\<lambda>g h. oe_end g < oe_start h) gs \<and> (\<forall>g \<in> set gs. oe_start g \<le> oe_end g)"

lemma groups_ok_nth:
  assumes "groups_ok gs" "b < length gs"
  shows "a < b \<Longrightarrow> oe_end (gs ! a) < oe_start (gs ! b)" "oe_start (gs ! b) \<le> oe_end (gs ! b)"
    "a \<le> b \<Longrightarrow> oe_end (gs ! a) \<le> oe_end (gs ! b)" "a \<le> b \<Longrightarrow> oe_start (gs ! a) \<le> oe_start (gs ! b)"
proof -
  show lt: "oe_end (gs ! a) < oe_start (gs ! b)" if "a < b" for a
    using assms that by (auto simp: groups_ok_def sorted_wrt_iff_nth_less)
  have se: "oe_start (gs ! c) \<le> oe_end (gs ! c)" if "c < length gs" for c using assms that by (auto simp: groups_ok_def)
  show "oe_start (gs ! b) \<le> oe_end (gs ! b)" by (rule se [OF assms(2)])
  show "oe_end (gs ! a) \<le> oe_end (gs ! b)" if "a \<le> b" using lt [of a] se [of b] assms(2) that by (cases "a = b") auto
  show "oe_start (gs ! a) \<le> oe_start (gs ! b)" if "a \<le> b" using lt [of a] se [of a] assms(2) that by (cases "a = b") auto
qed

lemma group_dir_match:
  assumes "groups_ok gs" "0 \<le> k" "k < int (length gs)"
  shows "group_dir gs e k = (if oe_end (gs ! nat k) < e then 1 else if k = 0 \<or> oe_end (gs ! nat (k - 1)) < e then 0 else -1)"
proof -
  have nk: "nat k < length gs" using assms by linarith
  have "0 < k \<Longrightarrow> oe_end (gs ! nat (k - 1)) < oe_start (gs ! nat k)"
    using groups_ok_nth(1) [OF assms(1) nk] assms(2) by auto
  then show ?thesis using groups_ok_nth(2) [OF assms(1) nk] assms(2)
    by (cases "k = 0") (auto simp: group_dir_def Let_def)
qed

interpretation by_group: directions "int (length gs)" "if groups_ok gs then group_dir gs e else (\<lambda>_. 0)" for gs e
proof (unfold_locales, goal_cases)
  case (1 i)
  then show ?case by (auto simp: group_dir_def Let_def)
next
  case (2 i j)
  show ?case
  proof (cases "groups_ok gs \<and> i < j")
    case True
    then have l: "nat i \<le> nat (j - 1)" "nat (j - 1) \<le> nat j" "nat j < length gs" "nat (j - 1) < length gs" using 2 by auto
    have "oe_end (gs ! nat i) \<le> oe_end (gs ! nat (j - 1))" "oe_end (gs ! nat (j - 1)) \<le> oe_end (gs ! nat j)"
      using True groups_ok_nth(3) [OF _ l(4,1)] groups_ok_nth(3) [OF _ l(3,2)] by auto
    then show ?thesis using True 2 by (auto simp: group_dir_match)
  qed (use 2 in auto)
qed

text \<open>The search finds the first group that does not end before the element.\<close>

lemma group_search:
  fixes e :: int
  assumes "groups_ok gs"
  defines "k \<equiv> binarySearch (int (length gs)) (group_dir gs e) False"
  shows "k = -1 \<and> (\<forall>g \<in> set gs. oe_end g < e) \<or>
    0 \<le> k \<and> k < int (length gs) \<and> (\<forall>j < nat k. oe_end (gs ! j) < e) \<and> (\<forall>j. nat k \<le> j \<and> j < length gs \<longrightarrow> e \<le> oe_end (gs ! j))"
proof (cases "\<exists>i. 0 \<le> i \<and> i < int (length gs) \<and> group_dir gs e i = 0")
  case True
  have k: "0 \<le> k" "k < int (length gs)" "group_dir gs e k = 0"
    using by_group.binarySearch_ok [of gs e False, unfolded if_P [OF assms(1)] if_P [OF True]] by (simp_all add: k_def)
  then have nk: "nat k < length gs" by linarith
  have m: "e \<le> oe_end (gs ! nat k)" "k = 0 \<or> oe_end (gs ! nat (k - 1)) < e"
    using k group_dir_match [OF assms(1) k(1,2), of e] by (auto split: if_splits)
  have "oe_end (gs ! j) < e" if "j < nat k" for j
    using groups_ok_nth(3) [OF assms(1), of "nat (k - 1)" j] m(2) that nk by force
  moreover have "e \<le> oe_end (gs ! j)" if "nat k \<le> j" "j < length gs" for j
    using groups_ok_nth(3) [OF assms(1) that(2,1)] m(1) by linarith
  ultimately show ?thesis using k by blast
next
  case False
  have k: "k = -1" using by_group.binarySearch_ok [of gs e False, unfolded if_P [OF assms(1)] if_not_P [OF False]] by (simp add: k_def)
  have "oe_end (gs ! j) < e" if "j < length gs" for j
    using that
  proof (induction j)
    case 0
    then show ?case using False group_dir_match [OF assms(1), of 0 e] by (force split: if_splits)
  next
    case (Suc j)
    then have "group_dir gs e (int (Suc j)) \<noteq> 0" using False by (metis of_nat_0_le_iff of_nat_less_iff)
    moreover have "nat (int (Suc j) - 1) = j" "nat (int (Suc j)) = Suc j" by linarith+
    ultimately show ?case
      using Suc group_dir_match [OF assms(1), of "int (Suc j)" e] by (auto simp del: of_nat_Suc split: if_splits)
  qed
  then show ?thesis using k by (auto simp: in_set_conv_nth)
qed

lemma filter_upt_split:
  assumes "k \<le> n" "\<And>j. j < k \<Longrightarrow> \<not> P j" "\<And>j. k \<le> j \<Longrightarrow> j < n \<Longrightarrow> P j = Q j"
  shows "filter P [0..<n] = filter Q [k..<n]"
proof -
  have "[0..<n] = [0..<k] @ [k..<n]" using assms(1) by (metis le_add_diff_inverse upt_add_eq_append zero_le)
  moreover have "filter P [0..<k] = []" using assms(2) by (auto simp: filter_empty_conv)
  moreover have "filter P [k..<n] = filter Q [k..<n]" using assms(3) by (intro filter_cong) auto
  ultimately show ?thesis by (metis append_Nil filter_append)
qed

text \<open>
  C33. For a level of groups in order, the groups reported for a range are exactly the groups that have an element in the
  range, in order and with their index.
\<close>

theorem groups_in_range_exact:
  assumes "groups_ok gs"
  shows "groups_in_level gs start (Some end) =
    map (\<lambda>k. (k, gs ! k)) (filter (\<lambda>k. start \<le> oe_end (gs ! k) \<and> oe_start (gs ! k) \<le> end) [0..<length gs])"
proof -
  let ?k = "binarySearch (int (length gs)) (group_dir gs start) False"
  consider "?k = -1" "\<forall>g \<in> set gs. oe_end g < start"
    | "0 \<le> ?k" "?k < int (length gs)" "\<forall>j < nat ?k. oe_end (gs ! j) < start" "\<forall>j. nat ?k \<le> j \<and> j < length gs \<longrightarrow> start \<le> oe_end (gs ! j)"
    using group_search [OF assms, of start] by blast
  then show ?thesis
  proof cases
    case 1
    then have "filter (\<lambda>k. start \<le> oe_end (gs ! k) \<and> oe_start (gs ! k) \<le> end) [0..<length gs] = []"
      unfolding filter_empty_conv by (metis atLeastLessThan_iff not_le nth_mem set_upt)
    then show ?thesis using 1 by (simp add: groups_in_level_def)
  next
    case 2
    have "filter (\<lambda>k. start \<le> oe_end (gs ! k) \<and> oe_start (gs ! k) \<le> end) [0..<length gs] =
      filter (\<lambda>k. oe_start (gs ! k) \<le> end) [nat ?k..<length gs]"
      using 2 by (intro filter_upt_split) (auto simp: not_le)
    moreover have "filter (\<lambda>k. oe_start (gs ! k) \<le> end) [nat ?k..<length gs] = []" if "end < oe_start (gs ! nat ?k)"
      using groups_ok_nth(4) [OF assms] that by (force simp: filter_empty_conv)
    ultimately show ?thesis using 2(1)
      by (auto simp: groups_in_level_def num_less_def Let_def filter_map o_def not_less)
  qed
qed

theorem groups_in_range_exact_witness:
  "groups_in_level [\<lparr>oe_start = 1, oe_end = 3, oe_hidden = 0, oe_visible = 1\<rparr>, \<lparr>oe_start = 5, oe_end = 8, oe_hidden = 0, oe_visible = 1\<rparr>]
     4 (Some 6) = [(1, \<lparr>oe_start = 5, oe_end = 8, oe_hidden = 0, oe_visible = 1\<rparr>)]"
  by (subst groups_in_range_exact) (simp_all add: groups_ok_def upt_rec)

section \<open>Other zooms\<close>

definition zoomed_size :: "rat \<Rightarrow> int \<Rightarrow> int" where
  "zoomed_size z v = \<lfloor>of_int v * z / 15\<rfloor>"

lemma getSpanData_fields [simp]:
  "sp_index (getSpanData vs k) = sp_index (vs ! nat k)" "sp_value (getSpanData vs k) = sp_value (vs ! nat k)"
  "sizecore (getSpanData vs k) = sizecore (vs ! nat k)" "poscorepx (getSpanData vs k) = poscorepx (vs ! nat k)"
  "sv_start (getSpanData vs k) = span_start vs k"
  by (simp_all add: getSpanData_def Let_def)

lemma span_start_Suc: "0 \<le> k \<Longrightarrow> span_start vs (k + 1) = sp_index (vs ! nat k) + 1"
  by (simp add: span_start_def)

lemma zoom_loop:
  assumes "covers mx (span_ends vs)" "\<And>i. 0 \<le> i \<Longrightarrow> i \<le> mx \<Longrightarrow> value_at vs i = sz i" "0 \<le> i" "i \<le> mx" "0 \<le> k" "k < int (length vs)"
    "span_start vs k \<le> i"
  shows "fold (element_at_zoom i z) (span_loop vs i k) (extent (\<lambda>j. zoomed_size z (sz j)) 0 (span_start vs k), 0) =
    (extent (\<lambda>j. zoomed_size z (sz j)) 0 i, zoomed_size z (sz i))"
  using assms(5-7)
proof (induction "nat (int (length vs) - k)" arbitrary: k rule: less_induct)
  case less
  note prems = less.prems
  let ?s = "getSpanData vs k" and ?f = "\<lambda>j. zoomed_size z (sz j)" and ?e = "sp_index (vs ! nat k)"
  note b = span_start_bounds [OF assms(1) prems(1,2)]
  have part: "extent ?f (span_start vs k) m = zoomed_size z (sp_value (vs ! nat k)) * (m - span_start vs k)"
    if "span_start vs k \<le> m" "m \<le> ?e + 1" for m
    using value_in_span [OF assms(1) prems(1,2)] assms(2) b that by (intro extent_const) auto
  have whole: "extent ?f 0 m = extent ?f 0 (span_start vs k) + zoomed_size z (sp_value (vs ! nat k)) * (m - span_start vs k)"
    if "span_start vs k \<le> m" "m \<le> ?e + 1" for m
    using part [OF that] extent_split [of 0 "span_start vs k" m ?f] b that by simp
  have last_span: "i \<le> ?e" if "\<not> k + 1 < int (length vs)"
  proof -
    have "nat k = length vs - 1" using that prems by linarith
    then show ?thesis using assms(1,4) by (auto simp: covers_def last_map last_conv_nth)
  qed
  show ?case
  proof (cases "?e < i")
    case True
    then have next': "k + 1 < int (length vs)" using last_span by linarith
    have "span_loop vs i k = ?s # span_loop vs i (k + 1)"
      using True prems next' by (simp add: span_loop.simps [of vs i k] Let_def)
    moreover have "element_at_zoom i z ?s (extent ?f 0 (span_start vs k), 0) = (extent ?f 0 (span_start vs (k + 1)), 0)"
      unfolding span_start_Suc [OF prems(1)] using True whole [of "?e + 1"] b
      by (simp add: element_at_zoom_def Let_def zoomed_size_def algebra_simps)
    moreover have "span_start vs (k + 1) \<le> i" using True prems(1) by (simp add: span_start_Suc)
    ultimately show ?thesis using less.hyps [of "k + 1"] next' prems by simp
  next
    case False
    have step: "element_at_zoom i z ?s (extent ?f 0 (span_start vs k), 0) = (extent ?f 0 i, ?f i)"
      using False prems whole [of i] value_in_span [OF assms(1) prems(1,2)] assms(2) [of i] assms(3,4)
      by (simp add: element_at_zoom_def Let_def zoomed_size_def)
    have stay: "element_at_zoom i z (getSpanData vs (k + 1)) acc = acc" if "?e = i" "k + 1 < int (length vs)" for acc
      using that prems(1) span_start_bounds(3) [OF assms(1), of "k + 1"]
      by (cases acc) (auto simp: element_at_zoom_def Let_def span_start_Suc)
    have "\<not> sp_index (vs ! nat (k + 1)) \<le> i" if "?e = i" "k + 1 < int (length vs)"
      using span_start_bounds(3) [OF assms(1), of "k + 1"] that prems(1) by (simp add: span_start_Suc)
    then have "span_loop vs i k = [?s] \<or> ?e = i \<and> k + 1 < int (length vs) \<and> span_loop vs i k = [?s, getSpanData vs (k + 1)]"
      using False prems by (auto simp: span_loop.simps [of vs i k] span_loop.simps [of vs i "k + 1"] Let_def)
    then show ?thesis using step stay by auto
  qed
qed

text \<open>
  The position and size of an element at another zoom, for which there is no table, are the sums of the sizes at that zoom.
\<close>

lemma element_at_other_zoom:
  assumes "loads j mx sizes hid filt" "0 \<le> i" "i \<le> mx"
  shows "let zsz = (\<lambda>j. zoomed_size z (shown_size sizes hid filt j)) in
    getElementData (fst (dim_update d j)) i (Some z) = Inr (Some \<lparr>startpos = Some (extent zsz 0 i), ps_size = zsz i\<rparr>)"
proof -
  obtain d' where d': "dim_update d j = (d', Inr True)" "positioned d' mx (shown_size sizes hid filt)"
    using dim_update_positioned [OF assms(1)] by blast
  obtain vs where vs: "visibleSizes d' = Some vs" "covers mx (span_ends vs)"
    "\<And>i. 0 \<le> i \<Longrightarrow> i \<le> mx \<Longrightarrow> value_at vs i = shown_size sizes hid filt i"
    using positionedE [OF d'(2)] by metis
  have ne: "0 < length vs" using vs(2) by (auto simp: covers_def)
  have "searchByIndex vs 0 = 0"
    using span_start_bounds [OF vs(2), of 0] ne by (intro searchByIndex_eq [OF vs(2)]) (auto simp: span_start_def)
  then show ?thesis
    using zoom_loop [OF vs(2,3) assms(2,3), of 0 z] ne assms(2)
    by (simp add: d'(1) getElementData_def with_sizes_def vs(1) forEachSpanInRange_def Let_def span_start_def extent_def)
qed

lemma element_at_other_zoom_witness:
  "getElementData (fst (dim_update (new_dimension\<lparr>twipsPerCorePixel := 15\<rparr>) example_json)) 6 (Some 2) =
     Inr (Some \<lparr>startpos = Some 360, ps_size = 40\<rparr>)"
proof -
  have "extent (\<lambda>j. zoomed_size 2 (shown_size [\<lparr>sp_index = 3, sp_value = 1200\<rparr>, \<lparr>sp_index = 9, sp_value = 300\<rparr>]
     \<lparr>startBit = False, bs_ends = [1, 4, 9]\<rparr> \<lparr>startBit = False, bs_ends = [9]\<rparr> j)) 0 6 = 360"
    by code_simp
  then show ?thesis
    using element_at_other_zoom [OF example_loads, of 6 2 "new_dimension\<lparr>twipsPerCorePixel := 15\<rparr>"]
    by (simp add: Let_def shown_size_def zoomed_size_def)
qed

text \<open>At the current zoom a position in pixels is converted to itself.\<close>

lemma pixels_step_same:
  assumes "sizeOne s = sizeTo s"
  shows "fst (pixels_step sizeOne sizeTo s acc) + of_int (snd (pixels_step sizeOne sizeTo s acc)) = fst acc + of_int (snd acc)"
  using assms by (cases acc) (auto simp: pixels_step_def Let_def)

lemma pixels_fold_same:
  assumes "\<forall>s \<in> set ss. sizeOne s = sizeTo s"
  shows "fst (fold (pixels_step sizeOne sizeTo) ss acc) + of_int (snd (fold (pixels_step sizeOne sizeTo) ss acc)) = fst acc + of_int (snd acc)"
  using assms by (induction ss arbitrary: acc) (simp_all add: pixels_step_same)

lemma same_zoom_identity:
  assumes "positioned d mx sz" "coreZoomFactor d = 15 / twipsPerCorePixel d" "twipsPerCorePixel d > 0"
  shows "dim_getCorePixelsAtZoom d pos (coreZoomFactor d) = Inr pos" "dim_getCorePixelsFromZoom d pos (coreZoomFactor d) = Inr pos"
proof -
  obtain vs where vs: "visibleSizes d = Some vs"
    "\<And>k. k < length vs \<Longrightarrow> sizecore (vs ! k) = core_size (twipsPerCorePixel d) (sp_value (vs ! k))"
    using positionedE [OF assms(1)] by metis
  have eq: "\<forall>s \<in> set (forEachSpan vs). sizecore s = size_at_zoom (coreZoomFactor d) s"
    using vs(2) assms(2) by (auto simp: forEachSpan_def core_size_def size_at_zoom_def)
  have nz: "coreZoomFactor d \<noteq> 0" using assms(2,3) by simp
  show "dim_getCorePixelsAtZoom d pos (coreZoomFactor d) = Inr pos"
    using pixels_fold_same [OF eq, of "(pos, 0)"] nz
    by (simp add: dim_getCorePixelsAtZoom_def with_sizes_def vs(1) case_prod_unfold add.commute)
  show "dim_getCorePixelsFromZoom d pos (coreZoomFactor d) = Inr pos"
    using pixels_fold_same [of _ "size_at_zoom (coreZoomFactor d)" sizecore "(pos, 0)"] eq nz
    by (simp add: dim_getCorePixelsFromZoom_def with_sizes_def vs(1) case_prod_unfold add.commute)
qed

text \<open>
  At another zoom the conversion does not stop at the element of the position: narrower elements behind it still add to
  the result. Here pixel 99 of a column of 100 pixels goes to 207, though the column ends at 200.
\<close>

lemma later_spans_move_position:
  "let d = fst (dim_update (new_dimension\<lparr>twipsPerCorePixel := 15, coreZoomFactor := 1\<rparr>)
         \<lparr>j_sizes = Some ''1500:0 10:9 '', j_hidden = Some ''0:9 '', j_filtered = Some ''0:9 '', j_groups = None\<rparr>) in
   dim_getCorePixelsAtZoom d 99 2 = Inr 207 \<and> getElementData d 0 (Some 2) = Inr (Some \<lparr>startpos = Some 0, ps_size = 200\<rparr>)"
  by code_simp

text \<open>The limits of the view stay inside the sheet.\<close>

lemma view_limits_bounded:
  assumes "setViewLimits a b d = Inr d'" "viewRange d' = Some (s, e)"
  shows "case s of Some i \<Rightarrow> 0 \<le> i | None \<Rightarrow> True" "case e of Some i \<Rightarrow> i \<le> maxIndex d | None \<Rightarrow> True"
  using assms by (auto simp: setViewLimits_def with_sizes_def split: option.splits)

end
