(* ===== verification/Lines.thy ===== *)
theory Lines
  imports Geometry "HOL-Library.Sublist"
begin

text \<open>
  Line segments (geometry/LineUtil.js): clipping to a rectangle by the Cohen-Sutherland algorithm and
  simplification by vertex reduction and the Douglas-Peucker algorithm.

  \<^item> Coordinates are \<open>rat\<close>.
  \<^item> A bit code is a record of four bits, so that \<open>|\<close> and \<open>&\<close> of codes are or and and of the bits.
  \<^item> The loop of \<open>clipSegment\<close> takes fuel: with rounding and fractional bounds it can run for ever.
\<close>

named_theorems line_defs "definitions of line utilities"

section \<open>Bit codes\<close>

record outcode =
  oc_left :: bool
  oc_right :: bool
  oc_bottom :: bool
  oc_top :: bool

definition getBitCode :: "rat point \<Rightarrow> rat bounds \<Rightarrow> outcode" where
  [line_defs]: "getBitCode p b =
     \<lparr>oc_left = (px p < px (bmin b)), oc_right = (\<not> px p < px (bmin b) \<and> px p > px (bmax b)),
      oc_bottom = (py p < py (bmin b)), oc_top = (\<not> py p < py (bmin b) \<and> py p > py (bmax b))\<rparr>"

definition code_empty :: "outcode \<Rightarrow> bool" where
  [line_defs]: "code_empty c \<longleftrightarrow> \<not> oc_left c \<and> \<not> oc_right c \<and> \<not> oc_bottom c \<and> \<not> oc_top c"

definition code_meet :: "outcode \<Rightarrow> outcode \<Rightarrow> bool" where
  [line_defs]: "code_meet c d \<longleftrightarrow>
     oc_left c \<and> oc_left d \<or> oc_right c \<and> oc_right d \<or> oc_bottom c \<and> oc_bottom d \<or> oc_top c \<and> oc_top d"

section \<open>Clipping a segment\<close>

definition new_point :: "rat \<Rightarrow> rat \<Rightarrow> bool \<Rightarrow> rat point" where
  [line_defs]: "new_point x y rnd = (if rnd then Pt (of_int (js_round x)) (of_int (js_round y)) else Pt x y)"

text \<open>Only called with a code that is not empty, so the last branch is that of the left edge.\<close>

definition getEdgeIntersection :: "rat point \<Rightarrow> rat point \<Rightarrow> outcode \<Rightarrow> rat bounds \<Rightarrow> bool \<Rightarrow> rat point" where
  [line_defs]: "getEdgeIntersection a b code bnd rnd =
     (let dx = px b - px a; dy = py b - py a
      in if oc_top code then new_point (px a + dx * (py (bmax bnd) - py a) / dy) (py (bmax bnd)) rnd
         else if oc_bottom code then new_point (px a + dx * (py (bmin bnd) - py a) / dy) (py (bmin bnd)) rnd
         else if oc_right code then new_point (px (bmax bnd)) (py a + dy * (px (bmax bnd) - px a) / dx) rnd
         else new_point (px (bmin bnd)) (py a + dy * (px (bmin bnd) - px a) / dx) rnd)"

text \<open>\<open>None\<close> is a loop that has not ended, \<open>Some None\<close> the result \<open>false\<close>.\<close>

fun clip_loop :: "nat \<Rightarrow> rat bounds \<Rightarrow> bool \<Rightarrow> outcode \<Rightarrow> outcode \<Rightarrow> rat point \<Rightarrow> rat point \<Rightarrow>
  (rat point \<times> rat point) option option" where
  "clip_loop 0 bnd rnd codeA codeB a b = None"
| "clip_loop (Suc n) bnd rnd codeA codeB a b =
     (if code_empty codeA \<and> code_empty codeB then Some (Some (a, b))
      else if code_meet codeA codeB then Some None
      else if \<not> code_empty codeA
      then (let p = getEdgeIntersection a b codeA bnd rnd in clip_loop n bnd rnd (getBitCode p bnd) codeB p b)
      else (let p = getEdgeIntersection a b codeB bnd rnd in clip_loop n bnd rnd codeA (getBitCode p bnd) a p))"

text \<open>\<open>lastCode\<close> is the code kept from the previous segment, when it is to be used; the new one is returned.\<close>

definition clipSegment :: "nat \<Rightarrow> rat point \<Rightarrow> rat point \<Rightarrow> rat bounds \<Rightarrow> outcode option \<Rightarrow> bool \<Rightarrow>
  (rat point \<times> rat point) option option \<times> outcode" where
  [line_defs]: "clipSegment fuel a b bnd lastCode rnd =
     (let codeA = (case lastCode of Some c \<Rightarrow> c | None \<Rightarrow> getBitCode a bnd); codeB = getBitCode b bnd
      in (clip_loop fuel bnd rnd codeA codeB a b, codeB))"

section \<open>Distances\<close>

definition sqDist :: "rat point \<Rightarrow> rat point \<Rightarrow> rat" where
  [line_defs]: "sqDist p1 p2 = (let dx = px p2 - px p1; dy = py p2 - py p1 in dx * dx + dy * dy)"

definition closestPointOnSegment :: "rat point \<Rightarrow> rat point \<Rightarrow> rat point \<Rightarrow> rat point" where
  [line_defs]: "closestPointOnSegment p p1 p2 =
     (let dx = px p2 - px p1; dy = py p2 - py p1; dot = dx * dx + dy * dy
      in if dot > 0
         then (let t = ((px p - px p1) * dx + (py p - py p1) * dy) / dot
               in if t > 1 then p2 else if t > 0 then Pt (px p1 + dx * t) (py p1 + dy * t) else p1)
         else p1)"

definition sqDistToSegment :: "rat point \<Rightarrow> rat point \<Rightarrow> rat point \<Rightarrow> rat" where
  [line_defs]: "sqDistToSegment p p1 p2 =
     (let q = closestPointOnSegment p p1 p2; dx = px p - px q; dy = py p - py q in dx * dx + dy * dy)"

section \<open>Simplification\<close>

text \<open>The loop of \<open>_reducePoints\<close> after the first point: the last point is pushed in the loop or behind it.\<close>

fun reduce_loop :: "rat \<Rightarrow> rat point \<Rightarrow> rat point list \<Rightarrow> rat point list" where
  "reduce_loop tol prev [] = []"
| "reduce_loop tol prev [p] = [p]"
| "reduce_loop tol prev (p # q # ps) =
     (if sqDist p prev > tol then p # reduce_loop tol p (q # ps) else reduce_loop tol prev (q # ps))"

definition reducePoints :: "rat point list \<Rightarrow> rat \<Rightarrow> rat point list" where
  [line_defs]: "reducePoints points sqTolerance =
     (case points of [] \<Rightarrow> [] | p # ps \<Rightarrow> p # reduce_loop sqTolerance p ps)"

text \<open>The loop over the points between \<open>first\<close> and \<open>last\<close>: the largest distance and where it is reached.\<close>

fun far_point :: "rat point list \<Rightarrow> rat point \<Rightarrow> rat point \<Rightarrow> nat list \<Rightarrow> rat \<times> nat option \<Rightarrow> rat \<times> nat option" where
  "far_point points p1 p2 [] acc = acc"
| "far_point points p1 p2 (i # is) (maxSqDist, index) =
     (let d = sqDistToSegment (points ! i) p1 p2
      in far_point points p1 p2 is (if d > maxSqDist then (d, Some i) else (maxSqDist, index)))"

definition farthest :: "rat point list \<Rightarrow> nat \<Rightarrow> nat \<Rightarrow> rat \<times> nat option" where
  [line_defs]: "farthest points first lst = far_point points (points ! first) (points ! lst) [Suc first..<lst] (0, None)"

lemma far_point_result:
  assumes "far_point points p1 p2 is (m, ix) = (m', ix')"
  shows "m \<le> m' \<and> (\<forall>i \<in> set is. sqDistToSegment (points ! i) p1 p2 \<le> m') \<and>
    (m = m' \<and> ix = ix' \<or> (\<exists>i \<in> set is. ix' = Some i \<and> m' = sqDistToSegment (points ! i) p1 p2))"
  using assms
proof (induction "is" arbitrary: m ix)
  case (Cons i "is")
  let ?d = "sqDistToSegment (points ! i) p1 p2"
  show ?case
  proof (cases "?d > m")
    case True
    then show ?thesis using Cons.IH [of ?d "Some i"] Cons.prems by (force simp: Let_def)
  next
    case False
    then show ?thesis using Cons.IH [of m ix] Cons.prems by (force simp: Let_def)
  qed
qed auto

lemma farthest_result:
  assumes "farthest points first lst = (m, ix)"
  shows "0 \<le> m" "\<And>i. first < i \<Longrightarrow> i < lst \<Longrightarrow> sqDistToSegment (points ! i) (points ! first) (points ! lst) \<le> m"
    "0 < m \<Longrightarrow> \<exists>i. ix = Some i \<and> first < i \<and> i < lst"
  using far_point_result [OF assms [unfolded farthest_def]] by auto

text \<open>Points, indexes and the array of marks.\<close>

function simplifyDPStep :: "rat point list \<Rightarrow> rat \<Rightarrow> nat \<Rightarrow> nat \<Rightarrow> bool list \<Rightarrow> bool list" where
  "simplifyDPStep points sqTolerance first lst markers =
     (case farthest points first lst of
        (maxSqDist, Some index) \<Rightarrow>
          if maxSqDist > sqTolerance \<and> first < index \<and> index < lst
          then simplifyDPStep points sqTolerance index lst
                 (simplifyDPStep points sqTolerance first index (markers[index := True]))
          else markers
      | (maxSqDist, None) \<Rightarrow> markers)"
  by pat_completeness auto
termination
  by (relation "measure (\<lambda>(points, tol, first, lst, markers). lst - first)") auto

declare simplifyDPStep.simps [simp del]

definition simplifyDP :: "rat point list \<Rightarrow> rat \<Rightarrow> rat point list" where
  [line_defs]: "simplifyDP points sqTolerance =
     (let len = length points;
          markers = (replicate len False)[0 := True, len - 1 := True]
      in map fst (filter snd (zip points (simplifyDPStep points sqTolerance 0 (len - 1) markers))))"

definition simplify :: "rat point list \<Rightarrow> rat \<Rightarrow> rat point list" where
  [line_defs]: "simplify points tolerance =
     (if tolerance = 0 \<or> points = [] then points
      else simplifyDP (reducePoints points (tolerance * tolerance)) (tolerance * tolerance))"

section \<open>Segments\<close>

definition along :: "rat point \<Rightarrow> rat point \<Rightarrow> rat \<Rightarrow> rat point" where
  "along a b t = Pt (px a + t * (px b - px a)) (py a + t * (py b - py a))"

definition segment :: "rat point \<Rightarrow> rat point \<Rightarrow> rat point set" where
  "segment a b = {along a b t | t. 0 \<le> t \<and> t \<le> 1}"

definition inside :: "rat bounds \<Rightarrow> rat point \<Rightarrow> bool" where
  "inside bnd p \<longleftrightarrow> px (bmin bnd) \<le> px p \<and> px p \<le> px (bmax bnd) \<and> py (bmin bnd) \<le> py p \<and> py p \<le> py (bmax bnd)"

definition proper :: "rat bounds \<Rightarrow> bool" where
  "proper bnd \<longleftrightarrow> px (bmin bnd) \<le> px (bmax bnd) \<and> py (bmin bnd) \<le> py (bmax bnd)"

text \<open>An affine function of the plane; below, a signed coordinate.\<close>

definition affine :: "(rat point \<Rightarrow> rat) \<Rightarrow> bool" where
  "affine f \<longleftrightarrow> (\<forall>a b t. f (along a b t) = f a + t * (f b - f a))"

lemma affine_coordinates [simp]: "affine px" "affine py" "affine (\<lambda>p. - px p)" "affine (\<lambda>p. - py p)"
  by (auto simp: affine_def along_def algebra_simps)

lemma segment_commute: "segment a b = segment b a"
proof -
  have "along a b t = along b a (1 - t)" for a b t by (simp add: along_def algebra_simps)
  then show ?thesis unfolding segment_def by (force intro: exI [of _ "1 - _"])
qed

lemma segment_ends: "a \<in> segment a b" "b \<in> segment a b"
  unfolding segment_def by (auto simp: along_def intro: exI [of _ 0] exI [of _ 1])

text \<open>The value on a segment lies between those at its ends.\<close>

lemma affine_between:
  assumes "affine f" "q \<in> segment a b" "f a \<le> c" "f b \<le> c"
  shows "f q \<le> c"
proof -
  obtain t where t: "q = along a b t" "0 \<le> t" "t \<le> 1" using assms(2) by (auto simp: segment_def)
  have "f q = (1 - t) * f a + t * f b" using assms(1) t(1) by (simp add: affine_def algebra_simps)
  also have "\<dots> \<le> (1 - t) * c + t * c" using assms(3,4) t by (intro add_mono mult_left_mono) auto
  finally show ?thesis by (simp add: algebra_simps)
qed

text \<open>Cutting a segment at the edge of a half plane that holds one end of it.\<close>

lemma segment_cut:
  assumes "affine f" "c < f a" "f b \<le> c" "s = (c - f a) / (f b - f a)"
  shows "segment (along a b s) b = {q \<in> segment a b. f q \<le> c}" "f (along a b s) = c" "along a b s \<in> segment a b"
proof -
  have d: "f b - f a < 0" using assms by simp
  have s: "0 \<le> s" "s \<le> 1" unfolding assms(4) using assms(2,3) d by (auto intro: divide_nonpos_neg simp: divide_le_eq_1_neg)
  show "along a b s \<in> segment a b" using s by (auto simp: segment_def)
  show fs: "f (along a b s) = c" using assms d by (simp add: affine_def)
  have inner: "along (along a b s) b t = along a b (s + t * (1 - s))" for t by (simp add: along_def algebra_simps)
  have below: "f (along a b t) \<le> c \<longleftrightarrow> s \<le> t" for t
  proof -
    have "f (along a b t) = f a + t * (f b - f a)" "c = f a + s * (f b - f a)" using assms(1) fs by (auto simp: affine_def)
    then have "f (along a b t) - c = (t - s) * (f b - f a)" by (simp add: left_diff_distrib)
    then have "f (along a b t) \<le> c \<longleftrightarrow> (t - s) * (f b - f a) \<le> 0" by linarith
    then show ?thesis using d by (auto simp: mult_le_0_iff)
  qed
  show "segment (along a b s) b = {q \<in> segment a b. f q \<le> c}"
  proof (intro equalityI subsetI)
    fix q assume "q \<in> segment (along a b s) b"
    then obtain t where t: "q = along a b (s + t * (1 - s))" "0 \<le> t" "t \<le> 1" by (auto simp: segment_def inner)
    have "s \<le> s + t * (1 - s)" "s + t * (1 - s) \<le> 1" using s t mult_left_le_one_le [of "1 - s" t] by auto
    then show "q \<in> {q \<in> segment a b. f q \<le> c}" using t s below by (auto simp: segment_def intro: exI [of _ "s + t * (1 - s)"])
  next
    fix q assume "q \<in> {q \<in> segment a b. f q \<le> c}"
    then obtain t where t: "q = along a b t" "0 \<le> t" "t \<le> 1" "s \<le> t" by (auto simp: segment_def below)
    show "q \<in> segment (along a b s) b"
    proof (cases "s = 1")
      case True
      then show ?thesis using t segment_ends(1) by auto
    next
      case False
      then have "0 \<le> (t - s) / (1 - s)" "(t - s) / (1 - s) \<le> 1" "s + (t - s) / (1 - s) * (1 - s) = t" using t s by auto
      then show ?thesis using t(1) inner by (auto simp: segment_def intro!: exI [of _ "(t - s) / (1 - s)"])
    qed
  qed
qed

section \<open>The edges of a rectangle\<close>

datatype edge = Top | Bottom | Right | Left

fun level :: "edge \<Rightarrow> rat point \<Rightarrow> rat" where
  "level Top p = py p"
| "level Bottom p = - py p"
| "level Right p = px p"
| "level Left p = - px p"

fun limit :: "edge \<Rightarrow> rat bounds \<Rightarrow> rat" where
  "limit Top b = py (bmax b)"
| "limit Bottom b = - py (bmin b)"
| "limit Right b = px (bmax b)"
| "limit Left b = - px (bmin b)"

definition outs :: "rat bounds \<Rightarrow> rat point \<Rightarrow> edge set" where
  "outs bnd p = {e. limit e bnd < level e p}"

lemma affine_level [simp]: "affine (level e)"
proof -
  have "level Top = py" "level Bottom = (\<lambda>p. - py p)" "level Right = px" "level Left = (\<lambda>p. - px p)" by auto
  then show ?thesis by (cases e) auto
qed

lemma all_edges: "(\<forall>e. P e) \<longleftrightarrow> P Top \<and> P Bottom \<and> P Right \<and> P Left"
  by (metis edge.exhaust)

lemma ex_edges: "(\<exists>e. P e) \<longleftrightarrow> P Top \<or> P Bottom \<or> P Right \<or> P Left"
  using all_edges [of "\<lambda>e. \<not> P e"] by auto

lemma inside_outs: "inside bnd p \<longleftrightarrow> outs bnd p = {}"
proof -
  have "outs bnd p = {} \<longleftrightarrow> (\<forall>e. \<not> limit e bnd < level e p)" by (auto simp: outs_def)
  then show ?thesis unfolding all_edges by (auto simp: inside_def not_less)
qed

lemma code_bits:
  assumes "proper bnd"
  shows "oc_top (getBitCode p bnd) \<longleftrightarrow> Top \<in> outs bnd p" "oc_bottom (getBitCode p bnd) \<longleftrightarrow> Bottom \<in> outs bnd p"
    "oc_right (getBitCode p bnd) \<longleftrightarrow> Right \<in> outs bnd p" "oc_left (getBitCode p bnd) \<longleftrightarrow> Left \<in> outs bnd p"
  using assms by (auto simp: getBitCode_def outs_def proper_def)

lemma code_tests:
  assumes "proper bnd"
  shows "code_empty (getBitCode p bnd) \<longleftrightarrow> outs bnd p = {}"
    "code_meet (getBitCode p bnd) (getBitCode q bnd) \<longleftrightarrow> outs bnd p \<inter> outs bnd q \<noteq> {}"
proof -
  have "outs bnd p = {} \<longleftrightarrow> (\<forall>e. e \<notin> outs bnd p)" by auto
  then show "code_empty (getBitCode p bnd) \<longleftrightarrow> outs bnd p = {}"
    unfolding all_edges code_empty_def code_bits [OF assms] by auto
  have "outs bnd p \<inter> outs bnd q \<noteq> {} \<longleftrightarrow> (\<exists>e. e \<in> outs bnd p \<and> e \<in> outs bnd q)" by auto
  then show "code_meet (getBitCode p bnd) (getBitCode q bnd) \<longleftrightarrow> outs bnd p \<inter> outs bnd q \<noteq> {}"
    unfolding ex_edges code_meet_def code_bits [OF assms] by auto
qed

text \<open>The point where a segment crosses the edge that the code picks.\<close>

definition cut_at :: "edge \<Rightarrow> rat bounds \<Rightarrow> rat point \<Rightarrow> rat point \<Rightarrow> rat point" where
  "cut_at e bnd a b = along a b ((limit e bnd - level e a) / (level e b - level e a))"

lemma cut_at_commute:
  assumes "level e a \<noteq> level e b"
  shows "cut_at e bnd a b = cut_at e bnd b a"
proof -
  let ?s = "(limit e bnd - level e a) / (level e b - level e a)"
  have "(limit e bnd - level e b) / (level e a - level e b) = 1 - ?s" using assms by (simp add: field_simps)
  moreover have "along b a (1 - t) = along a b t" for t by (simp add: along_def algebra_simps)
  ultimately show ?thesis by (simp add: cut_at_def)
qed

lemma cut_at_edges:
  "py a \<noteq> py b \<Longrightarrow> cut_at Top bnd a b = Pt (px a + (px b - px a) * (py (bmax bnd) - py a) / (py b - py a)) (py (bmax bnd))"
  "py a \<noteq> py b \<Longrightarrow> cut_at Bottom bnd a b = Pt (px a + (px b - px a) * (py (bmin bnd) - py a) / (py b - py a)) (py (bmin bnd))"
  "px a \<noteq> px b \<Longrightarrow> cut_at Right bnd a b = Pt (px (bmax bnd)) (py a + (py b - py a) * (px (bmax bnd) - px a) / (px b - px a))"
  "px a \<noteq> px b \<Longrightarrow> cut_at Left bnd a b = Pt (px (bmin bnd)) (py a + (py b - py a) * (px (bmin bnd) - px a) / (px b - px a))"
proof -
  have neg: "(- m - - u) / (- v - - u) = (m - u) / (v - u)" for m u v :: rat
    using minus_divide_divide [of "m - u" "v - u"] by simp
  show "py a \<noteq> py b \<Longrightarrow> cut_at Top bnd a b = Pt (px a + (px b - px a) * (py (bmax bnd) - py a) / (py b - py a)) (py (bmax bnd))"
    "py a \<noteq> py b \<Longrightarrow> cut_at Bottom bnd a b = Pt (px a + (px b - px a) * (py (bmin bnd) - py a) / (py b - py a)) (py (bmin bnd))"
    "px a \<noteq> px b \<Longrightarrow> cut_at Right bnd a b = Pt (px (bmax bnd)) (py a + (py b - py a) * (px (bmax bnd) - px a) / (px b - px a))"
    "px a \<noteq> px b \<Longrightarrow> cut_at Left bnd a b = Pt (px (bmin bnd)) (py a + (py b - py a) * (px (bmin bnd) - px a) / (px b - px a))"
    unfolding cut_at_def along_def level.simps limit.simps neg by (simp_all add: mult.commute)
qed

lemma intersection_cut:
  assumes "proper bnd" "outs bnd q \<noteq> {}" "\<forall>e \<in> outs bnd q. level e a \<noteq> level e b"
  obtains e where "e \<in> outs bnd q" "getEdgeIntersection a b (getBitCode q bnd) bnd False = cut_at e bnd a b"
proof -
  have "\<exists>e. e \<in> outs bnd q" using assms(2) by blast
  then consider "Top \<in> outs bnd q" | "Top \<notin> outs bnd q" "Bottom \<in> outs bnd q"
    | "Top \<notin> outs bnd q" "Bottom \<notin> outs bnd q" "Right \<in> outs bnd q"
    | "Top \<notin> outs bnd q" "Bottom \<notin> outs bnd q" "Right \<notin> outs bnd q" "Left \<in> outs bnd q"
    unfolding ex_edges by blast
  then have "\<exists>e. e \<in> outs bnd q \<and> getEdgeIntersection a b (getBitCode q bnd) bnd False = cut_at e bnd a b"
  proof cases
    case 1
    then show ?thesis using bspec [OF assms(3) 1]
      by (intro exI [of _ Top]) (simp add: getEdgeIntersection_def code_bits [OF assms(1)] Let_def new_point_def cut_at_edges)
  next
    case 2
    then show ?thesis using bspec [OF assms(3) 2(2)]
      by (intro exI [of _ Bottom]) (simp add: getEdgeIntersection_def code_bits [OF assms(1)] Let_def new_point_def cut_at_edges)
  next
    case 3
    then show ?thesis using bspec [OF assms(3) 3(3)]
      by (intro exI [of _ Right]) (simp add: getEdgeIntersection_def code_bits [OF assms(1)] Let_def new_point_def cut_at_edges)
  next
    case 4
    then show ?thesis using bspec [OF assms(3) 4(4)]
      by (intro exI [of _ Left]) (simp add: getEdgeIntersection_def code_bits [OF assms(1)] Let_def new_point_def cut_at_edges)
  qed
  then show ?thesis using that by blast
qed

text \<open>Rounding a point keeps it inside bounds with integer corners.\<close>

definition integral :: "rat bounds \<Rightarrow> bool" where
  "integral bnd \<longleftrightarrow> {px (bmin bnd), py (bmin bnd), px (bmax bnd), py (bmax bnd)} \<subseteq> \<int>"

lemma getEdgeIntersection_rnd:
  "getEdgeIntersection a b c bnd True = new_point (px (getEdgeIntersection a b c bnd False)) (py (getEdgeIntersection a b c bnd False)) True"
  by (simp add: getEdgeIntersection_def new_point_def Let_def)

lemma js_round_le: "x \<le> of_int k \<Longrightarrow> js_round x \<le> k" "of_int k \<le> x \<Longrightarrow> k \<le> js_round x"
  unfolding js_round_def by linarith+

lemma outs_round:
  assumes "integral bnd"
  shows "outs bnd (new_point (px p) (py p) True) \<subseteq> outs bnd p"
proof -
  obtain a b c d where i: "px (bmin bnd) = of_int a" "py (bmin bnd) = of_int b" "px (bmax bnd) = of_int c" "py (bmax bnd) = of_int d"
    using assms unfolding integral_def by (auto elim!: Ints_cases)
  have "e \<notin> outs bnd (new_point (px p) (py p) True)" if "e \<notin> outs bnd p" for e
    using that js_round_le(1) [of "px p" c] js_round_le(2) [of a "px p"] js_round_le(1) [of "py p" d] js_round_le(2) [of b "py p"]
    by (cases e) (simp_all add: outs_def new_point_def not_less i)
  then show ?thesis by blast
qed

section \<open>Clipping is exact\<close>

definition visible_part :: "rat bounds \<Rightarrow> rat point \<Rightarrow> rat point \<Rightarrow> rat point set" where
  "visible_part bnd a b = {x \<in> segment a b. inside bnd x}"

lemma visible_part_commute: "visible_part bnd a b = visible_part bnd b a"
  by (simp add: visible_part_def segment_commute)

lemma outs_between:
  assumes "x \<in> segment q r"
  shows "outs bnd x \<subseteq> outs bnd q \<union> outs bnd r"
  unfolding outs_def using affine_between [OF affine_level assms] by (auto simp: not_less [symmetric])

lemma cut_step:
  assumes "e \<in> outs bnd q" "e \<notin> outs bnd r"
  shows "e \<notin> outs bnd (cut_at e bnd q r)" "outs bnd (cut_at e bnd q r) \<subseteq> outs bnd q \<union> outs bnd r"
    "visible_part bnd (cut_at e bnd q r) r = visible_part bnd q r"
proof -
  have l: "limit e bnd < level e q" "level e r \<le> limit e bnd" using assms by (auto simp: outs_def)
  note cut = segment_cut [OF affine_level l refl, folded cut_at_def]
  show "e \<notin> outs bnd (cut_at e bnd q r)" using cut(2) by (simp add: outs_def)
  show "outs bnd (cut_at e bnd q r) \<subseteq> outs bnd q \<union> outs bnd r" by (rule outs_between [OF cut(3)])
  have "inside bnd x \<Longrightarrow> level e x \<le> limit e bnd" for x unfolding inside_outs outs_def by (auto simp: not_less)
  then show "visible_part bnd (cut_at e bnd q r) r = visible_part bnd q r" by (auto simp: visible_part_def cut(1))
qed

text \<open>One round of the loop on either end.\<close>

lemma intersection_step:
  assumes "proper bnd" "outs bnd q \<noteq> {}" "outs bnd q \<inter> outs bnd r = {}"
    "p = getEdgeIntersection q r (getBitCode q bnd) bnd False \<or> p = getEdgeIntersection r q (getBitCode q bnd) bnd False"
  obtains e where "e \<in> outs bnd q" "e \<notin> outs bnd p" "outs bnd p \<subseteq> outs bnd q \<union> outs bnd r"
    "visible_part bnd p r = visible_part bnd q r"
proof -
  have ne: "level e q \<noteq> level e r" if "e \<in> outs bnd q" for e using that assms(3) by (force simp: outs_def)
  obtain e where e: "e \<in> outs bnd q" "p = cut_at e bnd q r"
    using assms(4) intersection_cut [OF assms(1,2), of q r] intersection_cut [OF assms(1,2), of r q] ne cut_at_commute
    by (metis (no_types, lifting))
  moreover have "e \<notin> outs bnd r" using e(1) assms(3) by blast
  ultimately show ?thesis using cut_step [of e bnd q r] that by blast
qed

lemma edges_UNIV: "(UNIV :: edge set) = {Top, Bottom, Right, Left}"
  using edge.exhaust by blast

lemma finite_outs [simp]: "finite (outs bnd p)"
  using finite_subset [OF subset_UNIV [of "outs bnd p"]] unfolding edges_UNIV by simp

lemma card_outs: "card (outs bnd p) \<le> 4"
  using card_mono [OF _ subset_UNIV [of "outs bnd p"]] unfolding edges_UNIV by simp

text \<open>A segment with a common outside edge has no visible part.\<close>

lemma meet_invisible:
  assumes "outs bnd a \<inter> outs bnd b \<noteq> {}"
  shows "visible_part bnd a b = {}"
proof -
  obtain e where e: "limit e bnd < level e a" "limit e bnd < level e b" using assms by (auto simp: outs_def)
  have "\<not> inside bnd x" if x: "x \<in> segment a b" for x
  proof -
    obtain t where t: "x = along a b t" "0 \<le> t" "t \<le> 1" using x by (auto simp: segment_def)
    have "level e x = (1 - t) * level e a + t * level e b" using affine_level [of e] t(1) by (simp add: affine_def algebra_simps)
    moreover have "(1 - t) * limit e bnd + t * limit e bnd < (1 - t) * level e a + t * level e b"
      using e t by (cases "t = 1") (auto intro!: add_less_le_mono mult_strict_left_mono mult_left_mono)
    ultimately have "limit e bnd < level e x" by (simp add: algebra_simps)
    then show ?thesis unfolding inside_outs outs_def by blast
  qed
  then show ?thesis by (auto simp: visible_part_def)
qed

lemma inside_segment:
  assumes "outs bnd a = {}" "outs bnd b = {}"
  shows "visible_part bnd a b = segment a b"
  using outs_between [of _ a b bnd] assms by (auto simp: visible_part_def inside_outs)

text \<open>How many rounds are left at most.\<close>

definition rounds :: "rat bounds \<Rightarrow> rat point \<Rightarrow> rat point \<Rightarrow> nat" where
  "rounds bnd a b = (if outs bnd a \<inter> outs bnd b \<noteq> {} then 1 else card (outs bnd a) + card (outs bnd b) + 2)"

lemma rounds_step:
  assumes "outs bnd q \<inter> outs bnd r = {}" "e \<in> outs bnd q" "e \<notin> outs bnd p" "outs bnd p \<subseteq> outs bnd q \<union> outs bnd r"
  shows "rounds bnd p r < rounds bnd q r"
proof (cases "outs bnd p \<inter> outs bnd r = {}")
  case True
  then have "outs bnd p \<subset> outs bnd q" using assms by blast
  then have "card (outs bnd p) < card (outs bnd q)" by (simp add: psubset_card_mono)
  then show ?thesis using True assms(1) by (simp add: rounds_def)
next
  case False
  then show ?thesis using assms(1) by (simp add: rounds_def)
qed

lemma rounds_commute: "rounds bnd a b = rounds bnd b a"
  by (simp add: rounds_def Int_commute add.commute)

definition clip_ok :: "rat bounds \<Rightarrow> rat point \<Rightarrow> rat point \<Rightarrow> (rat point \<times> rat point) option \<Rightarrow> bool" where
  "clip_ok bnd a b r \<longleftrightarrow>
     (case r of None \<Rightarrow> visible_part bnd a b = {} | Some (a', b') \<Rightarrow> segment a' b' = visible_part bnd a b)"

lemma clip_loop_exact:
  assumes "proper bnd" "rounds bnd a b \<le> n"
  shows "\<exists>r. clip_loop n bnd False (getBitCode a bnd) (getBitCode b bnd) a b = Some r \<and> clip_ok bnd a b r"
  using assms(2)
proof (induction n arbitrary: a b)
  case 0
  then show ?case by (simp add: rounds_def split: if_splits)
next
  case (Suc n)
  note tests = code_tests [OF assms(1)]
  consider "outs bnd a = {}" "outs bnd b = {}" | "outs bnd a \<inter> outs bnd b \<noteq> {}"
    | "outs bnd a \<noteq> {}" "outs bnd a \<inter> outs bnd b = {}" | "outs bnd a = {}" "outs bnd b \<noteq> {}" by blast
  then show ?case
  proof cases
    case 1
    then show ?thesis using inside_segment [OF 1] by (auto simp: tests clip_ok_def)
  next
    case 2
    then show ?thesis using meet_invisible [OF 2] by (auto simp: tests clip_ok_def)
  next
    case 3
    define p where "p = getEdgeIntersection a b (getBitCode a bnd) bnd False"
    obtain e where e: "e \<in> outs bnd a" "e \<notin> outs bnd p" "outs bnd p \<subseteq> outs bnd a \<union> outs bnd b"
      "visible_part bnd p b = visible_part bnd a b"
      using intersection_step [OF assms(1) 3] p_def by blast
    have "rounds bnd p b \<le> n" using rounds_step [OF 3(2) e(1-3)] Suc.prems by simp
    moreover have "clip_ok bnd p b = clip_ok bnd a b" by (simp add: clip_ok_def [abs_def] e(4))
    ultimately show ?thesis using Suc.IH [of p b] 3 by (simp add: tests p_def [symmetric])
  next
    case 4
    define p where "p = getEdgeIntersection a b (getBitCode b bnd) bnd False"
    have m: "outs bnd b \<inter> outs bnd a = {}" using 4 by simp
    obtain e where e: "e \<in> outs bnd b" "e \<notin> outs bnd p" "outs bnd p \<subseteq> outs bnd b \<union> outs bnd a"
      "visible_part bnd p a = visible_part bnd b a"
      using intersection_step [OF assms(1) 4(2) m] p_def by blast
    have "rounds bnd a p \<le> n" using rounds_step [OF m e(1-3)] Suc.prems by (simp add: rounds_commute)
    moreover have "visible_part bnd a p = visible_part bnd a b" using e(4) visible_part_commute by blast
    then have "clip_ok bnd a p = clip_ok bnd a b" by (simp add: clip_ok_def [abs_def])
    ultimately show ?thesis using Suc.IH [of a p] 4 by (simp add: tests p_def [symmetric])
  qed
qed

text \<open>With rounding the bounds have to be integers; then the loop ends as well, inside the bounds.\<close>

lemma clip_loop_rounded:
  assumes "proper bnd" "integral bnd" "rounds bnd a b \<le> n"
  shows "\<exists>r. clip_loop n bnd True (getBitCode a bnd) (getBitCode b bnd) a b = Some r \<and>
    (case r of None \<Rightarrow> True | Some (a', b') \<Rightarrow> inside bnd a' \<and> inside bnd b')"
  using assms(3)
proof (induction n arbitrary: a b)
  case 0
  then show ?case by (simp add: rounds_def split: if_splits)
next
  case (Suc n)
  note tests = code_tests [OF assms(1)]
  consider "outs bnd a = {}" "outs bnd b = {}" | "outs bnd a \<inter> outs bnd b \<noteq> {}"
    | "outs bnd a \<noteq> {}" "outs bnd a \<inter> outs bnd b = {}" | "outs bnd a = {}" "outs bnd b \<noteq> {}" by blast
  then show ?case
  proof cases
    case 3
    define p where "p = getEdgeIntersection a b (getBitCode a bnd) bnd True"
    let ?q = "getEdgeIntersection a b (getBitCode a bnd) bnd False"
    obtain e where e: "e \<in> outs bnd a" "e \<notin> outs bnd ?q" "outs bnd ?q \<subseteq> outs bnd a \<union> outs bnd b"
      using intersection_step [OF assms(1) 3] by blast
    have "outs bnd p \<subseteq> outs bnd ?q" unfolding p_def getEdgeIntersection_rnd by (rule outs_round [OF assms(2)])
    then have "rounds bnd p b \<le> n" using rounds_step [OF 3(2) e(1), of p] e Suc.prems by force
    then show ?thesis using Suc.IH [of p b] 3 by (simp add: tests p_def [symmetric])
  next
    case 4
    define p where "p = getEdgeIntersection a b (getBitCode b bnd) bnd True"
    let ?q = "getEdgeIntersection a b (getBitCode b bnd) bnd False"
    have m: "outs bnd b \<inter> outs bnd a = {}" using 4 by simp
    obtain e where e: "e \<in> outs bnd b" "e \<notin> outs bnd ?q" "outs bnd ?q \<subseteq> outs bnd b \<union> outs bnd a"
      using intersection_step [OF assms(1) 4(2) m] by blast
    have "outs bnd p \<subseteq> outs bnd ?q" unfolding p_def getEdgeIntersection_rnd by (rule outs_round [OF assms(2)])
    then have "rounds bnd a p \<le> n" using rounds_step [OF m e(1), of p] e Suc.prems by (force simp: rounds_commute)
    then show ?thesis using Suc.IH [of a p] 4 by (simp add: tests p_def [symmetric])
  qed (auto simp: tests inside_outs)
qed

definition clip_fuel :: nat where
  "clip_fuel = 10"

lemma rounds_fuel: "rounds bnd a b \<le> clip_fuel"
  using card_outs [of bnd a] card_outs [of bnd b] by (simp add: rounds_def clip_fuel_def)



text \<open>
  Rounding with fractional bounds need not end: the rounded intersection with an edge at 1/2 is outside again.
\<close>

lemma clip_rounding_loops:
  "clip_loop n (Bnd (Pt 0 0) (Pt 10 (1 / 2))) True (getBitCode (Pt 5 1) (Bnd (Pt 0 0) (Pt 10 (1 / 2))))
     (getBitCode (Pt 5 0) (Bnd (Pt 0 0) (Pt 10 (1 / 2)))) (Pt 5 1) (Pt 5 0) = None"
proof (induction n)
  case (Suc n)
  let ?b = "Bnd (Pt 0 0) (Pt 10 (1 / 2))"
  have "getEdgeIntersection (Pt 5 1) (Pt 5 0) (getBitCode (Pt 5 1) ?b) ?b True = Pt 5 1"
    "\<not> code_empty (getBitCode (Pt 5 1) ?b)" "\<not> code_meet (getBitCode (Pt 5 1) ?b) (getBitCode (Pt 5 0) ?b)"
    by code_simp+
  then show ?case using Suc by simp
qed simp

section \<open>The distance to a segment\<close>

lemma sqDist_along:
  "sqDist (along a b t) p = sqDist a p - 2 * t * ((px p - px a) * (px b - px a) + (py p - py a) * (py b - py a)) + t * t * sqDist a b"
  by (simp add: sqDist_def along_def Let_def algebra_simps)

text \<open>\<open>sqDistToSegment\<close> is the smallest square distance to a point of the segment.\<close>

lemma closest_on_segment: "closestPointOnSegment p a b \<in> segment a b"
proof -
  let ?d = "(px b - px a) * (px b - px a) + (py b - py a) * (py b - py a)"
  let ?t = "((px p - px a) * (px b - px a) + (py p - py a) * (py b - py a)) / ?d"
  consider "\<not> ?d > 0 \<or> ?t \<le> 0" | "?d > 0" "?t > 1" | "?d > 0" "0 < ?t" "?t \<le> 1" by linarith
  then show ?thesis
  proof cases
    case 1
    then show ?thesis using segment_ends(1) by (auto simp: closestPointOnSegment_def Let_def)
  next
    case 2
    then show ?thesis using segment_ends(2) by (auto simp: closestPointOnSegment_def Let_def)
  next
    case 3
    then have "closestPointOnSegment p a b = along a b ?t" by (simp add: closestPointOnSegment_def Let_def along_def mult.commute)
    then show ?thesis using 3 by (auto simp: segment_def)
  qed
qed

lemma sqDistToSegment_closest: "sqDistToSegment p a b = sqDist (closestPointOnSegment p a b) p"
  by (simp add: sqDistToSegment_def sqDist_def Let_def)

lemma sqDist_nonneg: "0 \<le> sqDist a b"
  by (simp add: sqDist_def Let_def)

lemma closest_is_closest:
  assumes "q \<in> segment a b"
  shows "sqDistToSegment p a b \<le> sqDist q p"
proof -
  define C where "C = (px p - px a) * (px b - px a) + (py p - py a) * (py b - py a)"
  define D where "D = sqDist a b"
  obtain t where t: "q = along a b t" "0 \<le> t" "t \<le> 1" using assms by (auto simp: segment_def)
  have g: "sqDist (along a b u) p = sqDist a p - 2 * u * C + u * u * D" for u unfolding C_def D_def by (rule sqDist_along)
  have ends: "sqDist a p = sqDist (along a b 0) p" "sqDist b p = sqDist (along a b 1) p" by (simp_all add: along_def sqDist_def Let_def)
  have D: "D = (px b - px a) * (px b - px a) + (py b - py a) * (py b - py a)" "0 \<le> D" by (simp_all add: D_def sqDist_def Let_def)
  have C0: "C = 0" if "D = 0"
    using that unfolding D(1) C_def by (simp add: sum_squares_eq_zero_iff)
  consider "D = 0" | "D > 0" "C / D > 1" | "D > 0" "0 < C / D" "C / D \<le> 1" | "D > 0" "C / D \<le> 0" using D(2) by linarith
  then have "sqDist (closestPointOnSegment p a b) p \<le> sqDist (along a b t) p"
  proof cases
    case 1
    then have "closestPointOnSegment p a b = a" by (simp add: closestPointOnSegment_def Let_def D(1) [symmetric])
    then show ?thesis using 1 C0 by (simp add: g)
  next
    case 2
    then have "closestPointOnSegment p a b = b" by (simp add: closestPointOnSegment_def Let_def D(1) [symmetric] C_def)
    moreover have "0 \<le> (1 - t) * (2 * C - D * (1 + t))"
    proof (rule mult_nonneg_nonneg)
      have "D * (1 + t) \<le> D * 2" using 2 t by (intro mult_left_mono) auto
      moreover have "D < C" using 2 by (simp add: less_divide_eq)
      ultimately show "0 \<le> 2 * C - D * (1 + t)" by linarith
    qed (use t in simp)
    moreover have "sqDist b p = sqDist a p - 2 * C + D" unfolding ends(2) g by simp
    ultimately show ?thesis unfolding g by (simp add: algebra_simps)
  next
    case 3
    then have "closestPointOnSegment p a b = along a b (C / D)"
      by (simp add: closestPointOnSegment_def Let_def D(1) [symmetric] C_def along_def mult.commute)
    moreover have "0 \<le> D * (t - C / D) * (t - C / D)" using 3 by (simp add: mult.assoc)
    moreover have "sqDist (along a b t) p - sqDist (along a b (C / D)) p = D * (t - C / D) * (t - C / D)"
      unfolding g using 3 by (simp add: field_simps)
    ultimately show ?thesis by (metis diff_ge_0_iff_ge)
  next
    case 4
    then have C: "C \<le> 0" by (simp add: divide_le_0_iff)
    then have "closestPointOnSegment p a b = a" using 4
      by (auto simp: closestPointOnSegment_def Let_def D(1) [symmetric] C_def [symmetric] zero_less_divide_iff)
    moreover from C have "0 \<le> t * - C" using t by (intro mult_nonneg_nonneg) auto
    moreover have "0 \<le> t * (t * D)" using 4 t by simp
    ultimately show ?thesis unfolding g by (simp add: mult.assoc)
  qed
  then show ?thesis by (simp add: sqDistToSegment_closest t(1))
qed

section \<open>Simplification keeps the line\<close>

text \<open>
  The unmarked point \<open>i\<close> is close to the segment between its marked neighbours, with no mark between them.
\<close>

definition replaced :: "rat point list \<Rightarrow> rat \<Rightarrow> bool list \<Rightarrow> nat \<Rightarrow> bool" where
  "replaced points tol m i \<longleftrightarrow>
     (\<exists>f l. f < i \<and> i < l \<and> l < length points \<and> m ! f \<and> m ! l \<and> (\<forall>k. f < k \<and> k < l \<longrightarrow> \<not> m ! k) \<and>
        sqDistToSegment (points ! i) (points ! f) (points ! l) \<le> tol)"

lemma replaced_frame:
  assumes "replaced points tol m i" "\<And>k. a \<le> k \<Longrightarrow> k \<le> b \<Longrightarrow> m' ! k = m ! k" "m ! a" "m ! b" "a \<le> i" "i \<le> b"
  shows "replaced points tol m' i"
proof -
  obtain f l where f: "f < i" "i < l" "l < length points" "m ! f" "m ! l" "\<forall>k. f < k \<and> k < l \<longrightarrow> \<not> m ! k"
    "sqDistToSegment (points ! i) (points ! f) (points ! l) \<le> tol"
    using assms(1) by (auto simp: replaced_def)
  have "a \<le> f" "l \<le> b" using f(1,2,6) assms(3-6) by (meson not_le order.strict_trans1 order.strict_trans2 order_le_imp_less_or_eq)+
  then show ?thesis using f assms(2) unfolding replaced_def by (intro exI [of _ f] exI [of _ l]) auto
qed

lemma simplifyDPStep_length [simp]: "length (simplifyDPStep points tol first lst m) = length m"
proof (induction points tol first lst m rule: simplifyDPStep.induct)
  case (1 points tol first lst m)
  then show ?case by (simp add: simplifyDPStep.simps [of points tol first lst m] split: prod.splits option.splits)
qed

lemma simplifyDPStep_outside:
  assumes "k \<le> first \<or> lst \<le> k"
  shows "simplifyDPStep points tol first lst m ! k = m ! k"
  using assms
proof (induction points tol first lst m rule: simplifyDPStep.induct)
  case (1 points tol first lst m)
  then show ?case by (auto simp: simplifyDPStep.simps [of points tol first lst m] split: prod.splits option.splits)
qed

lemma simplifyDPStep_replaced:
  assumes "lst < length points" "length m = length points" "m ! first" "m ! lst" "\<forall>k. first < k \<and> k < lst \<longrightarrow> \<not> m ! k"
    "0 \<le> tol" "first < i" "i < lst" "\<not> simplifyDPStep points tol first lst m ! i"
  shows "replaced points tol (simplifyDPStep points tol first lst m) i"
  using assms
proof (induction points tol first lst m arbitrary: i rule: simplifyDPStep.induct)
  case (1 points tol first lst m)
  obtain d ix where far: "farthest points first lst = (d, ix)" by (cases "farthest points first lst")
  note fr = farthest_result [OF far]
  show ?case
  proof (cases "tol < d")
    case False
    then have "simplifyDPStep points tol first lst m = m"
      by (simp add: simplifyDPStep.simps [of points tol first lst m] far split: option.splits)
    moreover have "sqDistToSegment (points ! i) (points ! first) (points ! lst) \<le> tol" using fr(2) [of i] False "1.prems" by auto
    ultimately show ?thesis using "1.prems" unfolding replaced_def by (intro exI [of _ first] exI [of _ lst]) auto
  next
    case True
    then obtain index where ix: "ix = Some index" "first < index" "index < lst" using fr(3) "1.prems"(6) by auto
    define m2 where "m2 = simplifyDPStep points tol first index (m[index := True])"
    define m3 where "m3 = simplifyDPStep points tol index lst m2"
    have eq: "simplifyDPStep points tol first lst m = m3"
      using True ix by (simp add: simplifyDPStep.simps [of points tol first lst m] far m2_def m3_def)
    have len: "length m2 = length points" using "1.prems" by (simp add: m2_def)
    have out2: "m2 ! k = m[index := True] ! k" if "k \<le> first \<or> index \<le> k" for k
      unfolding m2_def by (rule simplifyDPStep_outside [OF that])
    have out3: "m3 ! k = m2 ! k" if "k \<le> index \<or> lst \<le> k" for k unfolding m3_def by (rule simplifyDPStep_outside [OF that])
    have marks: "m2 ! index" "m2 ! lst" "m2 ! first" "\<forall>k. index < k \<and> k < lst \<longrightarrow> \<not> m2 ! k" using out2 ix "1.prems" by auto
    have guard: "d > tol \<and> first < index \<and> index < lst" using True ix by simp
    consider "i < index" | "i = index" | "index < i" by linarith
    then show ?thesis
    proof cases
      case 1
      have "\<not> m2 ! i" using "1.prems"(9) out3 [of i] 1 unfolding eq by simp
      then have "replaced points tol m2 i"
        unfolding m2_def by (intro "1.IH"(1) [OF far [symmetric] ix(1) guard]) (use "1.prems" ix 1 m2_def in \<open>auto simp: nth_list_update\<close>)
      then show ?thesis unfolding eq using out3 marks ix 1 "1.prems" by (intro replaced_frame [of _ _ m2 i first index m3]) auto
    next
      case 2
      then show ?thesis using "1.prems"(9) out3 [of index] marks(1) unfolding eq by simp
    next
      case 3
      then show ?thesis unfolding eq unfolding m3_def m2_def
        by (intro "1.IH"(2) [OF far [symmetric] ix(1) guard]) (use "1.prems" ix 3 marks len eq in \<open>auto simp: m2_def m3_def\<close>)
    qed
  qed
qed

text \<open>Marked neighbours are neighbours in the simplified line.\<close>

definition adjacent :: "'a list \<Rightarrow> 'a \<Rightarrow> 'a \<Rightarrow> bool" where
  "adjacent xs x y \<longleftrightarrow> (\<exists>us vs. xs = us @ x # y # vs)"

lemma list_split_two:
  assumes "f < l" "l < length zs"
  shows "zs = take f zs @ zs ! f # drop (Suc f) (take l zs) @ zs ! l # drop (Suc l) zs"
proof -
  have "zs = take l zs @ zs ! l # drop (Suc l) zs" using id_take_nth_drop [OF assms(2)] .
  also have "take l zs = take f zs @ zs ! f # drop (Suc f) (take l zs)"
    using id_take_nth_drop [of f "take l zs"] assms by simp
  finally show ?thesis by simp
qed

lemma marked_adjacent:
  assumes "f < l" "l < length points" "length m = length points" "m ! f" "m ! l" "\<forall>k. f < k \<and> k < l \<longrightarrow> \<not> m ! k"
  shows "adjacent (map fst (filter snd (zip points m))) (points ! f) (points ! l)"
proof -
  let ?z = "zip points m"
  have "\<forall>x \<in> set (drop (Suc f) (take l ?z)). \<not> snd x"
    using assms by (auto simp: in_set_conv_nth)
  then have mid: "filter snd (drop (Suc f) (take l ?z)) = []" by (auto simp: filter_empty_conv)
  have "filter snd ?z = filter snd (take f ?z) @ ?z ! f # ?z ! l # filter snd (drop (Suc l) ?z)"
    by (subst list_split_two [of f l ?z]) (use assms mid in auto)
  then show ?thesis using assms unfolding adjacent_def
    by (intro exI [of _ "map fst (filter snd (take f ?z))"] exI [of _ "map fst (filter snd (drop (Suc l) ?z))"]) simp
qed

text \<open>A point is near a line when it is one of its points or close to one of its segments.\<close>

definition near_line :: "rat \<Rightarrow> rat point list \<Rightarrow> rat point \<Rightarrow> bool" where
  "near_line tol line p \<longleftrightarrow> p \<in> set line \<or> (\<exists>x y. adjacent line x y \<and> sqDistToSegment p x y \<le> tol)"

lemma start_marks:
  assumes "points \<noteq> []"
  defines "m \<equiv> (replicate (length points) False)[0 := True, length points - 1 := True]"
  shows "length m = length points" "m ! 0" "m ! (length points - 1)" "\<forall>k. 0 < k \<and> k < length points - 1 \<longrightarrow> \<not> m ! k"
  using assms by (auto simp: nth_list_update)

lemma simplifyDP_near:
  assumes "p \<in> set points" "0 \<le> tol"
  shows "near_line tol (simplifyDP points tol) p"
proof -
  let ?m = "(replicate (length points) False)[0 := True, length points - 1 := True]"
  let ?r = "simplifyDPStep points tol 0 (length points - 1) ?m"
  have ne: "points \<noteq> []" using assms by auto
  note sm = start_marks [OF ne]
  have eq: "simplifyDP points tol = map fst (filter snd (zip points ?r))" by (simp add: simplifyDP_def Let_def)
  obtain i where i: "i < length points" "p = points ! i" using assms(1) by (auto simp: in_set_conv_nth)
  show ?thesis
  proof (cases "?r ! i")
    case True
    then have "(p, True) \<in> set (filter snd (zip points ?r))" using i by (auto simp: in_set_zip)
    then show ?thesis unfolding near_line_def eq by force
  next
    case False
    have ends: "?r ! 0" "?r ! (length points - 1)" using sm by (simp_all add: simplifyDPStep_outside)
    have "i \<noteq> 0" "i \<noteq> length points - 1" using False ends by metis+
    then have "replaced points tol ?r i"
      using False i sm ne assms(2) by (intro simplifyDPStep_replaced) auto
    then obtain f l where f: "f < i" "i < l" "l < length points" "?r ! f" "?r ! l" "\<forall>k. f < k \<and> k < l \<longrightarrow> \<not> ?r ! k"
      "sqDistToSegment (points ! i) (points ! f) (points ! l) \<le> tol" unfolding replaced_def by blast
    have "adjacent (simplifyDP points tol) (points ! f) (points ! l)"
      unfolding eq using f sm(1) by (intro marked_adjacent) auto
    then show ?thesis unfolding near_line_def i(2) using f(7) by blast
  qed
qed

lemma marked_subseq: "length m = length xs \<Longrightarrow> subseq (map fst (filter snd (zip xs m))) xs"
  by (induction m xs rule: list_induct2) auto

lemma marked_hd: "length m = length xs \<Longrightarrow> xs \<noteq> [] \<Longrightarrow> m ! 0 \<Longrightarrow> hd (map fst (filter snd (zip xs m))) = hd xs"
  by (cases xs; cases m) auto

lemma marked_last:
  assumes "length m = length xs" "xs \<noteq> []" "m ! (length xs - 1)"
  shows "last (map fst (filter snd (zip xs m))) = last xs"
proof -
  obtain ys y ns n where "xs = ys @ [y]" "m = ns @ [n]" using assms by (metis length_0_conv rev_exhaust)
  then show ?thesis using assms by (simp add: nth_append)
qed

lemma simplifyDP_shape:
  assumes "points \<noteq> []"
  shows "subseq (simplifyDP points tol) points" "hd (simplifyDP points tol) = hd points" "last (simplifyDP points tol) = last points"
proof -
  let ?m = "(replicate (length points) False)[0 := True, length points - 1 := True]"
  let ?r = "simplifyDPStep points tol 0 (length points - 1) ?m"
  note sm = start_marks [OF assms]
  have eq: "simplifyDP points tol = map fst (filter snd (zip points ?r))" by (simp add: simplifyDP_def Let_def)
  have r: "length ?r = length points" "?r ! 0" "?r ! (length points - 1)" using sm by (simp_all add: simplifyDPStep_outside)
  show "subseq (simplifyDP points tol) points" unfolding eq by (rule marked_subseq [OF r(1)])
  show "hd (simplifyDP points tol) = hd points" unfolding eq by (rule marked_hd [OF r(1) assms r(2)])
  show "last (simplifyDP points tol) = last points" unfolding eq by (rule marked_last [OF r(1) assms r(3)])
qed

lemma reduce_loop_near:
  assumes "p \<in> set ps" "0 \<le> tol"
  shows "\<exists>q \<in> set (prev # reduce_loop tol prev ps). sqDist p q \<le> tol"
  using assms
proof (induction tol prev ps rule: reduce_loop.induct)
  case (2 tol prev x)
  then show ?case by (auto simp: sqDist_def Let_def)
next
  case (3 tol prev x y ps)
  have self: "sqDist p p = 0" by (simp add: sqDist_def Let_def)
  show ?case
  proof (cases "sqDist x prev > tol")
    case True
    then show ?thesis using 3 self by (cases "p = x") auto
  next
    case False
    then show ?thesis using 3 by (cases "p = x") auto
  qed
qed simp

lemma reduce_loop_shape: "subseq (reduce_loop tol prev ps) ps \<and> (ps \<noteq> [] \<longrightarrow> reduce_loop tol prev ps \<noteq> [] \<and> last (reduce_loop tol prev ps) = last ps)"
  by (induction tol prev ps rule: reduce_loop.induct) auto

lemma reducePoints_shape:
  assumes "points \<noteq> []"
  shows "subseq (reducePoints points tol) points" "reducePoints points tol \<noteq> []" "hd (reducePoints points tol) = hd points"
    "last (reducePoints points tol) = last points"
proof -
  obtain p ps where "points = p # ps" using assms by (cases points) auto
  then show "subseq (reducePoints points tol) points" "reducePoints points tol \<noteq> []" "hd (reducePoints points tol) = hd points"
    "last (reducePoints points tol) = last points"
    using reduce_loop_shape [of tol p ps] by (auto simp: reducePoints_def)
qed

lemma reducePoints_near:
  assumes "p \<in> set points" "0 \<le> tol"
  shows "\<exists>q \<in> set (reducePoints points tol). sqDist p q \<le> tol"
proof -
  obtain x ps where x: "points = x # ps" using assms(1) by (cases points) auto
  show ?thesis
  proof (cases "p = x")
    case True
    then show ?thesis using x assms(2) by (auto simp: reducePoints_def sqDist_def Let_def)
  next
    case False
    then show ?thesis using reduce_loop_near [of p ps tol x] x assms by (auto simp: reducePoints_def)
  qed
qed



end
