(* ===== verification/Polygons.thy ===== *)
theory Polygons
  imports Lines
begin

text \<open>
  Clipping of polygons and polylines: \<open>L.PolyUtil.clipPolygon\<close> (geometry/PolyUtil.js), the Sutherland-Hodgeman
  algorithm, and \<open>_clipPoints\<close> of layer/vector/Polyline.js and Polygon.js.

  A point always carries the code of its position, so \<open>_code\<close> is \<open>getBitCode\<close> of the point.
\<close>

named_theorems poly_defs "definitions of polygon utilities"

section \<open>Clipping a polygon\<close>

definition edge_code :: "edge \<Rightarrow> outcode" where
  [poly_defs]: "edge_code e = \<lparr>oc_left = (e = Left), oc_right = (e = Right), oc_bottom = (e = Bottom), oc_top = (e = Top)\<rparr>"

definition clip_vertex :: "edge \<Rightarrow> rat bounds \<Rightarrow> bool \<Rightarrow> rat point \<times> rat point \<Rightarrow> rat point list" where
  [poly_defs]: "clip_vertex e bnd rnd ba =
     (let (b, a) = ba;
          outA = code_meet (getBitCode a bnd) (edge_code e);
          outB = code_meet (getBitCode b bnd) (edge_code e);
          p = getEdgeIntersection b a (edge_code e) bnd rnd
      in if \<not> outA then (if outB then [p, a] else [a]) else if \<not> outB then [p] else [])"

definition clip_edge :: "rat bounds \<Rightarrow> bool \<Rightarrow> edge \<Rightarrow> rat point list \<Rightarrow> rat point list" where
  [poly_defs]: "clip_edge bnd rnd e points =
     concat (map (clip_vertex e bnd rnd) (zip (last points # butlast points) points))"

definition clipPolygon :: "rat point list \<Rightarrow> rat bounds \<Rightarrow> bool \<Rightarrow> rat point list" where
  [poly_defs]: "clipPolygon points bnd rnd = fold (clip_edge bnd rnd) [Left, Bottom, Right, Top] points"

definition polygon_clipPoints :: "bool \<Rightarrow> rat point list list \<Rightarrow> rat bounds \<Rightarrow> rat \<Rightarrow> rat point list list" where
  [poly_defs]: "polygon_clipPoints noClip rings rendererBounds w =
     (if noClip then rings else let p = Pt w w;
          bnd = bounds_of (point_subtract (bmin rendererBounds) p) (point_add (bmax rendererBounds) p)
      in filter (\<lambda>clipped. clipped \<noteq> []) (map (\<lambda>ring. clipPolygon ring bnd True) rings))"

section \<open>Clipping a polyline\<close>

text \<open>
  The segments of one ring: \<open>lastCode\<close> is used from the second segment on; the state holds the finished parts and the one
  under construction, \<open>parts[k]\<close>, which stays open from ring to ring. \<open>None\<close> is a clipping loop that does not end.
  A clipped end is inside and the end it replaces is not, so comparing objects is comparing points.
\<close>

type_synonym parts_state = "rat point list list \<times> rat point list"

fun clip_segments :: "rat bounds \<Rightarrow> outcode option \<Rightarrow> rat point list \<Rightarrow> parts_state \<Rightarrow> parts_state option" where
  "clip_segments bnd lastCode (a # b # ps) (parts, part) =
     (case clipSegment clip_fuel a b bnd lastCode True of
        (None, _) \<Rightarrow> None
      | (Some None, code) \<Rightarrow> clip_segments bnd (Some code) (b # ps) (parts, part)
      | (Some (Some (s0, s1)), code) \<Rightarrow>
          if s1 \<noteq> b \<or> ps = []
          then clip_segments bnd (Some code) (b # ps) (parts @ [part @ [s0, s1]], [])
          else clip_segments bnd (Some code) (b # ps) (parts, part @ [s0]))"
| "clip_segments bnd lastCode _ st = Some st"

fun clip_rings :: "rat bounds \<Rightarrow> rat point list list \<Rightarrow> parts_state \<Rightarrow> parts_state option" where
  "clip_rings bnd [] st = Some st"
| "clip_rings bnd (r # rs) st = (case clip_segments bnd None r st of None \<Rightarrow> None | Some st' \<Rightarrow> clip_rings bnd rs st')"

definition polyline_clipPoints :: "bool \<Rightarrow> rat point list list \<Rightarrow> rat bounds \<Rightarrow> rat point list list option" where
  [poly_defs]: "polyline_clipPoints noClip rings bnd =
     (if noClip then Some rings else map_option (\<lambda>(parts, part). if part = [] then parts else parts @ [part]) (clip_rings bnd rings ([], [])))"

definition polyline_simplifyPoints :: "rat \<Rightarrow> rat point list list \<Rightarrow> rat point list list" where
  [poly_defs]: "polyline_simplifyPoints smoothFactor parts = map (\<lambda>part. simplify part smoothFactor) parts"

section \<open>The clipped polygon is inside\<close>

lemma edge_out:
  assumes "proper bnd"
  shows "code_meet (getBitCode p bnd) (edge_code e) \<longleftrightarrow> e \<in> outs bnd p"
  using code_bits [OF assms, of p] by (cases e) (auto simp: code_meet_def edge_code_def)

lemma edge_intersection:
  assumes "level e a \<noteq> level e b"
  shows "getEdgeIntersection b a (edge_code e) bnd False = cut_at e bnd b a"
  using assms by (cases e) (auto simp: getEdgeIntersection_def edge_code_def new_point_def Let_def cut_at_edges)

text \<open>The intersection with an edge, rounded or not.\<close>

lemma crossing:
  assumes "proper bnd" "rnd \<longrightarrow> integral bnd" "(e \<in> outs bnd a) \<noteq> (e \<in> outs bnd b)"
  shows "e \<notin> outs bnd (getEdgeIntersection b a (edge_code e) bnd rnd)"
    "outs bnd (getEdgeIntersection b a (edge_code e) bnd rnd) \<subseteq> outs bnd a \<union> outs bnd b"
proof -
  have ne: "level e a \<noteq> level e b" using assms(3) by (auto simp: outs_def)
  let ?q = "getEdgeIntersection b a (edge_code e) bnd False"
  have q: "e \<notin> outs bnd ?q" "outs bnd ?q \<subseteq> outs bnd a \<union> outs bnd b"
    using cut_step(1,2) [of e bnd a b] cut_step(1,2) [of e bnd b a] assms(3) cut_at_commute [OF ne]
    unfolding edge_intersection [OF ne] by auto
  have "outs bnd (getEdgeIntersection b a (edge_code e) bnd rnd) \<subseteq> outs bnd ?q"
    using outs_round [of bnd ?q] assms(2) getEdgeIntersection_rnd [of b a "edge_code e" bnd] by (cases rnd) auto
  then show "e \<notin> outs bnd (getEdgeIntersection b a (edge_code e) bnd rnd)"
    "outs bnd (getEdgeIntersection b a (edge_code e) bnd rnd) \<subseteq> outs bnd a \<union> outs bnd b" using q by auto
qed

lemma clip_vertex_outs:
  assumes "proper bnd" "rnd \<longrightarrow> integral bnd" "p \<in> set (clip_vertex e bnd rnd (b, a))"
  shows "e \<notin> outs bnd p" "outs bnd p \<subseteq> outs bnd a \<union> outs bnd b"
  using assms(3) crossing [OF assms(1,2), of e a b] by (auto simp: clip_vertex_def edge_out [OF assms(1)] Let_def split: if_splits)

lemma clip_edge_outs:
  assumes "proper bnd" "rnd \<longrightarrow> integral bnd" "p \<in> set (clip_edge bnd rnd e ps)"
  shows "e \<notin> outs bnd p" "outs bnd p \<subseteq> (\<Union>q \<in> set ps. outs bnd q)"
proof -
  obtain b a where ba: "(b, a) \<in> set (zip (last ps # butlast ps) ps)" "p \<in> set (clip_vertex e bnd rnd (b, a))"
    using assms(3) by (auto simp: clip_edge_def)
  have ps: "ps \<noteq> []" using ba(1) by auto
  have "a \<in> set ps" "b \<in> set (last ps # butlast ps)" using set_zip_leftD [OF ba(1)] set_zip_rightD [OF ba(1)] by auto
  then have "a \<in> set ps" "b \<in> set ps" using ps by (auto dest: in_set_butlastD)
  then show "e \<notin> outs bnd p" "outs bnd p \<subseteq> (\<Union>q \<in> set ps. outs bnd q)"
    using clip_vertex_outs [OF assms(1,2) ba(2)] by blast+
qed

lemma clip_edges_outs:
  assumes "proper bnd" "rnd \<longrightarrow> integral bnd" "p \<in> set (fold (clip_edge bnd rnd) es ps)" "\<forall>q \<in> set ps. outs bnd q \<inter> done = {}"
  shows "outs bnd p \<inter> (set es \<union> done) = {}"
  using assms(3,4)
proof (induction es arbitrary: ps "done")
  case (Cons e es)
  have "\<forall>q \<in> set (clip_edge bnd rnd e ps). outs bnd q \<inter> insert e done = {}"
    using clip_edge_outs [OF assms(1,2), of _ e ps] Cons.prems(2) by fast
  then show ?case using Cons.IH [of "clip_edge bnd rnd e ps" "insert e done"] Cons.prems(1) by auto
qed auto

text \<open>Vertices inside are kept, and a polygon that is inside stays as it is.\<close>

lemma clip_edge_keeps:
  assumes "proper bnd" "a \<in> set ps" "outs bnd a = {}"
  shows "a \<in> set (clip_edge bnd rnd e ps)"
proof -
  have "length (last ps # butlast ps) = length ps" using assms(2) by (cases ps) auto
  then obtain b where b: "(b, a) \<in> set (zip (last ps # butlast ps) ps)" using assms(2) in_set_impl_in_set_zip2 by metis
  have "a \<in> set (clip_vertex e bnd rnd (b, a))" by (simp add: clip_vertex_def edge_out [OF assms(1)] assms(3) Let_def)
  then show ?thesis using b by (auto simp: clip_edge_def simp del: zip_Cons_Cons)
qed

lemma clip_edge_id:
  assumes "proper bnd" "\<forall>p \<in> set ps. outs bnd p = {}"
  shows "clip_edge bnd rnd e ps = ps"
proof (cases "ps = []")
  case False
  have "clip_vertex e bnd rnd ba = [snd ba]" if "ba \<in> set (zip (last ps # butlast ps) ps)" for ba
  proof -
    obtain b a where ba: "ba = (b, a)" by (cases ba)
    have "a \<in> set ps" "b \<in> set ps"
      using set_zip_leftD [OF that [unfolded ba]] set_zip_rightD [OF that [unfolded ba]] False by (auto dest: in_set_butlastD)
    then show ?thesis using assms by (simp add: ba clip_vertex_def edge_out [OF assms(1)] Let_def)
  qed
  then have "clip_edge bnd rnd e ps = concat (map (\<lambda>ba. [snd ba]) (zip (last ps # butlast ps) ps))"
    unfolding clip_edge_def by (intro arg_cong [of _ _ concat] map_cong refl)
  then show ?thesis using False by (simp add: concat_map_singleton)
qed (simp add: clip_edge_def)



section \<open>Polylines\<close>

text \<open>With integer bounds the clipping of a polyline ends, and no point of it is outside.\<close>

lemma clipSegment_rounded:
  assumes "proper bnd" "integral bnd" "lastCode \<in> {None, Some (getBitCode a bnd)}"
  shows "\<exists>r. clipSegment clip_fuel a b bnd lastCode True = (Some r, getBitCode b bnd) \<and>
    (case r of None \<Rightarrow> True | Some (a', b') \<Rightarrow> inside bnd a' \<and> inside bnd b')"
  using clip_loop_rounded [OF assms(1,2) rounds_fuel, of a b] assms(3) by (auto simp: clipSegment_def Let_def)

abbreviation parts_inside :: "rat bounds \<Rightarrow> parts_state \<Rightarrow> bool" where
  "parts_inside bnd st \<equiv> (\<forall>part \<in> set (fst st). \<forall>p \<in> set part. inside bnd p) \<and> (\<forall>p \<in> set (snd st). inside bnd p)"

lemma clip_segments_inside:
  assumes "proper bnd" "integral bnd" "lastCode = None \<or> ps \<noteq> [] \<and> lastCode = Some (getBitCode (hd ps) bnd)" "parts_inside bnd st"
  shows "\<exists>st'. clip_segments bnd lastCode ps st = Some st' \<and> parts_inside bnd st'"
  using assms
proof (induction bnd lastCode ps st rule: clip_segments.induct)
  case (1 bnd lastCode a b ps parts part)
  obtain r where r: "clipSegment clip_fuel a b bnd lastCode True = (Some r, getBitCode b bnd)"
    "case r of None \<Rightarrow> True | Some (a', b') \<Rightarrow> inside bnd a' \<and> inside bnd b'"
    using clipSegment_rounded [OF "1.prems"(1,2), of lastCode a b] "1.prems"(3) by auto
  show ?case
  proof (cases r)
    case None
    then show ?thesis using "1.IH"(1) [OF r(1) [symmetric] refl None] r(1) "1.prems" by simp
  next
    case (Some s)
    obtain s0 s1 where s: "s = (s0, s1)" by (cases s)
    have i: "inside bnd s0" "inside bnd s1" using r(2) Some s by auto
    show ?thesis
    proof (cases "s1 \<noteq> b \<or> ps = []")
      case True
      then show ?thesis using "1.IH"(2) [OF r(1) [symmetric] refl Some s [symmetric] True] r(1) Some s i "1.prems" by simp
    next
      case False
      then show ?thesis using "1.IH"(3) [OF r(1) [symmetric] refl Some s [symmetric] False] r(1) Some s i "1.prems" by simp
    qed
  qed
qed auto

lemma clip_rings_inside:
  assumes "proper bnd" "integral bnd" "parts_inside bnd st"
  shows "\<exists>st'. clip_rings bnd rings st = Some st' \<and> parts_inside bnd st'"
  using assms(3)
proof (induction rings arbitrary: st)
  case (Cons r rs)
  obtain st' where "clip_segments bnd None r st = Some st'" "parts_inside bnd st'"
    using clip_segments_inside [OF assms(1,2), of None r st] Cons.prems by auto
  then show ?case using Cons.IH [of st'] by simp
qed simp

lemma polyline_clip_inside:
  assumes "proper bnd" "integral bnd"
  shows "\<exists>parts. polyline_clipPoints False rings bnd = Some parts \<and> (\<forall>part \<in> set parts. \<forall>p \<in> set part. inside bnd p)"
proof -
  obtain parts part where "clip_rings bnd rings ([], []) = Some (parts, part)" "parts_inside bnd (parts, part)"
    using clip_rings_inside [OF assms, of "([], [])" rings] by auto
  then show ?thesis by (auto simp: polyline_clipPoints_def)
qed

end
