(* ===== verification/Sections.thy ===== *)
theory Sections
  imports Geometry Exchange_Sort "HOL-Library.Monad_Syntax"
begin

text \<open>
  The sections of the canvas (layer/tile/CanvasSectionContainer.ts): their properties, how the container orders and
  locates them, and which section a point belongs to.

  \<^item> Sections are objects that the container, the list of window sections and the bounds lists refer to: \<open>objs\<close> is the
    store of objects, a list of sections is a list of references.
  \<^item> \<open>null\<close> is \<open>None\<close>. An operation that reads a property of \<open>null\<close> throws; its result is \<open>None\<close>. So is a position
    computed from an edge that does not exist, which is not a number.
  \<^item> \<open>canvas.width\<close>, \<open>canvas.height\<close> and \<open>app.roundedDpiScale\<close> are fields of the container; \<open>right\<close> and
    \<open>bottom\<close> are what \<open>onResize\<close> has set them to.
\<close>

named_theorems section_defs "definitions of sections and their layout"

section \<open>Data\<close>

text \<open>An entry of \<open>anchor\<close> is an edge of the canvas or a list that snaps to edges of other sections.\<close>

datatype anchor_entry = Edge string | Snap "string list"

record canvas_section =
  sec_name :: string
  boundToSection :: "string option"
  anchor_y :: anchor_entry
  anchor_x :: anchor_entry
  documentObject :: bool
  isVisible :: bool
  showSection :: bool
  sec_position :: "rat point"
  sec_size :: "rat point"
  origSizeHint :: "rat point option"
  expand :: "string list"
  isLocated :: bool
  processingOrder :: int
  drawingOrder :: int
  zIndex :: int
  interactable :: bool
  isAnimating :: bool
  windowSection :: bool
  myTopLeft :: "rat point option"
  boundsList :: "nat list"

record container =
  objs :: "nat \<Rightarrow> canvas_section"
  nextObj :: nat
  sections :: "nat list"
  windowSectionList :: "nat list"
  documentTopLeft :: "int point"
  documentBottomRight :: "int point"
  documentAnchorSectionName :: "string option"
  documentAnchor :: "rat point option"
  canvasWidth :: int
  canvasHeight :: int
  right :: int
  bottom :: int
  roundedDpiScale :: int

definition put_section :: "nat \<Rightarrow> canvas_section \<Rightarrow> 'a container_scheme \<Rightarrow> 'a container_scheme" where
  [section_defs]: "put_section i s c = c\<lparr>objs := (objs c)(i := s)\<rparr>"

abbreviation rat_point :: "int point \<Rightarrow> rat point" where
  "rat_point p \<equiv> Pt (of_int (px p)) (of_int (py p))"

section \<open>Lookup\<close>

definition getSectionWithName :: "'a container_scheme \<Rightarrow> string option \<Rightarrow> nat option" where
  [section_defs]: "getSectionWithName c name =
     (case name of
        None \<Rightarrow> None
      | Some n \<Rightarrow> if n = [] then None else List.find (\<lambda>i. sec_name (objs c i) = n) (sections c))"

definition doesSectionExist :: "'a container_scheme \<Rightarrow> string \<Rightarrow> bool" where
  [section_defs]: "doesSectionExist c name \<longleftrightarrow> name \<noteq> [] \<and> (\<exists>i \<in> set (sections c). sec_name (objs c i) = name)"

definition setDocumentAnchorSection :: "string \<Rightarrow> 'a container_scheme \<Rightarrow> 'a container_scheme" where
  [section_defs]: "setDocumentAnchorSection name c =
     (case getSectionWithName c (Some name) of
        Some _ \<Rightarrow> c\<lparr>documentAnchorSectionName := Some name\<rparr>
      | None \<Rightarrow> c\<lparr>documentAnchorSectionName := None, documentAnchor := None\<rparr>)"

section \<open>The document and its objects\<close>

definition isDocumentObjectVisible :: "'a container_scheme \<Rightarrow> canvas_section \<Rightarrow> bool" where
  [section_defs]: "isDocumentObjectVisible c s =
     (let x = px (sec_position s); y = py (sec_position s); w = px (sec_size s); h = py (sec_size s);
          tl = rat_point (documentTopLeft c); br = rat_point (documentBottomRight c)
      in (x \<ge> px tl \<and> x \<le> px br \<or> x + w \<ge> px tl \<and> x + w \<le> px br) \<and>
         (y \<ge> py tl \<and> y \<le> py br \<or> y + h \<ge> py tl \<and> y + h \<le> py br))"

definition object_top_left :: "'a container_scheme \<Rightarrow> rat point \<Rightarrow> canvas_section \<Rightarrow> rat point" where
  [section_defs]: "object_top_left c a s = point_subtract (point_add a (sec_position s)) (rat_point (documentTopLeft c))"

text \<open>The loop of \<open>setDocumentBounds\<close>; the callback \<open>onNewDocumentTopLeft\<close> belongs to the section.\<close>

definition move_object :: "nat \<Rightarrow> 'a container_scheme \<Rightarrow> 'a container_scheme option" where
  [section_defs]: "move_object i c =
     (let s = objs c i
      in if documentObject s
         then (case documentAnchor c of
                 None \<Rightarrow> None
               | Some a \<Rightarrow> Some (put_section i (s\<lparr>myTopLeft := Some (object_top_left c a s),
                                          isVisible := isDocumentObjectVisible c s\<rparr>) c))
         else Some c)"

fun move_objects :: "nat list \<Rightarrow> 'a container_scheme \<Rightarrow> 'a container_scheme option" where
  "move_objects [] c = Some c"
| "move_objects (i # is) c = do { c' \<leftarrow> move_object i c; move_objects is c' }"

definition setDocumentBounds :: "rat \<Rightarrow> rat \<Rightarrow> rat \<Rightarrow> rat \<Rightarrow> 'a container_scheme \<Rightarrow> 'a container_scheme option" where
  [section_defs]: "setDocumentBounds x1 y1 x2 y2 c =
     (let c1 = c\<lparr>documentTopLeft := Pt (js_round x1) (js_round y1), documentBottomRight := Pt (js_round x2) (js_round y2)\<rparr>
      in move_objects (sections c1) c1)"

text \<open>\<open>setPosition\<close> of a document object; \<open>rtlWidth\<close> is the width of the view when the sheet is laid out right to left.\<close>

definition setPosition :: "rat option \<Rightarrow> nat \<Rightarrow> rat \<Rightarrow> rat \<Rightarrow> 'a container_scheme \<Rightarrow> 'a container_scheme option" where
  [section_defs]: "setPosition rtlWidth i x y c =
     (let s = objs c i
      in if \<not> documentObject s then Some c
         else (let x' = of_int (js_round x); y' = of_int (js_round y);
                   sectionX = x' - of_int (px (documentTopLeft c));
                   sectionX' = (case rtlWidth of None \<Rightarrow> sectionX | Some w \<Rightarrow> w - sectionX - px (sec_size s))
               in (case documentAnchor c of
                     None \<Rightarrow> None
                   | Some a \<Rightarrow>
                       (case myTopLeft s of
                          None \<Rightarrow> None
                        | Some _ \<Rightarrow>
                            (let s' = s\<lparr>myTopLeft := Some (Pt (px a + sectionX') (py a + y' - of_int (py (documentTopLeft c)))),
                                        sec_position := Pt x' y'\<rparr>
                             in Some (put_section i (s'\<lparr>isVisible := isDocumentObjectVisible c s'\<rparr>) c))))))"

section \<open>The section under a point\<close>

abbreviation topLeft :: "canvas_section \<Rightarrow> rat point" where
  "topLeft s \<equiv> the (myTopLeft s)"

definition doesSectionIncludePoint :: "canvas_section \<Rightarrow> int point \<Rightarrow> bool" where
  [section_defs]: "doesSectionIncludePoint s p \<longleftrightarrow>
     of_int (px p) \<ge> px (topLeft s) \<and> of_int (px p) \<le> px (topLeft s) + px (sec_size s) \<and>
     of_int (py p) \<ge> py (topLeft s) \<and> of_int (py p) \<le> py (topLeft s) + py (sec_size s)"

definition shouldDrawSection :: "canvas_section \<Rightarrow> bool" where
  [section_defs]: "shouldDrawSection s \<longleftrightarrow> isLocated s \<and> showSection s \<and> (\<not> documentObject s \<or> isVisible s)"

definition findSectionContainingPoint :: "'a container_scheme \<Rightarrow> int point \<Rightarrow> nat option" where
  [section_defs]: "findSectionContainingPoint c p =
     List.find (\<lambda>i. let s = objs c i
                    in isLocated s \<and> \<not> windowSection s \<and> showSection s \<and> (\<not> documentObject s \<or> isVisible s) \<and>
                       doesSectionIncludePoint s p)
       (rev (sections c))"

section \<open>Bound sections\<close>

text \<open>The sections that \<open>updateBoundSectionList\<close> goes on to from section \<open>i\<close>: \<open>tempSectionList\<close>.\<close>

definition bound_neighbours :: "'a container_scheme \<Rightarrow> nat list \<Rightarrow> nat \<Rightarrow> nat list" where
  [section_defs]: "bound_neighbours c sectionList i =
     (let parent = (case getSectionWithName c (boundToSection (objs c i)) of
                      None \<Rightarrow> []
                    | Some t \<Rightarrow> if isLocated (objs c t) \<and> t \<notin> set sectionList then [t] else []);
          children = filter (\<lambda>j. isLocated (objs c j) \<and> boundToSection (objs c j) = Some (sec_name (objs c i)) \<and>
                               j \<notin> set sectionList) (sections c)
      in parent @ children)"

text \<open>The recursion shares one list; its depth is bounded by the fuel, \<open>None\<close> when that is not enough.\<close>

primrec updateBoundSectionList :: "nat \<Rightarrow> 'a container_scheme \<Rightarrow> nat \<Rightarrow> nat list \<Rightarrow> nat list option" where
  "updateBoundSectionList 0 c i sectionList = None"
| "updateBoundSectionList (Suc n) c i sectionList =
     (let pushed = sectionList @ [i]
      in fold (\<lambda>j r. Option.bind r (updateBoundSectionList n c j)) (bound_neighbours c pushed i) (Some pushed))"

definition bounds_gt :: "(nat \<Rightarrow> canvas_section) \<Rightarrow> nat \<Rightarrow> nat \<Rightarrow> bool" where
  [section_defs]: "bounds_gt ob i j \<longleftrightarrow>
     zIndex (ob i) > zIndex (ob j) \<or> zIndex (ob i) = zIndex (ob j) \<and> drawingOrder (ob i) > drawingOrder (ob j)"

definition orderBoundsList :: "'a container_scheme \<Rightarrow> nat \<Rightarrow> nat list \<Rightarrow> nat list" where
  [section_defs]: "orderBoundsList c i bl =
     rev (dropWhile (\<lambda>j. sec_name (objs c j) \<noteq> sec_name (objs c i)) (rev (exchange_sort (bounds_gt (objs c)) bl)))"

fun update_bounds :: "nat list \<Rightarrow> 'a container_scheme \<Rightarrow> 'a container_scheme option" where
  "update_bounds [] c = Some c"
| "update_bounds (i # is) c =
     do { bl \<leftarrow> updateBoundSectionList (Suc (length (sections c))) c i [];
          update_bounds is (put_section i ((objs c i)\<lparr>boundsList := orderBoundsList c i bl\<rparr>) c) }"

definition updateBoundSectionLists :: "'a container_scheme \<Rightarrow> 'a container_scheme option" where
  [section_defs]: "updateBoundSectionLists c = update_bounds (sections c) c"

definition targetBoundSectionListContains :: "'a container_scheme \<Rightarrow> string option \<Rightarrow> string \<Rightarrow> bool" where
  [section_defs]: "targetBoundSectionListContains c targetSection name =
     (case getSectionWithName c targetSection of
        None \<Rightarrow> False
      | Some i \<Rightarrow> list_ex (\<lambda>j. sec_name (objs c j) = name) (boundsList (objs c i)))"

section \<open>Order\<close>

definition process_gt :: "(nat \<Rightarrow> canvas_section) \<Rightarrow> nat \<Rightarrow> nat \<Rightarrow> bool" where
  [section_defs]: "process_gt ob i j \<longleftrightarrow>
     zIndex (ob i) > zIndex (ob j) \<or> zIndex (ob i) = zIndex (ob j) \<and> processingOrder (ob i) > processingOrder (ob j)"

definition orderSections :: "'a container_scheme \<Rightarrow> 'a container_scheme" where
  [section_defs]: "orderSections c = c\<lparr>sections := exchange_sort (process_gt (objs c)) (sections c)\<rparr>"

definition drawing_gt :: "(nat \<Rightarrow> canvas_section) \<Rightarrow> nat \<Rightarrow> nat \<Rightarrow> bool" where
  [section_defs]: "drawing_gt ob i j \<longleftrightarrow> drawingOrder (ob i) > drawingOrder (ob j)"

text \<open>The inner loop of \<open>applyDrawingOrders\<close> ends at the first section with another \<open>zIndex\<close>.\<close>

function drawing_sort :: "(nat \<Rightarrow> canvas_section) \<Rightarrow> nat list \<Rightarrow> nat list" where
  "drawing_sort ob [] = []"
| "drawing_sort ob (i # is) =
     (case exchange_pass (drawing_gt ob) i (takeWhile (\<lambda>j. zIndex (ob j) = zIndex (ob i)) is) of
        (m, r) \<Rightarrow> m # drawing_sort ob (r @ dropWhile (\<lambda>j. zIndex (ob j) = zIndex (ob i)) is))"
  by pat_completeness auto
termination
proof (relation "measure (length \<circ> snd)")
  fix ob :: "nat \<Rightarrow> canvas_section" and i "is" m r
  assume "(m, r) = exchange_pass (drawing_gt ob) i (takeWhile (\<lambda>j. zIndex (ob j) = zIndex (ob i)) is)"
  then have "length r = length (takeWhile (\<lambda>j. zIndex (ob j) = zIndex (ob i)) is)"
    by (metis exchange_pass_length)
  then have "length (r @ dropWhile (\<lambda>j. zIndex (ob j) = zIndex (ob i)) is) = length is"
    by (metis length_append takeWhile_dropWhile_id)
  then show "((ob, r @ dropWhile (\<lambda>j. zIndex (ob j) = zIndex (ob i)) is), ob, i # is) \<in> measure (length \<circ> snd)"
    by simp
qed simp

definition applyDrawingOrders :: "'a container_scheme \<Rightarrow> 'a container_scheme" where
  [section_defs]: "applyDrawingOrders c = c\<lparr>sections := drawing_sort (objs c) (sections c)\<rparr>"

section \<open>Location\<close>

definition doSectionsIntersectOnYAxis :: "canvas_section \<Rightarrow> canvas_section \<Rightarrow> bool" where
  [section_defs]: "doSectionsIntersectOnYAxis s1 s2 =
     (let y11 = py (topLeft s1); y12 = py (topLeft s1) + py (sec_size s1);
          y21 = py (topLeft s2); y22 = py (topLeft s2) + py (sec_size s2)
      in (y11 \<ge> y21 \<and> y11 \<le> y22 \<or> y12 \<ge> y21 \<and> y12 \<le> y22) \<or> (y21 \<ge> y11 \<and> y21 \<le> y12 \<or> y22 \<ge> y11 \<and> y22 \<le> y12))"

definition doSectionsIntersectOnXAxis :: "canvas_section \<Rightarrow> canvas_section \<Rightarrow> bool" where
  [section_defs]: "doSectionsIntersectOnXAxis s1 s2 =
     (let x11 = px (topLeft s1); x12 = px (topLeft s1) + px (sec_size s1);
          x21 = px (topLeft s2); x22 = px (topLeft s2) + px (sec_size s2)
      in (x11 \<ge> x21 \<and> x11 < x22 \<or> x12 \<ge> x21 \<and> x12 \<le> x22) \<or> (x21 \<ge> x11 \<and> x21 \<le> x12 \<or> x22 \<ge> x11 \<and> x22 \<le> x12))"

text \<open>The sections that stop an expansion: located, with the same \<open>zIndex\<close> and another name.\<close>

definition stops :: "canvas_section \<Rightarrow> canvas_section \<Rightarrow> bool" where
  [section_defs]: "stops t s \<longleftrightarrow> isLocated t \<and> zIndex t = zIndex s \<and> sec_name t \<noteq> sec_name s"

abbreviation edge_max :: "rat option \<Rightarrow> rat \<Rightarrow> bool" where
  "edge_max m x \<equiv> (case m of None \<Rightarrow> True | Some y \<Rightarrow> x > y)"

abbreviation edge_min :: "rat option \<Rightarrow> rat \<Rightarrow> bool" where
  "edge_min m x \<equiv> (case m of None \<Rightarrow> True | Some y \<Rightarrow> x < y)"

definition hitLeft :: "'a container_scheme \<Rightarrow> canvas_section \<Rightarrow> rat" where
  [section_defs]: "hitLeft c s =
     (case fold (\<lambda>i maxX. let t = objs c i; currentLeft = px (topLeft t) + px (sec_size t)
                          in if stops t s \<and> edge_max maxX currentLeft \<and> currentLeft < px (topLeft s) \<and>
                                doSectionsIntersectOnYAxis t s then Some currentLeft else maxX) (sections c) None of
        None \<Rightarrow> 0
      | Some maxX \<Rightarrow> maxX + of_int (roundedDpiScale c))"

definition hitRight :: "'a container_scheme \<Rightarrow> canvas_section \<Rightarrow> rat" where
  [section_defs]: "hitRight c s =
     (case fold (\<lambda>i minX. let t = objs c i; currentRight = px (topLeft t)
                          in if stops t s \<and> edge_min minX currentRight \<and> currentRight > px (topLeft s) \<and>
                                doSectionsIntersectOnYAxis t s then Some currentRight else minX) (sections c) None of
        None \<Rightarrow> of_int (right c)
      | Some minX \<Rightarrow> minX - of_int (roundedDpiScale c))"

definition hitTop :: "'a container_scheme \<Rightarrow> canvas_section \<Rightarrow> rat" where
  [section_defs]: "hitTop c s =
     (case fold (\<lambda>i maxY. let t = objs c i; currentTop = py (topLeft t) + py (sec_size t)
                          in if stops t s \<and> edge_max maxY currentTop \<and> currentTop < py (topLeft s) \<and>
                                doSectionsIntersectOnXAxis t s then Some currentTop else maxY) (sections c) None of
        None \<Rightarrow> 0
      | Some maxY \<Rightarrow> maxY + of_int (roundedDpiScale c))"

definition hitBottom :: "'a container_scheme \<Rightarrow> canvas_section \<Rightarrow> rat" where
  [section_defs]: "hitBottom c s =
     (case fold (\<lambda>i minY. let t = objs c i; currentBottom = py (topLeft t)
                          in if stops t s \<and> edge_min minY currentBottom \<and> currentBottom > py (topLeft s) \<and>
                                doSectionsIntersectOnXAxis t s then Some currentBottom else minY) (sections c) None of
        None \<Rightarrow> of_int (bottom c)
      | Some minY \<Rightarrow> minY - of_int (roundedDpiScale c))"

abbreviation move_x :: "rat \<Rightarrow> canvas_section \<Rightarrow> canvas_section" where
  "move_x x s \<equiv> s\<lparr>myTopLeft := Some (Pt x (py (topLeft s)))\<rparr>"

abbreviation move_y :: "rat \<Rightarrow> canvas_section \<Rightarrow> canvas_section" where
  "move_y y s \<equiv> s\<lparr>myTopLeft := Some (Pt (px (topLeft s)) y)\<rparr>"

abbreviation set_width :: "rat \<Rightarrow> canvas_section \<Rightarrow> canvas_section" where
  "set_width w s \<equiv> s\<lparr>sec_size := Pt w (py (sec_size s))\<rparr>"

abbreviation set_height :: "rat \<Rightarrow> canvas_section \<Rightarrow> canvas_section" where
  "set_height h s \<equiv> s\<lparr>sec_size := Pt (px (sec_size s)) h\<rparr>"

text \<open>The four steps of \<open>expandSection\<close>.\<close>

definition expand_left :: "'a container_scheme \<Rightarrow> canvas_section \<Rightarrow> canvas_section" where
  [section_defs]: "expand_left c s =
     (if ''left'' \<in> set (expand s)
      then (let initialX = px (topLeft s); s' = move_x (hitLeft c s) s in set_width (initialX - px (topLeft s')) s')
      else s)"

definition expand_right :: "'a container_scheme \<Rightarrow> canvas_section \<Rightarrow> canvas_section" where
  [section_defs]: "expand_right c s =
     (if ''right'' \<in> set (expand s) then set_width (hitRight c s - px (topLeft s)) s else s)"

definition expand_top :: "'a container_scheme \<Rightarrow> canvas_section \<Rightarrow> canvas_section" where
  [section_defs]: "expand_top c s =
     (if ''top'' \<in> set (expand s)
      then (let initialY = py (topLeft s); s' = move_y (hitTop c s) s in set_height (initialY - py (topLeft s')) s')
      else s)"

definition expand_bottom :: "'a container_scheme \<Rightarrow> canvas_section \<Rightarrow> canvas_section" where
  [section_defs]: "expand_bottom c s =
     (if ''bottom'' \<in> set (expand s) then set_height (hitBottom c s - py (topLeft s)) s else s)"

definition expandSection :: "'a container_scheme \<Rightarrow> canvas_section \<Rightarrow> canvas_section" where
  [section_defs]: "expandSection c s = expand_bottom c (expand_top c (expand_right c (expand_left c s)))"

definition roundPositionAndSize :: "canvas_section \<Rightarrow> canvas_section" where
  [section_defs]: "roundPositionAndSize s =
     s\<lparr>myTopLeft := Some (rat_point (point_round (topLeft s))), sec_size := rat_point (point_round (sec_size s))\<rparr>"

text \<open>Sections to snap to, and the edge that follows the first name that exists.\<close>

fun anchor_target :: "'a container_scheme \<Rightarrow> string list \<Rightarrow> (nat \<times> string) option" where
  "anchor_target c (a # b # as) =
     (case getSectionWithName c (Some a) of Some t \<Rightarrow> Some (t, b) | None \<Rightarrow> anchor_target c (b # as))"
| "anchor_target c _ = None"

datatype axis = X_axis | Y_axis

definition canvas_edge :: "'a container_scheme \<Rightarrow> canvas_section \<Rightarrow> axis \<Rightarrow> string \<Rightarrow> rat" where
  [section_defs]: "canvas_edge c s ax edge =
     (case ax of
        Y_axis \<Rightarrow> if edge = ''top'' then py (sec_position s) else of_int (bottom c) - (py (sec_position s) + py (sec_size s))
      | X_axis \<Rightarrow> if edge = ''left'' then px (sec_position s) else of_int (right c) - (px (sec_position s) + px (sec_size s)))"

text \<open>The position beside the edge of section \<open>t\<close>, and the section itself, whose width \<open>-left\<close> may reset.\<close>

definition snap_position :: "'a container_scheme \<Rightarrow> canvas_section \<Rightarrow> canvas_section \<Rightarrow> string \<Rightarrow> (rat \<times> canvas_section) option" where
  [section_defs]: "snap_position c s t edge =
     (let dpi = of_int (roundedDpiScale c)
      in if \<not> isLocated t then Some (0, s)
         else if edge = ''top'' then Some (py (topLeft t) - dpi, s)
         else if edge = ''bottom'' then Some (py (topLeft t) + py (sec_size t) + dpi, s)
         else if edge = ''left'' then Some (px (topLeft t) - dpi, s)
         else if edge = ''right'' then Some (px (topLeft t) + px (sec_size t) + dpi, s)
         else if edge = ''-left''
         then (let s' = (case origSizeHint s of
                           Some hint \<Rightarrow> if expand s \<noteq> [] \<and> hd (expand s) = ''left'' then set_width (px hint) s else s
                         | None \<Rightarrow> s)
               in Some (px (topLeft t) - px (sec_size s'), s'))
         else None)"

definition calculateSectionInitialPosition :: "'a container_scheme \<Rightarrow> axis \<Rightarrow> canvas_section \<Rightarrow> (rat \<times> canvas_section) option" where
  [section_defs]: "calculateSectionInitialPosition c ax s =
     (case (case ax of Y_axis \<Rightarrow> anchor_y s | X_axis \<Rightarrow> anchor_x s) of
        Edge edge \<Rightarrow> Some (canvas_edge c s ax edge, s)
      | Snap as \<Rightarrow>
          if length as = 1 then Some (canvas_edge c s ax (hd as), s)
          else if even (length as) then Some (0, s)
          else (case anchor_target c as of
                  None \<Rightarrow> Some (canvas_edge c s ax (last as), s)
                | Some (t, edge) \<Rightarrow> snap_position c s (objs c t) edge))"

definition locate_regular :: "'a container_scheme \<Rightarrow> canvas_section \<Rightarrow> canvas_section option" where
  [section_defs]: "locate_regular c s =
     do { (x, s1) \<leftarrow> calculateSectionInitialPosition c X_axis s;
          (y, s2) \<leftarrow> calculateSectionInitialPosition c Y_axis s1;
          let s3 = s2\<lparr>myTopLeft := Some (Pt x y)\<rparr>;
          let s4 = (if expand s3 = [] \<or> hd (expand s3) \<noteq> [] then expandSection c s3 else s3);
          Some ((roundPositionAndSize s4)\<lparr>isLocated := True\<rparr>) }"

text \<open>A section bound to another takes its place, if that exists; the section itself is written first.\<close>

definition locate_bound :: "nat \<Rightarrow> nat option \<Rightarrow> 'a container_scheme \<Rightarrow> 'a container_scheme option" where
  [section_defs]: "locate_bound i parent c =
     (case parent of
        None \<Rightarrow> Some c
      | Some p \<Rightarrow>
          (let s = (objs c i)\<lparr>myTopLeft := Some (Pt 0 0), sec_size := Pt 0 0\<rparr>;
               ps = objs (put_section i s c) p
           in (case myTopLeft ps of
                 None \<Rightarrow> None
               | Some corner \<Rightarrow>
                   Some (put_section i ((roundPositionAndSize (s\<lparr>myTopLeft := Some corner, sec_size := sec_size ps\<rparr>))\<lparr>isLocated := True\<rparr>) c))))"

definition place_section :: "nat \<Rightarrow> 'a container_scheme \<Rightarrow> 'a container_scheme option" where
  [section_defs]: "place_section i c =
     (let s = objs c i
      in if documentObject s
         then (case documentAnchor c of
                 None \<Rightarrow> None
               | Some a \<Rightarrow> Some (put_section i (s\<lparr>isLocated := True, myTopLeft := Some (object_top_left c a s)\<rparr>) c))
         else if boundToSection s \<noteq> None \<and> boundToSection s \<noteq> Some []
         then locate_bound i (getSectionWithName c (boundToSection s)) c
         else if windowSection s
         then Some ((put_section i (s\<lparr>myTopLeft := Some (Pt 0 0), sec_size := Pt (of_int (canvasWidth c)) (of_int (canvasHeight c)),
                             isLocated := True\<rparr>) c)\<lparr>windowSectionList := windowSectionList c @ [i]\<rparr>)
         else map_option (\<lambda>s'. put_section i s' c) (locate_regular c s))"

definition locate_section :: "nat \<Rightarrow> 'a container_scheme \<Rightarrow> 'a container_scheme option" where
  [section_defs]: "locate_section i c =
     do { c1 \<leftarrow> place_section i c;
          if documentAnchorSectionName c1 = Some (sec_name (objs c1 i))
          then (case myTopLeft (objs c1 i) of None \<Rightarrow> None | Some corner \<Rightarrow> Some (c1\<lparr>documentAnchor := Some corner\<rparr>))
          else Some c1 }"

fun locate_loop :: "nat list \<Rightarrow> 'a container_scheme \<Rightarrow> 'a container_scheme option" where
  "locate_loop [] c = Some c"
| "locate_loop (i # is) c = do { c' \<leftarrow> locate_section i c; locate_loop is c' }"

definition reset_section :: "canvas_section \<Rightarrow> canvas_section" where
  [section_defs]: "reset_section s =
     s\<lparr>isLocated := False, myTopLeft := None,
       origSizeHint := (case origSizeHint s of None \<Rightarrow> Some (sec_size s) | Some h \<Rightarrow> Some h)\<rparr>"

definition reset_sections :: "'a container_scheme \<Rightarrow> 'a container_scheme" where
  [section_defs]: "reset_sections c =
     (fold (\<lambda>i c. put_section i (reset_section (objs c i)) c) (sections c) c)\<lparr>documentAnchor := None, windowSectionList := []\<rparr>"

definition locateSections :: "'a container_scheme \<Rightarrow> 'a container_scheme option" where
  [section_defs]: "locateSections c = locate_loop (sections c) (reset_sections c)"

text \<open>What \<open>reNewAllSections\<close> does before it draws; the callback \<open>onResize\<close> belongs to the sections.\<close>

definition renew_layout :: "'a container_scheme \<Rightarrow> 'a container_scheme option" where
  [section_defs]: "renew_layout c = map_option applyDrawingOrders (locateSections (orderSections c))"

end
