(* ===== verification/Section_Layout.thy ===== *)
theory Section_Layout
  imports Sections
begin

text \<open>
  What the layout of the sections achieves: the sections end up in drawing order, so the section that a point is sent to
  is the topmost one; expanding does not run into another section; a bounds list holds the sections that are bound
  together, each after the ones drawn below it.
\<close>

section \<open>Orders\<close>

interpretation process_order: exchange_order "process_gt ob" for ob
  by unfold_locales (auto simp: process_gt_def)

interpretation drawing_order: exchange_order "drawing_gt ob" for ob
  by unfold_locales (auto simp: drawing_gt_def)

interpretation bounds_order: exchange_order "bounds_gt ob" for ob
  by unfold_locales (auto simp: bounds_gt_def)

lemma drawing_sort_mset [simp]: "mset (drawing_sort ob is) = mset is"
proof (induction ob "is" rule: drawing_sort.induct)
  case (2 ob i "is")
  let ?P = "\<lambda>j. zIndex (ob j) = zIndex (ob i)"
  obtain m r where p: "exchange_pass (drawing_gt ob) i (takeWhile ?P is) = (m, r)" by fastforce
  have "mset is = mset (takeWhile ?P is) + mset (dropWhile ?P is)"
    by (metis mset_append takeWhile_dropWhile_id)
  then show ?case using 2 [OF p [symmetric]] exchange_pass_mset [OF p] p by simp
qed simp

lemma drawing_sort_set [simp]: "set (drawing_sort ob is) = set is"
  by (metis drawing_sort_mset set_mset_mset)

lemma drawing_sort_distinct [simp]: "distinct (drawing_sort ob is) = distinct is"
  by (metis drawing_sort_mset mset_eq_imp_distinct_iff)

abbreviation z_sorted :: "(nat \<Rightarrow> canvas_section) \<Rightarrow> nat list \<Rightarrow> bool" where
  "z_sorted ob \<equiv> sorted_wrt (\<lambda>i j. zIndex (ob i) \<le> zIndex (ob j))"

lemma z_sorted_runs:
  assumes "z_sorted ob (i # is)"
  shows "\<forall>j \<in> set (dropWhile (\<lambda>j. zIndex (ob j) = zIndex (ob i)) is). zIndex (ob i) < zIndex (ob j)"
proof -
  let ?P = "\<lambda>j. zIndex (ob j) = zIndex (ob i)"
  have s: "z_sorted ob (dropWhile ?P is)"
    using assms by (metis sorted_wrt.simps(2) sorted_wrt_append takeWhile_dropWhile_id)
  show ?thesis
  proof (cases "dropWhile ?P is")
    case (Cons k ks)
    have "\<not> ?P k" using hd_dropWhile [of ?P "is"] Cons by simp
    moreover have "k \<in> set is" using set_dropWhileD [of k ?P "is"] Cons by simp
    ultimately have "zIndex (ob i) < zIndex (ob k)" using assms by force
    then show ?thesis using s Cons by force
  next
    case Nil
    show ?thesis unfolding Nil by simp
  qed
qed

lemma drawing_sort_sorted:
  "z_sorted ob is \<Longrightarrow> sorted_wrt (\<lambda>i j. \<not> bounds_gt ob i j) (drawing_sort ob is)"
proof (induction ob "is" rule: drawing_sort.induct)
  case (2 ob i "is")
  let ?P = "\<lambda>j. zIndex (ob j) = zIndex (ob i)"
  let ?run = "takeWhile ?P is" and ?rest = "dropWhile ?P is"
  obtain m r where p: "exchange_pass (drawing_gt ob) i ?run = (m, r)" by fastforce
  have members: "insert m (set r) = insert i (set ?run)" by (rule exchange_pass_set [OF p])
  have "\<forall>j \<in> insert i (set ?run). zIndex (ob j) = zIndex (ob i)" by (auto dest: set_takeWhileD)
  then have z: "\<forall>j \<in> insert m (set r). zIndex (ob j) = zIndex (ob i)" unfolding members .
  have above: "\<forall>j \<in> set ?rest. zIndex (ob i) < zIndex (ob j)" by (rule z_sorted_runs [OF 2(2)])
  have "z_sorted ob ?rest"
    using 2(2) by (metis sorted_wrt.simps(2) sorted_wrt_append takeWhile_dropWhile_id)
  moreover have "z_sorted ob r" using z by (auto simp: sorted_wrt_iff_nth_less)
  ultimately have "z_sorted ob (r @ ?rest)" using z above by (force simp: sorted_wrt_append)
  then have "sorted_wrt (\<lambda>i j. \<not> bounds_gt ob i j) (drawing_sort ob (r @ ?rest))" by (rule 2(1) [OF p [symmetric]])
  moreover have "\<not> bounds_gt ob m j" if "j \<in> set r \<union> set ?rest" for j
    using that drawing_order.pass_min [OF p] z above by (fastforce simp: bounds_gt_def drawing_gt_def)
  ultimately show ?case using p by simp
qed simp

section \<open>What locating keeps\<close>

text \<open>Locating a section changes its place, its size and the remembered size only.\<close>

definition static :: "canvas_section \<Rightarrow> canvas_section" where
  "static s = s\<lparr>isLocated := False, myTopLeft := None, sec_size := Pt 0 0, origSizeHint := None\<rparr>"

lemma static_fields:
  assumes "static s = static t"
  shows "sec_name s = sec_name t" "boundToSection s = boundToSection t" "documentObject s = documentObject t"
    "isVisible s = isVisible t" "showSection s = showSection t" "sec_position s = sec_position t" "expand s = expand t"
    "processingOrder s = processingOrder t" "drawingOrder s = drawingOrder t" "zIndex s = zIndex t"
    "interactable s = interactable t" "windowSection s = windowSection t" "boundsList s = boundsList t"
    "anchor_x s = anchor_x t" "anchor_y s = anchor_y t"
  using assms by (cases s; cases t; simp add: static_def)+

text \<open>The relation between the container before and after a step of the layout.\<close>

definition frame :: "'a container_scheme \<Rightarrow> 'a container_scheme \<Rightarrow> bool" where
  "frame c c' \<longleftrightarrow> (\<forall>i. static (objs c' i) = static (objs c i)) \<and> sections c' = sections c \<and> container.more c' = container.more c"

lemma frame_refl [simp]: "frame c c"
  by (simp add: frame_def)

lemma frame_trans: "frame a b \<Longrightarrow> frame b c \<Longrightarrow> frame a c"
  by (simp add: frame_def)

lemma frame_put: "static s = static (objs c i) \<Longrightarrow> frame c (put_section i s c)"
  by (simp add: frame_def put_section_def)

lemma frame_more:
  "frame c (c'\<lparr>windowSectionList := w\<rparr>) = frame c c'" "frame c (c'\<lparr>documentAnchor := a\<rparr>) = frame c c'"
  by (simp_all add: frame_def)

lemma static_updates [simp]:
  "static (s\<lparr>isLocated := b\<rparr>) = static s" "static (s\<lparr>myTopLeft := p\<rparr>) = static s" "static (s\<lparr>sec_size := z\<rparr>) = static s"
  "static (s\<lparr>origSizeHint := h\<rparr>) = static s" "static (roundPositionAndSize s) = static s" "static (reset_section s) = static s"
  by (simp_all add: static_def roundPositionAndSize_def reset_section_def)

lemma static_expand [simp]: "static (expandSection c s) = static s"
  by (simp add: expandSection_def expand_left_def expand_right_def expand_top_def expand_bottom_def Let_def)

lemma static_initial_position: "calculateSectionInitialPosition c ax s = Some (x, s') \<Longrightarrow> static s' = static s"
  by (auto simp: calculateSectionInitialPosition_def snap_position_def Let_def
      split: anchor_entry.splits if_splits option.splits prod.splits)

lemma static_regular: "locate_regular c s = Some s' \<Longrightarrow> static s' = static s"
  by (auto simp: locate_regular_def Let_def bind_eq_Some_conv split: if_splits dest!: static_initial_position)

lemma frame_place: "place_section i c = Some c' \<Longrightarrow> frame c c'"
  by (auto simp: place_section_def locate_bound_def Let_def frame_more intro!: frame_put dest!: static_regular
      split: if_splits option.splits)

lemma frame_locate: "locate_section i c = Some c' \<Longrightarrow> frame c c'"
  by (auto simp: locate_section_def frame_more bind_eq_Some_conv split: if_splits option.splits dest!: frame_place)

lemma frame_loop: "locate_loop is c = Some c' \<Longrightarrow> frame c c'"
  by (induction "is" arbitrary: c) (auto simp: bind_eq_Some_conv dest!: frame_locate intro: frame_trans)

lemma frame_reset: "frame c (reset_sections c)"
proof -
  have "frame d (fold (\<lambda>i c. put_section i (reset_section (objs c i)) c) is d)" for "is" d
  proof (induction "is" arbitrary: d)
    case (Cons i "is")
    show ?case using frame_trans [OF frame_put Cons.IH, of "reset_section (objs d i)" d i] by simp
  qed simp
  then show ?thesis by (simp add: reset_sections_def frame_more)
qed

lemma frame_locateSections: "locateSections c = Some c' \<Longrightarrow> frame c c'"
  unfolding locateSections_def using frame_trans [OF frame_reset frame_loop] .

section \<open>The topmost section\<close>

text \<open>Where a section is drawn: first by \<open>zIndex\<close>, then by \<open>drawingOrder\<close>.\<close>

abbreviation below :: "canvas_section \<Rightarrow> canvas_section \<Rightarrow> bool" where
  "below s t \<equiv> zIndex s < zIndex t \<or> zIndex s = zIndex t \<and> drawingOrder s \<le> drawingOrder t"

lemma not_bounds_gt: "\<not> bounds_gt ob i j \<longleftrightarrow> below (ob i) (ob j)"
  by (auto simp: bounds_gt_def)

lemma bounds_gt_static:
  assumes "\<And>i. static (ob i) = static (ob' i)"
  shows "bounds_gt ob i j = bounds_gt ob' i j" "process_gt ob i j = process_gt ob' i j"
  using static_fields [OF assms [of i]] static_fields [OF assms [of j]] by (simp_all add: bounds_gt_def process_gt_def)

lemma renew_layout_order:
  assumes "renew_layout c = Some c'"
  shows "mset (sections c') = mset (sections c)" "sorted_wrt (\<lambda>i j. below (objs c' i) (objs c' j)) (sections c')"
    "\<And>i. static (objs c' i) = static (objs c i)" "container.more c' = container.more c"
proof -
  obtain d where d: "locateSections (orderSections c) = Some d" "c' = applyDrawingOrders d"
    using assms by (auto simp: renew_layout_def)
  have f: "frame (orderSections c) d" by (rule frame_locateSections [OF d(1)])
  show "mset (sections c') = mset (sections c)"
    using f by (simp add: d(2) applyDrawingOrders_def frame_def orderSections_def)
  show st: "static (objs c' i) = static (objs c i)" for i
    using f by (simp add: d(2) applyDrawingOrders_def frame_def orderSections_def)
  show "container.more c' = container.more c"
    using f by (simp add: d(2) applyDrawingOrders_def frame_def orderSections_def)
  have "sorted_wrt (\<lambda>i j. \<not> process_gt (objs c) i j) (sections d)"
    using f process_order.sort_sorted by (simp add: frame_def orderSections_def)
  moreover have z: "zIndex (objs d i) = zIndex (objs c i)" for i
    using f by (intro static_fields(10)) (simp add: frame_def orderSections_def)
  ultimately have "z_sorted (objs d) (sections d)"
    unfolding z by (elim sorted_wrt_mono_rel [rotated]) (auto simp: process_gt_def)
  from drawing_sort_sorted [OF this] show "sorted_wrt (\<lambda>i j. below (objs c' i) (objs c' j)) (sections c')"
    by (simp add: d(2) applyDrawingOrders_def not_bounds_gt)
qed

text \<open>A section that takes part in finding the target of an event at a point.\<close>

definition hit :: "'a container_scheme \<Rightarrow> int point \<Rightarrow> nat \<Rightarrow> bool" where
  "hit c p i \<longleftrightarrow> i \<in> set (sections c) \<and> shouldDrawSection (objs c i) \<and> \<not> windowSection (objs c i) \<and>
     doesSectionIncludePoint (objs c i) p"

lemma find_eq_Some_split: "List.find P xs = Some x \<longleftrightarrow> (\<exists>ys zs. xs = ys @ x # zs \<and> P x \<and> (\<forall>y \<in> set ys. \<not> P y))"
proof (induction xs)
  case (Cons a xs)
  show ?case
  proof (cases "P a")
    case True
    then show ?thesis by (auto simp: Cons_eq_append_conv)
  next
    case False
    then show ?thesis using Cons.IH by (auto simp: Cons_eq_append_conv) (metis append_Cons set_ConsD)+
  qed
qed simp

lemma findSection_split:
  assumes "findSectionContainingPoint c p = Some i"
  obtains pre suf where "sections c = pre @ i # suf" "hit c p i" "\<forall>j \<in> set suf. \<not> hit c p j"
proof -
  obtain ys zs where "rev (sections c) = ys @ i # zs" and i: "hit c p i \<or> i \<notin> set (sections c)" "\<forall>j \<in> set ys. \<not> hit c p j"
    using assms by (fastforce simp: findSectionContainingPoint_def find_eq_Some_split Let_def hit_def shouldDrawSection_def)
  then have s: "sections c = rev zs @ i # rev ys" by (metis rev.simps(2) rev_append rev_rev_ident append.assoc append_Cons append_Nil)
  then show ?thesis using that [of "rev zs" "rev ys"] i by simp
qed

lemma findSection_none: "findSectionContainingPoint c p = None \<longleftrightarrow> (\<forall>i. \<not> hit c p i)"
  by (auto simp: findSectionContainingPoint_def find_None_iff hit_def shouldDrawSection_def Let_def)

text \<open>
  C11. After the sections have been renewed, an event at a point goes to the topmost of the sections that are shown
  there: the target is shown, includes the point and no other such section has a higher \<open>zIndex\<close>, or the same
  \<open>zIndex\<close> and a higher \<open>drawingOrder\<close>. Renewing loses no section and adds none, and there is a target whenever some
  section is shown at the point.
\<close>

theorem event_target_topmost:
  assumes "renew_layout c = Some c'"
  shows "mset (sections c') = mset (sections c) \<and>
    (case findSectionContainingPoint c' p of
       None \<Rightarrow> \<forall>j. \<not> hit c' p j
     | Some i \<Rightarrow> hit c' p i \<and> (\<forall>j. hit c' p j \<longrightarrow> below (objs c' j) (objs c' i)))"
proof (cases "findSectionContainingPoint c' p")
  case None
  then show ?thesis using renew_layout_order(1) [OF assms] findSection_none [of c' p] by simp
next
  case (Some i)
  then obtain pre suf where s: "sections c' = pre @ i # suf" "hit c' p i" "\<forall>j \<in> set suf. \<not> hit c' p j"
    by (rule findSection_split)
  have "below (objs c' j) (objs c' i)" if "hit c' p j" for j
  proof -
    have "j \<in> set pre \<or> j = i" using that s(1,3) by (auto simp: hit_def)
    then show ?thesis using renew_layout_order(2) [OF assms] s(1) by (auto simp: sorted_wrt_append)
  qed
  then show ?thesis using renew_layout_order(1) [OF assms] Some s(2) by simp
qed

section \<open>Expansion\<close>

text \<open>The closed rectangles of two sections have a point in common.\<close>

abbreviation x_end :: "canvas_section \<Rightarrow> rat" where "x_end s \<equiv> px (topLeft s) + px (sec_size s)"

abbreviation y_end :: "canvas_section \<Rightarrow> rat" where "y_end s \<equiv> py (topLeft s) + py (sec_size s)"

definition has_point :: "canvas_section \<Rightarrow> rat point \<Rightarrow> bool" where
  "has_point s p \<longleftrightarrow> px (topLeft s) \<le> px p \<and> px p \<le> x_end s \<and> py (topLeft s) \<le> py p \<and> py p \<le> y_end s"

definition overlap :: "canvas_section \<Rightarrow> canvas_section \<Rightarrow> bool" where
  "overlap s t \<longleftrightarrow> max (px (topLeft s)) (px (topLeft t)) \<le> min (x_end s) (x_end t) \<and>
     max (py (topLeft s)) (py (topLeft t)) \<le> min (y_end s) (y_end t)"

lemma overlap_iff: "overlap s t \<longleftrightarrow> (\<exists>p. has_point s p \<and> has_point t p)"
proof
  assume "overlap s t"
  then have "has_point s (Pt (max (px (topLeft s)) (px (topLeft t))) (max (py (topLeft s)) (py (topLeft t))))"
    "has_point t (Pt (max (px (topLeft s)) (px (topLeft t))) (max (py (topLeft s)) (py (topLeft t))))"
    by (auto simp: overlap_def has_point_def)
  then show "\<exists>p. has_point s p \<and> has_point t p" by blast
qed (force simp: overlap_def has_point_def)

lemma fold_max:
  fixes f :: "'b \<Rightarrow> rat"
  assumes "fold (\<lambda>i m. if P i \<and> edge_max m (f i) \<and> Q i then Some (f i) else m) ks start = m"
  shows "(\<forall>i \<in> set ks. P i \<and> Q i \<longrightarrow> (\<exists>x. m = Some x \<and> f i \<le> x)) \<and> (\<forall>x0. start = Some x0 \<longrightarrow> (\<exists>x. m = Some x \<and> x0 \<le> x)) \<and>
    (m = start \<or> (\<exists>i \<in> set ks. P i \<and> Q i \<and> m = Some (f i)))"
  using assms
proof (induction ks arbitrary: start)
  case (Cons i ks)
  show ?case
  proof (cases "P i \<and> edge_max start (f i) \<and> Q i")
    case True
    then show ?thesis using Cons.IH [of "Some (f i)"] Cons.prems by (force split: option.splits)
  next
    case False
    then show ?thesis using Cons.IH [of start] Cons.prems by (force split: option.splits)
  qed
qed simp

lemma fold_min:
  fixes f :: "'b \<Rightarrow> rat"
  assumes "fold (\<lambda>i m. if P i \<and> edge_min m (f i) \<and> Q i then Some (f i) else m) ks start = m"
  shows "(\<forall>i \<in> set ks. P i \<and> Q i \<longrightarrow> (\<exists>x. m = Some x \<and> x \<le> f i)) \<and> (\<forall>x0. start = Some x0 \<longrightarrow> (\<exists>x. m = Some x \<and> x \<le> x0)) \<and>
    (m = start \<or> (\<exists>i \<in> set ks. P i \<and> Q i \<and> m = Some (f i)))"
  using assms
proof (induction ks arbitrary: start)
  case (Cons i ks)
  show ?case
  proof (cases "P i \<and> edge_min start (f i) \<and> Q i")
    case True
    then show ?thesis using Cons.IH [of "Some (f i)"] Cons.prems by (force split: option.splits)
  next
    case False
    then show ?thesis using Cons.IH [of start] Cons.prems by (force split: option.splits)
  qed
qed simp

text \<open>The sections that an expansion of \<open>s\<close> has to stay clear of.\<close>

definition obstacles :: "'a container_scheme \<Rightarrow> canvas_section \<Rightarrow> canvas_section set" where
  "obstacles c s = {objs c i | i. i \<in> set (sections c) \<and> stops (objs c i) s}"

lemma obstacles_cong: "zIndex s = zIndex s' \<Longrightarrow> sec_name s = sec_name s' \<Longrightarrow> obstacles c s = obstacles c s'"
  by (auto simp: obstacles_def stops_def)

lemma hitLeft_clear:
  assumes "t \<in> obstacles c s" "x_end t < px (topLeft s)" "doSectionsIntersectOnYAxis t s"
  shows "x_end t + of_int (roundedDpiScale c) \<le> hitLeft c s"
proof -
  let ?f = "\<lambda>i. x_end (objs c i)"
  let ?m = "fold (\<lambda>i m. if stops (objs c i) s \<and> edge_max m (?f i) \<and>
      (?f i < px (topLeft s) \<and> doSectionsIntersectOnYAxis (objs c i) s) then Some (?f i) else m) (sections c) None"
  have "\<exists>x. ?m = Some x \<and> x_end t \<le> x"
    using fold_max [where P = "\<lambda>i. stops (objs c i) s" and f = ?f and Q = "\<lambda>i. ?f i < px (topLeft s) \<and> doSectionsIntersectOnYAxis (objs c i) s" and ks = "sections c" and start = None, OF refl] assms by (auto simp: obstacles_def)
  then show ?thesis by (auto simp: hitLeft_def Let_def)
qed

lemma hitTop_clear:
  assumes "t \<in> obstacles c s" "y_end t < py (topLeft s)" "doSectionsIntersectOnXAxis t s"
  shows "y_end t + of_int (roundedDpiScale c) \<le> hitTop c s"
proof -
  let ?f = "\<lambda>i. y_end (objs c i)"
  let ?m = "fold (\<lambda>i m. if stops (objs c i) s \<and> edge_max m (?f i) \<and>
      (?f i < py (topLeft s) \<and> doSectionsIntersectOnXAxis (objs c i) s) then Some (?f i) else m) (sections c) None"
  have "\<exists>y. ?m = Some y \<and> y_end t \<le> y"
    using fold_max [where P = "\<lambda>i. stops (objs c i) s" and f = ?f and Q = "\<lambda>i. ?f i < py (topLeft s) \<and> doSectionsIntersectOnXAxis (objs c i) s" and ks = "sections c" and start = None, OF refl] assms by (auto simp: obstacles_def)
  then show ?thesis by (auto simp: hitTop_def Let_def)
qed

lemma hitRight_clear:
  assumes "t \<in> obstacles c s" "px (topLeft s) < px (topLeft t)" "doSectionsIntersectOnYAxis t s"
  shows "hitRight c s + of_int (roundedDpiScale c) \<le> px (topLeft t)"
proof -
  let ?f = "\<lambda>i. px (topLeft (objs c i))"
  let ?m = "fold (\<lambda>i m. if stops (objs c i) s \<and> edge_min m (?f i) \<and>
      (?f i > px (topLeft s) \<and> doSectionsIntersectOnYAxis (objs c i) s) then Some (?f i) else m) (sections c) None"
  have "\<exists>x. ?m = Some x \<and> x \<le> px (topLeft t)"
    using fold_min [where P = "\<lambda>i. stops (objs c i) s" and f = ?f and Q = "\<lambda>i. ?f i > px (topLeft s) \<and> doSectionsIntersectOnYAxis (objs c i) s" and ks = "sections c" and start = None, OF refl] assms by (auto simp: obstacles_def)
  then show ?thesis by (auto simp: hitRight_def Let_def)
qed

lemma hitBottom_clear:
  assumes "t \<in> obstacles c s" "py (topLeft s) < py (topLeft t)" "doSectionsIntersectOnXAxis t s"
  shows "hitBottom c s + of_int (roundedDpiScale c) \<le> py (topLeft t)"
proof -
  let ?f = "\<lambda>i. py (topLeft (objs c i))"
  let ?m = "fold (\<lambda>i m. if stops (objs c i) s \<and> edge_min m (?f i) \<and>
      (?f i > py (topLeft s) \<and> doSectionsIntersectOnXAxis (objs c i) s) then Some (?f i) else m) (sections c) None"
  have "\<exists>y. ?m = Some y \<and> y \<le> py (topLeft t)"
    using fold_min [where P = "\<lambda>i. stops (objs c i) s" and f = ?f and Q = "\<lambda>i. ?f i > py (topLeft s) \<and> doSectionsIntersectOnXAxis (objs c i) s" and ks = "sections c" and start = None, OF refl] assms by (auto simp: obstacles_def)
  then show ?thesis by (auto simp: hitBottom_def Let_def)
qed

text \<open>The tests along one axis are closed intersections of intervals.\<close>

abbreviation x_meet :: "canvas_section \<Rightarrow> canvas_section \<Rightarrow> bool" where
  "x_meet s t \<equiv> max (px (topLeft s)) (px (topLeft t)) \<le> min (x_end s) (x_end t)"

abbreviation y_meet :: "canvas_section \<Rightarrow> canvas_section \<Rightarrow> bool" where
  "y_meet s t \<equiv> max (py (topLeft s)) (py (topLeft t)) \<le> min (y_end s) (y_end t)"

lemma axis_tests: "x_meet s t \<Longrightarrow> doSectionsIntersectOnXAxis t s" "y_meet s t \<Longrightarrow> doSectionsIntersectOnYAxis t s"
  unfolding doSectionsIntersectOnXAxis_def doSectionsIntersectOnYAxis_def Let_def max_def min_def by (auto split: if_splits)

lemma overlap_meets: "overlap s t \<longleftrightarrow> x_meet s t \<and> y_meet s t"
  by (simp only: overlap_def)

definition clear :: "'a container_scheme \<Rightarrow> canvas_section \<Rightarrow> bool" where
  "clear c s \<longleftrightarrow> (\<forall>t \<in> obstacles c s. \<not> overlap s t)"

text \<open>Obstacles to the left and above keep at least the margin that expanding leaves.\<close>

definition spaced :: "'a container_scheme \<Rightarrow> canvas_section \<Rightarrow> bool" where
  "spaced c s \<longleftrightarrow> (\<forall>t \<in> obstacles c s.
     (x_end t < px (topLeft s) \<longrightarrow> x_end t + of_int (roundedDpiScale c) \<le> px (topLeft s)) \<and>
     (y_end t < py (topLeft s) \<longrightarrow> y_end t + of_int (roundedDpiScale c) \<le> py (topLeft s)))"

lemma hitLeft_le:
  assumes "spaced c s" "0 \<le> px (topLeft s)"
  shows "hitLeft c s \<le> px (topLeft s)"
proof -
  let ?f = "\<lambda>i. x_end (objs c i)" and ?Q = "\<lambda>i. x_end (objs c i) < px (topLeft s) \<and> doSectionsIntersectOnYAxis (objs c i) s"
  show ?thesis
    using fold_max [where P = "\<lambda>i. stops (objs c i) s" and f = ?f and Q = ?Q and ks = "sections c" and start = None, OF refl] assms
    by (fastforce simp: hitLeft_def Let_def spaced_def obstacles_def split: option.splits)
qed

lemma hitTop_le:
  assumes "\<forall>t \<in> obstacles c s. y_end t < py (topLeft s) \<longrightarrow> y_end t + of_int (roundedDpiScale c) \<le> py (topLeft s)"
    "0 \<le> py (topLeft s)"
  shows "hitTop c s \<le> py (topLeft s)"
proof -
  let ?f = "\<lambda>i. y_end (objs c i)" and ?Q = "\<lambda>i. y_end (objs c i) < py (topLeft s) \<and> doSectionsIntersectOnXAxis (objs c i) s"
  show ?thesis
    using fold_max [where P = "\<lambda>i. stops (objs c i) s" and f = ?f and Q = ?Q and ks = "sections c" and start = None, OF refl] assms
    by (fastforce simp: hitTop_def Let_def obstacles_def split: option.splits)
qed

text \<open>One step of expanding along an axis keeps the section clear.\<close>

lemma expand_left_clear:
  assumes "clear c s" "roundedDpiScale c > 0" "0 \<le> px (sec_size s)"
  shows "clear c (expand_left c s)"
proof (cases "''left'' \<in> set (expand s)")
  case True
  let ?s = "expand_left c s"
  have o: "obstacles c ?s = obstacles c s" by (rule obstacles_cong) (simp_all add: expand_left_def Let_def)
  have "\<not> overlap ?s t" if t: "t \<in> obstacles c s" for t
  proof
    assume "overlap ?s t"
    then have m: "hitLeft c s \<le> x_end t" "px (topLeft t) \<le> px (topLeft s)" "y_meet s t"
      using True by (auto simp: overlap_meets expand_left_def Let_def)
    then have "\<not> x_end t < px (topLeft s)"
      using hitLeft_clear [OF t _ axis_tests(2)] assms(2) by force
    then have "overlap s t" using m assms(3) by (auto simp: overlap_meets)
    then show False using assms(1) t by (auto simp: clear_def)
  qed
  then show ?thesis unfolding clear_def o by blast
next
  case False
  then show ?thesis using assms(1) by (simp add: expand_left_def)
qed

lemma expand_right_clear:
  assumes "clear c s" "roundedDpiScale c > 0" "0 \<le> px (sec_size s)"
  shows "clear c (expand_right c s)"
proof (cases "''right'' \<in> set (expand s)")
  case True
  let ?s = "expand_right c s"
  have o: "obstacles c ?s = obstacles c s" by (rule obstacles_cong) (simp_all add: expand_right_def)
  have "\<not> overlap ?s t" if t: "t \<in> obstacles c s" for t
  proof
    assume "overlap ?s t"
    then have m: "px (topLeft t) \<le> hitRight c s" "px (topLeft s) \<le> x_end t" "y_meet s t"
      using True by (auto simp: overlap_meets expand_right_def)
    then have "\<not> px (topLeft s) < px (topLeft t)"
      using hitRight_clear [OF t _ axis_tests(2)] assms(2) by force
    then have "overlap s t" using m assms(3) by (auto simp: overlap_meets)
    then show False using assms(1) t by (auto simp: clear_def)
  qed
  then show ?thesis unfolding clear_def o by blast
next
  case False
  then show ?thesis using assms(1) by (simp add: expand_right_def)
qed

lemma expand_top_clear:
  assumes "clear c s" "roundedDpiScale c > 0" "0 \<le> py (sec_size s)"
  shows "clear c (expand_top c s)"
proof (cases "''top'' \<in> set (expand s)")
  case True
  let ?s = "expand_top c s"
  have o: "obstacles c ?s = obstacles c s" by (rule obstacles_cong) (simp_all add: expand_top_def Let_def)
  have "\<not> overlap ?s t" if t: "t \<in> obstacles c s" for t
  proof
    assume "overlap ?s t"
    then have m: "hitTop c s \<le> y_end t" "py (topLeft t) \<le> py (topLeft s)" "x_meet s t"
      using True by (auto simp: overlap_meets expand_top_def Let_def)
    then have "\<not> y_end t < py (topLeft s)"
      using hitTop_clear [OF t _ axis_tests(1)] assms(2) by force
    then have "overlap s t" using m assms(3) by (auto simp: overlap_meets)
    then show False using assms(1) t by (auto simp: clear_def)
  qed
  then show ?thesis unfolding clear_def o by blast
next
  case False
  then show ?thesis using assms(1) by (simp add: expand_top_def)
qed

lemma expand_bottom_clear:
  assumes "clear c s" "roundedDpiScale c > 0" "0 \<le> py (sec_size s)"
  shows "clear c (expand_bottom c s)"
proof (cases "''bottom'' \<in> set (expand s)")
  case True
  let ?s = "expand_bottom c s"
  have o: "obstacles c ?s = obstacles c s" by (rule obstacles_cong) (simp_all add: expand_bottom_def)
  have "\<not> overlap ?s t" if t: "t \<in> obstacles c s" for t
  proof
    assume "overlap ?s t"
    then have m: "py (topLeft t) \<le> hitBottom c s" "py (topLeft s) \<le> y_end t" "x_meet s t"
      using True by (auto simp: overlap_meets expand_bottom_def)
    then have "\<not> py (topLeft s) < py (topLeft t)"
      using hitBottom_clear [OF t _ axis_tests(1)] assms(2) by force
    then have "overlap s t" using m assms(3) by (auto simp: overlap_meets)
    then show False using assms(1) t by (auto simp: clear_def)
  qed
  then show ?thesis unfolding clear_def o by blast
next
  case False
  then show ?thesis using assms(1) by (simp add: expand_bottom_def)
qed

text \<open>
  C19. A section that is clear of the located sections with the same \<open>zIndex\<close> is clear of them after expanding, in
  whichever directions it expands: its rectangle has no point in common with any of theirs. (Obstacles on the left and
  above must be at least the margin of \<open>roundedDpiScale\<close> pixels away, as snapping places them.)
\<close>

theorem expansion_keeps_clear:
  assumes "roundedDpiScale c > 0"
    and "0 \<le> px (topLeft s)" "0 \<le> py (topLeft s)" "0 \<le> px (sec_size s)" "0 \<le> py (sec_size s)"
    and "clear c s" "spaced c s"
  shows "clear c (expandSection c s)"
proof -
  let ?l = "expand_left c s" and ?r = "expand_right c (expand_left c s)"
  let ?t = "expand_top c ?r"
  have w: "0 \<le> px (sec_size ?l)" using assms hitLeft_le [OF assms(7,2)] by (auto simp: expand_left_def Let_def)
  have r: "clear c ?r"
    by (rule expand_right_clear [OF expand_left_clear [OF assms(6,1,4)] assms(1) w])
  have keep: "py (topLeft ?r) = py (topLeft s)" "py (sec_size ?r) = py (sec_size s)" "obstacles c ?r = obstacles c s"
    by (simp_all add: expand_left_def expand_right_def Let_def obstacles_def stops_def)
  have sp: "\<forall>t \<in> obstacles c ?r. y_end t < py (topLeft ?r) \<longrightarrow> y_end t + of_int (roundedDpiScale c) \<le> py (topLeft ?r)"
    using assms(7) by (simp add: spaced_def keep)
  have "hitTop c ?r \<le> py (topLeft ?r)"
    using assms(3) by (intro hitTop_le [OF sp]) (simp add: keep)
  then have h: "0 \<le> py (sec_size ?t)" using assms(5) keep by (auto simp: expand_top_def Let_def)
  have "clear c ?t" using r assms(1,5) by (intro expand_top_clear) (simp_all add: keep)
  then show ?thesis unfolding expandSection_def using assms(1) h by (rule expand_bottom_clear)
qed

section \<open>An example\<close>

definition plain_section :: "string \<Rightarrow> int \<Rightarrow> int \<Rightarrow> canvas_section" where
  "plain_section name processing drawing =
     \<lparr>sec_name = name, boundToSection = None, anchor_y = Edge ''top'', anchor_x = Edge ''left'', documentObject = False,
      isVisible = False, showSection = True, sec_position = Pt 0 0, sec_size = Pt 10 20, origSizeHint = None, expand = [[]],
      isLocated = False, processingOrder = processing, drawingOrder = drawing, zIndex = 5, interactable = True,
      isAnimating = False, windowSection = False, myTopLeft = None, boundsList = []\<rparr>"

text \<open>A row header, tiles beside it that expand to the right and to the bottom, and an overlay bound to the tiles.\<close>

definition sample_objs :: "nat \<Rightarrow> canvas_section" where
  "sample_objs i =
     (if i = 0 then (plain_section ''tiles'' 60 20)\<lparr>anchor_x := Snap [''row header'', ''right'', ''left''], expand := [''right'', ''bottom'']\<rparr>
      else if i = 1 then (plain_section ''overlay'' 61 30)\<lparr>boundToSection := Some ''tiles''\<rparr>
      else plain_section ''row header'' 40 10)"

definition sample :: "container" where
  "sample = \<lparr>objs = sample_objs, nextObj = 3, sections = [0, 1, 2], windowSectionList = [],
     documentTopLeft = Pt 0 0, documentBottomRight = Pt 100 80, documentAnchorSectionName = Some ''tiles'', documentAnchor = None,
     canvasWidth = 100, canvasHeight = 80, right = 100, bottom = 80, roundedDpiScale = 1\<rparr>"

lemma sample_layout:
  "map_option (\<lambda>c. (sections c, map (\<lambda>i. (topLeft (objs c i), sec_size (objs c i))) (sections c), findSectionContainingPoint c (Pt 50 50)))
     (renew_layout sample) =
   Some ([2, 0, 1], [(Pt 0 0, Pt 10 20), (Pt 11 0, Pt 89 80), (Pt 11 0, Pt 89 80)], Some 1)"
  by code_simp

theorem event_target_topmost_witness:
  "\<exists>c'. renew_layout sample = Some c' \<and> findSectionContainingPoint c' (Pt 50 50) = Some 1 \<and> hit c' (Pt 50 50) 1 \<and>
     {j. hit c' (Pt 50 50) j} \<subseteq> {j. below (objs c' j) (objs c' 1)}"
proof -
  obtain c' where c: "renew_layout sample = Some c'" "findSectionContainingPoint c' (Pt 50 50) = Some 1"
    using sample_layout by auto
  show ?thesis using event_target_topmost [OF c(1), of "Pt 50 50"] c by auto
qed

definition placed :: "rat \<Rightarrow> rat \<Rightarrow> canvas_section \<Rightarrow> canvas_section" where
  "placed x y s = s\<lparr>myTopLeft := Some (Pt x y), isLocated := True\<rparr>"

definition sample_placed :: container where
  "sample_placed = sample\<lparr>objs := (\<lambda>i. placed 0 0 (sample_objs 2)), sections := [2]\<rparr>"

lemma sample_obstacles: "obstacles sample_placed (placed 11 0 (sample_objs 0)) = {placed 0 0 (sample_objs 2)}"
  by (auto simp: obstacles_def sample_placed_def sample_def placed_def sample_objs_def plain_section_def stops_def)

theorem expansion_keeps_clear_witness:
  "clear sample_placed (expandSection sample_placed (placed 11 0 (sample_objs 0)))"
  by (rule expansion_keeps_clear)
    (simp_all add: clear_def spaced_def sample_obstacles overlap_def, simp_all add: sample_placed_def sample_def placed_def sample_objs_def plain_section_def)

end
