(* ===== verification/Section_Bounds.thy ===== *)
theory Section_Bounds
  imports Section_Layout
begin

text \<open>
  The bounds lists: the recursion of \<open>updateBoundSectionList\<close> ends and collects exactly the sections that are connected
  by bindings, and the list a section ends up with holds, in drawing order, those that are not above it.
\<close>

section \<open>Connected sections\<close>

text \<open>From a section to a located one it is bound to, or that is bound to it.\<close>

definition bound_edge :: "'a container_scheme \<Rightarrow> nat \<Rightarrow> nat \<Rightarrow> bool" where
  "bound_edge c i j \<longleftrightarrow> j \<in> set (sections c) \<and> isLocated (objs c j) \<and>
     (getSectionWithName c (boundToSection (objs c i)) = Some j \<or> boundToSection (objs c j) = Some (sec_name (objs c i)))"

abbreviation bound_connected :: "'a container_scheme \<Rightarrow> nat \<Rightarrow> nat \<Rightarrow> bool" where
  "bound_connected c \<equiv> (bound_edge c)\<^sup>*\<^sup>*"

lemma getSection_member: "getSectionWithName c n = Some i \<Longrightarrow> i \<in> set (sections c) \<and> n = Some (sec_name (objs c i))"
  by (auto simp: getSectionWithName_def find_Some_iff split: option.splits if_splits)

lemma bound_neighbours_set: "set (bound_neighbours c l i) = {j. bound_edge c i j \<and> j \<notin> set l}"
  using getSection_member [of c "boundToSection (objs c i)"]
  by (auto simp: bound_neighbours_def bound_edge_def Let_def split: option.splits)

declare updateBoundSectionList.simps [simp del]

abbreviation unseen :: "'a container_scheme \<Rightarrow> nat list \<Rightarrow> nat" where
  "unseen c l \<equiv> card (set (sections c) - set l)"

lemma unseen_less:
  assumes "j \<in> set (sections c)" "j \<notin> set l" "set l \<subseteq> set l'"
  shows "unseen c (l' @ [j]) < unseen c l"
  using assms by (intro psubset_card_mono) auto

text \<open>What a call leaves behind, beyond the list it started from.\<close>

definition gathered :: "'a container_scheme \<Rightarrow> nat \<Rightarrow> nat list \<Rightarrow> nat list \<Rightarrow> bool" where
  "gathered c i l r \<longleftrightarrow> set l \<subseteq> set r \<and> i \<in> set r \<and> (\<forall>x \<in> set r - set l. bound_connected c i x) \<and>
     (\<forall>x \<in> insert i (set r - set l). \<forall>y. bound_edge c x y \<longrightarrow> y \<in> set r)"

lemma updateBoundSectionList_collects:
  "unseen c (l @ [i]) < n \<Longrightarrow> \<exists>r. updateBoundSectionList n c i l = Some r \<and> gathered c i l r"
proof (induction n arbitrary: i l)
  case (Suc n)
  let ?p = "l @ [i]"
  define Q where "Q acc \<longleftrightarrow> set ?p \<subseteq> set acc \<and> (\<forall>x \<in> set acc - set ?p. bound_connected c i x \<and> (\<forall>y. bound_edge c x y \<longrightarrow> y \<in> set acc))" for acc
  have loop: "\<exists>r. fold (\<lambda>j r. Option.bind r (updateBoundSectionList n c j)) js (Some acc) = Some r \<and> Q r \<and> set acc \<union> set js \<subseteq> set r"
    if "set js \<subseteq> set (bound_neighbours c ?p i)" "Q acc" for js acc
    using that
  proof (induction js arbitrary: acc)
    case (Cons j js)
    have j: "bound_edge c i j" "j \<notin> set ?p" using Cons.prems(1) by (auto simp: bound_neighbours_set)
    have "j \<in> set (sections c)" using j(1) by (simp add: bound_edge_def)
    then have "unseen c (acc @ [j]) < n"
      using unseen_less [of j c ?p acc] j(2) Cons.prems(2) Suc.prems by (simp add: Q_def)
    then obtain acc' where a: "updateBoundSectionList n c j acc = Some acc'" "gathered c j acc acc'"
      using Suc.IH by blast
    have sub: "set acc \<subseteq> set acc'" "j \<in> set acc'" using a(2) by (simp_all add: gathered_def)
    have "bound_connected c i x" if "x \<in> set acc' - set acc" for x
      using that a(2) converse_rtranclp_into_rtranclp [of "bound_edge c", OF j(1)] by (simp add: gathered_def)
    moreover have "y \<in> set acc'" if "x \<in> set acc' - set acc" "bound_edge c x y" for x y
      using that a(2) by (simp add: gathered_def)
    ultimately have "Q acc'" using Cons.prems(2) sub unfolding Q_def by blast
    then obtain r where "fold (\<lambda>j r. Option.bind r (updateBoundSectionList n c j)) js (Some acc') = Some r"
      "Q r" "set acc' \<union> set js \<subseteq> set r"
      using Cons.IH [of acc'] Cons.prems(1) by auto
    then show ?case using a(1) sub by auto
  qed auto
  obtain r where r: "fold (\<lambda>j r. Option.bind r (updateBoundSectionList n c j)) (bound_neighbours c ?p i) (Some ?p) = Some r"
    "Q r" "set ?p \<union> set (bound_neighbours c ?p i) \<subseteq> set r"
    using loop [of "bound_neighbours c ?p i" ?p] by (auto simp: Q_def)
  then have "gathered c i l r" by (auto simp: gathered_def Q_def bound_neighbours_set)
  then show ?case using r(1) by (simp add: Let_def updateBoundSectionList.simps)
qed simp

lemma updateBoundSectionList_set:
  "\<exists>r. updateBoundSectionList (Suc (length (sections c))) c i [] = Some r \<and> set r = {x. bound_connected c i x}"
proof -
  have "unseen c ([] @ [i]) \<le> card (set (sections c))" by (intro card_mono) auto
  also have "\<dots> < Suc (length (sections c))" using card_length le_imp_less_Suc by blast
  finally obtain r where r: "updateBoundSectionList (Suc (length (sections c))) c i [] = Some r" "gathered c i [] r"
    using updateBoundSectionList_collects by blast
  have "x \<in> set r" if "bound_connected c i x" for x
    using that by (induction rule: rtranclp_induct) (use r(2) in \<open>auto simp only: gathered_def list.set\<close>)
  moreover have "bound_connected c i x" if "x \<in> set r" for x using that r(2) by (simp add: gathered_def)
  ultimately show ?thesis using r(1) by blast
qed

section \<open>The lists\<close>

definition bounds_of_section :: "'a container_scheme \<Rightarrow> nat \<Rightarrow> nat list" where
  "bounds_of_section c i = orderBoundsList c i (the (updateBoundSectionList (Suc (length (sections c))) c i []))"

text \<open>The computation does not read the bounds lists.\<close>

definition forget :: "canvas_section \<Rightarrow> canvas_section" where
  "forget s = s\<lparr>boundsList := []\<rparr>"

lemma forget_fields:
  assumes "forget s = forget t"
  shows "sec_name s = sec_name t" "boundToSection s = boundToSection t" "isLocated s = isLocated t"
    "zIndex s = zIndex t" "drawingOrder s = drawingOrder t"
  using assms by (cases s; cases t; simp add: forget_def)+

lemma bounds_of_section_cong:
  assumes "sections c' = sections c" "\<And>i. forget (objs c' i) = forget (objs c i)"
  shows "updateBoundSectionList n c' i l = updateBoundSectionList n c i l" "orderBoundsList c' i bl = orderBoundsList c i bl"
proof -
  note f = forget_fields [OF assms(2)]
  have "getSectionWithName c' = getSectionWithName c"
    by (rule ext) (simp add: getSectionWithName_def assms(1) f split: option.split)
  then have n: "bound_neighbours c' = bound_neighbours c"
    by (intro ext) (simp add: bound_neighbours_def assms(1) f split: option.split)
  show "updateBoundSectionList n c' i l = updateBoundSectionList n c i l"
  proof (induction n arbitrary: i l)
    case (Suc n)
    have "updateBoundSectionList n c' = updateBoundSectionList n c" by (intro ext) (rule Suc)
    then show ?case by (simp add: n Let_def updateBoundSectionList.simps)
  qed (simp add: updateBoundSectionList.simps)
  have "bounds_gt (objs c') = bounds_gt (objs c)" by (intro ext) (simp add: bounds_gt_def f)
  then show "orderBoundsList c' i bl = orderBoundsList c i bl" by (simp add: orderBoundsList_def f)
qed

lemma update_bounds_result:
  assumes "sections d = sections c" "\<And>i. forget (objs d i) = forget (objs c i)"
  shows "\<exists>d'. update_bounds is d = Some d' \<and> sections d' = sections c \<and> container.more d' = container.more d \<and>
    (\<forall>j. forget (objs d' j) = forget (objs c j)) \<and>
    (\<forall>j. boundsList (objs d' j) = (if j \<in> set is then bounds_of_section c j else boundsList (objs d j)))"
  using assms
proof (induction "is" arbitrary: d)
  case (Cons i "is")
  obtain r where r: "updateBoundSectionList (Suc (length (sections c))) c i [] = Some r"
    using updateBoundSectionList_set by blast
  let ?d = "put_section i ((objs d i)\<lparr>boundsList := orderBoundsList d i r\<rparr>) d"
  have "sections ?d = sections c" "\<And>j. forget (objs ?d j) = forget (objs c j)"
    using Cons.prems by (auto simp: put_section_def forget_def)
  from Cons.IH [OF this] obtain d' where d': "update_bounds is ?d = Some d'" "sections d' = sections c" "container.more d' = container.more ?d"
    "\<forall>j. forget (objs d' j) = forget (objs c j)"
    "\<forall>j. boundsList (objs d' j) = (if j \<in> set is then bounds_of_section c j else boundsList (objs ?d j))"
    by blast
  have "update_bounds (i # is) d = Some d'"
    using r d'(1) Cons.prems(1) by (simp add: bounds_of_section_cong(1) [OF Cons.prems])
  moreover have "container.more ?d = container.more d" by (simp add: put_section_def)
  moreover have "boundsList (objs ?d i) = bounds_of_section c i"
    by (simp add: put_section_def bounds_of_section_def r bounds_of_section_cong(2) [OF Cons.prems])
  moreover have "boundsList (objs ?d j) = boundsList (objs d j)" if "j \<noteq> i" for j using that by (simp add: put_section_def)
  ultimately show ?case using d' by auto
qed auto

lemma updateBoundSectionLists_result:
  "\<exists>c'. updateBoundSectionLists c = Some c' \<and> sections c' = sections c \<and> container.more c' = container.more c \<and>
     (\<forall>j. forget (objs c' j) = forget (objs c j)) \<and>
     (\<forall>j \<in> set (sections c). boundsList (objs c' j) = bounds_of_section c j)"
  using update_bounds_result [of c c "sections c"] by (auto simp: updateBoundSectionLists_def)

lemma orderBoundsList_prefix:
  assumes "i \<in> set bl"
  shows "\<exists>pre post k. exchange_sort (bounds_gt (objs c)) bl = pre @ k # post \<and> sec_name (objs c k) = sec_name (objs c i) \<and>
    (\<forall>j \<in> set post. sec_name (objs c j) \<noteq> sec_name (objs c i)) \<and> orderBoundsList c i bl = pre @ [k]"
proof -
  let ?P = "\<lambda>j. sec_name (objs c j) \<noteq> sec_name (objs c i)" and ?s = "exchange_sort (bounds_gt (objs c)) bl"
  have "dropWhile ?P (rev ?s) \<noteq> []" using assms by (auto simp: dropWhile_eq_Nil_conv)
  then obtain k ks where k: "dropWhile ?P (rev ?s) = k # ks" by (meson list.exhaust)
  have "\<not> ?P k" using hd_dropWhile [of ?P "rev ?s"] k by simp
  have "rev ?s = takeWhile ?P (rev ?s) @ k # ks" using takeWhile_dropWhile_id [of ?P "rev ?s"] k by simp
  then have "?s = rev ks @ k # rev (takeWhile ?P (rev ?s))" by (metis append.assoc append_Cons append_Nil rev.simps(2) rev_append rev_rev_ident)
  moreover have "\<forall>j \<in> set (rev (takeWhile ?P (rev ?s))). ?P j" by (auto dest: set_takeWhileD)
  ultimately show ?thesis using \<open>\<not> ?P k\<close> k by (auto simp: orderBoundsList_def)
qed

text \<open>
  C17. The lists along which events are handed on: updating them ends, and when the names of the sections are distinct, the
  list of a section is in drawing order, ends with the section itself, holds only sections connected to it by
  bindings that are not above it, and holds all that are below it.
\<close>

theorem bounds_lists_exact:
  assumes "inj_on (\<lambda>i. sec_name (objs c i)) (set (sections c))"
  shows "\<exists>c'. updateBoundSectionLists c = Some c' \<and>
    (\<forall>i \<in> set (sections c). let bl = boundsList (objs c' i) in
       sorted_wrt (\<lambda>i j. below (objs c i) (objs c j)) bl \<and> bl \<noteq> [] \<and> last bl = i \<and>
       (\<forall>j \<in> set bl. bound_connected c i j \<and> below (objs c j) (objs c i)) \<and>
       (\<forall>j. bound_connected c i j \<and> \<not> below (objs c i) (objs c j) \<longrightarrow> j \<in> set bl))"
proof -
  obtain c' where c': "updateBoundSectionLists c = Some c'"
    "\<forall>j \<in> set (sections c). boundsList (objs c' j) = bounds_of_section c j"
    using updateBoundSectionLists_result by blast
  have "let bl = bounds_of_section c i in
       sorted_wrt (\<lambda>i j. below (objs c i) (objs c j)) bl \<and> bl \<noteq> [] \<and> last bl = i \<and>
       (\<forall>j \<in> set bl. bound_connected c i j \<and> below (objs c j) (objs c i)) \<and>
       (\<forall>j. bound_connected c i j \<and> \<not> below (objs c i) (objs c j) \<longrightarrow> j \<in> set bl)" if i: "i \<in> set (sections c)" for i
  proof -
    obtain r where r: "updateBoundSectionList (Suc (length (sections c))) c i [] = Some r" "set r = {x. bound_connected c i x}"
      using updateBoundSectionList_set by blast
    then have "i \<in> set r" by simp
    then obtain pre post k where p: "exchange_sort (bounds_gt (objs c)) r = pre @ k # post" "sec_name (objs c k) = sec_name (objs c i)"
      "\<forall>j \<in> set post. sec_name (objs c j) \<noteq> sec_name (objs c i)" "orderBoundsList c i r = pre @ [k]"
      using orderBoundsList_prefix by blast
    have members: "set (pre @ k # post) = {x. bound_connected c i x}" using r(2) p(1) by (metis exchange_sort_set)
    have "k \<in> set (sections c)"
    proof -
      have "bound_connected c i k" using members by auto
      then show ?thesis by (cases rule: rtranclp.cases) (auto simp: bound_edge_def i)
    qed
    then have k: "k = i" using assms p(2) i by (auto dest: inj_onD)
    have sorted: "sorted_wrt (\<lambda>i j. below (objs c i) (objs c j)) (pre @ i # post)"
      using bounds_order.sort_sorted [of "objs c" r] unfolding p(1) not_bounds_gt k .
    have "below (objs c i) (objs c j)" if "j \<in> set post" for j
      using that sorted by (simp add: sorted_wrt_append)
    then show ?thesis
      using sorted members by (auto simp: Let_def bounds_of_section_def r(1) p(4) k sorted_wrt_append)
  qed
  then show ?thesis using c' by (auto simp: Let_def)
qed

text \<open>The example of three sections, after they have been located.\<close>

theorem bounds_lists_exact_witness:
  "\<exists>c' i. updateBoundSectionLists (the (renew_layout sample)) = Some c' \<and> i = 1 \<and>
     boundsList (objs c' i) \<noteq> [] \<and> last (boundsList (objs c' i)) = i \<and>
     sorted_wrt (\<lambda>i j. below (objs (the (renew_layout sample)) i) (objs (the (renew_layout sample)) j)) (boundsList (objs c' i))"
proof -
  have names: "map (sec_name \<circ> objs (the (renew_layout sample))) [0, 1, 2] = [''tiles'', ''overlay'', ''row header'']"
    "set (sections (the (renew_layout sample))) = {0, 1, 2}"
    by code_simp+
  then have "inj_on (\<lambda>i. sec_name (objs (the (renew_layout sample)) i)) (set (sections (the (renew_layout sample))))"
    by (auto simp: inj_on_def)
  from bounds_lists_exact [OF this] show ?thesis unfolding names(2) by (auto simp: Let_def)
qed

text \<open>
  A section that is added is located only after the bounds lists have been updated, so the sections it is bound to do not hand
  events on to it until the lists are updated again: here the tiles and a section below them.
\<close>

definition late_objs :: "nat \<Rightarrow> canvas_section" where
  "late_objs i =
     (if i = 0 then placed 0 0 (plain_section ''tiles'' 60 20) else (plain_section ''grid'' 61 10)\<lparr>boundToSection := Some ''tiles''\<rparr>)"

definition late :: container where
  "late = sample\<lparr>objs := late_objs, sections := [0, 1]\<rparr>"

lemma new_section_missing:
  "(case updateBoundSectionLists late of
      Some c \<Rightarrow> (case renew_layout c of
          Some c1 \<Rightarrow> (case updateBoundSectionLists c1 of
              Some c2 \<Rightarrow> boundsList (objs c1 0) = [0] \<and> boundsList (objs c2 0) = [1, 0] | None \<Rightarrow> False)
        | None \<Rightarrow> False)
    | None \<Rightarrow> False)"
  by code_simp

end
