(* ===== verification/Section_Drawing.thy ===== *)
theory Section_Drawing
  imports Section_Bounds Tile_Coords
begin

text \<open>
  Painting of the sections (layer/tile/CanvasSectionContainer.ts): pausing and resuming, what is dirty, adding and
  removing sections, animations.

  \<^item> \<open>paints\<close> records what is asked for and what is painted, in order; a set of tiles is a list, \<open>None\<close> is the
    whole canvas.
  \<^item> \<open>scroll\<close> stands for \<open>completePendingScroll\<close> of the scroll section, which scrolls the map.
  \<^item> \<open>splitPanes\<close> says whether the document has split panes, \<open>framePending\<close> whether \<open>animate\<close> waits for the next
    animation frame. The callbacks \<open>onInitialize\<close>, \<open>onRemove\<close>, \<open>onDraw\<close> and \<open>onAnimationEnded\<close> belong to the sections.
\<close>

named_theorems paint_defs "definitions of painting"

section \<open>Data\<close>

datatype dirty_type = NotDirty | AllDirty | TileRange

type_synonym tile_subset = "tile_coords list option"

datatype paint_event = Needed tile_subset | Painted "nat list" tile_subset

record painter = container +
  drawingPaused :: nat
  drawingEnabled :: bool
  dirty :: dirty_type
  dirtySubset :: tile_subset
  sectionsDirty :: bool
  splitPanes :: bool
  animatingSectionName :: "string option"
  lastFrameStamp :: rat
  continueAnimating :: bool
  frameCount :: nat
  duration :: "rat option"
  elapsedTime :: rat
  framePending :: bool
  paints :: "paint_event list"

section \<open>Dirty canvas\<close>

definition drawingAllowed :: "'a painter_scheme \<Rightarrow> bool" where
  [paint_defs]: "drawingAllowed c \<longleftrightarrow> drawingEnabled c \<and> drawingPaused c \<le> 0"

definition clearDirty :: "'a painter_scheme \<Rightarrow> 'a painter_scheme" where
  [paint_defs]: "clearDirty c = c\<lparr>dirty := NotDirty, dirtySubset := None\<rparr>"

text \<open>The coordinates of a tile, or \<open>None\<close> for \<open>null\<close>; what has to be painted is recorded.\<close>

definition setDirty :: "tile_coords option \<Rightarrow> 'a painter_scheme \<Rightarrow> 'a painter_scheme" where
  [paint_defs]: "setDirty coords c0 =
     (let c = c0\<lparr>paints := paints c0 @ [Needed (map_option (\<lambda>k. [k]) coords)]\<rparr>
      in if dirty c = AllDirty then c
         else (case coords of
                 None \<Rightarrow> c\<lparr>dirty := AllDirty, dirtySubset := None\<rparr>
               | Some k \<Rightarrow>
                   if splitPanes c then c\<lparr>dirty := AllDirty, dirtySubset := None\<rparr>
                   else c\<lparr>dirty := TileRange,
                          dirtySubset := Some (List.insert k (case dirtySubset c of None \<Rightarrow> [] | Some s \<Rightarrow> s))\<rparr>))"

definition drawSections :: "tile_subset \<Rightarrow> 'a painter_scheme \<Rightarrow> 'a painter_scheme" where
  [paint_defs]: "drawSections tileSubset c =
     c\<lparr>paints := paints c @ [Painted (filter (\<lambda>i. shouldDrawSection (objs c i)) (sections c)) tileSubset]\<rparr>"

definition requestReDraw :: "tile_subset \<Rightarrow> 'a painter_scheme \<Rightarrow> 'a painter_scheme" where
  [paint_defs]: "requestReDraw tileSubset c0 =
     (let c = c0\<lparr>paints := paints c0 @ [Needed tileSubset]\<rparr>
      in if \<not> drawingAllowed c then setDirty None c
         else if animatingSectionName c = None then drawSections tileSubset c else c)"

definition reNewAllSections :: "bool \<Rightarrow> 'a painter_scheme \<Rightarrow> 'a painter_scheme option" where
  [paint_defs]: "reNewAllSections redraw c =
     do { c1 \<leftarrow> renew_layout c;
          Some (if redraw \<and> drawingAllowed c1 then drawSections None c1 else c1) }"

section \<open>Pausing and resuming\<close>

definition paintOnResumeOrEnable :: "('a painter_scheme \<Rightarrow> 'a painter_scheme) \<Rightarrow> 'a painter_scheme \<Rightarrow> 'a painter_scheme option" where
  [paint_defs]: "paintOnResumeOrEnable scroll c =
     do { c1 \<leftarrow> (if sectionsDirty c
                 then do { a \<leftarrow> updateBoundSectionLists c; b \<leftarrow> reNewAllSections False a; Some (b\<lparr>sectionsDirty := False\<rparr>) }
                 else Some c);
          let c2 = (case getSectionWithName c1 (Some ''scroll'') of None \<Rightarrow> c1 | Some _ \<Rightarrow> scroll c1);
          Some (if dirty c2 \<noteq> NotDirty then clearDirty (requestReDraw (dirtySubset c2) c2) else c2) }"

definition disableDrawing :: "'a painter_scheme \<Rightarrow> 'a painter_scheme" where
  [paint_defs]: "disableDrawing c = c\<lparr>drawingEnabled := False\<rparr>"

definition enableDrawing :: "('a painter_scheme \<Rightarrow> 'a painter_scheme) \<Rightarrow> 'a painter_scheme \<Rightarrow> 'a painter_scheme option" where
  [paint_defs]: "enableDrawing scroll c =
     (if drawingEnabled c then Some c
      else (let c1 = c\<lparr>drawingEnabled := True\<rparr>
            in if drawingPaused c1 = 0 then paintOnResumeOrEnable scroll (setDirty None c1) else Some c1))"

definition pauseDrawing :: "'a painter_scheme \<Rightarrow> 'a painter_scheme" where
  [paint_defs]: "pauseDrawing c =
     (let c1 = c\<lparr>drawingPaused := drawingPaused c + 1\<rparr> in if drawingPaused c = 0 then clearDirty c1 else c1)"

definition resumeDrawing :: "('a painter_scheme \<Rightarrow> 'a painter_scheme) \<Rightarrow> bool \<Rightarrow> 'a painter_scheme \<Rightarrow> 'a painter_scheme option" where
  [paint_defs]: "resumeDrawing scroll topLevel c =
     (let wasNonZero = (drawingPaused c \<noteq> 0);
          c1 = (if topLevel then c\<lparr>drawingPaused := 0\<rparr>
                else if drawingPaused c > 0 then c\<lparr>drawingPaused := drawingPaused c - 1\<rparr> else c)
      in if drawingEnabled c1 \<and> wasNonZero \<and> drawingPaused c1 = 0 then paintOnResumeOrEnable scroll c1 else Some c1)"

section \<open>Adding and removing sections\<close>

record section_options =
  o_name :: "string option"
  o_anchor :: "(anchor_entry \<times> anchor_entry) option"
  o_position :: "rat point option"
  o_size :: "rat point option"
  o_expand :: "string list option"
  o_processingOrder :: "int option"
  o_drawingOrder :: "int option"
  o_zIndex :: "int option"
  o_interactable :: "bool option"
  o_showSection :: "bool option"

definition js_blank :: "char \<Rightarrow> bool" where
  "js_blank ch \<longleftrightarrow> ch \<in> set [CHR '' '', CHR 0x09, CHR 0x0A, CHR 0x0B, CHR 0x0C, CHR 0x0D, CHR 0xA0]"

definition js_trim :: "string \<Rightarrow> string" where
  "js_trim s = rev (dropWhile js_blank (rev (dropWhile js_blank s)))"

definition checkNewSectionName :: "'a container_scheme \<Rightarrow> string option \<Rightarrow> bool" where
  [paint_defs]: "checkNewSectionName c name =
     (case name of
        None \<Rightarrow> False
      | Some n \<Rightarrow> js_trim n \<noteq> [] \<and> \<not> doesSectionExist c n \<and> js_trim n \<notin> {''top'', ''left'', ''bottom'', ''right''})"

definition checkSectionProperties :: "section_options \<Rightarrow> section_options option" where
  [paint_defs]: "checkSectionProperties opt =
     (if o_anchor opt = None \<or> o_position opt = None \<or> o_size opt = None \<or> o_expand opt = None \<or>
         o_processingOrder opt = None \<or> o_drawingOrder opt = None \<or> o_zIndex opt = None \<or> o_interactable opt = None
      then None
      else Some (if o_showSection opt = None then opt\<lparr>o_showSection := Some True\<rparr> else opt))"

definition newSectionChecks :: "'a container_scheme \<Rightarrow> section_options \<Rightarrow> section_options option" where
  [paint_defs]: "newSectionChecks c opt = (if checkNewSectionName c (o_name opt) then checkSectionProperties opt else None)"

text \<open>The constructor, with the initial values of the class.\<close>

definition CanvasSectionObject :: "section_options \<Rightarrow> canvas_section" where
  [paint_defs]: "CanvasSectionObject opt =
     \<lparr>sec_name = the (o_name opt), boundToSection = None, anchor_y = fst (the (o_anchor opt)), anchor_x = snd (the (o_anchor opt)),
      documentObject = False, isVisible = False, showSection = the (o_showSection opt), sec_position = the (o_position opt),
      sec_size = the (o_size opt), origSizeHint = None, expand = the (o_expand opt), isLocated = False,
      processingOrder = the (o_processingOrder opt), drawingOrder = the (o_drawingOrder opt), zIndex = the (o_zIndex opt),
      interactable = the (o_interactable opt), isAnimating = False, windowSection = False, myTopLeft = None, boundsList = []\<rparr>"

definition pushSection :: "canvas_section \<Rightarrow> 'a painter_scheme \<Rightarrow> 'a painter_scheme option" where
  [paint_defs]: "pushSection newSection c =
     (let c1 = (put_section (nextObj c) newSection c)\<lparr>sections := sections c @ [nextObj c], nextObj := Suc (nextObj c)\<rparr>
      in if drawingAllowed c1 then do { a \<leftarrow> updateBoundSectionLists c1; reNewAllSections True a }
         else Some (setDirty None (c1\<lparr>sectionsDirty := True\<rparr>)))"

definition createSection :: "section_options \<Rightarrow> string option \<Rightarrow> 'a painter_scheme \<Rightarrow> ('a painter_scheme \<times> bool) option" where
  [paint_defs]: "createSection opt parentSectionName c =
     (case newSectionChecks c opt of
        Some opt' \<Rightarrow> do { c' \<leftarrow> pushSection ((CanvasSectionObject opt')\<lparr>boundToSection := parentSectionName\<rparr>) c; Some (c', True) }
      | None \<Rightarrow> Some (c, False))"

text \<open>A section object has all the properties that are checked.\<close>

definition addSection :: "canvas_section \<Rightarrow> 'a painter_scheme \<Rightarrow> ('a painter_scheme \<times> bool) option" where
  [paint_defs]: "addSection newSection c =
     (if checkNewSectionName c (Some (sec_name newSection))
      then do { c' \<leftarrow> pushSection newSection c; Some (c', True) } else Some (c, False))"

definition removeSection :: "string \<Rightarrow> 'a painter_scheme \<Rightarrow> ('a painter_scheme \<times> bool) option" where
  [paint_defs]: "removeSection name c =
     (case List.find (\<lambda>i. sec_name (objs c i) = name) (sections c) of
        None \<Rightarrow> Some (c, False)
      | Some i \<Rightarrow>
          (let c1 = c\<lparr>sections := remove1 i (sections c)\<rparr>
           in if \<not> drawingAllowed c1 then Some (c1\<lparr>sectionsDirty := True\<rparr>, True)
              else do { a \<leftarrow> updateBoundSectionLists c1; b \<leftarrow> reNewAllSections True a; Some (b, True) }))"

definition bindToSection :: "nat \<Rightarrow> string \<Rightarrow> 'a painter_scheme \<Rightarrow> 'a painter_scheme option" where
  [paint_defs]: "bindToSection i sectionName c =
     do { a \<leftarrow> updateBoundSectionLists (put_section i ((objs c i)\<lparr>boundToSection := Some sectionName\<rparr>) c); reNewAllSections True a }"

section \<open>Animation\<close>

text \<open>One animation frame.\<close>

definition animate :: "rat \<Rightarrow> 'a painter_scheme \<Rightarrow> 'a painter_scheme" where
  [paint_defs]: "animate timeStamp c0 =
     (let c = c0\<lparr>elapsedTime := (if lastFrameStamp c0 > 0 then elapsedTime c0 + (timeStamp - lastFrameStamp c0) else elapsedTime c0),
                 lastFrameStamp := timeStamp, framePending := False\<rparr>;
          go = (continueAnimating c \<and> \<not> (case duration c of None \<Rightarrow> False | Some d \<Rightarrow> d \<noteq> 0 \<and> elapsedTime c \<ge> d))
      in if go
         then (drawSections None c)\<lparr>frameCount := frameCount c + 1, framePending := True\<rparr>
         else (let c1 = c\<lparr>continueAnimating := False\<rparr>;
                   c2 = (case getSectionWithName c1 (animatingSectionName c1) of
                           None \<Rightarrow> c1 | Some i \<Rightarrow> put_section i ((objs c1 i)\<lparr>isAnimating := False\<rparr>) c1)
               in drawSections None (c2\<lparr>animatingSectionName := None, frameCount := 0, elapsedTime := 0\<rparr>)))"

definition stopAnimating :: "'a painter_scheme \<Rightarrow> 'a painter_scheme" where
  [paint_defs]: "stopAnimating c = c\<lparr>continueAnimating := False\<rparr>"

definition resetAnimation :: "string \<Rightarrow> 'a painter_scheme \<Rightarrow> 'a painter_scheme" where
  [paint_defs]: "resetAnimation name c =
     (if animatingSectionName c = Some name then c\<lparr>lastFrameStamp := 0, elapsedTime := 0, frameCount := 0\<rparr> else c)"

text \<open>\<open>now\<close> is \<open>performance.now()\<close>.\<close>

definition startAnimating :: "rat \<Rightarrow> string \<Rightarrow> rat option \<Rightarrow> 'a painter_scheme \<Rightarrow> ('a painter_scheme \<times> bool) option" where
  [paint_defs]: "startAnimating now name optDuration c =
     (if animatingSectionName c = None
      then (case getSectionWithName c (Some name) of
              None \<Rightarrow> None
            | Some i \<Rightarrow>
                Some (animate now ((put_section i ((objs c i)\<lparr>isAnimating := True\<rparr>) c)\<lparr>animatingSectionName := Some name,
                  lastFrameStamp := 0, continueAnimating := True,
                  duration := (case optDuration of None \<Rightarrow> None | Some d \<Rightarrow> if d = 0 then None else Some d),
                  elapsedTime := 0, frameCount := 0\<rparr>), True))
      else Some (c, False))"

section \<open>What has been painted\<close>

text \<open>The needs that no painting has met yet: a painting of some tiles meets a need of such tiles only.\<close>

fun settle :: "tile_subset list \<Rightarrow> paint_event \<Rightarrow> tile_subset list" where
  "settle ns (Needed r) = ns @ [r]"
| "settle ns (Painted drawn None) = []"
| "settle ns (Painted drawn (Some s)) = filter (\<lambda>n. \<not> (case n of None \<Rightarrow> False | Some l \<Rightarrow> set l \<subseteq> set s)) ns"

definition unpainted :: "'a painter_scheme \<Rightarrow> tile_subset list" where
  "unpainted c = foldl settle [] (paints c)"

text \<open>The dirty flags cover all that is unpainted.\<close>

definition covered :: "'a painter_scheme \<Rightarrow> bool" where
  "covered c \<longleftrightarrow> dirty c = AllDirty \<or>
     dirty c = TileRange \<and> (\<exists>s. dirtySubset c = Some s \<and> (\<forall>n \<in> set (unpainted c). \<exists>l. n = Some l \<and> set l \<subseteq> set s))"

definition sane :: "'a painter_scheme \<Rightarrow> bool" where
  "sane c \<longleftrightarrow> (dirty c = TileRange \<longleftrightarrow> dirtySubset c \<noteq> None)"

text \<open>The layout does not touch the painter's own fields.\<close>

lemma painter_fields:
  assumes "container.more (c' :: 'a painter_scheme) = container.more c"
  shows "drawingPaused c' = drawingPaused c" "drawingEnabled c' = drawingEnabled c" "dirty c' = dirty c"
    "dirtySubset c' = dirtySubset c" "sectionsDirty c' = sectionsDirty c" "paints c' = paints c"
    "animatingSectionName c' = animatingSectionName c"
    "lastFrameStamp c' = lastFrameStamp c" "elapsedTime c' = elapsedTime c" "continueAnimating c' = continueAnimating c"
    "duration c' = duration c" "framePending c' = framePending c"
  using assms by (cases c; cases c'; simp)+

lemma painter_derived:
  assumes "container.more (c' :: 'a painter_scheme) = container.more c"
  shows "drawingAllowed c' = drawingAllowed c" "unpainted c' = unpainted c" "covered c' = covered c" "sane c' = sane c"
  using painter_fields [OF assms] by (simp_all add: drawingAllowed_def unpainted_def covered_def sane_def)

lemma put_section_more [simp]: "container.more (put_section i s c) = container.more c"
  by (simp add: put_section_def)

lemma bounds_more: "updateBoundSectionLists c = Some c' \<Longrightarrow> container.more c' = container.more c"
  using updateBoundSectionLists_result [of c] by auto

text \<open>Updating the lists and renewing the sections, with or without drawing.\<close>

lemma renewed:
  assumes "reNewAllSections redraw c = Some c'"
  obtains d where "container.more d = container.more c"
    "c' = (if redraw \<and> drawingAllowed c then drawSections None d else d)"
proof -
  obtain d where d: "renew_layout c = Some d" "c' = (if redraw \<and> drawingAllowed d then drawSections None d else d)"
    using assms by (auto simp: reNewAllSections_def bind_eq_Some_conv)
  then show ?thesis using that [of d] renew_layout_order(4) [OF d(1)] painter_derived(1) [of d c] by auto
qed

lemma drawSections_all:
  "unpainted (drawSections None c) = []" "covered (drawSections None c) \<longleftrightarrow> dirty c = AllDirty \<or> dirty c = TileRange \<and> dirtySubset c \<noteq> None"
  "sane (drawSections s c) = sane c" "drawingAllowed (drawSections s c) = drawingAllowed c"
  "animatingSectionName (drawSections s c) = animatingSectionName c" "drawingEnabled (drawSections s c) = drawingEnabled c"
  "drawingPaused (drawSections s c) = drawingPaused c" "framePending (drawSections s c) = framePending c"
  by (auto simp: drawSections_def unpainted_def covered_def sane_def drawingAllowed_def)

lemma setDirty_fields [simp]:
  "drawingPaused (setDirty k c) = drawingPaused c" "drawingEnabled (setDirty k c) = drawingEnabled c"
  "animatingSectionName (setDirty k c) = animatingSectionName c" "drawingAllowed (setDirty k c) = drawingAllowed c"
  "framePending (setDirty k c) = framePending c"
  by (auto simp: setDirty_def Let_def drawingAllowed_def split: option.splits)

lemma setDirty_sane: "sane c \<Longrightarrow> sane (setDirty k c)"
  by (auto simp: setDirty_def sane_def Let_def split: option.splits)

lemma setDirty_covered:
  assumes "sane c" "unpainted c = [] \<or> covered c"
  shows "covered (setDirty k c)"
  using assms by (cases "dirty c"; cases k; force simp: setDirty_def covered_def unpainted_def sane_def Let_def split: option.splits)

lemma setDirty_all: "sane c \<Longrightarrow> covered (setDirty None c) \<and> sane (setDirty None c)"
  by (auto simp: setDirty_def covered_def sane_def Let_def)

text \<open>
  The pending scroll: it may move sections and only marks the canvas as dirty, as \<open>paintOnResumeOrEnable\<close> relies on.
\<close>

definition only_dirties :: "('a painter_scheme \<Rightarrow> 'a painter_scheme) \<Rightarrow> bool" where
  "only_dirties scroll \<longleftrightarrow> (\<forall>c. \<exists>ks d. scroll c = fold setDirty ks d \<and> container.more d = container.more c)"

lemma fold_setDirty_fields:
  "sane c \<Longrightarrow> sane (fold setDirty ks c)" "drawingAllowed (fold setDirty ks c) = drawingAllowed c"
  "animatingSectionName (fold setDirty ks c) = animatingSectionName c" "framePending (fold setDirty ks c) = framePending c"
  by (induction ks arbitrary: c) (simp_all add: setDirty_sane)

lemma fold_setDirty:
  assumes "sane c" "unpainted c = [] \<and> dirty c = NotDirty \<or> covered c"
  shows "unpainted (fold setDirty ks c) = [] \<and> dirty (fold setDirty ks c) = NotDirty \<or> covered (fold setDirty ks c)"
  using assms
proof (induction ks arbitrary: c)
  case (Cons k ks)
  then have "covered (setDirty k c)" using setDirty_covered [of c k] by auto
  then show ?case using Cons.IH [of "setDirty k c"] Cons.prems(1) setDirty_sane by auto
qed simp

text \<open>Painting what is dirty, when drawing is allowed, leaves nothing unpainted.\<close>

lemma request_dirty:
  assumes "drawingAllowed c" "sane c" "covered c" "animatingSectionName c = None"
  shows "unpainted (clearDirty (requestReDraw (dirtySubset c) c)) = []"
proof -
  have a: "drawingAllowed (c\<lparr>paints := p\<rparr>)" for p using assms(1) by (simp add: drawingAllowed_def)
  show ?thesis
    using assms by (cases "dirtySubset c")
      (auto simp: requestReDraw_def clearDirty_def drawSections_def unpainted_def covered_def sane_def a Let_def filter_empty_conv)
qed

lemma clear_request:
  assumes "drawingAllowed c"
  shows "sane (clearDirty (requestReDraw s c))" "drawingAllowed (clearDirty (requestReDraw s c))"
    "animatingSectionName (clearDirty (requestReDraw s c)) = animatingSectionName c"
    "framePending (clearDirty (requestReDraw s c)) = framePending c"
  using assms by (auto simp: requestReDraw_def clearDirty_def drawSections_def drawingAllowed_def sane_def Let_def)

lemma clean_or_covered: "sane c \<Longrightarrow> unpainted c = [] \<Longrightarrow> dirty c = NotDirty \<or> covered c"
  by (cases "dirty c") (auto simp: sane_def covered_def)

text \<open>Renewing the sections on resuming leaves what is dirty as it was.\<close>

definition same_paint :: "'a painter_scheme \<Rightarrow> 'a painter_scheme \<Rightarrow> bool" where
  "same_paint c c' \<longleftrightarrow> drawingPaused c' = drawingPaused c \<and> drawingEnabled c' = drawingEnabled c \<and> dirty c' = dirty c \<and>
     dirtySubset c' = dirtySubset c \<and> paints c' = paints c \<and> animatingSectionName c' = animatingSectionName c \<and>
     framePending c' = framePending c"

lemma same_paint_more: "container.more (c' :: 'a painter_scheme) = container.more c \<Longrightarrow> same_paint c c'"
  using painter_fields [of c' c] by (simp add: same_paint_def)

lemma same_paint_derived:
  assumes "same_paint c c'"
  shows "drawingAllowed c' = drawingAllowed c" "unpainted c' = unpainted c" "covered c' = covered c" "sane c' = sane c"
    "animatingSectionName c' = animatingSectionName c" "framePending c' = framePending c" "dirty c' = dirty c"
  using assms by (simp_all add: same_paint_def drawingAllowed_def unpainted_def covered_def sane_def)

lemma renew_before_paint:
  assumes "(if sectionsDirty c
      then do { a \<leftarrow> updateBoundSectionLists c; b \<leftarrow> reNewAllSections False a; Some (b\<lparr>sectionsDirty := False\<rparr>) }
      else Some c) = Some c1"
  shows "same_paint c c1"
proof (cases "sectionsDirty c")
  case True
  then obtain a b where ab: "updateBoundSectionLists c = Some a" "reNewAllSections False a = Some b" "c1 = b\<lparr>sectionsDirty := False\<rparr>"
    using assms by (auto simp: bind_eq_Some_conv)
  have "container.more b = container.more a" by (rule renewed [OF ab(2)]) simp
  then have "same_paint c b" using bounds_more [OF ab(1)] by (intro same_paint_more) simp
  then show ?thesis by (simp add: ab(3) same_paint_def)
next
  case False
  then show ?thesis using assms by (simp add: same_paint_def)
qed

lemma paint_resume:
  assumes "only_dirties scroll" "drawingAllowed c" "sane c"
    and "animatingSectionName c = None \<longrightarrow> unpainted c = [] \<or> covered c" "paintOnResumeOrEnable scroll c = Some c'"
  shows "sane c' \<and> drawingAllowed c' \<and> animatingSectionName c' = animatingSectionName c \<and> framePending c' = framePending c \<and>
    (animatingSectionName c = None \<longrightarrow> unpainted c' = [])"
proof -
  obtain c1 where c1: "same_paint c c1"
    and c': "c' = (let c2 = (case getSectionWithName c1 (Some ''scroll'') of None \<Rightarrow> c1 | Some _ \<Rightarrow> scroll c1)
      in if dirty c2 \<noteq> NotDirty then clearDirty (requestReDraw (dirtySubset c2) c2) else c2)"
    using assms(5) renew_before_paint [of c] by (auto simp: paintOnResumeOrEnable_def bind_eq_Some_conv Let_def)
  define c2 where "c2 = (case getSectionWithName c1 (Some ''scroll'') of None \<Rightarrow> c1 | Some _ \<Rightarrow> scroll c1)"
  obtain ks d where d: "c2 = fold setDirty ks d" "container.more d = container.more c1"
  proof (cases "getSectionWithName c1 (Some ''scroll'')")
    case None
    then show ?thesis using that [of "[]" c1] by (simp add: c2_def)
  next
    case (Some i)
    then show ?thesis using assms(1) that unfolding only_dirties_def c2_def by fastforce
  qed
  note same = same_paint_derived [OF same_paint_more [OF d(2)]] same_paint_derived [OF c1]
  have ok: "sane d" "animatingSectionName c = None \<longrightarrow> unpainted d = [] \<and> dirty d = NotDirty \<or> covered d"
    using assms(3,4) clean_or_covered [of c] by (auto simp: same)
  have c2: "sane c2" "drawingAllowed c2" "animatingSectionName c2 = animatingSectionName c" "framePending c2 = framePending c"
    using fold_setDirty_fields [where c = d and ks = ks] ok(1) assms(2) by (auto simp: d(1) [symmetric] same)
  have cover: "animatingSectionName c = None \<longrightarrow> unpainted c2 = [] \<and> dirty c2 = NotDirty \<or> covered c2"
    using fold_setDirty [OF ok(1), of ks] ok(2) by (auto simp: d(1) [symmetric])
  have "c' = (if dirty c2 \<noteq> NotDirty then clearDirty (requestReDraw (dirtySubset c2) c2) else c2)"
    unfolding c' c2_def Let_def ..
  then show ?thesis
    using c2 cover request_dirty [of c2] clear_request [OF c2(2)] by (cases "dirty c2 = NotDirty") (auto simp: covered_def)
qed

text \<open>
  The operations on the painter in any order. A tile is marked as dirty while drawing is paused, as the socket does;
  drawing is enabled again while it is not paused.
\<close>

inductive paint_step :: "('a painter_scheme \<Rightarrow> 'a painter_scheme) \<Rightarrow> 'a painter_scheme \<Rightarrow> 'a painter_scheme \<Rightarrow> bool" for scroll where
  pause: "paint_step scroll c (pauseDrawing c)"
| resume: "resumeDrawing scroll topLevel c = Some c' \<Longrightarrow> paint_step scroll c c'"
| disable: "paint_step scroll c (disableDrawing c)"
| enable: "enableDrawing scroll c = Some c' \<Longrightarrow> drawingPaused c = 0 \<Longrightarrow> paint_step scroll c c'"
| tile: "drawingPaused c > 0 \<Longrightarrow> paint_step scroll c (setDirty (Some k) c)"
| request: "paint_step scroll c (requestReDraw s c)"
| push: "pushSection s c = Some c' \<Longrightarrow> paint_step scroll c c'"
| remove: "removeSection n c = Some (c', b) \<Longrightarrow> paint_step scroll c c'"
| bind: "bindToSection i n c = Some c' \<Longrightarrow> paint_step scroll c c'"
| renew: "reNewAllSections redraw c = Some c' \<Longrightarrow> paint_step scroll c c'"
| frame: "framePending c \<Longrightarrow> paint_step scroll c (animate t c)"
| start: "startAnimating t n d c = Some (c', b) \<Longrightarrow> paint_step scroll c c'"
| stop: "paint_step scroll c (stopAnimating c)"
| reset: "paint_step scroll c (resetAnimation n c)"

text \<open>The invariant of these steps.\<close>

definition paint_ok :: "'a painter_scheme \<Rightarrow> bool" where
  "paint_ok c \<longleftrightarrow> sane c \<and> (framePending c \<longleftrightarrow> animatingSectionName c \<noteq> None) \<and>
     (animatingSectionName c = None \<longrightarrow> unpainted c = [] \<or> \<not> drawingAllowed c \<and> (drawingEnabled c \<longrightarrow> covered c))"

lemma paint_ok_more: "container.more (c' :: 'a painter_scheme) = container.more c \<Longrightarrow> paint_ok c' = paint_ok c"
  using painter_fields [of c' c] painter_derived [of c' c] by (simp add: paint_ok_def)

lemma paint_ok_same:
  assumes "same_paint c c'"
  shows "paint_ok c' = paint_ok c"
proof -
  have "drawingEnabled c' = drawingEnabled c" using assms by (simp add: same_paint_def)
  then show ?thesis unfolding paint_ok_def same_paint_derived [OF assms] by simp
qed

lemma paint_ok_draw: "paint_ok c \<Longrightarrow> paint_ok (drawSections None c)"
  by (auto simp: paint_ok_def drawSections_all)

lemma paint_ok_renew:
  assumes "reNewAllSections redraw c = Some c'" "paint_ok c"
  shows "paint_ok c'"
  using assms(2) paint_ok_more by (rule_tac renewed [OF assms(1)]) (auto intro: paint_ok_draw)

lemma paint_ok_allowed:
  assumes "paint_ok c" "drawingAllowed c"
  shows "animatingSectionName c = None \<Longrightarrow> unpainted c = []" "sane c"
  using assms by (auto simp: paint_ok_def)

lemma paint_ok_pause: "paint_ok c \<Longrightarrow> paint_ok (pauseDrawing c)"
  by (auto simp: paint_ok_def pauseDrawing_def clearDirty_def sane_def covered_def unpainted_def drawingAllowed_def Let_def)

lemma paint_ok_resumed:
  assumes "only_dirties scroll" "paintOnResumeOrEnable scroll c = Some c'" "drawingAllowed c" "sane c"
    and "framePending c \<longleftrightarrow> animatingSectionName c \<noteq> None" "animatingSectionName c = None \<longrightarrow> unpainted c = [] \<or> covered c"
  shows "paint_ok c'"
  using paint_resume [OF assms(1,3,4,6,2)] assms(5) by (auto simp: paint_ok_def)

lemma paint_ok_resume:
  assumes "only_dirties scroll" "resumeDrawing scroll topLevel c = Some c'" "paint_ok c"
  shows "paint_ok c'"
proof -
  define c1 where "c1 = (if topLevel then c\<lparr>drawingPaused := 0\<rparr>
    else if drawingPaused c > 0 then c\<lparr>drawingPaused := drawingPaused c - 1\<rparr> else c)"
  have f: "drawingEnabled c1 = drawingEnabled c" "sane c1 = sane c" "covered c1 = covered c" "unpainted c1 = unpainted c"
    "animatingSectionName c1 = animatingSectionName c" "framePending c1 = framePending c"
    by (simp_all add: c1_def sane_def covered_def unpainted_def)
  show ?thesis
  proof (cases "drawingEnabled c1 \<and> drawingPaused c \<noteq> 0 \<and> drawingPaused c1 = 0")
    case True
    then have "paintOnResumeOrEnable scroll c1 = Some c'"
      using assms(2) by (simp add: resumeDrawing_def Let_def c1_def)
    then show ?thesis
      by (rule paint_ok_resumed [OF assms(1)]) (use True assms(3) in \<open>auto simp: f paint_ok_def drawingAllowed_def\<close>)
  next
    case False
    then have "c' = c1" using assms(2) by (simp add: resumeDrawing_def Let_def c1_def split: if_splits)
    moreover have "drawingAllowed c1 \<Longrightarrow> drawingAllowed c"
      using False by (auto simp: drawingAllowed_def c1_def split: if_splits)
    ultimately show ?thesis using assms(3) by (auto simp: paint_ok_def f)
  qed
qed

lemma paint_ok_enable:
  assumes "only_dirties scroll" "enableDrawing scroll c = Some c'" "drawingPaused c = 0" "paint_ok c"
  shows "paint_ok c'"
proof (cases "drawingEnabled c")
  case False
  let ?c = "c\<lparr>drawingEnabled := True\<rparr>"
  have "sane ?c" using assms(4) by (simp add: paint_ok_def sane_def)
  then have s: "covered (setDirty None ?c)" "sane (setDirty None ?c)" using setDirty_all by blast+
  have "paintOnResumeOrEnable scroll (setDirty None ?c) = Some c'"
    using assms(2,3) False by (simp add: enableDrawing_def Let_def)
  then show ?thesis
    by (rule paint_ok_resumed [OF assms(1)]) (use s assms(3,4) in \<open>auto simp: paint_ok_def drawingAllowed_def\<close>)
qed (use assms in \<open>simp add: enableDrawing_def\<close>)

lemma paint_ok_dirty:
  assumes "paint_ok c" "\<not> drawingAllowed c"
  shows "paint_ok (setDirty k c)"
  using assms setDirty_covered [of c k] setDirty_sane [of c k] by (auto simp: paint_ok_def)

lemma paint_ok_need:
  assumes "paint_ok c" "\<not> drawingAllowed c"
  shows "paint_ok (setDirty None (c\<lparr>paints := p\<rparr>))" "paint_ok (setDirty None (c\<lparr>sectionsDirty := True\<rparr>))"
proof -
  have s: "sane (c\<lparr>paints := p\<rparr>)" "sane (c\<lparr>sectionsDirty := True\<rparr>)" and a: "\<not> drawingAllowed (c\<lparr>paints := p\<rparr>)"
    "\<not> drawingAllowed (c\<lparr>sectionsDirty := True\<rparr>)"
    using assms by (simp_all add: paint_ok_def sane_def drawingAllowed_def)
  show "paint_ok (setDirty None (c\<lparr>paints := p\<rparr>))" "paint_ok (setDirty None (c\<lparr>sectionsDirty := True\<rparr>))"
    using setDirty_all [OF s(1)] setDirty_all [OF s(2)] a assms(1) by (simp_all add: paint_ok_def)
qed

lemma paint_ok_request:
  assumes "paint_ok c"
  shows "paint_ok (requestReDraw s c)"
proof (cases "drawingAllowed c")
  case True
  then show ?thesis
    using assms by (cases s) (auto simp: requestReDraw_def drawSections_def paint_ok_def drawingAllowed_def sane_def unpainted_def Let_def)
next
  case False
  then have "requestReDraw s c = setDirty None (c\<lparr>paints := paints c @ [Needed s]\<rparr>)"
    by (simp add: requestReDraw_def drawingAllowed_def Let_def)
  then show ?thesis using paint_ok_need(1) [OF assms False] by simp
qed

lemma paint_ok_animate: "sane c \<Longrightarrow> animatingSectionName c \<noteq> None \<Longrightarrow> paint_ok (animate t c)"
  by (auto simp: animate_def paint_ok_def drawSections_def put_section_def sane_def unpainted_def Let_def split: option.splits)

lemma paint_ok_renewed:
  assumes "updateBoundSectionLists c = Some a" "reNewAllSections redraw a = Some c'" "paint_ok c"
  shows "paint_ok c'"
  using paint_ok_renew [OF assms(2)] paint_ok_more [OF bounds_more [OF assms(1)]] assms(3) by simp

lemma paint_ok_push:
  assumes "pushSection s c = Some c'" "paint_ok c"
  shows "paint_ok c'"
proof -
  let ?c = "(put_section (nextObj c) s c)\<lparr>sections := sections c @ [nextObj c], nextObj := Suc (nextObj c)\<rparr>"
  have ok: "paint_ok ?c" using assms(2) paint_ok_more [of ?c c] by simp
  show ?thesis
  proof (cases "drawingAllowed ?c")
    case True
    then show ?thesis using assms(1) ok by (auto simp: pushSection_def Let_def bind_eq_Some_conv intro: paint_ok_renewed)
  next
    case False
    then show ?thesis using assms(1) paint_ok_need(2) [OF ok False] by (auto simp: pushSection_def Let_def)
  qed
qed

lemma paint_ok_remove:
  assumes "removeSection n c = Some (c', b)" "paint_ok c"
  shows "paint_ok c'"
proof (cases "List.find (\<lambda>i. sec_name (objs c i) = n) (sections c)")
  case None
  then show ?thesis using assms by (simp add: removeSection_def)
next
  case (Some i)
  let ?c = "c\<lparr>sections := remove1 i (sections c)\<rparr>"
  have ok: "paint_ok ?c" using assms(2) paint_ok_more [of ?c c] by simp
  show ?thesis
  proof (cases "drawingAllowed ?c")
    case True
    then show ?thesis using assms(1) Some ok by (auto simp: removeSection_def Let_def bind_eq_Some_conv intro: paint_ok_renewed)
  next
    case False
    then have "c' = ?c\<lparr>sectionsDirty := True\<rparr>" using assms(1) Some by (simp add: removeSection_def Let_def)
    then show ?thesis using ok paint_ok_same [of ?c c'] by (simp add: same_paint_def)
  qed
qed

lemma paint_ok_step:
  assumes "paint_step scroll c c'" "only_dirties scroll" "paint_ok c"
  shows "paint_ok c'"
  using assms(1)
proof cases
  case pause
  then show ?thesis using assms(3) by (simp add: paint_ok_pause)
next
  case (resume topLevel)
  then show ?thesis by (rule paint_ok_resume [OF assms(2) _ assms(3)])
next
  case disable
  then show ?thesis using assms(3) by (auto simp: disableDrawing_def paint_ok_def sane_def unpainted_def drawingAllowed_def)
next
  case enable
  then show ?thesis by (rule paint_ok_enable [OF assms(2) _ _ assms(3)])
next
  case (tile k)
  then show ?thesis using assms(3) by (simp add: paint_ok_dirty drawingAllowed_def)
next
  case (request s)
  then show ?thesis using assms(3) by (simp add: paint_ok_request)
next
  case (push s)
  then show ?thesis by (rule paint_ok_push [OF _ assms(3)])
next
  case (remove n b)
  then show ?thesis by (rule paint_ok_remove [OF _ assms(3)])
next
  case (bind i n)
  then show ?thesis
    using assms(3) by (auto simp: bindToSection_def bind_eq_Some_conv paint_ok_more [OF put_section_more] intro: paint_ok_renewed)
next
  case (renew redraw)
  then show ?thesis by (rule paint_ok_renew [OF _ assms(3)])
next
  case (frame t)
  then show ?thesis using assms(3) paint_ok_animate [of c t] by (simp add: paint_ok_def [of c])
next
  case (start t n d b)
  show ?thesis
  proof (cases "animatingSectionName c = None")
    case True
    then obtain c1 where "c' = animate t c1" "sane c1 = sane c" "animatingSectionName c1 \<noteq> None"
      using start by (auto simp: startAnimating_def sane_def put_section_def split: option.splits)
    then show ?thesis using paint_ok_animate [of c1 t] assms(3) by (simp add: paint_ok_def [of c])
  next
    case False
    then show ?thesis using start assms(3) by (simp add: startAnimating_def del: not_None_eq)
  qed
next
  case stop
  then show ?thesis using assms(3) paint_ok_same [of c c'] by (simp add: stopAnimating_def same_paint_def)
next
  case (reset n)
  then show ?thesis using assms(3) paint_ok_same [of c c'] by (simp add: resetAnimation_def same_paint_def)
qed


section \<open>Animations end\<close>

text \<open>The browser's animation frames at the times \<open>ts\<close>.\<close>

definition run_frames :: "rat list \<Rightarrow> 'a painter_scheme \<Rightarrow> 'a painter_scheme" where
  "run_frames ts c = fold (\<lambda>t c. if framePending c then animate t c else c) ts c"

fun frames_apart :: "rat \<Rightarrow> rat \<Rightarrow> rat list \<Rightarrow> bool" where
  "frames_apart gap t [] \<longleftrightarrow> True"
| "frames_apart gap t (u # us) \<longleftrightarrow> t + gap \<le> u \<and> frames_apart gap u us"

text \<open>An animation of length \<open>d\<close> that has run for at least \<open>e\<close> at its frame at time \<open>t\<close>.\<close>

definition running :: "rat \<Rightarrow> rat \<Rightarrow> rat \<Rightarrow> 'a painter_scheme \<Rightarrow> bool" where
  "running d t e c \<longleftrightarrow> framePending c \<and> lastFrameStamp c = t \<and> duration c = Some d \<and> e \<le> elapsedTime c \<and> elapsedTime c < d"

lemma run_frames_idle: "\<not> framePending c \<Longrightarrow> run_frames ts c = c"
  unfolding run_frames_def by (induction ts) auto

lemma animate_running:
  assumes "running d t e c" "0 < t" "t + gap \<le> u" "0 < d"
  shows "animatingSectionName (animate u c) = None \<and> \<not> framePending (animate u c) \<and> unpainted (animate u c) = [] \<or>
    running d u (e + gap) (animate u c)"
  using assms by (auto simp: running_def animate_def drawSections_def put_section_def unpainted_def Let_def split: option.splits)

lemma run_frames_end:
  assumes "running d t e c" "0 < t" "0 < gap" "0 < d" "frames_apart gap t ts" "d \<le> e + gap * of_nat (length ts)"
  shows "animatingSectionName (run_frames ts c) = None \<and> \<not> framePending (run_frames ts c) \<and> unpainted (run_frames ts c) = []"
  using assms
proof (induction ts arbitrary: t e c)
  case Nil
  then show ?case by (simp add: running_def)
next
  case (Cons u us)
  have r: "run_frames (u # us) c = run_frames us (animate u c)" using Cons.prems(1) by (simp add: run_frames_def running_def)
  consider "animatingSectionName (animate u c) = None" "\<not> framePending (animate u c)" "unpainted (animate u c) = []" | "running d u (e + gap) (animate u c)"
    using animate_running [of d t e c gap u] Cons.prems by auto
  then show ?case
  proof cases
    case 1
    then show ?thesis by (simp add: r run_frames_idle)
  next
    case 2
    have "d \<le> (e + gap) + gap * of_nat (length us)" using Cons.prems(6) by (simp add: algebra_simps)
    then show ?thesis unfolding r using Cons.IH [OF 2] Cons.prems by simp
  qed
qed

text \<open>
  C25. An animation with a duration ends: once frames have come at least \<open>gap\<close> apart for the duration, no section is animating, no
  further frame is asked for and all that was asked for has been painted. (So requests to redraw, which are not
  served during an animation, are served again.)
\<close>

theorem animation_ends:
  assumes "startAnimating t n (Some d) c = Some (c', True)" "0 < t" "0 < gap" "0 < d"
    and "frames_apart gap t ts" "d \<le> gap * of_nat (length ts)"
  shows "animatingSectionName (run_frames ts c') = None \<and> \<not> framePending (run_frames ts c') \<and> unpainted (run_frames ts c') = []"
proof -
  have "running d t 0 c'"
    using assms(1,4) by (auto simp: startAnimating_def running_def animate_def drawSections_def put_section_def Let_def
        split: if_splits option.splits)
  then show ?thesis using run_frames_end [of d t 0 c' gap ts] assms by simp
qed

section \<open>Examples\<close>

definition sample_painter :: painter where
  "sample_painter = \<lparr>objs = sample_objs, nextObj = 3, sections = [0, 1, 2], windowSectionList = [],
     documentTopLeft = Pt 0 0, documentBottomRight = Pt 100 80, documentAnchorSectionName = Some ''tiles'', documentAnchor = None,
     canvasWidth = 100, canvasHeight = 80, right = 100, bottom = 80, roundedDpiScale = 1,
     drawingPaused = 0, drawingEnabled = True, dirty = NotDirty, dirtySubset = None, sectionsDirty = False, splitPanes = False,
     animatingSectionName = None, lastFrameStamp = 0, continueAnimating = False, frameCount = 0, duration = None, elapsedTime = 0,
     framePending = False, paints = []\<rparr>"

abbreviation tile_a :: tile_coords where
  "tile_a \<equiv> \<lparr>tc_x = 0, tc_y = 256, tc_z = 10, tc_part = 0, tc_mode = 0\<rparr>"

definition paused_with_tile :: painter where
  "paused_with_tile = setDirty (Some tile_a) (pauseDrawing sample_painter)"


theorem animation_ends_witness:
  "\<exists>c'. startAnimating 5 ''tiles'' (Some 30) sample_painter = Some (c', True) \<and> animatingSectionName c' = Some ''tiles'' \<and>
     animatingSectionName (run_frames [21, 37] c') = None"
proof -
  have "map_option (\<lambda>(c, b). (animatingSectionName c, b)) (startAnimating 5 ''tiles'' (Some 30) sample_painter) = Some (Some ''tiles'', True)"
    by code_simp
  then obtain c' where c': "startAnimating 5 ''tiles'' (Some 30) sample_painter = Some (c', True)" "animatingSectionName c' = Some ''tiles''"
    by auto
  show ?thesis using animation_ends [OF c'(1), of 16 "[21, 37]"] c' by simp
qed

text \<open>
  What is asked for while drawing is disabled is lost when drawing is enabled while it is paused: pausing forgets what was dirty
  and enabling does not repaint.
\<close>

lemma redraw_lost_when_enabled_paused:
  "map_option (\<lambda>c. (drawingAllowed c, unpainted c))
     (do { c1 \<leftarrow> enableDrawing id (pauseDrawing (requestReDraw None (disableDrawing sample_painter)));
           resumeDrawing id True c1 }) = Some (True, [None, None])"
  by code_simp

text \<open>A section that is removed while drawing is paused stays on the canvas: resuming renews the sections and paints nothing.\<close>

lemma removed_section_not_repainted:
  assumes "drawingAllowed c" "removeSection n (pauseDrawing c) = Some (c1, True)" "resumeDrawing id True c1 = Some c2"
  shows "length (sections c2) < length (sections c) \<and> paints c2 = paints c"
proof -
  obtain i where f: "List.find (\<lambda>i. sec_name (objs c i) = n) (sections c) = Some i"
    and c1: "c1 = (pauseDrawing c)\<lparr>sections := remove1 i (sections c), sectionsDirty := True\<rparr>"
    using assms(1,2) by (auto simp: removeSection_def pauseDrawing_def clearDirty_def drawingAllowed_def Let_def split: option.splits)
  have i: "i \<in> set (sections c)" using f by (auto simp: find_Some_iff)
  let ?d = "c1\<lparr>drawingPaused := 0\<rparr>"
  have d: "paintOnResumeOrEnable id ?d = Some c2" "dirty ?d = NotDirty" "paints ?d = paints c" "sections ?d = remove1 i (sections c)"
    using assms(1,3) by (simp_all add: resumeDrawing_def c1 pauseDrawing_def clearDirty_def drawingAllowed_def)
  obtain a b where ab: "updateBoundSectionLists ?d = Some a" "reNewAllSections False a = Some b"
    "c2 = (let e = b\<lparr>sectionsDirty := False\<rparr> in if dirty e \<noteq> NotDirty then clearDirty (requestReDraw (dirtySubset e) e) else e)"
    using d(1) by (auto simp: paintOnResumeOrEnable_def c1 bind_eq_Some_conv Let_def split: option.splits)
  have m: "container.more b = container.more ?d"
    using renewed [OF ab(2)] bounds_more [OF ab(1)] by (metis (full_types))
  have "sections a = sections ?d" using updateBoundSectionLists_result [of ?d] ab(1) by auto
  moreover obtain r where "renew_layout a = Some r" "b = r" using ab(2) by (auto simp: reNewAllSections_def bind_eq_Some_conv)
  ultimately have "mset (sections b) = mset (remove1 i (sections c))" using renew_layout_order(1) [of a r] d(4) by simp
  then have "length (sections b) = length (sections c) - 1" using i by (metis length_remove1 size_mset)
  then show ?thesis
    using painter_fields(3,6) [OF m] d(2,3) i length_pos_if_in_set [OF i] by (simp add: ab(3) Let_def)
qed

end
