(* ===== verification/Section_Events.thy ===== *)
theory Section_Events
  imports Section_Drawing
begin

text \<open>
  Mouse and touch events on the canvas (layer/tile/CanvasSectionContainer.ts): from the native event to the callbacks of the
  sections.

  \<^item> \<open>calls\<close> records the section an event is aimed at and the callbacks that run, in order. A callback is known by whether
    it calls \<open>stopPropagating\<close>: the parameter \<open>h\<close>. What else it does concerns the section.
  \<^item> A handler that reads a property of \<open>null\<close> throws: its result is \<open>None\<close>.
  \<^item> \<open>rectLeft\<close>, \<open>rectTop\<close> are the place of the canvas in the window, \<open>longPress\<close> whether \<open>longPressTimer\<close> is set. Missing
    lists of touches are empty. The distance of two fingers is recorded by its square, since square roots are not rational.
\<close>

named_theorems input_defs "definitions of event handling"

section \<open>Data\<close>

datatype kind = OnMouseMove | OnMouseDown | OnMouseUp | OnMouseEnter | OnMouseLeave | OnClick | OnDoubleClick | OnContextMenu
  | OnMouseWheel | OnLongPress | OnMultiTouchStart | OnMultiTouchMove | OnMultiTouchEnd | OnCursorPositionChanged | OnCellAddressChanged

datatype argument = NoArgument | Drag "int point option" | Delta rat rat | Distance rat

datatype call = Target kind string | Call kind string "rat point option" argument

record native_event =
  clientX :: rat
  clientY :: rat
  touches :: "rat point list"
  changedTouches :: "rat point list"
  button :: int
  deltaMode :: int
  deltaX :: rat
  deltaY :: rat

record pointer = painter +
  positionOnMouseDown :: "int point option"
  positionOnMouseUp :: "int point option"
  positionOnClick :: "int point option"
  positionOnDoubleClick :: "int point option"
  mousePosition :: "int point option"
  dragDistance :: "int point option"
  draggingSomething :: bool
  sectionOnMouseDown :: "string option"
  sectionUnderMouse :: "string option"
  multiTouch :: bool
  touchCenter :: "int point option"
  longPress :: bool
  touchEventInProgress :: bool
  lowestPropagatedBoundSection :: "string option"
  targetSection :: "string option"
  scrollLineHeight :: rat
  mouseIsInside :: bool
  rectLeft :: rat
  rectTop :: rat
  dpiScale :: rat
  calls :: "call list"

definition draggingTolerance :: int where
  [input_defs]: "draggingTolerance = 5"

definition clearMousePositions :: "'a pointer_scheme \<Rightarrow> 'a pointer_scheme" where
  [input_defs]: "clearMousePositions c =
     c\<lparr>positionOnClick := None, positionOnDoubleClick := None, positionOnMouseDown := None, positionOnMouseUp := None,
       dragDistance := None, sectionOnMouseDown := None, touchCenter := None, draggingSomething := False,
       touchEventInProgress := False, lowestPropagatedBoundSection := None, targetSection := None\<rparr>"

definition convertPositionToSectionLocale :: "'a container_scheme \<Rightarrow> nat \<Rightarrow> int point \<Rightarrow> rat point option" where
  [input_defs]: "convertPositionToSectionLocale c i p =
     (case myTopLeft (objs c i) of
        None \<Rightarrow> None
      | Some corner \<Rightarrow> Some (Pt (of_int (px p) - px corner) (of_int (py p) - py corner)))"

definition convertPointToCanvasLocale :: "'a pointer_scheme \<Rightarrow> rat point \<Rightarrow> int point" where
  [input_defs]: "convertPointToCanvasLocale c p =
     Pt (js_round ((px p - rectLeft c) * dpiScale c)) (js_round ((py p - rectTop c) * dpiScale c))"

definition convertPositionToCanvasLocale :: "'a pointer_scheme \<Rightarrow> native_event \<Rightarrow> int point" where
  [input_defs]: "convertPositionToCanvasLocale c e =
     convertPointToCanvasLocale c
       (if touches e \<noteq> [] then hd (touches e) else if changedTouches e \<noteq> [] then hd (changedTouches e)
        else Pt (clientX e) (clientY e))"

section \<open>Propagation\<close>

text \<open>One callback.\<close>

definition deliver :: "(call \<Rightarrow> bool) \<Rightarrow> kind \<Rightarrow> rat point option \<Rightarrow> argument \<Rightarrow> nat \<Rightarrow> 'a pointer_scheme \<Rightarrow> 'a pointer_scheme" where
  [input_defs]: "deliver h k pos arg i c =
     (let name = sec_name (objs c i); cl = Call k name pos arg
      in if interactable (objs c i)
         then (if h cl then c\<lparr>calls := calls c @ [cl], lowestPropagatedBoundSection := Some name\<rparr> else c\<lparr>calls := calls c @ [cl]\<rparr>)
         else c)"

definition stopped_at :: "nat \<Rightarrow> 'a pointer_scheme \<Rightarrow> bool" where
  [input_defs]: "stopped_at i c \<longleftrightarrow> lowestPropagatedBoundSection c = Some (sec_name (objs c i))"

text \<open>The loop over the window sections; a window section cannot stop the others.\<close>

fun window_loop :: "(call \<Rightarrow> bool) \<Rightarrow> kind \<Rightarrow> rat point option \<Rightarrow> argument \<Rightarrow> nat list \<Rightarrow> 'a pointer_scheme \<Rightarrow> bool \<Rightarrow> 'a pointer_scheme \<times> bool" where
  "window_loop h k pos arg [] c go = (c, go)"
| "window_loop h k pos arg (w # ws) c go =
     (let c1 = deliver h k pos arg w c in window_loop h k pos arg ws c1 (if stopped_at w c1 then False else go))"

text \<open>The loop down a list of bound sections.\<close>

fun bounds_loop :: "(call \<Rightarrow> bool) \<Rightarrow> kind \<Rightarrow> rat point option \<Rightarrow> argument \<Rightarrow> nat list \<Rightarrow> 'a pointer_scheme \<Rightarrow> 'a pointer_scheme" where
  "bounds_loop h k pos arg [] c = c"
| "bounds_loop h k pos arg (i # is) c =
     (let c1 = deliver h k pos arg i c in if stopped_at i c1 then c1 else bounds_loop h k pos arg is c1)"

definition aim :: "kind \<Rightarrow> nat \<Rightarrow> 'a pointer_scheme \<Rightarrow> 'a pointer_scheme" where
  [input_defs]: "aim k i c = c\<lparr>targetSection := Some (sec_name (objs c i)), calls := calls c @ [Target k (sec_name (objs c i))]\<rparr>"

definition window_position :: "'a container_scheme \<Rightarrow> nat \<Rightarrow> rat point option \<Rightarrow> rat point option" where
  [input_defs]: "window_position c i pos = map_option (\<lambda>p. point_add p (topLeft (objs c i))) pos"

text \<open>The common shape: the window sections, then, unless one of them stops it, the bound sections from the top.\<close>

definition propagate :: "(call \<Rightarrow> bool) \<Rightarrow> kind \<Rightarrow> nat \<Rightarrow> rat point option \<Rightarrow> argument \<Rightarrow> 'a pointer_scheme \<Rightarrow> 'a pointer_scheme" where
  [input_defs]: "propagate h k i pos arg c0 =
     (let c = aim k i c0;
          (c1, go) = window_loop h k (window_position c i pos) arg (windowSectionList c) c True
      in if go then bounds_loop h k pos arg (rev (boundsList (objs c1 i))) c1 else c1)"

definition propagateOnClick :: "(call \<Rightarrow> bool) \<Rightarrow> nat \<Rightarrow> rat point option \<Rightarrow> 'a pointer_scheme \<Rightarrow> 'a pointer_scheme" where
  [input_defs]: "propagateOnClick h i pos = propagate h OnClick i pos NoArgument"

definition propagateOnDoubleClick :: "(call \<Rightarrow> bool) \<Rightarrow> nat \<Rightarrow> rat point option \<Rightarrow> 'a pointer_scheme \<Rightarrow> 'a pointer_scheme" where
  [input_defs]: "propagateOnDoubleClick h i pos = propagate h OnDoubleClick i pos NoArgument"

text \<open>The mouse leaves the window sections only when it leaves the canvas, and that cannot be stopped.\<close>

definition propagateOnMouseLeave :: "(call \<Rightarrow> bool) \<Rightarrow> nat \<Rightarrow> rat point option \<Rightarrow> 'a pointer_scheme \<Rightarrow> 'a pointer_scheme" where
  [input_defs]: "propagateOnMouseLeave h i pos c0 =
     (let c = aim OnMouseLeave i c0;
          c1 = (if window_position c i pos = None
                then fold (deliver h OnMouseLeave None NoArgument) (windowSectionList c) c else c)
      in bounds_loop h OnMouseLeave pos NoArgument (rev (boundsList (objs c1 i))) c1)"

definition propagateOnMouseEnter :: "(call \<Rightarrow> bool) \<Rightarrow> nat \<Rightarrow> rat point option \<Rightarrow> 'a pointer_scheme \<Rightarrow> 'a pointer_scheme" where
  [input_defs]: "propagateOnMouseEnter h i pos c0 =
     (let c = aim OnMouseEnter i c0 in bounds_loop h OnMouseEnter pos NoArgument (rev (boundsList (objs c i))) c)"

definition propagateOnMouseMove :: "(call \<Rightarrow> bool) \<Rightarrow> nat \<Rightarrow> rat point option \<Rightarrow> int point option \<Rightarrow> 'a pointer_scheme \<Rightarrow> 'a pointer_scheme" where
  [input_defs]: "propagateOnMouseMove h i pos drag = propagate h OnMouseMove i pos (Drag drag)"

definition propagateOnLongPress :: "(call \<Rightarrow> bool) \<Rightarrow> nat \<Rightarrow> rat point option \<Rightarrow> 'a pointer_scheme \<Rightarrow> 'a pointer_scheme" where
  [input_defs]: "propagateOnLongPress h i pos = propagate h OnLongPress i pos NoArgument"

definition propagateOnMouseDown :: "(call \<Rightarrow> bool) \<Rightarrow> nat \<Rightarrow> rat point option \<Rightarrow> 'a pointer_scheme \<Rightarrow> 'a pointer_scheme" where
  [input_defs]: "propagateOnMouseDown h i pos = propagate h OnMouseDown i pos NoArgument"

definition propagateOnMouseUp :: "(call \<Rightarrow> bool) \<Rightarrow> nat \<Rightarrow> rat point option \<Rightarrow> 'a pointer_scheme \<Rightarrow> 'a pointer_scheme" where
  [input_defs]: "propagateOnMouseUp h i pos = propagate h OnMouseUp i pos NoArgument"

definition propagateOnContextMenu :: "(call \<Rightarrow> bool) \<Rightarrow> nat \<Rightarrow> 'a pointer_scheme \<Rightarrow> 'a pointer_scheme" where
  [input_defs]: "propagateOnContextMenu h i = propagate h OnContextMenu i None NoArgument"

definition propagateOnMouseWheel :: "(call \<Rightarrow> bool) \<Rightarrow> nat \<Rightarrow> rat point option \<Rightarrow> rat \<times> rat \<Rightarrow> 'a pointer_scheme \<Rightarrow> 'a pointer_scheme" where
  [input_defs]: "propagateOnMouseWheel h i pos delta = propagate h OnMouseWheel i pos (Delta (fst delta) (snd delta))"

definition propagateOnMultiTouchStart :: "(call \<Rightarrow> bool) \<Rightarrow> nat \<Rightarrow> 'a pointer_scheme \<Rightarrow> 'a pointer_scheme" where
  [input_defs]: "propagateOnMultiTouchStart h i = propagate h OnMultiTouchStart i None NoArgument"

definition propagateOnMultiTouchMove :: "(call \<Rightarrow> bool) \<Rightarrow> nat \<Rightarrow> rat point option \<Rightarrow> rat \<Rightarrow> 'a pointer_scheme \<Rightarrow> 'a pointer_scheme" where
  [input_defs]: "propagateOnMultiTouchMove h i pos distance = propagate h OnMultiTouchMove i pos (Distance distance)"

definition propagateOnMultiTouchEnd :: "(call \<Rightarrow> bool) \<Rightarrow> nat \<Rightarrow> 'a pointer_scheme \<Rightarrow> 'a pointer_scheme" where
  [input_defs]: "propagateOnMultiTouchEnd h i = propagate h OnMultiTouchEnd i None NoArgument"

text \<open>Events of the document have no target: they go to every section.\<close>

definition propagate_all :: "(call \<Rightarrow> bool) \<Rightarrow> kind \<Rightarrow> 'a pointer_scheme \<Rightarrow> 'a pointer_scheme" where
  [input_defs]: "propagate_all h k c =
     (let (c1, go) = window_loop h k None NoArgument (windowSectionList c) c True
      in if go then fold (deliver h k None NoArgument) (rev (sections c1)) c1 else c1)"

definition propagateCursorPositionChanged :: "(call \<Rightarrow> bool) \<Rightarrow> 'a pointer_scheme \<Rightarrow> 'a pointer_scheme" where
  [input_defs]: "propagateCursorPositionChanged h = propagate_all h OnCursorPositionChanged"

definition propagateCellAddressChanged :: "(call \<Rightarrow> bool) \<Rightarrow> 'a pointer_scheme \<Rightarrow> 'a pointer_scheme" where
  [input_defs]: "propagateCellAddressChanged h = propagate_all h OnCellAddressChanged"

section \<open>Handlers\<close>

text \<open>A section that an event at a point is aimed at, and what is done with it.\<close>

definition aim_at :: "nat option \<Rightarrow> int point \<Rightarrow> (nat \<Rightarrow> rat point option \<Rightarrow> 'a pointer_scheme \<Rightarrow> 'a pointer_scheme) \<Rightarrow>
  'a pointer_scheme \<Rightarrow> 'a pointer_scheme option" where
  [input_defs]: "aim_at i p f c =
     (case i of
        None \<Rightarrow> Some c
      | Some j \<Rightarrow> do { q \<leftarrow> convertPositionToSectionLocale c j p; Some (f j (Some q) c) })"

definition onCursorPositionChanged :: "(call \<Rightarrow> bool) \<Rightarrow> bool \<Rightarrow> 'a pointer_scheme \<Rightarrow> 'a pointer_scheme" where
  [input_defs]: "onCursorPositionChanged h isText c = (if isText then propagateCursorPositionChanged h c else c)"

definition onCellAddressChanged :: "(call \<Rightarrow> bool) \<Rightarrow> bool \<Rightarrow> 'a pointer_scheme \<Rightarrow> 'a pointer_scheme" where
  [input_defs]: "onCellAddressChanged h isSpreadsheet c = (if isSpreadsheet then propagateCellAddressChanged h c else c)"

definition onClick :: "(call \<Rightarrow> bool) \<Rightarrow> native_event \<Rightarrow> 'a pointer_scheme \<Rightarrow> 'a pointer_scheme option" where
  [input_defs]: "onClick h e c =
     (if \<not> draggingSomething c
      then do { c1 \<leftarrow> (case (positionOnMouseDown c, positionOnMouseUp c) of
                        (Some down, Some up) \<Rightarrow>
                          (let p = convertPositionToCanvasLocale c e;
                               c1 = c\<lparr>positionOnClick := Some p\<rparr>;
                               s1 = findSectionContainingPoint c1 down; s2 = findSectionContainingPoint c1 up
                           in if s1 \<noteq> None \<and> s2 \<noteq> None \<and> s1 = s2
                              then aim_at (findSectionContainingPoint c1 p) p (propagateOnClick h) c1
                              else Some c1)
                      | _ \<Rightarrow> Some c);
                Some (drawSections None (clearMousePositions c1)) }
      else Some (clearMousePositions c))"

definition onDoubleClick :: "(call \<Rightarrow> bool) \<Rightarrow> native_event \<Rightarrow> 'a pointer_scheme \<Rightarrow> 'a pointer_scheme option" where
  [input_defs]: "onDoubleClick h e c =
     (let p = convertPositionToCanvasLocale c e; c1 = c\<lparr>positionOnDoubleClick := Some p\<rparr>
      in do { c2 \<leftarrow> aim_at (findSectionContainingPoint c1 p) p (propagateOnDoubleClick h) c1;
              Some (drawSections None (clearMousePositions c2)) })"

definition startLongPress :: "'a pointer_scheme \<Rightarrow> 'a pointer_scheme" where
  [input_defs]: "startLongPress c = c\<lparr>longPress := True\<rparr>"

definition stopLongPress :: "'a pointer_scheme \<Rightarrow> 'a pointer_scheme" where
  [input_defs]: "stopLongPress c = c\<lparr>longPress := False\<rparr>"

definition between :: "int point \<Rightarrow> int point \<Rightarrow> int point" where
  [input_defs]: "between p q = Pt (px p - px q) (py p - py q)"

text \<open>Whether a move of the mouse begins to drag.\<close>

definition check_drag :: "int point \<Rightarrow> 'a pointer_scheme \<Rightarrow> 'a pointer_scheme" where
  [input_defs]: "check_drag p c =
     (case positionOnMouseDown c of
        Some down \<Rightarrow>
          if \<not> draggingSomething c \<and> (\<bar>px p - px down\<bar> \<ge> draggingTolerance \<or> \<bar>py p - py down\<bar> \<ge> draggingTolerance)
          then c\<lparr>draggingSomething := True\<rparr> else c
      | None \<Rightarrow> c)"

text \<open>The section that the mouse leaves.\<close>

definition leave_section :: "(call \<Rightarrow> bool) \<Rightarrow> int point \<Rightarrow> 'a pointer_scheme \<Rightarrow> 'a pointer_scheme option" where
  [input_defs]: "leave_section h p c =
     (if sectionUnderMouse c = None then Some c
      else aim_at (getSectionWithName c (sectionUnderMouse c)) p (propagateOnMouseLeave h) c)"

definition move_over :: "(call \<Rightarrow> bool) \<Rightarrow> int point \<Rightarrow> nat option \<Rightarrow> 'a pointer_scheme \<Rightarrow> 'a pointer_scheme option" where
  [input_defs]: "move_over h p target c =
     (case target of
        Some i \<Rightarrow>
          do { c1 \<leftarrow> (if sectionUnderMouse c \<noteq> Some (sec_name (objs c i))
                      then do { d \<leftarrow> leave_section h p c;
                                aim_at (Some i) p (propagateOnMouseEnter h) (d\<lparr>sectionUnderMouse := Some (sec_name (objs d i))\<rparr>) }
                      else Some c);
               aim_at (Some i) p (\<lambda>i pos d. propagateOnMouseMove h i pos (dragDistance d) d) c1 }
      | None \<Rightarrow>
          if sectionUnderMouse c \<noteq> None then do { d \<leftarrow> leave_section h p c; Some (d\<lparr>sectionUnderMouse := None\<rparr>) } else Some c)"

definition onMouseMove :: "(call \<Rightarrow> bool) \<Rightarrow> native_event \<Rightarrow> 'a pointer_scheme \<Rightarrow> 'a pointer_scheme option" where
  [input_defs]: "onMouseMove h e c =
     (if \<not> mouseIsInside c \<and> \<not> draggingSomething c then Some c
      else if \<not> longPress c
      then (if touchEventInProgress c then Some c
            else (let p = convertPositionToCanvasLocale c e;
                      c1 = check_drag p (c\<lparr>mousePosition := Some p\<rparr>)
                  in if draggingSomething c1
                     then do { down \<leftarrow> positionOnMouseDown c1;
                               move_over h p (getSectionWithName c1 (sectionOnMouseDown c1)) (c1\<lparr>dragDistance := Some (between p down)\<rparr>) }
                     else move_over h p (findSectionContainingPoint c1 p) c1))
      else (let p = convertPositionToCanvasLocale c e; c1 = c\<lparr>mousePosition := Some p\<rparr>
            in (case findSectionContainingPoint c1 p of
                  None \<Rightarrow> Some c1
                | Some i \<Rightarrow> Some (propagateOnContextMenu h i (stopLongPress c1)))))"

definition onMouseDown :: "(call \<Rightarrow> bool) \<Rightarrow> native_event \<Rightarrow> 'a pointer_scheme \<Rightarrow> 'a pointer_scheme option" where
  [input_defs]: "onMouseDown h e c =
     (if button e = 0 \<and> \<not> touchEventInProgress c
      then (let p = convertPositionToCanvasLocale c e;
                c1 = (clearMousePositions c)\<lparr>positionOnMouseDown := Some p\<rparr>
            in (case findSectionContainingPoint c1 p of
                  None \<Rightarrow> Some c1
                | Some i \<Rightarrow> aim_at (Some i) p (propagateOnMouseDown h) (c1\<lparr>sectionOnMouseDown := Some (sec_name (objs c1 i))\<rparr>)))
      else Some c)"

text \<open>The section that is told that the button or the finger is up.\<close>

definition mouse_up :: "(call \<Rightarrow> bool) \<Rightarrow> native_event \<Rightarrow> 'a pointer_scheme \<Rightarrow> 'a pointer_scheme option" where
  [input_defs]: "mouse_up h e c =
     (let p = convertPositionToCanvasLocale c e; c1 = c\<lparr>positionOnMouseUp := Some p\<rparr>
      in aim_at (if \<not> draggingSomething c1 then findSectionContainingPoint c1 p else getSectionWithName c1 (sectionOnMouseDown c1))
           p (propagateOnMouseUp h) c1)"

definition onMouseUp :: "(call \<Rightarrow> bool) \<Rightarrow> native_event \<Rightarrow> 'a pointer_scheme \<Rightarrow> 'a pointer_scheme option" where
  [input_defs]: "onMouseUp h e c =
     (if positionOnMouseDown c = None then Some (clearMousePositions c)
      else do { c1 \<leftarrow> (if button e = 0 \<and> \<not> touchEventInProgress c then mouse_up h e c else Some c);
                Some (if \<not> mouseIsInside c1 then clearMousePositions c1 else c1) })"

definition onContextMenu :: "(call \<Rightarrow> bool) \<Rightarrow> native_event \<Rightarrow> 'a pointer_scheme \<Rightarrow> 'a pointer_scheme" where
  [input_defs]: "onContextMenu h e c =
     (case findSectionContainingPoint c (convertPositionToCanvasLocale c e) of
        None \<Rightarrow> c | Some i \<Rightarrow> propagateOnContextMenu h i c)"

definition onMouseWheel :: "(call \<Rightarrow> bool) \<Rightarrow> native_event \<Rightarrow> 'a pointer_scheme \<Rightarrow> 'a pointer_scheme option" where
  [input_defs]: "onMouseWheel h e c =
     (let p = convertPositionToCanvasLocale c e;
          delta = (if deltaMode e = 1 then (deltaX e * scrollLineHeight c, deltaY e * scrollLineHeight c) else (deltaX e, deltaY e))
      in aim_at (findSectionContainingPoint c p) p (\<lambda>i pos. propagateOnMouseWheel h i pos delta) c)"

definition onMouseLeave :: "(call \<Rightarrow> bool) \<Rightarrow> 'a pointer_scheme \<Rightarrow> 'a pointer_scheme" where
  [input_defs]: "onMouseLeave h c =
     (let c1 = (if draggingSomething c then c
                else (let d = (case sectionUnderMouse c of
                                 None \<Rightarrow> c
                               | Some n \<Rightarrow> (case getSectionWithName c (Some n) of
                                              None \<Rightarrow> c | Some i \<Rightarrow> propagateOnMouseLeave h i None c)\<lparr>sectionUnderMouse := None\<rparr>)
                      in (clearMousePositions d)\<lparr>mousePosition := None\<rparr>))
      in c1\<lparr>mouseIsInside := False\<rparr>)"

definition onMouseEnter :: "(call \<Rightarrow> bool) \<Rightarrow> 'a pointer_scheme \<Rightarrow> 'a pointer_scheme" where
  [input_defs]: "onMouseEnter h c =
     fold (deliver h OnMouseEnter None NoArgument) (windowSectionList c) (c\<lparr>mouseIsInside := True\<rparr>)"

definition onTouchStart :: "(call \<Rightarrow> bool) \<Rightarrow> native_event \<Rightarrow> 'a pointer_scheme \<Rightarrow> 'a pointer_scheme option" where
  [input_defs]: "onTouchStart h e c =
     (if length (touches e) = 1
      then (let p = convertPositionToCanvasLocale c e;
                c1 = (startLongPress (clearMousePositions c))\<lparr>positionOnMouseDown := Some p\<rparr>
            in (case findSectionContainingPoint c1 p of
                  None \<Rightarrow> Some c1
                | Some i \<Rightarrow> aim_at (Some i) p (propagateOnMouseDown h) (c1\<lparr>sectionOnMouseDown := Some (sec_name (objs c1 i))\<rparr>)))
      else if \<not> multiTouch c
      then (let c1 = (stopLongPress c)\<lparr>multiTouch := True\<rparr>
            in (case getSectionWithName c1 (sectionOnMouseDown c1) of
                  None \<Rightarrow> Some c1 | Some i \<Rightarrow> Some (propagateOnMultiTouchStart h i c1)))
      else Some c)"

definition onTouchMove :: "(call \<Rightarrow> bool) \<Rightarrow> native_event \<Rightarrow> 'a pointer_scheme \<Rightarrow> 'a pointer_scheme option" where
  [input_defs]: "onTouchMove h e c0 =
     (case positionOnMouseDown c0 of
        None \<Rightarrow> Some c0
      | Some down \<Rightarrow>
          (let c = stopLongPress c0
           in if \<not> multiTouch c
              then (let p = convertPositionToCanvasLocale c e;
                        c1 = c\<lparr>mousePosition := Some p, draggingSomething := True, dragDistance := Some (between p down)\<rparr>
                    in aim_at (getSectionWithName c1 (sectionOnMouseDown c1)) p
                         (\<lambda>i pos d. propagateOnMouseMove h i pos (dragDistance d) d) c1)
              else if length (touches e) = 2
              then (case getSectionWithName c (sectionOnMouseDown c) of
                      None \<Rightarrow> Some c
                    | Some i \<Rightarrow>
                        (let a = touches e ! 0; b = touches e ! 1;
                             diffX = \<bar>px a - px b\<bar>; diffY = \<bar>py a - py b\<bar>;
                             center = (case touchCenter c of
                                         Some q \<Rightarrow> q
                                       | None \<Rightarrow> convertPointToCanvasLocale c (Pt ((px a + px b) / 2) ((py a + py b) / 2)));
                             c1 = c\<lparr>touchCenter := Some center\<rparr>;
                             distance = diffX * diffX + diffY * diffY
                         in aim_at (Some i) center (\<lambda>i pos. propagateOnMultiTouchMove h i pos distance) c1))
              else Some c))"

definition onTouchEnd :: "(call \<Rightarrow> bool) \<Rightarrow> native_event \<Rightarrow> 'a pointer_scheme \<Rightarrow> 'a pointer_scheme option" where
  [input_defs]: "onTouchEnd h e c0 =
     (let c = stopLongPress c0
      in do { c1 \<leftarrow> (if \<not> multiTouch c then mouse_up h e c
                     else if touches e = []
                     then (let c1 = c\<lparr>multiTouch := False\<rparr>
                           in (case getSectionWithName c1 (sectionOnMouseDown c1) of
                                 None \<Rightarrow> Some c1 | Some i \<Rightarrow> Some (propagateOnMultiTouchEnd h i c1)))
                     else Some c);
              Some (c1\<lparr>touchEventInProgress := True\<rparr>) })"

definition onTouchCancel :: "'a pointer_scheme \<Rightarrow> 'a pointer_scheme" where
  [input_defs]: "onTouchCancel c = stopLongPress (clearMousePositions c)"

text \<open>
  \<open>onResize\<close>: the new size, \<open>None\<close> when it is not given and that of the parent element \<open>parentWidth\<close>, \<open>parentHeight\<close>
  counts; \<open>ratio\<close> is \<open>window.devicePixelRatio\<close>.
\<close>

definition onResize :: "rat \<Rightarrow> rat \<Rightarrow> rat \<Rightarrow> rat option \<Rightarrow> rat option \<Rightarrow> 'a pointer_scheme \<Rightarrow> 'a pointer_scheme option" where
  [input_defs]: "onResize parentWidth parentHeight ratio newWidth newHeight c =
     (let w = (case newWidth of Some w \<Rightarrow> if w = 0 then parentWidth else w | None \<Rightarrow> parentWidth);
          h = (case newHeight of Some h \<Rightarrow> if h = 0 then parentHeight else h | None \<Rightarrow> parentHeight);
          width = \<lfloor>w * ratio\<rfloor>; height = \<lfloor>h * ratio\<rfloor>;
          c1 = clearMousePositions (c\<lparr>dpiScale := ratio, roundedDpiScale := js_round ratio, canvasWidth := width, canvasHeight := height\<rparr>)
      in reNewAllSections True (c1\<lparr>right := width, bottom := height\<rparr>))"

section \<open>The listeners\<close>

text \<open>The events that the constructor registers the handlers for, and the timer of a long press.\<close>

datatype input = MouseMove native_event | MouseDown native_event | MouseUp native_event | ClickEvent native_event
  | DoubleClickEvent native_event | ContextMenuEvent native_event | Wheel native_event | LeaveCanvas | EnterCanvas
  | TouchStart native_event | TouchMove native_event | TouchEnd native_event | TouchCancel | LongPressTimer native_event
  | CursorChanged bool | CellChanged bool

fun dispatch :: "(call \<Rightarrow> bool) \<Rightarrow> input \<Rightarrow> 'a pointer_scheme \<Rightarrow> 'a pointer_scheme option" where
  "dispatch h (MouseMove e) c = onMouseMove h e c"
| "dispatch h (MouseDown e) c = onMouseDown h e c"
| "dispatch h (MouseUp e) c = onMouseUp h e c"
| "dispatch h (ClickEvent e) c = onClick h e c"
| "dispatch h (DoubleClickEvent e) c = onDoubleClick h e c"
| "dispatch h (ContextMenuEvent e) c = Some (onContextMenu h e c)"
| "dispatch h (Wheel e) c = onMouseWheel h e c"
| "dispatch h LeaveCanvas c = Some (onMouseLeave h c)"
| "dispatch h EnterCanvas c = Some (onMouseEnter h c)"
| "dispatch h (TouchStart e) c = onTouchStart h e c"
| "dispatch h (TouchMove e) c = onTouchMove h e c"
| "dispatch h (TouchEnd e) c = onTouchEnd h e c"
| "dispatch h TouchCancel c = Some (onTouchCancel c)"
| "dispatch h (LongPressTimer e) c = onMouseMove h e c"
| "dispatch h (CursorChanged isText) c = Some (onCursorPositionChanged h isText c)"
| "dispatch h (CellChanged isSpreadsheet) c = Some (onCellAddressChanged h isSpreadsheet c)"

fun run_inputs :: "(call \<Rightarrow> bool) \<Rightarrow> input list \<Rightarrow> 'a pointer_scheme \<Rightarrow> 'a pointer_scheme option" where
  "run_inputs h [] c = Some c"
| "run_inputs h (x # xs) c = do { c' \<leftarrow> dispatch h x c; run_inputs h xs c' }"

end
