(* ===== verification/Section_Pointer.thy ===== *)
theory Section_Pointer
  imports Section_Events
begin

text \<open>
  What the handling of events guarantees: events reach the bound sections from the top until one stops them, no handler
  throws whatever events come in whatever order, and the sections are told in pairs that the mouse enters and leaves.
\<close>

section \<open>What propagation changes\<close>

fun targets :: "call list \<Rightarrow> (kind \<times> string) list" where
  "targets [] = []"
| "targets (Target k n # cs) = (k, n) # targets cs"
| "targets (Call k n p a # cs) = targets cs"

lemma targets_append [simp]: "targets (xs @ ys) = targets xs @ targets ys"
  by (induction xs rule: targets.induct) auto

text \<open>Only the record of calls, the target and who has stopped the event.\<close>

definition heard :: "'a pointer_scheme \<Rightarrow> 'a pointer_scheme \<Rightarrow> bool" where
  "heard c c' \<longleftrightarrow> c' = c\<lparr>calls := calls c', lowestPropagatedBoundSection := lowestPropagatedBoundSection c', targetSection := targetSection c'\<rparr>"

lemma heard_refl [simp]: "heard c c"
  by (simp add: heard_def)

lemma heard_updates [simp]:
  "heard c (c\<lparr>calls := x\<rparr>)" "heard c (c\<lparr>calls := x, lowestPropagatedBoundSection := y\<rparr>)" "heard c (c\<lparr>targetSection := z, calls := x\<rparr>)"
  by (simp_all add: heard_def)

lemma heard_trans:
  assumes "heard a b" "heard b c"
  shows "heard a c"
proof -
  have "c = b\<lparr>calls := calls c, lowestPropagatedBoundSection := lowestPropagatedBoundSection c, targetSection := targetSection c\<rparr>"
    using assms(2) unfolding heard_def .
  also have "\<dots> = a\<lparr>calls := calls c, lowestPropagatedBoundSection := lowestPropagatedBoundSection c, targetSection := targetSection c\<rparr>"
    by (subst assms(1) [unfolded heard_def]) simp
  finally show ?thesis unfolding heard_def .
qed

lemma heard_fields:
  assumes "heard c c'"
  shows "objs c' = objs c" "sections c' = sections c" "windowSectionList c' = windowSectionList c"
    "draggingSomething c' = draggingSomething c" "positionOnMouseDown c' = positionOnMouseDown c"
    "positionOnMouseUp c' = positionOnMouseUp c" "sectionOnMouseDown c' = sectionOnMouseDown c"
    "sectionUnderMouse c' = sectionUnderMouse c" "mouseIsInside c' = mouseIsInside c" "longPress c' = longPress c"
    "touchEventInProgress c' = touchEventInProgress c" "multiTouch c' = multiTouch c" "dragDistance c' = dragDistance c"
  by (subst assms [unfolded heard_def], simp)+

lemma deliver_heard [simp]: "heard c (deliver h k pos arg i c)" "targets (calls (deliver h k pos arg i c)) = targets (calls c)"
  by (simp_all add: deliver_def Let_def)

lemma fold_deliver_heard [simp]:
  "heard c (fold (deliver h k pos arg) is c)" "targets (calls (fold (deliver h k pos arg) is c)) = targets (calls c)"
  by (induction "is" arbitrary: c) (auto intro: heard_trans [OF deliver_heard(1)])

lemma window_loop_heard:
  "window_loop h k pos arg ws c go = (c', go') \<Longrightarrow> heard c c' \<and> targets (calls c') = targets (calls c)"
proof (induction ws arbitrary: c go)
  case (Cons w ws)
  let ?d = "deliver h k pos arg w c"
  have "heard ?d c' \<and> targets (calls c') = targets (calls ?d)"
    by (rule Cons.IH) (use Cons.prems in \<open>simp add: Let_def\<close>)
  then show ?case using heard_trans [OF deliver_heard(1)] by auto
qed simp

lemma bounds_loop_heard [simp]:
  "heard c (bounds_loop h k pos arg is c)" "targets (calls (bounds_loop h k pos arg is c)) = targets (calls c)"
  by (induction "is" arbitrary: c) (auto simp: Let_def intro: heard_trans [OF deliver_heard(1)])

lemma aim_heard [simp]: "heard c (aim k i c)" "targets (calls (aim k i c)) = targets (calls c) @ [(k, sec_name (objs c i))]"
  by (simp_all add: aim_def)

lemma heard_after:
  "heard c d \<Longrightarrow> heard c (bounds_loop h k pos arg is d)" "heard c d \<Longrightarrow> heard c (fold (deliver h k pos arg) is d)"
  by (auto intro: heard_trans)

lemma propagate_heard [simp]:
  "heard c (propagate h k i pos arg c)" "targets (calls (propagate h k i pos arg c)) = targets (calls c) @ [(k, sec_name (objs c i))]"
proof -
  let ?c = "aim k i c"
  obtain c1 go where w: "window_loop h k (window_position ?c i pos) arg (windowSectionList ?c) ?c True = (c1, go)" by fastforce
  have "heard c c1" "targets (calls c1) = targets (calls c) @ [(k, sec_name (objs c i))]"
    using window_loop_heard [OF w] heard_trans [OF aim_heard(1)] by auto
  then show "heard c (propagate h k i pos arg c)"
    "targets (calls (propagate h k i pos arg c)) = targets (calls c) @ [(k, sec_name (objs c i))]"
    using w by (auto simp: propagate_def Let_def intro: heard_trans)
qed

lemma enter_leave_heard [simp]:
  "heard c (propagateOnMouseEnter h i pos c)" "targets (calls (propagateOnMouseEnter h i pos c)) = targets (calls c) @ [(OnMouseEnter, sec_name (objs c i))]"
  "heard c (propagateOnMouseLeave h i pos c)" "targets (calls (propagateOnMouseLeave h i pos c)) = targets (calls c) @ [(OnMouseLeave, sec_name (objs c i))]"
  by (auto simp: propagateOnMouseEnter_def propagateOnMouseLeave_def Let_def heard_after)

lemma propagate_all_heard: "heard c (propagate_all h k c) \<and> targets (calls (propagate_all h k c)) = targets (calls c)"
proof -
  obtain c1 go where w: "window_loop h k None NoArgument (windowSectionList c) c True = (c1, go)" by fastforce
  then show ?thesis using window_loop_heard [OF w] by (auto simp: propagate_all_def intro: heard_trans)
qed

section \<open>The invariant\<close>

text \<open>Names are what \<open>checkNewSectionName\<close> lets through and a located section has a place.\<close>

definition layout_ok :: "'a container_scheme \<Rightarrow> bool" where
  "layout_ok c \<longleftrightarrow> inj_on (\<lambda>i. sec_name (objs c i)) (set (sections c)) \<and>
     (\<forall>i \<in> set (sections c). sec_name (objs c i) \<noteq> [] \<and> (isLocated (objs c i) \<longrightarrow> myTopLeft (objs c i) \<noteq> None))"

text \<open>A section that is remembered by its name can be found and has a place.\<close>

definition known :: "'a container_scheme \<Rightarrow> string option \<Rightarrow> bool" where
  "known c n \<longleftrightarrow> (n \<noteq> None \<longrightarrow> (\<exists>i. getSectionWithName c n = Some i \<and> myTopLeft (objs c i) \<noteq> None))"

text \<open>The section the mouse is over, from the events sent; \<open>None\<close> when they do not come in pairs.\<close>

fun hover :: "string option \<Rightarrow> (kind \<times> string) list \<Rightarrow> string option option" where
  "hover u [] = Some u"
| "hover u ((k, n) # ts) =
     (if k = OnMouseEnter then (if u = None then hover (Some n) ts else None)
      else if k = OnMouseLeave then (if u = Some n then hover None ts else None)
      else hover u ts)"

lemma hover_append: "hover u (xs @ ys) = Option.bind (hover u xs) (\<lambda>v. hover v ys)"
  by (induction u xs rule: hover.induct) auto

definition pointer_ok :: "'a pointer_scheme \<Rightarrow> bool" where
  "pointer_ok c \<longleftrightarrow> (draggingSomething c \<longrightarrow> positionOnMouseDown c \<noteq> None) \<and> known c (sectionOnMouseDown c) \<and>
     known c (sectionUnderMouse c) \<and> hover None (targets (calls c)) = Some (sectionUnderMouse c) \<and> layout_ok c"

lemma same_layout:
  assumes "objs c' = objs c" "sections c' = sections c"
  shows "getSectionWithName c' = getSectionWithName c" "findSectionContainingPoint c' = findSectionContainingPoint c"
    "known c' = known c" "layout_ok c' = layout_ok c"
proof -
  show n: "getSectionWithName c' = getSectionWithName c"
    by (rule ext) (simp add: getSectionWithName_def assms split: option.split)
  show "findSectionContainingPoint c' = findSectionContainingPoint c"
    by (rule ext) (simp add: findSectionContainingPoint_def assms)
  show "known c' = known c" by (rule ext) (simp add: known_def assms n)
  show "layout_ok c' = layout_ok c" by (simp add: layout_ok_def assms)
qed

lemma found_known:
  assumes "layout_ok c" "findSectionContainingPoint c p = Some i"
  shows "myTopLeft (objs c i) \<noteq> None" "known c (Some (sec_name (objs c i)))"
proof -
  have i: "i \<in> set (sections c)" "isLocated (objs c i)"
    by (rule findSection_split [OF assms(2)], simp add: hit_def shouldDrawSection_def)+
  then show p: "myTopLeft (objs c i) \<noteq> None" using assms(1) by (auto simp: layout_ok_def)
  have "sec_name (objs c i) \<noteq> []" using i assms(1) by (simp add: layout_ok_def)
  then obtain j where j: "getSectionWithName c (Some (sec_name (objs c i))) = Some j"
    using i(1) by (cases "getSectionWithName c (Some (sec_name (objs c i)))") (auto simp: getSectionWithName_def find_None_iff)
  then have "j = i" using getSection_member [OF j] assms(1) i(1) by (auto simp: layout_ok_def dest: inj_onD)
  then show "known c (Some (sec_name (objs c i)))" using j p by (simp add: known_def)
qed

text \<open>Events other than entering and leaving keep the invariant.\<close>

lemma pointer_ok_heard:
  assumes "heard c c'" "targets (calls c') = targets (calls c) @ ts" "\<forall>(k, n) \<in> set ts. k \<noteq> OnMouseEnter \<and> k \<noteq> OnMouseLeave" "pointer_ok c"
  shows "pointer_ok c'"
proof -
  have "hover u ts = Some u" for u using assms(3) by (induction u ts rule: hover.induct) auto
  then show ?thesis
    using assms(2,4) heard_fields [OF assms(1)] same_layout [OF heard_fields(1,2) [OF assms(1)]]
    by (simp add: pointer_ok_def hover_append)
qed

lemma pointer_ok_propagate: "k \<noteq> OnMouseEnter \<Longrightarrow> k \<noteq> OnMouseLeave \<Longrightarrow> pointer_ok c \<Longrightarrow> pointer_ok (propagate h k i pos arg c)"
  by (rule pointer_ok_heard [OF propagate_heard(1,2)]) auto

lemma pointer_ok_all: "pointer_ok c \<Longrightarrow> pointer_ok (propagate_all h k c)"
  using pointer_ok_heard [of c "propagate_all h k c" "[]"] propagate_all_heard [of c h k] by simp

section \<open>No handler throws\<close>

definition keeps :: "('a pointer_scheme \<Rightarrow> 'a pointer_scheme) \<Rightarrow> bool" where
  "keeps f \<longleftrightarrow> (\<forall>c. pointer_ok c \<longrightarrow> pointer_ok (f c))"

abbreviation succeeds :: "'a pointer_scheme option \<Rightarrow> bool" where
  "succeeds r \<equiv> \<exists>c'. r = Some c' \<and> pointer_ok c'"

definition placed_target :: "'a container_scheme \<Rightarrow> nat option \<Rightarrow> bool" where
  "placed_target c i \<longleftrightarrow> (\<forall>j. i = Some j \<longrightarrow> myTopLeft (objs c j) \<noteq> None)"

lemma aim_at_succeeds:
  assumes "pointer_ok c" "placed_target c i" "\<And>j pos. keeps (f j pos)"
  shows "succeeds (aim_at i p f c)"
  using assms by (cases i) (auto simp: aim_at_def convertPositionToSectionLocale_def placed_target_def keeps_def)

lemma keeps_propagate:
  "keeps (propagateOnClick h i pos)" "keeps (propagateOnDoubleClick h i pos)" "keeps (propagateOnMouseMove h i pos d)"
  "keeps (propagateOnLongPress h i pos)" "keeps (propagateOnMouseDown h i pos)" "keeps (propagateOnMouseUp h i pos)"
  "keeps (propagateOnContextMenu h i)" "keeps (propagateOnMouseWheel h i pos w)" "keeps (propagateOnMultiTouchStart h i)"
  "keeps (propagateOnMultiTouchMove h i pos r)" "keeps (propagateOnMultiTouchEnd h i)"
  "keeps (\<lambda>c. propagateOnMouseMove h i pos (dragDistance c) c)"
  by (simp_all add: keeps_def pointer_ok_propagate propagateOnClick_def propagateOnDoubleClick_def propagateOnMouseMove_def
      propagateOnLongPress_def propagateOnMouseDown_def propagateOnMouseUp_def propagateOnContextMenu_def
      propagateOnMouseWheel_def propagateOnMultiTouchStart_def propagateOnMultiTouchMove_def propagateOnMultiTouchEnd_def)

lemma placed_found: "layout_ok c \<Longrightarrow> placed_target c (findSectionContainingPoint c p)"
  using found_known(1) by (auto simp: placed_target_def)

lemma placed_known: "known c n \<Longrightarrow> placed_target c (getSectionWithName c n)"
  by (cases n) (auto simp: placed_target_def known_def getSectionWithName_def)

text \<open>Updates of the other fields of the pointer; the layout is the same.\<close>

lemma pointer_ok_update:
  assumes "pointer_ok c" "objs c' = objs c" "sections c' = sections c" "calls c' = calls c" "sectionUnderMouse c' = sectionUnderMouse c"
    and "draggingSomething c' \<longrightarrow> positionOnMouseDown c' \<noteq> None"
    and "sectionOnMouseDown c' = sectionOnMouseDown c \<or> known c (sectionOnMouseDown c')"
  shows "pointer_ok c'"
  using assms same_layout [OF assms(2,3)] by (auto simp: pointer_ok_def)

lemma known_None [simp]: "known c None"
  by (simp add: known_def)

lemma pointer_ok_parts:
  assumes "pointer_ok c"
  shows "layout_ok c" "known c (sectionOnMouseDown c)" "known c (sectionUnderMouse c)"
    "draggingSomething c \<Longrightarrow> positionOnMouseDown c \<noteq> None"
  using assms by (simp_all add: pointer_ok_def)

lemma pointer_ok_clear: "pointer_ok c \<Longrightarrow> pointer_ok (clearMousePositions c)"
  by (erule pointer_ok_update) (simp_all add: clearMousePositions_def)

lemma pointer_ok_drawn: "pointer_ok c \<Longrightarrow> pointer_ok (drawSections s c)"
  by (rule pointer_ok_update [of c]) (simp_all add: drawSections_def pointer_ok_parts(4))

lemma onClick_succeeds:
  assumes "pointer_ok c"
  shows "succeeds (onClick h e c)"
proof -
  let ?p = "convertPositionToCanvasLocale c e"
  let ?c = "c\<lparr>positionOnClick := Some ?p\<rparr>"
  have c: "pointer_ok ?c" using assms by (rule pointer_ok_update) (use pointer_ok_parts(4) [OF assms] in auto)
  have "succeeds (aim_at (findSectionContainingPoint ?c ?p) ?p (propagateOnClick h) ?c)"
    by (rule aim_at_succeeds [OF c placed_found [OF pointer_ok_parts(1) [OF c]] keeps_propagate(1)])
  then show ?thesis
    using assms c by (auto simp: onClick_def Let_def pointer_ok_clear pointer_ok_drawn split: option.split)
qed

lemma onDoubleClick_succeeds:
  assumes "pointer_ok c"
  shows "succeeds (onDoubleClick h e c)"
proof -
  let ?p = "convertPositionToCanvasLocale c e"
  let ?c = "c\<lparr>positionOnDoubleClick := Some ?p\<rparr>"
  have c: "pointer_ok ?c" using assms by (rule pointer_ok_update) (use pointer_ok_parts(4) [OF assms] in auto)
  have "succeeds (aim_at (findSectionContainingPoint ?c ?p) ?p (propagateOnDoubleClick h) ?c)"
    by (rule aim_at_succeeds [OF c placed_found [OF pointer_ok_parts(1) [OF c]] keeps_propagate(2)])
  then show ?thesis by (auto simp: onDoubleClick_def Let_def pointer_ok_clear pointer_ok_drawn)
qed

lemma press_succeeds:
  assumes "pointer_ok c" "positionOnMouseDown c \<noteq> None"
  shows "succeeds (case findSectionContainingPoint c p of
      None \<Rightarrow> Some c
    | Some i \<Rightarrow> aim_at (Some i) p (propagateOnMouseDown h) (c\<lparr>sectionOnMouseDown := Some (sec_name (objs c i))\<rparr>))"
proof (cases "findSectionContainingPoint c p")
  case (Some i)
  let ?c = "c\<lparr>sectionOnMouseDown := Some (sec_name (objs c i))\<rparr>"
  note f = found_known [OF pointer_ok_parts(1) [OF assms(1)] Some]
  have "pointer_ok ?c" using assms(1) by (rule pointer_ok_update) (use assms(2) f(2) in auto)
  then have "succeeds (aim_at (Some i) p (propagateOnMouseDown h) ?c)"
    by (rule aim_at_succeeds [OF _ _ keeps_propagate(5)]) (use f(1) in \<open>auto simp: placed_target_def\<close>)
  then show ?thesis using Some by simp
qed (use assms in simp)

lemma onMouseDown_succeeds:
  assumes "pointer_ok c"
  shows "succeeds (onMouseDown h e c)"
proof -
  let ?c = "(clearMousePositions c)\<lparr>positionOnMouseDown := Some (convertPositionToCanvasLocale c e)\<rparr>"
  have "pointer_ok ?c" using pointer_ok_clear [OF assms] by (rule pointer_ok_update) auto
  then show ?thesis using press_succeeds [of ?c "convertPositionToCanvasLocale c e" h] assms by (simp add: onMouseDown_def Let_def)
qed

lemma mouse_up_succeeds:
  assumes "pointer_ok c"
  shows "succeeds (mouse_up h e c)"
proof -
  let ?p = "convertPositionToCanvasLocale c e"
  let ?c = "c\<lparr>positionOnMouseUp := Some ?p\<rparr>"
  have c: "pointer_ok ?c" using assms by (rule pointer_ok_update) (use pointer_ok_parts(4) [OF assms] in auto)
  show ?thesis unfolding mouse_up_def Let_def
    by (rule aim_at_succeeds [OF c _ keeps_propagate(6)])
      (use placed_found [OF pointer_ok_parts(1) [OF c]] placed_known [OF pointer_ok_parts(2) [OF c]] in simp)
qed

lemma onMouseUp_succeeds:
  assumes "pointer_ok c"
  shows "succeeds (onMouseUp h e c)"
  using assms mouse_up_succeeds [OF assms, of h e] by (auto simp: onMouseUp_def pointer_ok_clear)

lemma onMouseWheel_succeeds:
  assumes "pointer_ok c"
  shows "succeeds (onMouseWheel h e c)"
  unfolding onMouseWheel_def Let_def
  by (rule aim_at_succeeds [OF assms placed_found [OF pointer_ok_parts(1) [OF assms]] keeps_propagate(8)])

text \<open>Leaving the section under the mouse, and entering another one.\<close>

lemma leave_ok:
  assumes "pointer_ok c" "getSectionWithName c (sectionUnderMouse c) = Some i"
  shows "pointer_ok ((propagateOnMouseLeave h i pos c)\<lparr>sectionUnderMouse := None\<rparr>)"
proof -
  let ?d = "propagateOnMouseLeave h i pos c"
  note f = heard_fields [OF enter_leave_heard(3) [of c h i pos]]
  have "sectionUnderMouse c = Some (sec_name (objs c i))" using getSection_member [OF assms(2)] by simp
  then show ?thesis
    using assms(1) same_layout [OF f(1,2)] same_layout [of "?d\<lparr>sectionUnderMouse := None\<rparr>" c] f
    by (simp add: pointer_ok_def hover_append)
qed

lemma enter_ok:
  assumes "pointer_ok c" "sectionUnderMouse c = None" "known c (Some (sec_name (objs c i)))"
  shows "pointer_ok (propagateOnMouseEnter h i pos (c\<lparr>sectionUnderMouse := Some (sec_name (objs c i))\<rparr>))"
proof -
  let ?c = "c\<lparr>sectionUnderMouse := Some (sec_name (objs c i))\<rparr>"
  note f = heard_fields [OF enter_leave_heard(1) [of ?c h i pos]]
  show ?thesis
    using assms same_layout [of "propagateOnMouseEnter h i pos ?c" c] f by (simp add: pointer_ok_def hover_append)
qed

lemma leave_section_succeeds:
  assumes "pointer_ok c"
  shows "\<exists>d. leave_section h p c = Some d \<and> objs d = objs c \<and> sections d = sections c \<and>
    pointer_ok (d\<lparr>sectionUnderMouse := None\<rparr>) \<and> dragDistance d = dragDistance c"
proof (cases "sectionUnderMouse c")
  case None
  have "pointer_ok (c\<lparr>sectionUnderMouse := None\<rparr>)"
    using assms by (rule pointer_ok_update) (use None pointer_ok_parts(4) [OF assms] in auto)
  then show ?thesis using None by (simp add: leave_section_def)
next
  case (Some n)
  then obtain i where i: "getSectionWithName c (sectionUnderMouse c) = Some i" "myTopLeft (objs c i) \<noteq> None"
    using pointer_ok_parts(3) [OF assms] by (auto simp: known_def)
  then obtain q where "convertPositionToSectionLocale c i p = Some q" by (auto simp: convertPositionToSectionLocale_def)
  then have "leave_section h p c = Some (propagateOnMouseLeave h i (Some q) c)"
    using Some i(1) by (simp add: leave_section_def aim_at_def)
  then show ?thesis
    using leave_ok [OF assms i(1), of h "Some q"] heard_fields [OF enter_leave_heard(3) [of c h i "Some q"]] by simp
qed

lemma move_over_succeeds:
  assumes "pointer_ok c" "\<And>i. target = Some i \<Longrightarrow> myTopLeft (objs c i) \<noteq> None \<and> known c (Some (sec_name (objs c i)))"
  shows "succeeds (move_over h p target c)"
proof -
  obtain d where d: "leave_section h p c = Some d" "objs d = objs c" "sections d = sections c" "pointer_ok (d\<lparr>sectionUnderMouse := None\<rparr>)"
    using leave_section_succeeds [OF assms(1), of h p] by blast
  show ?thesis
  proof (cases target)
    case None
    then show ?thesis using assms(1) d by (simp add: move_over_def)
  next
    case (Some i)
    note t = assms(2) [OF Some]
    have "\<exists>c1. (if sectionUnderMouse c \<noteq> Some (sec_name (objs c i))
        then do { d \<leftarrow> leave_section h p c;
                  aim_at (Some i) p (propagateOnMouseEnter h) (d\<lparr>sectionUnderMouse := Some (sec_name (objs d i))\<rparr>) }
        else Some c) = Some c1 \<and> pointer_ok c1 \<and> objs c1 = objs c" (is "\<exists>c1. ?E = Some c1 \<and> _ c1")
    proof (cases "sectionUnderMouse c \<noteq> Some (sec_name (objs c i))")
      case True
      let ?d = "d\<lparr>sectionUnderMouse := Some (sec_name (objs d i))\<rparr>"
      obtain q where q: "convertPositionToSectionLocale ?d i p = Some q"
        using t d(2) by (auto simp: convertPositionToSectionLocale_def)
      have "known (d\<lparr>sectionUnderMouse := None\<rparr>) (Some (sec_name (objs d i)))"
        using t d(2,3) same_layout(3) [of "d\<lparr>sectionUnderMouse := None\<rparr>" c] by simp
      then have "pointer_ok (propagateOnMouseEnter h i (Some q) ?d)" using enter_ok [OF d(4), of i h "Some q"] by simp
      then show ?thesis
        using True d(1,2) q heard_fields(1) [OF enter_leave_heard(1) [of ?d h i "Some q"]] by (simp add: aim_at_def)
    qed (use assms(1) in simp)
    then obtain c1 where c1: "?E = Some c1" "pointer_ok c1" "objs c1 = objs c" by blast
    have "succeeds (aim_at (Some i) p (\<lambda>i pos d. propagateOnMouseMove h i pos (dragDistance d) d) c1)"
      by (rule aim_at_succeeds [OF c1(2) _ keeps_propagate(12)]) (use t c1(3) in \<open>simp add: placed_target_def\<close>)
    then show ?thesis using Some c1(1) by (simp add: move_over_def)
  qed
qed

lemma check_drag_fields [simp]:
  "objs (check_drag p c) = objs c" "sections (check_drag p c) = sections c" "calls (check_drag p c) = calls c"
  "sectionUnderMouse (check_drag p c) = sectionUnderMouse c" "sectionOnMouseDown (check_drag p c) = sectionOnMouseDown c"
  "positionOnMouseDown (check_drag p c) = positionOnMouseDown c"
  "draggingSomething (check_drag p c) \<Longrightarrow> draggingSomething c \<or> positionOnMouseDown c \<noteq> None"
  by (auto simp: check_drag_def split: option.splits if_splits)

lemma onMouseMove_succeeds:
  assumes "pointer_ok c"
  shows "succeeds (onMouseMove h e c)"
proof -
  let ?p = "convertPositionToCanvasLocale c e"
  let ?m = "c\<lparr>mousePosition := Some ?p\<rparr>" and ?c = "check_drag ?p (c\<lparr>mousePosition := Some ?p\<rparr>)"
  have m: "pointer_ok ?m" using assms by (rule pointer_ok_update) (use pointer_ok_parts(4) [OF assms] in auto)
  have c: "pointer_ok ?c"
    using m by (rule pointer_ok_update) (use check_drag_fields(7) [of ?p ?m] pointer_ok_parts(4) [OF assms] in auto)
  have over: "succeeds (move_over h ?p (findSectionContainingPoint ?c ?p) ?c)"
    using c found_known [OF pointer_ok_parts(1) [OF c]] by (intro move_over_succeeds) auto
  have drag: "succeeds (move_over h ?p (getSectionWithName ?c (sectionOnMouseDown ?c)) (?c\<lparr>dragDistance := d\<rparr>))" for d
  proof (rule move_over_succeeds)
    show d: "pointer_ok (?c\<lparr>dragDistance := d\<rparr>)" using c by (rule pointer_ok_update) (use pointer_ok_parts(4) [OF c] in auto)
    fix i assume i: "getSectionWithName ?c (sectionOnMouseDown ?c) = Some i"
    then have "sectionOnMouseDown ?c = Some (sec_name (objs ?c i))" using getSection_member [OF i] by simp
    then show "myTopLeft (objs (?c\<lparr>dragDistance := d\<rparr>) i) \<noteq> None \<and> known (?c\<lparr>dragDistance := d\<rparr>) (Some (sec_name (objs (?c\<lparr>dragDistance := d\<rparr>) i)))"
      using pointer_ok_parts(2) [OF d] pointer_ok_parts(2) [OF c] i by (simp add: known_def)
  qed
  have menu: "succeeds (case findSectionContainingPoint ?m ?p of None \<Rightarrow> Some ?m | Some i \<Rightarrow> Some (propagateOnContextMenu h i (stopLongPress ?m)))"
  proof -
    have "pointer_ok (stopLongPress ?m)"
      using m by (rule pointer_ok_update) (use pointer_ok_parts(4) [OF m] in \<open>auto simp: stopLongPress_def\<close>)
    then show ?thesis using m keeps_propagate(7) by (auto simp: keeps_def split: option.split)
  qed
  show ?thesis
    using assms over drag menu pointer_ok_parts(4) [OF c] by (auto simp: onMouseMove_def Let_def split: option.split)
qed

lemma onMouseLeave_ok:
  assumes "pointer_ok c"
  shows "pointer_ok (onMouseLeave h c)"
proof -
  have inside: "pointer_ok (d\<lparr>mouseIsInside := False\<rparr>)" if "pointer_ok d" for d :: "'a pointer_scheme"
    using that by (rule pointer_ok_update) (use pointer_ok_parts(4) [OF that] in auto)
  have left: "pointer_ok ((clearMousePositions d)\<lparr>mousePosition := None\<rparr>)" if "pointer_ok d" for d :: "'a pointer_scheme"
    using pointer_ok_clear [OF that] by (rule pointer_ok_update) (auto simp: clearMousePositions_def)
  show ?thesis
  proof (cases "sectionUnderMouse c")
    case None
    then show ?thesis using assms left [OF assms] by (auto simp: onMouseLeave_def Let_def intro!: inside)
  next
    case (Some n)
    then obtain i where i: "getSectionWithName c (Some n) = Some i" using pointer_ok_parts(3) [OF assms] by (auto simp: known_def)
    have "pointer_ok ((propagateOnMouseLeave h i None c)\<lparr>sectionUnderMouse := None\<rparr>)" using leave_ok [OF assms] Some i by simp
    from left [OF this] show ?thesis using assms Some i by (auto simp: onMouseLeave_def Let_def intro!: inside)
  qed
qed

lemma onMouseEnter_ok:
  assumes "pointer_ok c"
  shows "pointer_ok (onMouseEnter h c)"
proof -
  let ?c = "c\<lparr>mouseIsInside := True\<rparr>"
  have "pointer_ok ?c" using assms by (rule pointer_ok_update) (use pointer_ok_parts(4) [OF assms] in auto)
  then show ?thesis
    unfolding onMouseEnter_def
    using pointer_ok_heard [OF fold_deliver_heard(1), of h OnMouseEnter None NoArgument "windowSectionList c" ?c "[]"] by simp
qed

lemma onTouchStart_succeeds:
  assumes "pointer_ok c"
  shows "succeeds (onTouchStart h e c)"
proof -
  let ?p = "convertPositionToCanvasLocale c e"
  let ?c = "(startLongPress (clearMousePositions c))\<lparr>positionOnMouseDown := Some ?p\<rparr>"
  let ?m = "(stopLongPress c)\<lparr>multiTouch := True\<rparr>"
  have c: "pointer_ok ?c" using pointer_ok_clear [OF assms] by (rule pointer_ok_update) (auto simp: startLongPress_def)
  have m: "pointer_ok ?m"
    using assms by (rule pointer_ok_update) (use pointer_ok_parts(4) [OF assms] in \<open>auto simp: stopLongPress_def\<close>)
  show ?thesis
    using press_succeeds [OF c, of ?p h] m assms keeps_propagate(9) by (auto simp: onTouchStart_def Let_def keeps_def split: option.split)
qed

lemma onTouchMove_succeeds:
  assumes "pointer_ok c"
  shows "succeeds (onTouchMove h e c)"
proof (cases "positionOnMouseDown c")
  case (Some down)
  let ?s = "stopLongPress c" and ?p = "convertPositionToCanvasLocale (stopLongPress c) e"
  have s: "pointer_ok ?s"
    using assms by (rule pointer_ok_update) (use pointer_ok_parts(4) [OF assms] in \<open>auto simp: stopLongPress_def\<close>)
  let ?d = "?s\<lparr>mousePosition := Some ?p, draggingSomething := True, dragDistance := Some (between ?p down)\<rparr>"
  have d: "pointer_ok ?d" using s by (rule pointer_ok_update) (use Some in \<open>auto simp: stopLongPress_def\<close>)
  have one: "succeeds (aim_at (getSectionWithName ?d (sectionOnMouseDown ?d)) ?p (\<lambda>i pos d. propagateOnMouseMove h i pos (dragDistance d) d) ?d)"
    by (rule aim_at_succeeds [OF d placed_known [OF pointer_ok_parts(2) [OF d]] keeps_propagate(12)])
  have two: "succeeds (aim_at (Some i) q (\<lambda>i pos. propagateOnMultiTouchMove h i pos r) (?s\<lparr>touchCenter := Some q\<rparr>))"
    if "getSectionWithName ?s (sectionOnMouseDown ?s) = Some i" for i q r
  proof (rule aim_at_succeeds [OF _ _ keeps_propagate(10)])
    show "pointer_ok (?s\<lparr>touchCenter := Some q\<rparr>)" using s by (rule pointer_ok_update) (use pointer_ok_parts(4) [OF s] in auto)
    show "placed_target (?s\<lparr>touchCenter := Some q\<rparr>) (Some i)"
      using placed_known [OF pointer_ok_parts(2) [OF s]] that by (simp add: placed_target_def)
  qed
  show ?thesis
    unfolding onTouchMove_def Let_def using one two s Some by (auto split: option.split)
qed (use assms in \<open>simp add: onTouchMove_def\<close>)

lemma onTouchEnd_succeeds:
  assumes "pointer_ok c"
  shows "succeeds (onTouchEnd h e c)"
proof -
  let ?s = "stopLongPress c"
  have s: "pointer_ok ?s"
    using assms by (rule pointer_ok_update) (use pointer_ok_parts(4) [OF assms] in \<open>auto simp: stopLongPress_def\<close>)
  have m: "pointer_ok (?s\<lparr>multiTouch := False\<rparr>)" using s by (rule pointer_ok_update) (use pointer_ok_parts(4) [OF s] in auto)
  have fin: "pointer_ok (d\<lparr>touchEventInProgress := True\<rparr>)" if "pointer_ok d" for d :: "'a pointer_scheme"
    using that by (rule pointer_ok_update) (use pointer_ok_parts(4) [OF that] in auto)
  show ?thesis
    using mouse_up_succeeds [OF s, of h e] s m keeps_propagate(11) by (auto simp: onTouchEnd_def Let_def keeps_def intro!: fin split: option.split)
qed

text \<open>Every event keeps the invariant, and none throws.\<close>

lemma dispatch_succeeds:
  assumes "pointer_ok c"
  shows "succeeds (dispatch h x c)"
proof (cases x)
  case (ContextMenuEvent e)
  then show ?thesis using assms keeps_propagate(7) by (auto simp: onContextMenu_def keeps_def split: option.split)
next
  case TouchCancel
  have "pointer_ok (onTouchCancel c)"
    using pointer_ok_clear [OF assms] by (rule pointer_ok_update) (auto simp: onTouchCancel_def stopLongPress_def clearMousePositions_def)
  then show ?thesis using TouchCancel by simp
qed (use assms in \<open>simp_all add: onMouseMove_succeeds onMouseDown_succeeds onMouseUp_succeeds onClick_succeeds onDoubleClick_succeeds
  onMouseWheel_succeeds onMouseLeave_ok onMouseEnter_ok onTouchStart_succeeds onTouchMove_succeeds onTouchEnd_succeeds
  onCursorPositionChanged_def onCellAddressChanged_def propagateCursorPositionChanged_def propagateCellAddressChanged_def pointer_ok_all\<close>)

lemma run_inputs_succeeds: "pointer_ok c \<Longrightarrow> succeeds (run_inputs h xs c)"
proof (induction xs arbitrary: c)
  case (Cons x xs)
  obtain c' where "dispatch h x c = Some c'" "pointer_ok c'" using dispatch_succeeds [OF Cons.prems] by blast
  then show ?case using Cons.IH by simp
qed simp

text \<open>The state in which nothing has happened yet.\<close>

definition idle :: "'a pointer_scheme \<Rightarrow> bool" where
  "idle c \<longleftrightarrow> \<not> draggingSomething c \<and> sectionOnMouseDown c = None \<and> sectionUnderMouse c = None \<and> calls c = [] \<and> layout_ok c"

lemma idle_ok: "idle c \<Longrightarrow> pointer_ok c"
  by (simp add: idle_def pointer_ok_def)

text \<open>
  C9. Whatever mouse, touch and document events come, in whatever order, no handler of the canvas reads a property of \<open>null\<close>:
  dragging always has a position where it began, and the sections that are remembered by name can be found and have a place.
\<close>

theorem handlers_never_throw:
  assumes "idle c"
  shows "\<exists>c'. run_inputs h xs c = Some c' \<and> (draggingSomething c' \<longrightarrow> positionOnMouseDown c' \<noteq> None)"
  using run_inputs_succeeds [OF idle_ok [OF assms]] pointer_ok_parts(4) by blast

text \<open>
  C23. Sections are told in turn that the mouse enters and leaves: in any sequence of events, a section is entered only when the
  mouse is over none, only the section entered last is left, and \<open>sectionUnderMouse\<close> is the section entered and not yet left.
\<close>

theorem enter_and_leave_alternate:
  assumes "idle c" "run_inputs h xs c = Some c'"
  shows "hover None (targets (calls c')) = Some (sectionUnderMouse c')"
  using run_inputs_succeeds [OF idle_ok [OF assms(1)], of h xs] assms(2) by (auto simp: pointer_ok_def)

section \<open>Who hears an event\<close>

text \<open>A section at which the event ends: its callback stops it, or a callback stopped it there earlier in the same gesture.\<close>

definition stops_here :: "(call \<Rightarrow> bool) \<Rightarrow> kind \<Rightarrow> rat point option \<Rightarrow> argument \<Rightarrow> 'a pointer_scheme \<Rightarrow> nat \<Rightarrow> bool" where
  "stops_here h k pos arg c i \<longleftrightarrow> interactable (objs c i) \<and> h (Call k (sec_name (objs c i)) pos arg) \<or>
     lowestPropagatedBoundSection c = Some (sec_name (objs c i))"

fun until_stopped :: "('b \<Rightarrow> bool) \<Rightarrow> 'b list \<Rightarrow> 'b list" where
  "until_stopped P [] = []"
| "until_stopped P (i # is) = (if P i then [i] else i # until_stopped P is)"

definition callbacks :: "kind \<Rightarrow> rat point option \<Rightarrow> argument \<Rightarrow> (nat \<Rightarrow> canvas_section) \<Rightarrow> nat list \<Rightarrow> call list" where
  "callbacks k pos arg ob is = map (\<lambda>i. Call k (sec_name (ob i)) pos arg) (filter (\<lambda>i. interactable (ob i)) is)"

lemma deliver_calls:
  "calls (deliver h k pos arg i c) = calls c @ callbacks k pos arg (objs c) [i]"
  "objs (deliver h k pos arg i c) = objs c"
  "stopped_at i (deliver h k pos arg i c) \<longleftrightarrow> stops_here h k pos arg c i"
  "\<not> stops_here h k pos arg c i \<Longrightarrow> lowestPropagatedBoundSection (deliver h k pos arg i c) = lowestPropagatedBoundSection c"
  by (auto simp: deliver_def callbacks_def stopped_at_def stops_here_def Let_def)

lemma stops_here_cong:
  "objs c' = objs c \<Longrightarrow> lowestPropagatedBoundSection c' = lowestPropagatedBoundSection c \<Longrightarrow>
     stops_here h k pos arg c' = stops_here h k pos arg c"
  by (rule ext) (simp add: stops_here_def)

lemma bounds_loop_calls:
  "calls (bounds_loop h k pos arg is c) = calls c @ callbacks k pos arg (objs c) (until_stopped (stops_here h k pos arg c) is)"
proof (induction "is" arbitrary: c)
  case Nil
  then show ?case by (simp add: callbacks_def)
next
  case (Cons i "is")
  let ?d = "deliver h k pos arg i c"
  show ?case
  proof (cases "stops_here h k pos arg c i")
    case True
    then show ?thesis by (simp add: Let_def deliver_calls)
  next
    case False
    then have "stops_here h k pos arg ?d = stops_here h k pos arg c"
      by (intro stops_here_cong deliver_calls)
    then show ?thesis using False Cons.IH [of ?d] by (simp add: Let_def deliver_calls callbacks_def)
  qed
qed

lemma window_loop_calls:
  assumes "window_loop h k pos arg ws c go = (c', go')"
  shows "calls c' = calls c @ callbacks k pos arg (objs c) ws \<and>
    (go' \<longleftrightarrow> go \<and> \<not> (\<exists>w \<in> set ws. stops_here h k pos arg c w)) \<and>
    (go' \<longrightarrow> lowestPropagatedBoundSection c' = lowestPropagatedBoundSection c)"
  using assms
proof (induction ws arbitrary: c go)
  case Nil
  then show ?case by (simp add: callbacks_def)
next
  case (Cons w ws)
  let ?d = "deliver h k pos arg w c"
  have w: "window_loop h k pos arg ws ?d (go \<and> \<not> stops_here h k pos arg c w) = (c', go')"
    using Cons.prems by (auto simp: Let_def deliver_calls split: if_splits)
  show ?case
  proof (cases "stops_here h k pos arg c w")
    case True
    then show ?thesis using Cons.IH [OF w] by (auto simp: deliver_calls callbacks_def)
  next
    case False
    then have "stops_here h k pos arg ?d = stops_here h k pos arg c" by (intro stops_here_cong deliver_calls)
    then show ?thesis using False Cons.IH [OF w] deliver_calls(4) [OF False] by (auto simp: deliver_calls callbacks_def)
  qed
qed

text \<open>
  C13. Who hears an event: all interactable window sections in their order, and, if none of them stops it, the interactable
  sections of the target's bounds list from its end, that is from the target downwards, until the first that stops the event or that has stopped it
  before in the same gesture. Nobody else is called.
\<close>

theorem propagation_order:
  "calls (propagate h k i pos arg c) =
     (let wpos = window_position c i pos
      in calls c @ [Target k (sec_name (objs c i))] @ callbacks k wpos arg (objs c) (windowSectionList c) @
         (if \<exists>w \<in> set (windowSectionList c). stops_here h k wpos arg c w then []
          else callbacks k pos arg (objs c) (until_stopped (stops_here h k pos arg c) (rev (boundsList (objs c i))))))"
proof -
  let ?c = "aim k i c"
  have a: "objs ?c = objs c" "windowSectionList ?c = windowSectionList c" "window_position ?c i pos = window_position c i pos"
    "calls ?c = calls c @ [Target k (sec_name (objs c i))]" "\<And>pos. stops_here h k pos arg ?c = stops_here h k pos arg c"
    by (auto simp: aim_def window_position_def stops_here_def)
  obtain c1 go where w: "window_loop h k (window_position c i pos) arg (windowSectionList c) ?c True = (c1, go)" by fastforce
  have "objs c1 = objs c" using window_loop_heard [OF w] heard_fields(1) [of ?c c1] a(1) by simp
  moreover have "stops_here h k pos arg c1 = stops_here h k pos arg c" if go
  proof -
    have "lowestPropagatedBoundSection c1 = lowestPropagatedBoundSection ?c" using window_loop_calls [OF w] that by simp
    then show ?thesis using stops_here_cong [of c1 ?c] \<open>objs c1 = objs c\<close> a by simp
  qed
  ultimately show ?thesis
    using w window_loop_calls [OF w] by (auto simp: propagate_def Let_def a bounds_loop_calls)
qed

section \<open>Examples\<close>

definition sample_pointer :: pointer where
  "sample_pointer = \<lparr>objs = (\<lambda>i. placed 11 0 ((sample_objs i)\<lparr>boundsList := (if i = 1 then [0, 1] else [i])\<rparr>)), nextObj = 2,
     sections = [0, 1], windowSectionList = [], documentTopLeft = Pt 0 0, documentBottomRight = Pt 100 80,
     documentAnchorSectionName = Some ''tiles'', documentAnchor = None,
     canvasWidth = 100, canvasHeight = 80, right = 100, bottom = 80, roundedDpiScale = 1,
     drawingPaused = 0, drawingEnabled = True, dirty = NotDirty, dirtySubset = None, sectionsDirty = False, splitPanes = False,
     animatingSectionName = None, lastFrameStamp = 0, continueAnimating = False, frameCount = 0, duration = None, elapsedTime = 0,
     framePending = False, paints = [], positionOnMouseDown = None, positionOnMouseUp = None, positionOnClick = None,
     positionOnDoubleClick = None, mousePosition = None, dragDistance = None, draggingSomething = False, sectionOnMouseDown = None,
     sectionUnderMouse = None, multiTouch = False, touchCenter = None, longPress = False, touchEventInProgress = False,
     lowestPropagatedBoundSection = None, targetSection = None, scrollLineHeight = 30, mouseIsInside = False,
     rectLeft = 0, rectTop = 0, dpiScale = 1, calls = []\<rparr>"

definition mouse_at :: "rat \<Rightarrow> rat \<Rightarrow> native_event" where
  "mouse_at x y = \<lparr>clientX = x, clientY = y, touches = [], changedTouches = [], button = 0, deltaMode = 0, deltaX = 0, deltaY = 0\<rparr>"

lemma sample_idle: "idle sample_pointer"
  by (auto simp: idle_def layout_ok_def sample_pointer_def placed_def sample_objs_def plain_section_def inj_on_def)

text \<open>The mouse comes in, presses on the overlay and drags out of it.\<close>

definition sample_inputs :: "input list" where
  "sample_inputs = [EnterCanvas, MouseMove (mouse_at 15 5), MouseDown (mouse_at 15 5), MouseMove (mouse_at 80 70)]"

theorem handlers_never_throw_witness:
  "\<exists>c'. run_inputs (\<lambda>_. False) sample_inputs sample_pointer = Some c' \<and> draggingSomething c' \<and> positionOnMouseDown c' \<noteq> None"
proof -
  have "map_option draggingSomething (run_inputs (\<lambda>_. False) sample_inputs sample_pointer) = Some True" by code_simp
  then show ?thesis using handlers_never_throw [OF sample_idle, of "\<lambda>_. False" sample_inputs] by auto
qed

theorem enter_and_leave_alternate_witness:
  "\<exists>c'. run_inputs (\<lambda>_. False) sample_inputs sample_pointer = Some c' \<and> hover None (targets (calls c')) = Some (Some ''overlay'')"
proof -
  have "map_option sectionUnderMouse (run_inputs (\<lambda>_. False) sample_inputs sample_pointer) = Some (Some ''overlay'')" by code_simp
  then obtain c' where "run_inputs (\<lambda>_. False) sample_inputs sample_pointer = Some c'" "sectionUnderMouse c' = Some ''overlay''" by auto
  then show ?thesis using enter_and_leave_alternate [OF sample_idle, of "\<lambda>_. False" sample_inputs c'] by simp
qed

text \<open>A click paints the canvas even when drawing is disabled.\<close>

lemma click_paints_when_disabled:
  assumes "\<not> draggingSomething c" "onClick h e c = Some c'"
  shows "\<exists>drawn. paints c' = paints c @ [Painted drawn None]"
proof -
  obtain d where d: "c' = drawSections None (clearMousePositions d)" "paints d = paints c"
  proof -
    have p: "paints (propagateOnClick h i pos d) = paints d" for i pos and d :: "'a pointer_scheme"
      unfolding propagateOnClick_def by (subst propagate_heard(1) [of d h OnClick i pos NoArgument, unfolded heard_def]) simp
    show ?thesis using assms that p by (auto simp: onClick_def aim_at_def bind_eq_Some_conv Let_def split: option.splits if_splits)
  qed
  then show ?thesis by (simp add: drawSections_def clearMousePositions_def)
qed

end
