(* ===== verification/Comments.thy ===== *)
theory Comments
  imports Server_Cmd "HOL-Library.Product_Lexorder" "HOL-Library.Monad_Syntax"
begin

text \<open>
  The comments of a document and the list that keeps them in order: \<open>CommentSection\<close> of
  layer/tile/CommentListSection.ts, with what it uses of \<open>Comment\<close> of layer/tile/CommentSection.ts.

  \<^item> Comments are objects that the list, other comments (\<open>children\<close>) and the selection refer to: \<open>coms\<close> is the store,
    a list of comments is a list of references.
  \<^item> The index \<open>-1\<close>, \<open>null\<close> and \<open>undefined\<close> are \<open>None\<close>. An operation that reads a property of them throws; its result
    is \<open>None\<close> as well. So is the anchor of a message that names no point, which is not a number.
  \<^item> \<open>registry\<close> is what the list uses of the section container: the comments registered as sections, by name.
  \<^item> What the document shows is not part of the state: \<open>isContainerVisible\<close> is given by the document,
    \<open>com_edit\<close> is \<open>isEdit()\<close>. A new layout that \<open>update\<close> asks for runs later, from its timer.
\<close>

named_theorems comment_defs "definitions of the comment list"

section \<open>Data\<close>

record comment_data =
  com_id :: string
  com_parent :: string
  com_author :: string
  com_resolved :: "string option"
  com_layoutStatus :: "jsnum option"
  com_trackchange :: bool
  com_anchor :: "rat point"
  com_parthash :: string

record comment =
  com_data :: comment_data
  children :: "nat list"
  possibleParentCommentId :: "string option"
  partIndex :: "int option"
  pendingInit :: bool
  com_edit :: bool
  selfRemoved :: bool

text \<open>What the list asks of the map: a command for the server, with the id it is about, or another part. Moving the focus is left out.\<close>

datatype map_call = Uno string string | SetPart int

record comments =
  coms :: "nat \<Rightarrow> comment"
  nextCom :: nat
  commentList :: "nat list"
  idIndexMap :: "string \<rightharpoonup> nat"
  registry :: "(string \<times> nat) list"
  selectedComment :: "nat option"
  showResolved :: bool
  isCollapsed :: bool
  commentsAreListed :: bool
  isContainerVisible :: "nat \<Rightarrow> bool"
  commentDocType :: doc_type
  viewedPart :: int
  commentFileBased :: bool
  partHashes :: "string list"
  partStep :: int
  viewName :: string
  autoSavedComment :: "nat option"
  commentWasAutoAdded :: bool
  pendingImport :: bool
  isMobile :: bool
  mapCalls :: "map_call list"

abbreviation dat :: "comments \<Rightarrow> nat \<Rightarrow> comment_data" where
  "dat s r \<equiv> com_data (coms s r)"

definition put_comment :: "nat \<Rightarrow> comment \<Rightarrow> comments \<Rightarrow> comments" where
  [comment_defs]: "put_comment r c s = s\<lparr>coms := (coms s)(r := c)\<rparr>"

definition setData :: "nat \<Rightarrow> comment_data \<Rightarrow> comments \<Rightarrow> comments" where
  [comment_defs]: "setData r d s = put_comment r ((coms s r)\<lparr>com_data := d\<rparr>) s"

definition isRootComment :: "comments \<Rightarrow> nat \<Rightarrow> bool" where
  [comment_defs]: "isRootComment s r \<longleftrightarrow> com_parent (dat s r) = ''0''"

definition setAsRootComment :: "nat \<Rightarrow> comments \<Rightarrow> comments" where
  [comment_defs]: "setAsRootComment r s = setData r ((dat s r)\<lparr>com_parent := ''0''\<rparr>) s"

definition getParentCommentId :: "comments \<Rightarrow> nat \<Rightarrow> string option" where
  [comment_defs]: "getParentCommentId s r =
     (if com_parent (dat s r) \<noteq> [] \<and> com_parent (dat s r) \<noteq> ''0'' then Some (com_parent (dat s r)) else None)"

definition section_name :: "comment_data \<Rightarrow> string" where
  [comment_defs]: "section_name d = (if com_id d = ''new'' then ''new comment'' else ''comment '' @ com_id d)"

section \<open>Messages\<close>

text \<open>
  A comment or redline as the server describes it. Fields that may be missing are options; of \<open>textRange\<close>,
  \<open>anchorPos\<close> and \<open>rectangle\<close> a missing one is the empty string, \<open>m_parentId\<close> is \<open>None\<close> when \<open>parentId\<close> is
  missing or 0. \<open>m_cellPos\<close> is the rectangle of the cell range, which the spreadsheet layer computes.
\<close>

record comment_msg =
  m_redline :: bool
  m_action :: string
  m_id :: string
  m_index :: string
  m_parent :: "string option"
  m_parentId :: "string option"
  m_author :: string
  m_resolved :: "string option"
  m_layoutStatus :: "string option"
  m_textRange :: string
  m_anchorPos :: string
  m_rectangle :: string
  m_cellPos :: string
  m_parthash :: string

text \<open>The matches of \<open>/\d+/g\<close>.\<close>

function digit_runs :: "string \<Rightarrow> string list" where
  "digit_runs [] = []"
| "digit_runs (c # cs) =
     (if is_digit c then (c # takeWhile is_digit cs) # digit_runs (dropWhile is_digit cs) else digit_runs cs)"
  by pat_completeness auto
termination
  by (relation "measure length") (simp_all add: length_dropWhile_le le_imp_less_Suc)

definition run_number :: "string list \<Rightarrow> nat \<Rightarrow> jsnum" where
  [comment_defs]: "run_number ms i = (if i < length ms then parseInt (ms ! i) else NaN)"

fun rectangles_of :: "string list \<Rightarrow> jsnum list list" where
  "rectangles_of [] = []"
| "rectangles_of (m # ms) =
     [parseInt m, run_number ms 0, run_number ms 1, run_number ms 2] # rectangles_of (drop 3 ms)"

definition stringToRectangles :: "string \<Rightarrow> jsnum list list" where
  [comment_defs]: "stringToRectangles str = rectangles_of (digit_runs str)"

fun first_point :: "jsnum list list \<Rightarrow> rat point option" where
  "first_point ((Num x # Num y # ns) # rs) = Some (Pt (of_int x) (of_int y))"
| "first_point _ = None"

definition js_or :: "string \<Rightarrow> string \<Rightarrow> string" where
  [comment_defs]: "js_or a b = (if a \<noteq> [] then a else b)"

fun index_of :: "'a \<Rightarrow> 'a list \<Rightarrow> int" where
  "index_of x [] = - 1"
| "index_of x (y # ys) = (if x = y then 0 else (let i = index_of x ys in if i < 0 then - 1 else i + 1))"

text \<open>The parent as \<open>onACKComment\<close> fills it in before the comment is adjusted.\<close>

definition ack_parent :: "comment_msg \<Rightarrow> comment_msg" where
  [comment_defs]: "ack_parent m =
     (if m_parent m = None then m\<lparr>m_parent := Some (case m_parentId m of None \<Rightarrow> ''0'' | Some p \<Rightarrow> p)\<rparr> else m)"

definition message_data :: "comment_msg \<Rightarrow> string \<Rightarrow> jsnum option \<Rightarrow> rat point \<Rightarrow> comment_data" where
  [comment_defs]: "message_data m parent status a =
     \<lparr>com_id = m_id m, com_parent = parent, com_author = m_author m, com_resolved = m_resolved m,
      com_layoutStatus = status, com_trackchange = False, com_anchor = a, com_parthash = m_parthash m\<rparr>"

text \<open>A parent that is still missing becomes \<open>'0'\<close> in the constructor of the comment.\<close>

definition adjustCommentNormal :: "comment_msg \<Rightarrow> comment_data option" where
  [comment_defs]: "adjustCommentNormal m =
     do { a \<leftarrow> first_point (stringToRectangles (js_or (m_anchorPos m) (js_or (m_rectangle m) (m_cellPos m))));
          Some (message_data m
                 (case m_parentId m of Some p \<Rightarrow> p | None \<Rightarrow> (case m_parent m of Some p \<Rightarrow> p | None \<Rightarrow> ''0''))
                 (map_option parseInt (m_layoutStatus m)) a) }"

text \<open>In the file based view \<open>layoutStatus\<close> stays a string, which equals none of the constants.\<close>

definition adjustCommentFileBasedView :: "comments \<Rightarrow> comment_msg \<Rightarrow> comment_data option" where
  [comment_defs]: "adjustCommentFileBasedView s m =
     do { _ \<leftarrow> first_point (stringToRectangles (js_or (m_textRange m) (js_or (m_anchorPos m) (m_rectangle m))));
          a \<leftarrow> first_point (stringToRectangles (js_or (m_anchorPos m) (m_rectangle m)));
          let yAddition = of_int (index_of (m_parthash m) (partHashes s) * partStep s);
          Some (message_data m (case m_parent m of Some p \<Rightarrow> p | None \<Rightarrow> ''0'') None (Pt (px a) (py a + yAddition))) }"

definition adjustComment :: "comments \<Rightarrow> comment_msg \<Rightarrow> comment_data option" where
  [comment_defs]: "adjustComment s m =
     (if commentFileBased s then adjustCommentFileBasedView s m else adjustCommentNormal m)"

text \<open>\<open>Some None\<close>: the redline is refused with a warning.\<close>

definition adjustRedLine :: "comment_msg \<Rightarrow> comment_data option option" where
  [comment_defs]: "adjustRedLine m =
     (if m_textRange m = [] then Some None
      else do { a \<leftarrow> first_point (stringToRectangles (m_textRange m));
                Some (Some ((message_data m ''0'' None a)\<lparr>com_id := ''change-'' @ m_index m, com_trackchange := True\<rparr>)) })"

section \<open>Positions in the list\<close>

definition index_map :: "string list \<Rightarrow> (string \<rightharpoonup> nat)" where
  [comment_defs]: "index_map ids = fold (\<lambda>(i, x) m. m(x \<mapsto> i)) (enumerate 0 ids) Map.empty"

abbreviation ids :: "comments \<Rightarrow> string list" where
  "ids s \<equiv> map (\<lambda>r. com_id (dat s r)) (commentList s)"

definition updateIdIndexMap :: "comments \<Rightarrow> comments" where
  [comment_defs]: "updateIdIndexMap s = s\<lparr>idIndexMap := index_map (ids s)\<rparr>"

definition getIndexOf :: "comments \<Rightarrow> string \<Rightarrow> nat option" where
  [comment_defs]: "getIndexOf s i = idIndexMap s i"

definition getComment :: "comments \<Rightarrow> string \<Rightarrow> nat option" where
  [comment_defs]: "getComment s i = map_option (\<lambda>k. commentList s ! k) (getIndexOf s i)"

text \<open>The loops that go back in the list to the first comment with a property.\<close>

primrec walk_back :: "(nat \<Rightarrow> bool) \<Rightarrow> nat list \<Rightarrow> nat \<Rightarrow> nat option" where
  "walk_back P rs 0 = (if P (rs ! 0) then Some 0 else None)"
| "walk_back P rs (Suc k) = (if P (rs ! Suc k) then Some (Suc k) else walk_back P rs k)"

definition getRootIndexOf :: "comments \<Rightarrow> string \<Rightarrow> nat option" where
  [comment_defs]: "getRootIndexOf s i =
     (case getIndexOf s i of None \<Rightarrow> None | Some k \<Rightarrow> walk_back (isRootComment s) (commentList s) k)"

definition getSubRootIndexOf :: "comments \<Rightarrow> string \<Rightarrow> nat option" where
  [comment_defs]: "getSubRootIndexOf s i =
     (case getIndexOf s i of
        None \<Rightarrow> None
      | Some k \<Rightarrow>
          (let parentId = com_parent (dat s (commentList s ! k))
           in walk_back (\<lambda>r. com_id (dat s r) = parentId \<or> isRootComment s r) (commentList s) k))"

definition getLastChildIndexOf :: "comments \<Rightarrow> string \<Rightarrow> nat option" where
  [comment_defs]: "getLastChildIndexOf s i =
     do { k \<leftarrow> getIndexOf s i;
          let next = (case getRootIndexOf s (com_id (dat s (commentList s ! k))) of None \<Rightarrow> 0 | Some j \<Rightarrow> Suc j);
          Some (next + length (takeWhile (\<lambda>r. \<not> isRootComment s r) (drop next (commentList s))) - 1) }"

definition findNextPartWithComment :: "comments \<Rightarrow> int \<Rightarrow> int" where
  [comment_defs]: "findNextPartWithComment s currentPart =
     (case List.find (\<lambda>r. case partIndex (coms s r) of None \<Rightarrow> False | Some p \<Rightarrow> p > currentPart) (commentList s) of
        None \<Rightarrow> - 1 | Some r \<Rightarrow> the (partIndex (coms s r)))"

definition findPreviousPartWithComment :: "comments \<Rightarrow> int \<Rightarrow> int" where
  [comment_defs]: "findPreviousPartWithComment s currentPart =
     (case List.find (\<lambda>r. case partIndex (coms s r) of None \<Rightarrow> False | Some p \<Rightarrow> p < currentPart) (rev (commentList s)) of
        None \<Rightarrow> - 1 | Some r \<Rightarrow> the (partIndex (coms s r)))"

section \<open>Order\<close>

text \<open>
  \<open>addChildrenCommentsToList\<close> recurses through the children; the fuel bounds the depth. A child below itself makes the
  code recurse until the stack overflows, which throws.
\<close>

primrec add_children :: "nat \<Rightarrow> comments \<Rightarrow> nat \<Rightarrow> nat list \<Rightarrow> nat list option" where
  "add_children 0 s c newOrder = None"
| "add_children (Suc n) s c newOrder =
     fold (\<lambda>e acc. do { l \<leftarrow> acc;
                       if children (coms s e) \<noteq> [] then add_children n s e (l @ [e]) else Some (l @ [e]) })
       (children (coms s c)) (Some newOrder)"

definition addChildrenCommentsToList :: "comments \<Rightarrow> nat \<Rightarrow> nat list \<Rightarrow> nat list option" where
  [comment_defs]: "addChildrenCommentsToList s c newOrder = add_children (Suc (nextCom s)) s c newOrder"

definition orderTextComments :: "comments \<Rightarrow> comments option" where
  [comment_defs]: "orderTextComments s =
     do { newOrder \<leftarrow> fold (\<lambda>r acc. do { l \<leftarrow> acc;
                                      if \<not> isRootComment s r then Some l
                                      else if children (coms s r) \<noteq> [] then addChildrenCommentsToList s r (l @ [r])
                                      else Some (l @ [r]) })
                        (commentList s) (Some []);
          Some (s\<lparr>commentList := newOrder\<rparr>) }"

abbreviation anchor_key :: "comments \<Rightarrow> nat \<Rightarrow> rat \<times> rat" where
  "anchor_key s r \<equiv> (\<bar>py (com_anchor (dat s r))\<bar>, \<bar>px (com_anchor (dat s r))\<bar>)"

definition orderCommentList :: "comments \<Rightarrow> comments option" where
  [comment_defs]: "orderCommentList s =
     do { let sorted = s\<lparr>commentList := sort_key (anchor_key s) (commentList s)\<rparr>;
          ordered \<leftarrow> (if commentDocType s = Text then orderTextComments sorted else Some sorted);
          Some (updateIdIndexMap ordered) }"

section \<open>Sections of the container\<close>

definition commentSectionExists :: "comments \<Rightarrow> string \<Rightarrow> bool" where
  [comment_defs]: "commentSectionExists s n \<longleftrightarrow> n \<in> set (map fst (registry s))"

text \<open>\<open>addSection\<close> refuses a name that is in use.\<close>

definition addCommentSection :: "nat \<Rightarrow> comments \<Rightarrow> comments \<times> bool" where
  [comment_defs]: "addCommentSection r s =
     (if commentSectionExists s (section_name (dat s r)) then (s, False)
      else (s\<lparr>registry := registry s @ [(section_name (dat s r), r)]\<rparr>, True))"

text \<open>\<open>removeSection\<close> takes the first section with the name out; its \<open>onRemove\<close> takes back the selection.\<close>

definition onRemove :: "nat \<Rightarrow> comments \<Rightarrow> comments" where
  [comment_defs]: "onRemove r s = (if selectedComment s = Some r then s\<lparr>selectedComment := None\<rparr> else s)"

definition removeCommentSection :: "string \<Rightarrow> comments \<Rightarrow> comments" where
  [comment_defs]: "removeCommentSection n s =
     (case List.find (\<lambda>(m, r). m = n) (registry s) of
        None \<Rightarrow> s
      | Some (m, r) \<Rightarrow> onRemove r (s\<lparr>registry := remove1 (m, r) (registry s)\<rparr>))"

section \<open>Removing comments\<close>

definition removeItem :: "string \<Rightarrow> comments \<Rightarrow> comments" where
  [comment_defs]: "removeItem i s =
     (case List.find (\<lambda>r. com_id (dat s r) = i) (commentList s) of
        None \<Rightarrow> s
      | Some r \<Rightarrow> updateIdIndexMap ((removeCommentSection (section_name (dat s r)) s)\<lparr>commentList := remove1 r (commentList s)\<rparr>))"

text \<open>The common loop of \<open>clearList\<close> and \<open>clearChanges\<close>, from the end of the list.\<close>

definition clear_where :: "bool \<Rightarrow> comments \<Rightarrow> comments" where
  [comment_defs]: "clear_where tracked s =
     (let gone = filter (\<lambda>r. com_trackchange (dat s r) = tracked) (commentList s);
          s1 = fold (\<lambda>r. removeCommentSection (section_name (dat s r))) (rev gone) s;
          s2 = s1\<lparr>commentList := filter (\<lambda>r. com_trackchange (dat s r) \<noteq> tracked) (commentList s)\<rparr>
      in (updateIdIndexMap s2)\<lparr>selectedComment := None\<rparr>)"

definition clearAutoSaveStatus :: "comments \<Rightarrow> comments" where
  [comment_defs]: "clearAutoSaveStatus s = s\<lparr>autoSavedComment := None, commentWasAutoAdded := False\<rparr>"

definition clearChanges :: "comments \<Rightarrow> comments" where
  [comment_defs]: "clearChanges s = clear_where True s"

definition clearList :: "comments \<Rightarrow> comments" where
  [comment_defs]: "clearList s = clearAutoSaveStatus (clear_where False s)"

section \<open>Parents and children\<close>

definition set_children :: "nat \<Rightarrow> nat list \<Rightarrow> comments \<Rightarrow> comments" where
  [comment_defs]: "set_children r cs s = put_comment r ((coms s r)\<lparr>children := cs\<rparr>) s"

definition checkIfCommentHasPreAssignedChildren :: "nat \<Rightarrow> comments \<Rightarrow> comments" where
  [comment_defs]: "checkIfCommentHasPreAssignedChildren c s =
     fold (\<lambda>r t. if possibleParentCommentId (coms t r) = Some (com_id (dat t c)) \<and> r \<notin> set (children (coms t c))
                 then set_children c (children (coms t c) @ [r]) t else t)
       (commentList s) s"

definition adjustParentAdd :: "nat \<Rightarrow> comments \<Rightarrow> comments" where
  [comment_defs]: "adjustParentAdd c s =
     checkIfCommentHasPreAssignedChildren c
       (if com_parent (dat s c) = ''0'' then s
        else (case getIndexOf s (com_parent (dat s c)) of
                None \<Rightarrow> setAsRootComment c (put_comment c ((coms s c)\<lparr>possibleParentCommentId := Some (com_parent (dat s c))\<rparr>) s)
              | Some k \<Rightarrow>
                  (let p = commentList s ! k
                   in if c \<in> set (children (coms s p)) then s else set_children p (c # children (coms s p)) s)))"

text \<open>\<open>removeChildByIndex (getIndexOfChild comment)\<close> takes the first occurrence out.\<close>

definition adjustParentRemove :: "nat \<Rightarrow> comments \<Rightarrow> comments" where
  [comment_defs]: "adjustParentRemove c s =
     (let s1 = (case Option.bind (getParentCommentId s c) (getIndexOf s) of
                  None \<Rightarrow> s
                | Some k \<Rightarrow> (let p = commentList s ! k in set_children p (remove1 c (children (coms s p))) s))
      in fold setAsRootComment (children (coms s1 c)) s1)"

section \<open>Threads\<close>

text \<open>\<open>Some None\<close>: the function returns without a value.\<close>

definition isThreadResolved :: "comments \<Rightarrow> nat \<Rightarrow> bool option option" where
  [comment_defs]: "isThreadResolved s r =
     (let solved = (\<lambda>q. com_resolved (dat s q) = Some ''true'')
      in if children (coms s r) \<noteq> [] then Some (Some (list_all solved (children (coms s r))))
         else if com_parent (dat s r) = ''0'' then Some None
         else do { k \<leftarrow> getSubRootIndexOf s (com_parent (dat s r));
                   let c = commentList s ! k;
                   Some (if \<not> solved c then Some False
                         else if children (coms s c) \<noteq> [] then Some (list_all solved (children (coms s c))) else None) })"

text \<open>\<open>tracked\<close> is the state of the item \<open>.uno:ShowTrackedChanges\<close>; \<open>DELETED\<close> is 3.\<close>

definition counted_reply :: "bool \<Rightarrow> comments \<Rightarrow> nat \<Rightarrow> bool" where
  [comment_defs]: "counted_reply tracked s r \<longleftrightarrow>
     \<not> isRootComment s r \<and> (com_layoutStatus (dat s r) \<noteq> Some (Num 3) \<or> tracked) \<and> com_resolved (dat s r) \<noteq> Some ''true''"

definition reply_count :: "bool \<Rightarrow> comments \<Rightarrow> nat \<Rightarrow> nat option" where
  [comment_defs]: "reply_count tracked s k =
     (if isRootComment s (commentList s ! k)
      then do { j \<leftarrow> getLastChildIndexOf s (com_id (dat s (commentList s ! k)));
                Some (length (filter (counted_reply tracked s) (drop k (take (Suc j) (commentList s))))) }
      else Some 0)"

definition updateReplyCount :: "bool \<Rightarrow> comments \<Rightarrow> nat list option" where
  [comment_defs]: "updateReplyCount tracked s = those (map (reply_count tracked s) [0..<length (commentList s)])"

definition updateResolvedState :: "nat \<Rightarrow> comments \<Rightarrow> comments" where
  [comment_defs]: "updateResolvedState c s =
     (case getSubRootIndexOf s (com_id (dat s c)) of
        None \<Rightarrow> s
      | Some k \<Rightarrow> setData c ((dat s c)\<lparr>com_resolved := com_resolved (dat s (commentList s ! k))\<rparr>) s)"

section \<open>Selection\<close>

definition unselect :: "comments \<Rightarrow> comments option" where
  [comment_defs]: "unselect s =
     (case selectedComment s of
        None \<Rightarrow> Some s
      | Some r \<Rightarrow>
          if com_id (dat s r) = ''new'' then Some s
          else if commentsAreListed s \<and> isCollapsed s \<and> getLastChildIndexOf s (com_id (dat s r)) = None then None
          else Some (s\<lparr>selectedComment := None\<rparr>))"

text \<open>Without a root comment the code goes on with an undefined selection and, where it needs its position, throws.\<close>

definition select_root :: "nat \<Rightarrow> comments \<Rightarrow> comments option" where
  [comment_defs]: "select_root r s =
     (case getRootIndexOf s (com_id (dat s r)) of
        Some k \<Rightarrow>
          if selectedComment s = Some (commentList s ! k) then Some s
          else do { t \<leftarrow> unselect s; Some (t\<lparr>selectedComment := Some (commentList s ! k)\<rparr>) }
      | None \<Rightarrow>
          if commentDocType s = Text \<or> commentDocType s = Spreadsheet then None
          else do { t \<leftarrow> unselect s; Some (t\<lparr>selectedComment := None\<rparr>) })"

definition select_comment :: "nat \<Rightarrow> bool \<Rightarrow> comments \<Rightarrow> comments option" where
  [comment_defs]: "select_comment r force s =
     (if force \<or> \<not> pendingInit (coms s r) \<and> selectedComment s \<noteq> Some r then select_root r s else Some s)"

definition cancel :: "nat \<Rightarrow> comments \<Rightarrow> comments option" where
  [comment_defs]: "cancel r s =
     (let s1 = (if com_id (dat s r) = ''new'' then removeItem ''new'' s else s)
      in if selectedComment s1 = Some r then unselect s1 else Some s1)"

definition call_map :: "map_call list \<Rightarrow> comments \<Rightarrow> comments" where
  [comment_defs]: "call_map cs s = s\<lparr>mapCalls := mapCalls s @ cs\<rparr>"

definition in_viewed_part :: "map_call \<Rightarrow> comments \<Rightarrow> map_call list" where
  [comment_defs]: "in_viewed_part c s = (if commentFileBased s then [SetPart (viewedPart s), c, SetPart 0] else [c])"

definition save :: "nat \<Rightarrow> comments \<Rightarrow> comments option" where
  [comment_defs]: "save r s =
     unselect
       (if com_id (dat s r) = ''new''
        then (let t = call_map (in_viewed_part (Uno ''.uno:InsertAnnotation'' []) s) s
              in if autoSavedComment t = None then removeItem ''new'' t else t)
        else if com_trackchange (dat s r)
        then call_map [Uno ''.uno:CommentChangeTracking'' (drop (length ''change-'') (com_id (dat s r)))] s
        else call_map [Uno ''.uno:EditAnnotation'' (com_id (dat s r))] s)"

definition saveReply :: "nat \<Rightarrow> comments \<Rightarrow> comments option" where
  [comment_defs]: "saveReply r s =
     unselect
       (if commentDocType s = Text \<or> commentDocType s = Spreadsheet then call_map [Uno ''.uno:ReplyComment'' (com_id (dat s r))] s
        else if commentDocType s = Presentation then call_map [Uno ''.uno:ReplyToAnnotation'' (com_id (dat s r))] s
        else s)"

definition remove_request :: "string \<Rightarrow> comments \<Rightarrow> comments option" where
  [comment_defs]: "remove_request i s =
     do { r \<leftarrow> getComment s i;
          let t = put_comment r ((coms s r)\<lparr>selfRemoved := True\<rparr>) s;
          let c = Uno (case commentDocType s of
                         Text \<Rightarrow> ''.uno:DeleteComment''
                       | Spreadsheet \<Rightarrow> ''.uno:DeleteNote''
                       | _ \<Rightarrow> ''.uno:DeleteAnnotation'') i;
          unselect (call_map (in_viewed_part c t) t) }"

definition removeThread :: "string \<Rightarrow> comments \<Rightarrow> comments option" where
  [comment_defs]: "removeThread i s = unselect (call_map [Uno ''.uno:DeleteCommentThread'' i] s)"

definition resolve :: "nat \<Rightarrow> comments \<Rightarrow> comments" where
  [comment_defs]: "resolve r s = call_map [Uno ''.uno:ResolveComment'' (com_id (dat s r))] s"

definition resolveThread :: "nat \<Rightarrow> comments \<Rightarrow> comments" where
  [comment_defs]: "resolveThread r s = call_map [Uno ''.uno:ResolveCommentThread'' (com_id (dat s r))] s"

definition onRedlineAccept :: "string \<Rightarrow> comments \<Rightarrow> comments option" where
  [comment_defs]: "onRedlineAccept i s = unselect (call_map [Uno ''.uno:AcceptTrackedChange'' (drop (length ''change-'') i)] s)"

definition onRedlineReject :: "string \<Rightarrow> comments \<Rightarrow> comments option" where
  [comment_defs]: "onRedlineReject i s = unselect (call_map [Uno ''.uno:RejectTrackedChange'' (drop (length ''change-'') i)] s)"

definition onAnnotationScrollDown :: "comments \<Rightarrow> comments" where
  [comment_defs]: "onAnnotationScrollDown s =
     (let k = findNextPartWithComment s (viewedPart s) in if k \<ge> 0 then call_map [SetPart k] s else s)"

definition onAnnotationScrollUp :: "comments \<Rightarrow> comments" where
  [comment_defs]: "onAnnotationScrollUp s =
     (let k = findPreviousPartWithComment s (viewedPart s) in if k \<ge> 0 then call_map [SetPart k] s else s)"

definition selectById :: "string \<Rightarrow> comments \<Rightarrow> comments option" where
  [comment_defs]: "selectById i s =
     (case getRootIndexOf s i of None \<Rightarrow> Some s | Some k \<Rightarrow> select_comment (commentList s ! k) False s)"

definition setCollapsed :: "comments \<Rightarrow> comments option" where
  [comment_defs]: "setCollapsed s = unselect (s\<lparr>isCollapsed := True\<rparr>)"

definition setExpanded :: "comments \<Rightarrow> comments" where
  [comment_defs]: "setExpanded s = s\<lparr>isCollapsed := False\<rparr>"

text \<open>\<open>VISIBLE\<close> is 1.\<close>

definition rejectAllTrackedCommentChanges :: "comments \<Rightarrow> comments" where
  [comment_defs]: "rejectAllTrackedCommentChanges s =
     fold (\<lambda>r t. if com_layoutStatus (dat t r) = Some (Num 3) then setData r ((dat t r)\<lparr>com_layoutStatus := Some (Num 1)\<rparr>) t else t)
       (commentList s) s"

text \<open>
  \<open>hide\<close> removes a comment that is not yet saved; in a spreadsheet it takes back the selection. \<open>show\<close> ends the edit mode,
  in a presentation only on the part that is viewed, and in a spreadsheet selects the comment.
\<close>

definition hide :: "nat \<Rightarrow> comments \<Rightarrow> comments" where
  [comment_defs]: "hide r s =
     (if com_edit (coms s r) then s
      else if com_id (dat s r) = ''new'' then removeItem ''new'' s
      else if commentDocType s = Spreadsheet \<and> selectedComment s = Some r then s\<lparr>selectedComment := None\<rparr>
      else s)"

definition show_comment :: "nat \<Rightarrow> comments \<Rightarrow> comments option" where
  [comment_defs]: "show_comment r s =
     (let t = put_comment r ((coms s r)\<lparr>pendingInit := False\<rparr>) s;
          ended = put_comment r ((coms t r)\<lparr>com_edit := False\<rparr>) t
      in if commentWasAutoAdded t then Some t
         else if commentDocType t = Text then Some ended
         else if commentDocType t = Presentation \<or> commentDocType t = Drawing
         then Some (if partIndex (coms t r) = Some (viewedPart t) then ended else t)
         else if isMobile t then Some ended
         else select_comment r False ended)"

text \<open>A loop over the list reads it anew in every round: a comment may be removed on the way.\<close>

definition each_comment :: "(nat \<Rightarrow> comments \<Rightarrow> comments option) \<Rightarrow> comments \<Rightarrow> comments option" where
  [comment_defs]: "each_comment f s =
     fold (\<lambda>k acc. do { t \<leftarrow> acc; if k < length (commentList t) then f (commentList t ! k) t else Some t })
       [0..<length (commentList s)] (Some s)"

definition unselect_if :: "nat \<Rightarrow> comments \<Rightarrow> comments option" where
  [comment_defs]: "unselect_if r s = (if selectedComment s = Some r then unselect s else Some s)"

definition setViewResolved :: "bool \<Rightarrow> comments \<Rightarrow> comments option" where
  [comment_defs]: "setViewResolved state s =
     each_comment (\<lambda>r t. if com_resolved (dat t r) \<noteq> Some ''true'' then Some t
                         else if state then show_comment r t
                         else map_option (hide r) (unselect_if r t))
       (s\<lparr>showResolved := state\<rparr>)"

definition showHideComment :: "nat \<Rightarrow> comments \<Rightarrow> comments option" where
  [comment_defs]: "showHideComment r s =
     (if \<not> showResolved s \<and> commentDocType s = Text
      then (if isContainerVisible s r \<and> com_resolved (dat s r) = Some ''true'' then map_option (hide r) (unselect_if r s)
            else if \<not> isContainerVisible s r \<and> com_resolved (dat s r) = Some ''false'' then show_comment r s
            else Some s)
      else if commentDocType s = Presentation \<or> commentDocType s = Drawing
      then (if partIndex (coms s r) = Some (viewedPart s) \<or> commentFileBased s
            then (if isContainerVisible s r then Some s else show_comment r s)
            else Some (hide r s))
      else Some s)"

definition showHideComments :: "comments \<Rightarrow> comments option" where
  [comment_defs]: "showHideComments s = each_comment showHideComment s"

definition onPartChange :: "comments \<Rightarrow> comments option" where
  [comment_defs]: "onPartChange s =
     do { t \<leftarrow> showHideComments s;
          case selectedComment t of None \<Rightarrow> Some t | Some r \<Rightarrow> cancel r t }"

section \<open>Adding comments\<close>

text \<open>
  The constructor. \<open>pendingInit\<close> is as the section's initialization leaves it: \<open>inView\<close> says whether the comment
  is in view when it is added.
\<close>

definition new_comment :: "comments \<Rightarrow> comment_data \<Rightarrow> comment" where
  [comment_defs]: "new_comment s d =
     \<lparr>com_data = d, children = [], possibleParentCommentId = None,
      partIndex = (if commentDocType s = Presentation \<or> commentDocType s = Drawing
                   then Some (index_of (com_parthash d) (partHashes s)) else None),
      pendingInit = True, com_edit = False, selfRemoved = False\<rparr>"

definition allocate :: "comment_data \<Rightarrow> comments \<Rightarrow> comments" where
  [comment_defs]: "allocate d s = (put_comment (nextCom s) (new_comment s d) s)\<lparr>nextCom := Suc (nextCom s)\<rparr>"

definition initialize_comment :: "nat \<Rightarrow> bool \<Rightarrow> comments \<Rightarrow> comments" where
  [comment_defs]: "initialize_comment r inView s =
     (if inView then put_comment r ((coms s r)\<lparr>pendingInit := False\<rparr>) s else s)"

definition enter_section :: "nat \<Rightarrow> bool \<Rightarrow> comments \<Rightarrow> comments \<times> bool" where
  [comment_defs]: "enter_section r inView s =
     (case addCommentSection r s of
        (t, added) \<Rightarrow> ((if added then initialize_comment r inView t else t), added))"

text \<open>As in the code, an existing section with the name is looked for, but the name is given to \<open>removeItem\<close>.\<close>

definition addComment :: "bool \<Rightarrow> comment_data \<Rightarrow> comments \<Rightarrow> (comments \<times> nat) option" where
  [comment_defs]: "addComment inView d s =
     (let r = nextCom s;
          s1 = allocate d s;
          s2 = (if commentSectionExists s1 (section_name d) then removeItem (section_name d) s1 else s1);
          s3 = fst (enter_section r inView s2);
          s4 = adjustParentAdd r (s3\<lparr>commentList := commentList s3 @ [r]\<rparr>)
      in do { s5 \<leftarrow> orderCommentList s4;
              s6 \<leftarrow> (if com_id (dat s5 r) \<noteq> ''new'' \<and> viewName s5 = com_author (dat s5 r)
                     then select_comment r False s5 else Some s5);
              Some (s6, r) })"

definition edit_comment :: "nat \<Rightarrow> comments \<Rightarrow> comments" where
  [comment_defs]: "edit_comment r s = put_comment r ((coms s r)\<lparr>pendingInit := False, com_edit := True\<rparr>) s"

definition isAnyEdit :: "comments \<Rightarrow> nat option" where
  [comment_defs]: "isAnyEdit s = List.find (\<lambda>r. com_edit (coms s r)) (commentList s)"

text \<open>\<open>newAnnotation\<close> adds the comment and has it modified: it is put into edit mode and selected.\<close>

definition newAnnotation :: "bool \<Rightarrow> comment_data \<Rightarrow> comments \<Rightarrow> comments option" where
  [comment_defs]: "newAnnotation inView d s =
     do { (t, r) \<leftarrow> addComment inView d s;
          if isAnyEdit t \<noteq> None then Some t else select_comment r True (edit_comment r t) }"

section \<open>Messages of the server\<close>

text \<open>What follows when a new comment is the one that was saved automatically.\<close>

definition adopt_autosaved :: "nat \<Rightarrow> comments \<Rightarrow> comments" where
  [comment_defs]: "adopt_autosaved r s =
     (case autoSavedComment s of
        None \<Rightarrow> s
      | Some a \<Rightarrow>
          if com_author (dat s a) \<noteq> com_author (dat s r) then s
          else (let t = edit_comment r s;
                    u = (if com_id (dat t a) = ''new'' then removeItem ''new'' t else t)
                in u\<lparr>autoSavedComment := None, commentWasAutoAdded := True\<rparr>))"

definition message_id :: "comment_msg \<Rightarrow> string" where
  [comment_defs]: "message_id m = (if m_redline m then ''change-'' @ m_index m else m_id m)"

text \<open>The new data of \<open>Modify\<close> and \<open>Resolve\<close>.\<close>

definition new_data :: "comments \<Rightarrow> comment_msg \<Rightarrow> comment_data option option" where
  [comment_defs]: "new_data s m =
     (if m_redline m then adjustRedLine m else map_option Some (adjustComment s (ack_parent m)))"

text \<open>The result of an action: \<open>True\<close> with the new state where the handler goes on, \<open>False\<close> where it returns.\<close>

definition ack_add :: "bool \<Rightarrow> comment_msg \<Rightarrow> comments \<Rightarrow> (comments \<times> bool) option" where
  [comment_defs]: "ack_add inView m s =
     (if m_redline m
      then do { d \<leftarrow> adjustRedLine m;
                case d of
                  None \<Rightarrow> Some (s, False)
                | Some d \<Rightarrow> do { (t, r) \<leftarrow> addComment inView d s; Some (t, True) } }
      else (case getComment s (m_id m) of
              Some r \<Rightarrow>
                Some ((case m_layoutStatus m of
                         None \<Rightarrow> s
                       | Some l \<Rightarrow> setData r ((dat s r)\<lparr>com_layoutStatus := Some (parseInt l)\<rparr>) s), False)
            | None \<Rightarrow>
                do { d \<leftarrow> adjustComment s (ack_parent m);
                     (t, r) \<leftarrow> addComment inView d s;
                     Some (adopt_autosaved r (if commentDocType t = Spreadsheet then hide r t else t), True) }))"

definition ack_remove :: "comment_msg \<Rightarrow> comments \<Rightarrow> comments option" where
  [comment_defs]: "ack_remove m s =
     (case getComment s (message_id m) of
        None \<Rightarrow> Some s
      | Some r \<Rightarrow>
          (let s1 = adjustParentRemove r s
           in do { t \<leftarrow> (if selectedComment s1 = Some r then unselect s1 else Some s1);
                   Some (removeItem (message_id m) t) }))"

text \<open>\<open>INSERTED\<close> is 2, \<open>DELETED\<close> is 3; an inserted comment is removed by running the handler again with \<open>Remove\<close>.\<close>

definition ack_redlined_deletion :: "comment_msg \<Rightarrow> comments \<Rightarrow> comments option" where
  [comment_defs]: "ack_redlined_deletion m s =
     (case getComment s (message_id m) of
        None \<Rightarrow> Some s
      | Some r \<Rightarrow>
          if com_layoutStatus (dat s r) = Some (Num 2) then ack_remove m s
          else Some (setData r ((dat s r)\<lparr>com_layoutStatus := Some (Num 3)\<rparr>) s))"

definition ack_modify :: "comment_msg \<Rightarrow> comments \<Rightarrow> (comments \<times> bool) option" where
  [comment_defs]: "ack_modify m s =
     (case getComment s (message_id m) of
        None \<Rightarrow> Some (s, True)
      | Some r \<Rightarrow>
          do { nd \<leftarrow> new_data s m;
               case nd of
                 None \<Rightarrow> Some (s, False)
               | Some d \<Rightarrow> Some ((let t = setData r d s in if autoSavedComment t = None then t else edit_comment r t), True) })"

definition ack_resolve :: "comment_msg \<Rightarrow> comments \<Rightarrow> (comments \<times> bool) option" where
  [comment_defs]: "ack_resolve m s =
     (case getComment s (message_id m) of
        None \<Rightarrow> Some (s, True)
      | Some r \<Rightarrow>
          do { nd \<leftarrow> new_data s m;
               case nd of
                 None \<Rightarrow> Some (s, False)
               | Some d \<Rightarrow> do { t \<leftarrow> showHideComment r (setData r d s); Some (t, True) } })"

definition ack_action :: "bool \<Rightarrow> comment_msg \<Rightarrow> comments \<Rightarrow> (comments \<times> bool) option" where
  [comment_defs]: "ack_action inView m s =
     (if m_action m = ''Add'' then ack_add inView m s
      else if m_action m = ''Remove'' then map_option (\<lambda>t. (t, True)) (ack_remove m s)
      else if m_action m = ''RedlinedDeletion'' then map_option (\<lambda>t. (t, True)) (ack_redlined_deletion m s)
      else if m_action m = ''Modify'' then ack_modify m s
      else if m_action m = ''Resolve'' then ack_resolve m s
      else Some (s, True))"

text \<open>The end of the handler: on a mobile device it reads the author of \<open>obj.comment\<close>, which a redline does not have.\<close>

definition ack_finish :: "bool \<Rightarrow> bool \<Rightarrow> comment_msg \<Rightarrow> comments \<Rightarrow> comments option" where
  [comment_defs]: "ack_finish mobile tracked m s =
     (if mobile \<and> m_redline m then None
      else if commentDocType s = Text
      then do { _ \<leftarrow> updateReplyCount tracked s; Some (s\<lparr>pendingImport := False\<rparr>) }
      else Some (s\<lparr>pendingImport := False\<rparr>))"

text \<open>
  While a comment is edited, the handler compares its id with \<open>obj.comment.id\<close>: a redline has no \<open>comment\<close>.
  A message about the edited comment itself is left to a dialog.
\<close>

definition onACKComment :: "bool \<Rightarrow> bool \<Rightarrow> comment_msg \<Rightarrow> comments \<Rightarrow> comments option" where
  [comment_defs]: "onACKComment inView tracked m s =
     (let edited = (case isAnyEdit s of None \<Rightarrow> None | Some e \<Rightarrow> if selfRemoved (coms s e) then None else Some e);
          go_on = do { (t, continue) \<leftarrow> ack_action inView m s; if continue then ack_finish (isMobile s) tracked m t else Some t }
      in case edited of
           None \<Rightarrow> go_on
         | Some e \<Rightarrow>
             if m_redline m then None
             else if com_id (dat s e) = m_id m \<and> autoSavedComment s \<noteq> Some e then Some s
             else go_on)"

text \<open>The answer to the dialog of a conflict: the edit is given up and the message handled.\<close>

definition overWriteCommentChanges :: "bool \<Rightarrow> bool \<Rightarrow> comment_msg \<Rightarrow> nat \<Rightarrow> comments \<Rightarrow> comments option" where
  [comment_defs]: "overWriteCommentChanges inView tracked m e s =
     do { let t = clearAutoSaveStatus s;
          u \<leftarrow> (if commentDocType t = Spreadsheet then Some t else show_comment e t);
          v \<leftarrow> cancel e u;
          onACKComment inView tracked m v }"

section \<open>Importing comments\<close>

text \<open>
  \<open>addUpdateChildGroups\<close>: the parents' ids in the order they are first met, then for each the first comment with the
  id. \<open>parentComment\<close> is one variable of the whole function and keeps its value when no comment has the id.
\<close>

definition parent_ids :: "comments \<Rightarrow> string list" where
  [comment_defs]: "parent_ids s =
     fold (\<lambda>r ps. if isRootComment s r \<or> com_parent (dat s r) \<in> set ps then ps else ps @ [com_parent (dat s r)]) (commentList s) []"

definition attach_group :: "string \<Rightarrow> comments \<times> nat option \<Rightarrow> comments \<times> nat option" where
  [comment_defs]: "attach_group p = (\<lambda>(s, parentComment).
     (let found = List.find (\<lambda>r. com_id (dat s r) = p) (commentList s);
          parentComment' = (case found of Some r \<Rightarrow> Some r | None \<Rightarrow> parentComment)
      in case parentComment' of
           None \<Rightarrow> (s, None)
         | Some c \<Rightarrow>
             (set_children c (children (coms s c) @ filter (\<lambda>r. com_parent (dat s r) = p) (commentList s)) s, Some c)))"

definition addUpdateChildGroups :: "comments \<Rightarrow> comments" where
  [comment_defs]: "addUpdateChildGroups s =
     (let s1 = fold (\<lambda>r. set_children r []) (commentList s) s
      in fst (fold attach_group (parent_ids s) (s1, None)))"

text \<open>The \<open>k\<close>th message of an import: \<open>commentList[k]\<close> need not be the comment just added; where it does not exist
  the code throws.\<close>

definition import_one :: "bool \<Rightarrow> nat \<Rightarrow> comment_data \<Rightarrow> comments \<Rightarrow> comments option" where
  [comment_defs]: "import_one inView k d s =
     (let r = nextCom s
      in case enter_section r inView (allocate d s) of
           (t, False) \<Rightarrow> Some t
         | (t, True) \<Rightarrow>
             (let u = t\<lparr>commentList := commentList t @ [r], idIndexMap := (idIndexMap t)(com_id d \<mapsto> k)\<rparr>
              in if k < length (commentList u) then Some (updateResolvedState (commentList u ! k) u) else None))"

fun import_loop :: "nat \<Rightarrow> (bool \<times> comment_msg) list \<Rightarrow> comments \<Rightarrow> comments option" where
  "import_loop k [] s = Some s"
| "import_loop k ((inView, m) # ms) s =
     do { d \<leftarrow> adjustComment s m; t \<leftarrow> import_one inView k d s; import_loop (Suc k) ms t }"

definition importComments :: "(bool \<times> comment_msg) list \<Rightarrow> comments \<Rightarrow> comments option" where
  [comment_defs]: "importComments ms s =
     (if isAnyEdit s \<noteq> None then Some (s\<lparr>pendingImport := True\<rparr>)
      else (let s1 = clearList s
            in if ms = [] then Some s1
               else do { s2 \<leftarrow> import_loop 0 ms s1;
                         orderCommentList (if commentDocType s2 = Text then addUpdateChildGroups s2 else s2) }))"

fun import_changes_loop :: "(bool \<times> comment_msg) list \<Rightarrow> comments \<Rightarrow> comments option" where
  "import_changes_loop [] s = Some s"
| "import_changes_loop ((inView, m) # ms) s =
     do { d \<leftarrow> adjustRedLine m;
          case d of
            None \<Rightarrow> import_changes_loop ms s
          | Some d \<Rightarrow>
              (let r = nextCom s
               in case enter_section r inView (allocate d s) of
                    (t, False) \<Rightarrow> import_changes_loop ms t
                  | (t, True) \<Rightarrow> import_changes_loop ms (t\<lparr>commentList := commentList t @ [r]\<rparr>)) }"

definition importChanges :: "(bool \<times> comment_msg) list \<Rightarrow> comments \<Rightarrow> comments option" where
  [comment_defs]: "importChanges ms s =
     (let s1 = clearChanges s
      in if ms = [] then Some s1 else do { s2 \<leftarrow> import_changes_loop ms s1; orderCommentList s2 })"

end
