(* ===== verification/Comment_Threads.thy ===== *)
theory Comment_Threads
  imports Comments
begin

text \<open>
  The order of the comments of a text document: a thread is a comment with the replies below it. \<open>threads_ok\<close> is the
  well-formedness of the list that \<open>orderCommentList\<close> relies on: the \<open>children\<close> of a comment are exactly the comments
  that name it as their parent. Under it the ordered list holds every comment once, each directly followed by its whole
  thread, and the functions that look for the root, the last reply and the number of replies find the right ones.
\<close>

section \<open>Well-formed threads\<close>

abbreviation listed :: "comments \<Rightarrow> nat set" where
  "listed s \<equiv> set (commentList s)"

abbreviation cid :: "comments \<Rightarrow> nat \<Rightarrow> string" where
  "cid s r \<equiv> com_id (dat s r)"

abbreviation par :: "comments \<Rightarrow> nat \<Rightarrow> string" where
  "par s r \<equiv> com_parent (dat s r)"

abbreviation kids :: "comments \<Rightarrow> nat \<Rightarrow> nat list" where
  "kids s r \<equiv> children (coms s r)"

definition thread_rel :: "comments \<Rightarrow> (nat \<times> nat) set" where
  "thread_rel s = {(p, q). p \<in> listed s \<and> q \<in> listed s \<and> par s q = cid s p}"

definition node_ok :: "comments \<Rightarrow> nat \<Rightarrow> bool" where
  "node_ok s r \<longleftrightarrow> r < nextCom s \<and> cid s r \<noteq> ''0'' \<and> distinct (kids s r) \<and>
     set (kids s r) = {q \<in> listed s. par s q = cid s r} \<and> (isRootComment s r \<or> par s r \<in> cid s ` listed s)"

definition threads_ok :: "comments \<Rightarrow> bool" where
  "threads_ok s \<longleftrightarrow> distinct (commentList s) \<and> inj_on (cid s) (listed s) \<and> (\<forall>r \<in> listed s. node_ok s r) \<and>
     acyclic (thread_rel s)"

lemma threads_okD:
  assumes "threads_ok s"
  shows "distinct (commentList s)" "inj_on (cid s) (listed s)" "acyclic (thread_rel s)"
    "r \<in> listed s \<Longrightarrow> r < nextCom s" "r \<in> listed s \<Longrightarrow> cid s r \<noteq> ''0''" "r \<in> listed s \<Longrightarrow> distinct (kids s r)"
    "r \<in> listed s \<Longrightarrow> set (kids s r) = {q. (r, q) \<in> thread_rel s}"
    "r \<in> listed s \<Longrightarrow> \<not> isRootComment s r \<Longrightarrow> \<exists>p. (p, r) \<in> thread_rel s"
  using assms unfolding threads_ok_def node_ok_def thread_rel_def by fastforce+

lemma thread_rel_listed: "(p, q) \<in> thread_rel s \<Longrightarrow> p \<in> listed s \<and> q \<in> listed s"
  by (simp add: thread_rel_def)

lemma finite_thread_rel [simp]: "finite (thread_rel s)"
  by (rule finite_subset [of _ "listed s \<times> listed s"]) (auto simp: thread_rel_def)

lemma thread_rel_rtrancl_listed: "(p, q) \<in> (thread_rel s)\<^sup>* \<Longrightarrow> p \<in> listed s \<Longrightarrow> q \<in> listed s"
  by (induction rule: rtrancl_induct) (auto dest: thread_rel_listed)

lemma thread_rel_rtrancl_listed': "(p, q) \<in> (thread_rel s)\<^sup>* \<Longrightarrow> q \<in> listed s \<Longrightarrow> p \<in> listed s"
  by (induction rule: converse_rtrancl_induct) (auto dest: thread_rel_listed)

lemma wf_threads:
  assumes "threads_ok s" shows "wf (thread_rel s)" "wf ((thread_rel s)\<inverse>)"
  using assms by (simp_all add: threads_okD(3) finite_acyclic_wf finite_acyclic_wf_converse)

lemma parent_unique:
  assumes "threads_ok s" "(p, q) \<in> thread_rel s" "(p', q) \<in> thread_rel s" shows "p = p'"
  using assms threads_okD(2) [OF assms(1)] by (auto simp: thread_rel_def inj_on_def)

lemma root_no_parent:
  assumes "threads_ok s" "isRootComment s r" shows "(p, r) \<notin> thread_rel s"
  using assms(2) threads_okD(5) [OF assms(1), of p] by (auto simp: thread_rel_def isRootComment_def)

lemma ancestors_chain:
  assumes "threads_ok s" "(p, q) \<in> (thread_rel s)\<^sup>*" "(p', q) \<in> (thread_rel s)\<^sup>*"
  shows "(p, p') \<in> (thread_rel s)\<^sup>* \<or> (p', p) \<in> (thread_rel s)\<^sup>*"
  using assms(2,3)
proof (induction rule: rtrancl_induct)
  case base then show ?case by blast
next
  case (step x y)
  show ?case
  proof (cases "p' = y")
    case True then show ?thesis using step.hyps by (meson rtrancl.rtrancl_into_rtrancl)
  next
    case False
    then obtain x' where "(p', x') \<in> (thread_rel s)\<^sup>*" "(x', y) \<in> thread_rel s"
      using step.prems by (meson rtranclE)
    then show ?thesis using step.IH step.hyps(2) parent_unique [OF assms(1)] by blast
  qed
qed

lemma siblings_apart:
  assumes "threads_ok s" "(c, e1) \<in> thread_rel s" "(c, e2) \<in> thread_rel s" "e1 \<noteq> e2"
    and "(e1, q) \<in> (thread_rel s)\<^sup>*" "(e2, q) \<in> (thread_rel s)\<^sup>*"
  shows False
proof -
  have no: False if ca: "(c, a) \<in> thread_rel s" and cb: "(c, b) \<in> thread_rel s" and ab: "a \<noteq> b" "(a, b) \<in> (thread_rel s)\<^sup>*" for a b
  proof -
    obtain x where "(a, x) \<in> (thread_rel s)\<^sup>*" "(x, b) \<in> thread_rel s" using ab by (meson rtranclE)
    then have "(a, c) \<in> (thread_rel s)\<^sup>*" using parent_unique [OF assms(1)] cb by metis
    then have "(c, c) \<in> (thread_rel s)\<^sup>+" using ca by (meson rtrancl_into_trancl2)
    then show False using threads_okD(3) [OF assms(1)] by (auto simp: acyclic_def)
  qed
  show False using ancestors_chain [OF assms(1,5,6)] no [OF assms(2,3,4)] no [OF assms(3,2)] assms(4) by auto
qed

lemma roots_apart:
  assumes "threads_ok s" "isRootComment s r" "isRootComment s r'"
    and "(r, q) \<in> (thread_rel s)\<^sup>*" "(r', q) \<in> (thread_rel s)\<^sup>*"
  shows "r = r'"
proof -
  have top: "a = b" if "(a, b) \<in> (thread_rel s)\<^sup>*" "isRootComment s b" for a b
    using that root_no_parent [OF assms(1)] by (meson rtranclE)
  show ?thesis using ancestors_chain [OF assms(1,4,5)] top assms(2,3) by metis
qed

lemma has_root:
  assumes "threads_ok s" "q \<in> listed s"
  shows "\<exists>r \<in> listed s. isRootComment s r \<and> (r, q) \<in> (thread_rel s)\<^sup>*"
  using wf_threads(1) [OF assms(1)] assms(2)
proof (induction q rule: wf_induct_rule)
  case (less q)
  show ?case
  proof (cases "isRootComment s q")
    case True then show ?thesis using less.prems by blast
  next
    case False
    then obtain p where "(p, q) \<in> thread_rel s" using threads_okD(8) [OF assms(1) less.prems] by blast
    then show ?thesis using less.IH [of p] thread_rel_listed by (meson rtrancl.rtrancl_into_rtrancl)
  qed
qed

section \<open>A thread as a list\<close>

primrec thread_upto :: "nat \<Rightarrow> comments \<Rightarrow> nat \<Rightarrow> nat list" where
  "thread_upto 0 s r = [r]"
| "thread_upto (Suc n) s r = r # concat (map (thread_upto n s) (kids s r))"

definition depth :: "comments \<Rightarrow> nat \<Rightarrow> nat" where
  "depth s q = card {p. (p, q) \<in> (thread_rel s)\<^sup>+}"

lemma depth_bound:
  assumes "threads_ok s" "q \<in> listed s" shows "depth s q < nextCom s"
proof -
  have "{p. (p, q) \<in> (thread_rel s)\<^sup>+} \<subseteq> {..<nextCom s} - {q}"
    using assms threads_okD(3,4) [OF assms(1)]
    by (auto simp: acyclic_def) (metis thread_rel_listed tranclD)
  then have "depth s q \<le> card ({..<nextCom s} - {q})" unfolding depth_def by (intro card_mono) auto
  then show ?thesis using threads_okD(4) [OF assms] by simp
qed

lemma depth_mono:
  assumes "threads_ok s" "(p, q) \<in> thread_rel s" shows "depth s p < depth s q"
proof -
  have "{x. (x, q) \<in> (thread_rel s)\<^sup>+} \<subseteq> fst ` thread_rel s"
    by (auto dest!: tranclD) (metis fst_conv image_eqI)
  then have "finite {x. (x, q) \<in> (thread_rel s)\<^sup>+}"
    by (rule finite_subset) simp
  moreover have "{x. (x, p) \<in> (thread_rel s)\<^sup>+} \<subset> {x. (x, q) \<in> (thread_rel s)\<^sup>+}"
    using assms threads_okD(3) [OF assms(1)] by (auto simp: acyclic_def intro: trancl_into_trancl)
  ultimately show ?thesis unfolding depth_def by (rule psubset_card_mono)
qed

lemma kid_depth:
  assumes "threads_ok s" "r \<in> listed s" "e \<in> set (kids s r)"
  shows "e \<in> listed s" "depth s r < depth s e" "(r, e) \<in> thread_rel s"
proof -
  show "(r, e) \<in> thread_rel s" using threads_okD(7) [OF assms(1,2)] assms(3) by blast
  then show "e \<in> listed s" "depth s r < depth s e" using thread_rel_listed depth_mono [OF assms(1)] by blast+
qed

lemma thread_upto_enough:
  assumes "threads_ok s"
  shows "r \<in> listed s \<Longrightarrow> nextCom s - depth s r \<le> n \<Longrightarrow> thread_upto (Suc n) s r = thread_upto n s r"
proof (induction n arbitrary: r)
  case 0 then show ?case using depth_bound [OF assms, of r] by simp
next
  case (Suc n)
  have "thread_upto (Suc n) s e = thread_upto n s e" if "e \<in> set (kids s r)" for e
    using kid_depth [OF assms Suc.prems(1) that] Suc.prems(2) by (intro Suc.IH) linarith+
  then have "map (thread_upto (Suc n) s) (kids s r) = map (thread_upto n s) (kids s r)" by (intro map_cong) auto
  then show ?case by (simp only: thread_upto.simps(2))
qed

definition thread :: "comments \<Rightarrow> nat \<Rightarrow> nat list" where
  "thread s r = thread_upto (nextCom s) s r"

lemma thread_unfold:
  assumes "threads_ok s" "r \<in> listed s"
  shows "thread s r = r # concat (map (thread s) (kids s r))"
proof -
  obtain n where n: "nextCom s = Suc n" using threads_okD(4) [OF assms] by (cases "nextCom s") auto
  have "thread_upto (Suc n) s e = thread_upto n s e" if "e \<in> set (kids s r)" for e
    using kid_depth [OF assms that] n by (intro thread_upto_enough [OF assms(1)]) linarith+
  then have "map (thread s) (kids s r) = map (thread_upto n s) (kids s r)" unfolding thread_def n by (intro map_cong) auto
  then show ?thesis by (simp only: thread_def [of s r] n thread_upto.simps(2))
qed

lemma fold_bind_append:
  assumes "\<And>e l. e \<in> set es \<Longrightarrow> f e l = Some (l @ g e)"
  shows "fold (\<lambda>e acc. Option.bind acc (f e)) es (Some l) = Some (l @ concat (map g es))"
  using assms by (induction es arbitrary: l) auto

lemma thread_upto_leaf: "kids s r = [] \<Longrightarrow> thread_upto n s r = [r]"
  by (cases n) simp_all

lemma add_children_thread:
  assumes "threads_ok s"
  shows "c \<in> listed s \<Longrightarrow> nextCom s - depth s c \<le> n \<Longrightarrow> add_children n s c l = Some (l @ tl (thread_upto n s c))"
proof (induction n arbitrary: c l)
  case 0 then show ?case using depth_bound [OF assms, of c] by simp
next
  case (Suc n)
  have cons: "thread_upto n s e = e # tl (thread_upto n s e)" for e by (cases n) simp_all
  have step: "(if kids s e \<noteq> [] then add_children n s e (l @ [e]) else Some (l @ [e])) = Some (l @ thread_upto n s e)"
    if "e \<in> set (kids s c)" for e l
  proof (cases "kids s e = []")
    case False
    have "add_children n s e (l @ [e]) = Some ((l @ [e]) @ tl (thread_upto n s e))"
      using kid_depth [OF assms Suc.prems(1) that] Suc.prems(2) by (intro Suc.IH) linarith+
    then show ?thesis using cons [of e] False by simp
  qed (simp add: thread_upto_leaf)
  show ?case
    using fold_bind_append [of "kids s c" "\<lambda>e l. if kids s e \<noteq> [] then add_children n s e (l @ [e]) else Some (l @ [e])"
        "thread_upto n s" l, OF step] by simp
qed

lemma addChildrenCommentsToList_thread:
  assumes "threads_ok s" "c \<in> listed s"
  shows "addChildrenCommentsToList s c (l @ [c]) = Some (l @ thread s c)"
proof -
  have "add_children (Suc (nextCom s)) s c (l @ [c]) = Some ((l @ [c]) @ tl (thread_upto (Suc (nextCom s)) s c))"
    using assms by (intro add_children_thread) simp_all
  moreover have "thread_upto (Suc (nextCom s)) s c = thread s c"
    unfolding thread_def using assms by (intro thread_upto_enough) simp_all
  moreover have "thread s c = c # tl (thread s c)" using thread_unfold [OF assms] by simp
  ultimately show ?thesis by (simp add: addChildrenCommentsToList_def)
qed

section \<open>What a thread holds\<close>

lemma thread_set:
  assumes "threads_ok s" "r \<in> listed s"
  shows "set (thread s r) = {q. (r, q) \<in> (thread_rel s)\<^sup>*}"
  using wf_threads(2) [OF assms(1)] assms(2)
proof (induction r rule: wf_induct_rule)
  case (less r)
  have k: "set (thread s e) = {q. (e, q) \<in> (thread_rel s)\<^sup>*}" if "e \<in> set (kids s r)" for e
    using less.IH kid_depth [OF assms(1) less.prems that] by simp
  have "set (thread s r) = insert r (\<Union>e \<in> set (kids s r). {q. (e, q) \<in> (thread_rel s)\<^sup>*})"
    using thread_unfold [OF assms(1) less.prems] k by simp
  also have "\<dots> = {q. (r, q) \<in> (thread_rel s)\<^sup>*}"
    using threads_okD(7) [OF assms(1) less.prems] by (auto elim: converse_rtranclE intro: converse_rtrancl_into_rtrancl)
  finally show ?case .
qed

lemma distinct_concat_map:
  "distinct xs \<Longrightarrow> (\<And>x. x \<in> set xs \<Longrightarrow> distinct (f x)) \<Longrightarrow>
   (\<And>x y. x \<in> set xs \<Longrightarrow> y \<in> set xs \<Longrightarrow> x \<noteq> y \<Longrightarrow> set (f x) \<inter> set (f y) = {}) \<Longrightarrow> distinct (concat (map f xs))"
  by (induction xs) fastforce+

lemma thread_distinct:
  assumes "threads_ok s" "r \<in> listed s"
  shows "distinct (thread s r)"
  using wf_threads(2) [OF assms(1)] assms(2)
proof (induction r rule: wf_induct_rule)
  case (less r)
  note kd = kid_depth [OF assms(1) less.prems]
  have "distinct (concat (map (thread s) (kids s r)))"
  proof (rule distinct_concat_map)
    show "distinct (kids s r)" using threads_okD(6) [OF assms(1) less.prems] .
    show "distinct (thread s e)" if "e \<in> set (kids s r)" for e using less.IH kd [OF that] by simp
    show "set (thread s e) \<inter> set (thread s e') = {}" if "e \<in> set (kids s r)" "e' \<in> set (kids s r)" "e \<noteq> e'" for e e'
      using thread_set [OF assms(1)] siblings_apart [OF assms(1) kd(3) [OF that(1)] kd(3) [OF that(2)] that(3)]
        kd(1) [OF that(1)] kd(1) [OF that(2)] by auto
  qed
  moreover have "r \<notin> set (thread s e)" if "e \<in> set (kids s r)" for e
  proof
    assume "r \<in> set (thread s e)"
    then have "(e, r) \<in> (thread_rel s)\<^sup>*" using thread_set [OF assms(1) kd(1) [OF that]] by simp
    then have "(r, r) \<in> (thread_rel s)\<^sup>+" using kd(3) [OF that] by (meson rtrancl_into_trancl2)
    then show False using threads_okD(3) [OF assms(1)] by (simp add: acyclic_def)
  qed
  ultimately show ?case using thread_unfold [OF assms(1) less.prems] by simp
qed

lemma concat_map_split: "x \<in> set xs \<Longrightarrow> \<exists>us vs. concat (map f xs) = us @ f x @ vs"
  by (metis (no_types) append.assoc concat.simps(2) concat_append list.map(2) map_append split_list)

lemma thread_contiguous:
  assumes "threads_ok s" "(r, q) \<in> (thread_rel s)\<^sup>*" "r \<in> listed s"
  shows "\<exists>us vs. thread s r = us @ thread s q @ vs"
  using assms(2,3)
proof (induction rule: converse_rtrancl_induct)
  case base show ?case by (metis append_Nil append_Nil2)
next
  case (step r e)
  then have e: "e \<in> set (kids s r)" using threads_okD(7) [OF assms(1) step.prems] by simp
  obtain us vs where "thread s e = us @ thread s q @ vs"
    using step.IH kid_depth(1) [OF assms(1) step.prems e] by blast
  moreover obtain us' vs' where "concat (map (thread s) (kids s r)) = us' @ thread s e @ vs'"
    using concat_map_split [OF e] by blast
  ultimately have "thread s r = (r # us' @ us) @ thread s q @ (vs @ vs')"
    using thread_unfold [OF assms(1) step.prems] by simp
  then show ?case by blast
qed

section \<open>The ordered list\<close>

abbreviation sorted_roots :: "comments \<Rightarrow> nat list" where
  "sorted_roots s \<equiv> filter (isRootComment s) (sort_key (anchor_key s) (commentList s))"

definition thread_order :: "comments \<Rightarrow> nat list" where
  "thread_order s = concat (map (thread s) (sorted_roots s))"

definition index_ok :: "comments \<Rightarrow> bool" where
  "index_ok s \<longleftrightarrow> idIndexMap s = index_map (ids s)"

lemma thread_upto_same_store: "coms t = coms s \<Longrightarrow> thread_upto n t r = thread_upto n s r"
  by (induction n arbitrary: r) (simp_all cong: map_cong)

lemma threads_ok_relist:
  assumes "threads_ok s" "set l = listed s" "distinct l"
  shows "threads_ok (s\<lparr>commentList := l, idIndexMap := m\<rparr>)"
proof -
  have "thread_rel (s\<lparr>commentList := l, idIndexMap := m\<rparr>) = thread_rel s"
    using assms(2) by (simp add: thread_rel_def)
  then show ?thesis using assms unfolding threads_ok_def node_ok_def by (simp add: isRootComment_def)
qed

lemma orderTextComments_threads:
  assumes "threads_ok s"
  shows "orderTextComments s = Some (s\<lparr>commentList := concat (map (thread s) (filter (isRootComment s) (commentList s)))\<rparr>)"
proof -
  let ?g = "\<lambda>r. if isRootComment s r then thread s r else []"
  have leaf: "thread s r = [r]" if "kids s r = []" for r by (simp add: thread_def thread_upto_leaf that)
  have "fold (\<lambda>r acc. Option.bind acc (\<lambda>l. if \<not> isRootComment s r then Some l
              else if kids s r \<noteq> [] then addChildrenCommentsToList s r (l @ [r]) else Some (l @ [r])))
          (commentList s) (Some []) = Some ([] @ concat (map ?g (commentList s)))"
    by (rule fold_bind_append) (auto simp: addChildrenCommentsToList_thread [OF assms] leaf)
  moreover have "concat (map ?g l) = concat (map (thread s) (filter (isRootComment s) l))" for l
    by (induction l) auto
  ultimately show ?thesis by (simp add: orderTextComments_def)
qed

lemma orderCommentList_text:
  assumes "threads_ok s" "commentDocType s = Text"
  shows "orderCommentList s =
    Some (s\<lparr>commentList := thread_order s, idIndexMap := index_map (map (cid s) (thread_order s))\<rparr>)"
proof -
  let ?s = "s\<lparr>commentList := sort_key (anchor_key s) (commentList s)\<rparr>"
  have "?s = s\<lparr>commentList := commentList ?s, idIndexMap := idIndexMap s\<rparr>" by simp
  also have "threads_ok \<dots>" by (rule threads_ok_relist [OF assms(1)]) (simp_all add: threads_okD(1) [OF assms(1)])
  finally have ok: "threads_ok ?s" .
  have "thread ?s = thread s" by (intro ext) (simp add: thread_def thread_upto_same_store [of ?s s])
  moreover have "isRootComment ?s = isRootComment s" by (intro ext) (simp add: isRootComment_def)
  ultimately have "orderTextComments ?s = Some (?s\<lparr>commentList := thread_order s\<rparr>)"
    unfolding orderTextComments_threads [OF ok] by (simp add: thread_order_def)
  then show ?thesis
    using assms(2) by (simp add: orderCommentList_def updateIdIndexMap_def)
qed

lemma orderCommentList_other:
  "commentDocType s \<noteq> Text \<Longrightarrow> orderCommentList s =
    Some (s\<lparr>commentList := sort_key (anchor_key s) (commentList s),
            idIndexMap := index_map (map (cid s) (sort_key (anchor_key s) (commentList s)))\<rparr>)"
  by (simp add: orderCommentList_def updateIdIndexMap_def)

lemma thread_order_set:
  assumes "threads_ok s" shows "set (thread_order s) = listed s"
proof -
  have "set (thread_order s) = (\<Union>r \<in> {r \<in> listed s. isRootComment s r}. {q. (r, q) \<in> (thread_rel s)\<^sup>*})"
    using thread_set [OF assms] by (auto simp: thread_order_def)
  also have "\<dots> = listed s" using has_root [OF assms] thread_rel_rtrancl_listed by blast
  finally show ?thesis .
qed

lemma thread_order_distinct:
  assumes "threads_ok s" shows "distinct (thread_order s)"
  unfolding thread_order_def
proof (rule distinct_concat_map)
  show "distinct (sorted_roots s)" using threads_okD(1) [OF assms] by simp
  show "distinct (thread s r)" if "r \<in> set (sorted_roots s)" for r using thread_distinct [OF assms] that by simp
  show "set (thread s r) \<inter> set (thread s r') = {}"
    if "r \<in> set (sorted_roots s)" "r' \<in> set (sorted_roots s)" "r \<noteq> r'" for r r'
    using that thread_set [OF assms] roots_apart [OF assms, of r r'] by auto
qed

lemma thread_order_contiguous:
  assumes "threads_ok s" "q \<in> listed s"
  shows "\<exists>us vs. thread_order s = us @ thread s q @ vs"
proof -
  obtain r where r: "r \<in> listed s" "isRootComment s r" "(r, q) \<in> (thread_rel s)\<^sup>*" using has_root [OF assms] by blast
  then obtain us vs where "thread_order s = us @ thread s r @ vs"
    using concat_map_split [of r "sorted_roots s" "thread s"] by (auto simp: thread_order_def)
  moreover obtain us' vs' where "thread s r = us' @ thread s q @ vs'" using thread_contiguous [OF assms(1) r(3,1)] by blast
  ultimately have "thread_order s = (us @ us') @ thread s q @ (vs' @ vs)" by simp
  then show ?thesis by blast
qed

text \<open>A thread with a root is followed by nothing or by another root.\<close>

lemma thread_order_root:
  assumes "threads_ok s" "r \<in> listed s" "isRootComment s r"
  shows "\<exists>us vs. thread_order s = us @ thread s r @ vs \<and> (vs = [] \<or> isRootComment s (hd vs))"
proof -
  obtain as bs where sp: "sorted_roots s = as @ r # bs" using split_list [of r "sorted_roots s"] assms(2,3) by auto
  have "concat (map (thread s) bs) = [] \<or> isRootComment s (hd (concat (map (thread s) bs)))"
  proof (cases bs)
    case (Cons b bs')
    then have b: "b \<in> set (sorted_roots s)" using sp by simp
    then have "b \<in> listed s" "isRootComment s b" by simp_all
    then show ?thesis using thread_unfold [OF assms(1), of b] Cons by simp
  qed simp
  moreover have "thread_order s = concat (map (thread s) as) @ thread s r @ concat (map (thread s) bs)"
    by (simp add: thread_order_def sp)
  ultimately show ?thesis by blast
qed

lemma thread_only_replies:
  assumes "threads_ok s" "r \<in> listed s" "q \<in> set (tl (thread s r))"
  shows "\<not> isRootComment s q"
proof
  assume root: "isRootComment s q"
  have "q \<in> set (thread s r)" "q \<noteq> r"
    using assms(3) thread_unfold [OF assms(1,2)] thread_distinct [OF assms(1,2)] by auto
  then have "(r, q) \<in> (thread_rel s)\<^sup>*" "q \<noteq> r" using thread_set [OF assms(1,2)] by auto
  then show False using root_no_parent [OF assms(1) root] by (auto elim: rtranclE)
qed

section \<open>The index map\<close>

lemma index_map_snoc: "index_map (xs @ [x]) = (index_map xs)(x \<mapsto> length xs)"
  by (simp add: index_map_def enumerate_append_eq)

lemma index_map_Some: "index_map xs x = Some k \<Longrightarrow> k < length xs \<and> xs ! k = x"
proof (induction xs rule: rev_induct)
  case Nil then show ?case by (simp add: index_map_def)
next
  case (snoc y xs) then show ?case by (auto simp: index_map_snoc nth_append split: if_splits)
qed

lemma dom_index_map: "dom (index_map xs) = set xs"
proof (induction xs rule: rev_induct)
  case Nil then show ?case by (simp add: index_map_def)
next
  case (snoc x xs) show ?case unfolding index_map_snoc dom_fun_upd using snoc by simp
qed

lemma index_map_nth: "distinct xs \<Longrightarrow> k < length xs \<Longrightarrow> index_map xs (xs ! k) = Some k"
  by (metis index_map_Some dom_index_map domD nth_mem nth_eq_iff_index_eq)

lemma getIndexOf_nth:
  assumes "index_ok s" "distinct (ids s)" "k < length (commentList s)"
  shows "getIndexOf s (cid s (commentList s ! k)) = Some k"
  using index_map_nth [OF assms(2), of k] assms(1,3) by (simp add: getIndexOf_def index_ok_def)

lemma getIndexOf_Some:
  assumes "index_ok s" "getIndexOf s i = Some k"
  shows "k < length (commentList s)" "cid s (commentList s ! k) = i"
  using index_map_Some [of "ids s" i k] assms by (auto simp: getIndexOf_def index_ok_def)

lemma getIndexOf_None: "index_ok s \<Longrightarrow> getIndexOf s i = None \<longleftrightarrow> i \<notin> cid s ` listed s"
  using dom_index_map [of "ids s"] by (auto simp: getIndexOf_def index_ok_def domIff)

lemma getComment_Some: "index_ok s \<Longrightarrow> getComment s i = Some r \<Longrightarrow> r \<in> listed s \<and> cid s r = i"
  using getIndexOf_Some by (fastforce simp: getComment_def)

lemma getComment_None: "index_ok s \<Longrightarrow> getComment s i = None \<longleftrightarrow> i \<notin> cid s ` listed s"
  using getIndexOf_None by (simp add: getComment_def)

lemma threads_ok_ids: "threads_ok s \<Longrightarrow> distinct (ids s)"
  using threads_okD(1,2) by (simp add: distinct_map)


section \<open>Looking up threads\<close>

text \<open>The state in which the handlers work: well-formed threads, one after the other, and an index map that fits.\<close>

definition in_thread_order :: "comments \<Rightarrow> bool" where
  "in_thread_order s \<longleftrightarrow> threads_ok s \<and> index_ok s \<and>
     (\<forall>r \<in> listed s. \<exists>us vs. commentList s = us @ thread s r @ vs) \<and>
     (\<forall>r \<in> listed s. isRootComment s r \<longrightarrow>
        (\<exists>us vs. commentList s = us @ thread s r @ vs \<and> (vs = [] \<or> isRootComment s (hd vs))))"

lemma ordered_in_thread_order:
  assumes "threads_ok s" "commentDocType s = Text" "orderCommentList s = Some t"
  shows "in_thread_order t"
proof -
  have t: "t = s\<lparr>commentList := thread_order s, idIndexMap := index_map (map (cid s) (thread_order s))\<rparr>"
    using orderCommentList_text [OF assms(1,2)] assms(3) by simp
  have "threads_ok t"
    unfolding t by (rule threads_ok_relist [OF assms(1)]) (simp_all add: thread_order_set thread_order_distinct assms(1))
  moreover have "coms t = coms s" "nextCom t = nextCom s" by (simp_all add: t)
  then have "thread t = thread s" unfolding thread_def by (intro ext) (simp add: thread_upto_same_store [of t s])
  moreover have "isRootComment t = isRootComment s" by (intro ext) (simp add: t isRootComment_def)
  moreover have "listed t = listed s" by (simp add: t thread_order_set assms(1))
  moreover have "commentList t = thread_order s" "index_ok t" by (simp_all add: t index_ok_def)
  ultimately show ?thesis
    unfolding in_thread_order_def using thread_order_contiguous [OF assms(1)] thread_order_root [OF assms(1)] by metis
qed

lemma walk_back_stop: "P (rs ! k) \<Longrightarrow> walk_back P rs k = Some k"
  by (cases k) simp_all

lemma walk_back_skip:
  "j \<le> k \<Longrightarrow> P (rs ! j) \<Longrightarrow> (\<And>i. j < i \<Longrightarrow> i \<le> k \<Longrightarrow> \<not> P (rs ! i)) \<Longrightarrow> walk_back P rs k = Some j"
proof (induction k)
  case (Suc k) then show ?case by (cases "j = Suc k") (simp_all add: le_Suc_eq)
qed simp

lemma position_in_thread:
  assumes "in_thread_order s" "r \<in> listed s" "isRootComment s r" "(r, q) \<in> (thread_rel s)\<^sup>*"
  obtains us vs k where "commentList s = us @ thread s r @ vs" "vs = [] \<or> isRootComment s (hd vs)"
    "k < length (thread s r)" "commentList s ! (length us + k) = q" "thread s r ! k = q"
proof -
  have ok: "threads_ok s" using assms(1) by (simp add: in_thread_order_def)
  obtain us vs where l: "commentList s = us @ thread s r @ vs" "vs = [] \<or> isRootComment s (hd vs)"
    using assms(1-3) unfolding in_thread_order_def by blast
  have "q \<in> set (thread s r)" using thread_set [OF ok assms(2)] assms(4) by simp
  then obtain k where "k < length (thread s r)" "thread s r ! k = q" by (meson in_set_conv_nth)
  then show thesis using that [OF l] l(1) by (simp add: nth_append)
qed

lemma getRootIndexOf_root:
  assumes "in_thread_order s" "r \<in> listed s" "isRootComment s r" "(r, q) \<in> (thread_rel s)\<^sup>*"
  shows "\<exists>k. getRootIndexOf s (cid s q) = Some k \<and> k < length (commentList s) \<and> commentList s ! k = r"
proof -
  have ok: "threads_ok s" "index_ok s" using assms(1) by (simp_all add: in_thread_order_def)
  obtain us vs k where l: "commentList s = us @ thread s r @ vs" and k: "k < length (thread s r)"
    "commentList s ! (length us + k) = q" using position_in_thread [OF assms] by metis
  have cons: "thread s r = r # tl (thread s r)" using thread_unfold [OF ok(1) assms(2)] by simp
  have "getIndexOf s (cid s q) = Some (length us + k)"
    using getIndexOf_nth [OF ok(2) threads_ok_ids [OF ok(1)], of "length us + k"] k l by simp
  moreover have "walk_back (isRootComment s) (commentList s) (length us + k) = Some (length us)"
  proof (rule walk_back_skip)
    show "isRootComment s (commentList s ! length us)" using l cons assms(3) by (metis append_Cons nth_append_length)
    fix i assume i: "length us < i" "i \<le> length us + k"
    then have "commentList s ! i = thread s r ! (i - length us)" using l k(1) by (simp add: nth_append less_diff_conv2)
    also have "\<dots> = tl (thread s r) ! (i - length us - 1)" using i k(1) by (subst nth_tl) (auto simp: Suc_diff_Suc)
    also have "\<dots> \<in> set (tl (thread s r))" using i k(1) by (intro nth_mem) auto
    finally have "commentList s ! i \<in> set (tl (thread s r))" .
    then show "\<not> isRootComment s (commentList s ! i)" using thread_only_replies [OF ok(1) assms(2)] by blast
  qed simp
  moreover have "commentList s ! length us = r" using l cons by (metis append_Cons nth_append_length)
  ultimately show ?thesis using l by (simp add: getRootIndexOf_def) (metis cons length_0_conv list.distinct(1) trans_less_add1 length_greater_0_conv less_add_same_cancel1)
qed


lemma getLastChildIndexOf_last:
  assumes "in_thread_order s" "r \<in> listed s" "isRootComment s r" "(r, q) \<in> (thread_rel s)\<^sup>*"
  shows "\<exists>us vs. commentList s = us @ thread s r @ vs \<and>
           getLastChildIndexOf s (cid s q) = Some (length us + length (thread s r) - 1)"
proof -
  have ok: "threads_ok s" "index_ok s" using assms(1) by (simp_all add: in_thread_order_def)
  obtain us vs k where l: "commentList s = us @ thread s r @ vs" "vs = [] \<or> isRootComment s (hd vs)"
    and k: "k < length (thread s r)" "commentList s ! (length us + k) = q" using position_in_thread [OF assms] by metis
  have cons: "thread s r = r # tl (thread s r)" using thread_unfold [OF ok(1) assms(2)] by simp
  have "getIndexOf s (cid s q) = Some (length us + k)"
    using getIndexOf_nth [OF ok(2) threads_ok_ids [OF ok(1)], of "length us + k"] k l by simp
  moreover have "getRootIndexOf s (cid s q) = Some (length us)"
  proof -
    obtain j where j: "getRootIndexOf s (cid s q) = Some j" "j < length (commentList s)" "commentList s ! j = r"
      using getRootIndexOf_root [OF assms] by blast
    moreover have "commentList s ! length us = r" "length us < length (commentList s)"
      using l(1) cons by (metis append_Cons nth_append_length, metis append_Cons length_append length_Cons less_add_Suc1 add_Suc_right)
    ultimately show ?thesis using threads_okD(1) [OF ok(1)] by (metis nth_eq_iff_index_eq)
  qed
  moreover have "takeWhile (\<lambda>x. \<not> isRootComment s x) (drop (Suc (length us)) (commentList s)) = tl (thread s r)"
  proof -
    have "commentList s = us @ r # tl (thread s r) @ vs" using l(1) cons by (metis append_Cons)
    then have "drop (Suc (length us)) (commentList s) = tl (thread s r) @ vs" by simp
    moreover have "takeWhile (\<lambda>x. \<not> isRootComment s x) vs = []" using l(2) by (cases vs) simp_all
    ultimately show ?thesis using thread_only_replies [OF ok(1) assms(2)] by simp
  qed
  ultimately have "getLastChildIndexOf s (cid s q) = Some (Suc (length us) + length (tl (thread s r)) - 1)"
    using k(2) by (simp add: getLastChildIndexOf_def)
  moreover have "Suc (length us) + length (tl (thread s r)) - 1 = length us + length (thread s r) - 1"
    using k(1) by simp
  ultimately show ?thesis using l(1) by metis
qed

lemma reply_count_thread:
  assumes "in_thread_order s" "k < length (commentList s)" "isRootComment s (commentList s ! k)"
  shows "reply_count tracked s k =
    Some (card {q. (commentList s ! k, q) \<in> (thread_rel s)\<^sup>* \<and> counted_reply tracked s q})"
proof -
  let ?r = "commentList s ! k"
  have ok: "threads_ok s" "index_ok s" using assms(1) by (simp_all add: in_thread_order_def)
  have r: "?r \<in> listed s" using assms(2) by simp
  obtain us vs where l: "commentList s = us @ thread s ?r @ vs"
    and g: "getLastChildIndexOf s (cid s ?r) = Some (length us + length (thread s ?r) - 1)"
    using getLastChildIndexOf_last [OF assms(1) r assms(3)] by blast
  have cons: "thread s ?r = ?r # tl (thread s ?r)" using thread_unfold [OF ok(1) r] by simp
  have "commentList s ! length us = ?r" "length us < length (commentList s)"
    using l cons by (metis append_Cons nth_append_length, metis append_Cons length_append length_Cons less_add_Suc1 add_Suc_right)
  then have k: "k = length us" using threads_okD(1) [OF ok(1)] assms(2) by (simp add: nth_eq_iff_index_eq)
  have pos: "length (thread s ?r) \<noteq> 0" by (subst cons) simp
  have "take (Suc (length us + length (thread s ?r) - 1)) (commentList s) = us @ thread s ?r"
    using l pos by (metis Suc_diff_1 add_gr_0 append.assoc append_eq_conv_conj gr0I length_append)
  then have "drop k (take (Suc (length us + length (thread s ?r) - 1)) (commentList s)) = thread s ?r"
    by (simp add: k)
  then have "reply_count tracked s k = Some (length (filter (counted_reply tracked s) (thread s ?r)))"
    using g assms(3) by (simp add: reply_count_def)
  moreover have "length (filter (counted_reply tracked s) (thread s ?r)) = card (set (filter (counted_reply tracked s) (thread s ?r)))"
    using thread_distinct [OF ok(1) r] by (simp only: distinct_card distinct_filter)
  ultimately show ?thesis using thread_set [OF ok(1) r] by simp
qed

lemma those_total: "(\<And>x. x \<in> set xs \<Longrightarrow> f x \<noteq> None) \<Longrightarrow> \<exists>ys. those (map f xs) = Some ys"
  by (induction xs) fastforce+

lemma updateReplyCount_total:
  assumes "in_thread_order s" shows "\<exists>ns. updateReplyCount tracked s = Some ns"
proof -
  have "reply_count tracked s k \<noteq> None" if "k < length (commentList s)" for k
    using reply_count_thread [OF assms that] by (cases "isRootComment s (commentList s ! k)") (simp_all add: reply_count_def)
  then show ?thesis unfolding updateReplyCount_def by (intro those_total) simp
qed

text \<open>What directly follows a comment in the list is the thread below it.\<close>

lemma thread_follows:
  assumes "threads_ok s" "k < length (thread_order s)"
  shows "\<exists>n. set (take n (drop (Suc k) (thread_order s))) = {q. (thread_order s ! k, q) \<in> (thread_rel s)\<^sup>+}"
proof -
  let ?q = "thread_order s ! k"
  have q: "?q \<in> listed s" using assms thread_order_set [OF assms(1)] nth_mem by metis
  obtain us vs where l: "thread_order s = us @ thread s ?q @ vs" using thread_order_contiguous [OF assms(1) q] by blast
  have cons: "thread s ?q = ?q # tl (thread s ?q)" using thread_unfold [OF assms(1) q] by simp
  have "thread_order s ! length us = ?q" "length us < length (thread_order s)"
    using l cons by (metis append_Cons nth_append_length, metis append_Cons length_append length_Cons less_add_Suc1 add_Suc_right)
  then have "k = length us" using thread_order_distinct [OF assms(1)] assms(2) by (simp add: nth_eq_iff_index_eq)
  moreover have "thread_order s = us @ ?q # tl (thread s ?q) @ vs" using l cons by (metis append_Cons)
  ultimately have "drop (Suc k) (thread_order s) = tl (thread s ?q) @ vs" by (metis append_eq_conv_conj drop_Suc drop_append list.sel(3) tl_drop)
  then have "take (length (tl (thread s ?q))) (drop (Suc k) (thread_order s)) = tl (thread s ?q)" by simp
  moreover have "set (tl (thread s ?q)) = {q. (?q, q) \<in> (thread_rel s)\<^sup>+}"
  proof -
    have "set (tl (thread s ?q)) = set (thread s ?q) - {?q}"
      using thread_distinct [OF assms(1) q] cons by (metis Diff_insert_absorb distinct.simps(2) list.simps(15))
    also have "\<dots> = {q. (?q, q) \<in> (thread_rel s)\<^sup>+}"
      using thread_set [OF assms(1) q] threads_okD(3) [OF assms(1)] by (auto simp: acyclic_def rtrancl_eq_or_trancl)
    finally show ?thesis .
  qed
  ultimately show ?thesis by metis
qed

lemma thread_order_roots:
  assumes "threads_ok s"
  shows "filter (isRootComment s) (thread_order s) = sorted_roots s"
proof -
  have one: "filter (isRootComment s) (thread s r) = [r]" if "r \<in> set (sorted_roots s)" for r
  proof -
    have r: "r \<in> listed s" "isRootComment s r" using that by simp_all
    have "filter (isRootComment s) (tl (thread s r)) = []" using thread_only_replies [OF assms r(1)] by (auto simp: filter_empty_conv)
    then show ?thesis using thread_unfold [OF assms r(1)] r(2) by simp
  qed
  have "concat (map (\<lambda>r. filter (isRootComment s) (thread s r)) rs) = rs" if "set rs \<subseteq> set (sorted_roots s)" for rs
    using that one by (induction rs) auto
  then show ?thesis unfolding thread_order_def filter_concat map_map comp_def by blast
qed

end
