(* ===== verification/Comment_Handlers.thy ===== *)
theory Comment_Handlers
  imports Comment_Threads
begin

text \<open>
  The handlers of the comment list keep the list of a text document well formed: \<open>comments_ok\<close> is the invariant.
  Each handler is shown to return, never to throw, and to establish the invariant again, for the messages a server sends
  that keeps to the protocol (\<open>message_ok\<close>); what the handlers do with others is stated separately.
\<close>

section \<open>The invariant\<close>

definition parents_first :: "comments \<Rightarrow> bool" where
  "parents_first s \<longleftrightarrow> (\<forall>k < length (commentList s). isRootComment s (commentList s ! k) \<or>
     (\<exists>j < k. par s (commentList s ! k) = cid s (commentList s ! j)))"

definition registry_ok :: "comments \<Rightarrow> bool" where
  "registry_ok s \<longleftrightarrow> distinct (map fst (registry s)) \<and> set (registry s) = (\<lambda>r. (section_name (dat s r), r)) ` listed s"

definition comments_ok :: "comments \<Rightarrow> bool" where
  "comments_ok s \<longleftrightarrow> commentDocType s = Text \<and> threads_ok s \<and> index_ok s \<and> parents_first s \<and> registry_ok s \<and>
     (\<forall>r \<in> listed s. par s r \<noteq> ''new'' \<and> cid s r \<noteq> [] \<and> (cid s r = ''new'' \<longrightarrow> isRootComment s r)) \<and> (\<forall>r. selectedComment s = Some r \<longrightarrow> r \<in> listed s)"

lemma comments_okD:
  assumes "comments_ok s"
  shows "commentDocType s = Text" "threads_ok s" "index_ok s" "parents_first s" "registry_ok s"
    "r \<in> listed s \<Longrightarrow> par s r \<noteq> ''new''" "selectedComment s = Some r \<Longrightarrow> r \<in> listed s" "r \<in> listed s \<Longrightarrow> cid s r \<noteq> []"
    "r \<in> listed s \<Longrightarrow> cid s r = ''new'' \<Longrightarrow> isRootComment s r"
  using assms by (simp_all add: comments_ok_def)

lemma in_thread_order_parents_first:
  assumes "in_thread_order s" shows "parents_first s"
  unfolding parents_first_def
proof (intro allI impI)
  fix k assume k: "k < length (commentList s)"
  let ?q = "commentList s ! k"
  have ok: "threads_ok s" using assms by (simp add: in_thread_order_def)
  show "isRootComment s ?q \<or> (\<exists>j < k. par s ?q = cid s (commentList s ! j))"
  proof (cases "isRootComment s ?q")
    case False
    then obtain p where p: "(p, ?q) \<in> thread_rel s" using threads_okD(8) [OF ok, of ?q] k by auto
    then have pl: "p \<in> listed s" using thread_rel_listed by blast
    then obtain us vs where l: "commentList s = us @ thread s p @ vs" using assms unfolding in_thread_order_def by blast
    have cons: "thread s p = p # concat (map (thread s) (kids s p))" by (rule thread_unfold [OF ok pl])
    have "?q \<in> set (thread s p)" using thread_set [OF ok pl] p by auto
    then obtain i where i: "i < length (thread s p)" "thread s p ! i = ?q" by (meson in_set_conv_nth)
    then have "commentList s ! (length us + i) = ?q" "length us + i < length (commentList s)" using l by (simp_all add: nth_append)
    then have ki: "k = length us + i" using threads_okD(1) [OF ok] k by (metis nth_eq_iff_index_eq)
    have at: "commentList s ! length us = p" using l cons by simp
    then have "i \<noteq> 0" using ki p threads_okD(3) [OF ok] by (metis acyclic_def add_0_right r_into_trancl)
    then show ?thesis using ki at p by (intro disjI2 exI [of _ "length us"]) (simp add: thread_rel_def)
  qed simp
qed

lemma walk_back_root:
  assumes "parents_first s" "k < length (commentList s)"
  shows "\<exists>j. walk_back (isRootComment s) (commentList s) k = Some j \<and> j \<le> k"
  using assms(2)
proof (induction k)
  case 0 then show ?case using assms(1) by (auto simp: parents_first_def)
next
  case (Suc k) then show ?case by (cases "isRootComment s (commentList s ! Suc k)") auto
qed

lemma lookup_total:
  assumes "comments_ok s" "r \<in> listed s"
  shows "\<exists>k. getIndexOf s (cid s r) = Some k" "\<exists>k. getLastChildIndexOf s (cid s r) = Some k"
    "\<exists>k < length (commentList s). getRootIndexOf s (cid s r) = Some k"
proof -
  note ok = comments_okD [OF assms(1)]
  obtain k where k: "getIndexOf s (cid s r) = Some k" using getIndexOf_None [OF ok(3)] assms(2) by blast
  then show "\<exists>k. getIndexOf s (cid s r) = Some k" "\<exists>k. getLastChildIndexOf s (cid s r) = Some k"
    by (simp_all add: getLastChildIndexOf_def Let_def)
  have "k < length (commentList s)" using getIndexOf_Some [OF ok(3) k] by simp
  then show "\<exists>k < length (commentList s). getRootIndexOf s (cid s r) = Some k"
    using walk_back_root [OF ok(4)] k by (fastforce simp: getRootIndexOf_def)
qed

lemma reply_counts_total:
  assumes "index_ok s" shows "\<exists>ns. updateReplyCount tracked s = Some ns"
  unfolding updateReplyCount_def
proof (rule those_total)
  fix k assume "k \<in> set [0..<length (commentList s)]"
  then have "getIndexOf s (cid s (commentList s ! k)) \<noteq> None" using getIndexOf_None [OF assms] by simp
  then show "reply_count tracked s k \<noteq> None" by (auto simp: reply_count_def getLastChildIndexOf_def Let_def)
qed

section \<open>Selecting\<close>

lemma comments_ok_select:
  assumes "comments_ok s" "\<And>r. x = Some r \<Longrightarrow> r \<in> listed s"
  shows "comments_ok (s\<lparr>selectedComment := x\<rparr>)"
  using assms unfolding comments_ok_def threads_ok_def node_ok_def thread_rel_def index_ok_def parents_first_def registry_ok_def
  by (simp add: isRootComment_def)

lemma thread_order_select: "in_thread_order s \<Longrightarrow> in_thread_order (s\<lparr>selectedComment := x\<rparr>)"
proof -
  let ?t = "s\<lparr>selectedComment := x\<rparr>"
  have "thread ?t = thread s" by (simp add: thread_def fun_eq_iff thread_upto_same_store [of ?t s])
  moreover have "isRootComment ?t = isRootComment s" by (simp add: isRootComment_def fun_eq_iff)
  moreover have "threads_ok ?t = threads_ok s" "index_ok ?t = index_ok s"
    by (simp_all add: threads_ok_def node_ok_def thread_rel_def isRootComment_def index_ok_def)
  ultimately show "in_thread_order s \<Longrightarrow> in_thread_order ?t" by (simp add: in_thread_order_def)
qed

lemma unselect_ok:
  assumes "comments_ok s"
  shows "\<exists>t. unselect s = Some t \<and> (t = s \<or> t = s\<lparr>selectedComment := None\<rparr>)"
proof (cases "selectedComment s")
  case (Some r)
  then have "getLastChildIndexOf s (cid s r) \<noteq> None" using lookup_total(2) [OF assms comments_okD(7) [OF assms Some]] by simp
  then show ?thesis using Some by (auto simp: unselect_def)
qed (simp add: unselect_def)

lemma select_root_ok:
  assumes "comments_ok s" "r \<in> listed s"
  shows "\<exists>t. select_root r s = Some t \<and> comments_ok t \<and> t = s\<lparr>selectedComment := selectedComment t\<rparr>"
proof -
  obtain k where k: "k < length (commentList s)" "getRootIndexOf s (cid s r) = Some k" using lookup_total(3) [OF assms] by blast
  obtain u where u: "unselect s = Some u" "u = s \<or> u = s\<lparr>selectedComment := None\<rparr>" using unselect_ok [OF assms(1)] by blast
  have "comments_ok (s\<lparr>selectedComment := Some (commentList s ! k)\<rparr>)" using k(1) by (intro comments_ok_select [OF assms(1)]) auto
  moreover have "u\<lparr>selectedComment := Some (commentList s ! k)\<rparr> = s\<lparr>selectedComment := Some (commentList s ! k)\<rparr>" using u(2) by auto
  ultimately show ?thesis using k(2) u assms(1) by (simp add: select_root_def)
qed

lemma select_comment_ok:
  assumes "comments_ok s" "r \<in> listed s"
  shows "\<exists>t. select_comment r force s = Some t \<and> comments_ok t \<and> t = s\<lparr>selectedComment := selectedComment t\<rparr>"
  using select_root_ok [OF assms] assms(1) by (auto simp: select_comment_def)

section \<open>Removing\<close>

lemma parents_first_split:
  "parents_first s \<longleftrightarrow>
     (\<forall>us q vs. commentList s = us @ q # vs \<longrightarrow> isRootComment s q \<or> (\<exists>p \<in> set us. par s q = cid s p))"
proof
  assume pf: "parents_first s"
  show "\<forall>us q vs. commentList s = us @ q # vs \<longrightarrow> isRootComment s q \<or> (\<exists>p \<in> set us. par s q = cid s p)"
  proof (intro allI impI)
    fix us q vs assume l: "commentList s = us @ q # vs"
    then have "isRootComment s q \<or> (\<exists>j < length us. par s q = cid s (commentList s ! j))"
      using pf unfolding parents_first_def by (metis length_append length_Cons less_add_Suc1 add_Suc_right nth_append_length)
    then show "isRootComment s q \<or> (\<exists>p \<in> set us. par s q = cid s p)" using l by (auto simp: nth_append)
  qed
next
  assume sp: "\<forall>us q vs. commentList s = us @ q # vs \<longrightarrow> isRootComment s q \<or> (\<exists>p \<in> set us. par s q = cid s p)"
  show "parents_first s"
    unfolding parents_first_def
  proof (intro allI impI)
    fix k assume k: "k < length (commentList s)"
    then have "isRootComment s (commentList s ! k) \<or> (\<exists>p \<in> set (take k (commentList s)). par s (commentList s ! k) = cid s p)"
      using sp id_take_nth_drop [OF k] by blast
    then show "isRootComment s (commentList s ! k) \<or> (\<exists>j < k. par s (commentList s ! k) = cid s (commentList s ! j))"
      using k by (metis in_set_conv_nth length_take min_less_iff_conj nth_take)
  qed
qed

lemma section_name_inj: "section_name d = section_name e \<longleftrightarrow> com_id d = com_id e"
  by (auto simp: section_name_def)

definition orphaned :: "comment \<Rightarrow> comment" where
  "orphaned c = c\<lparr>com_data := (com_data c)\<lparr>com_parent := ''0''\<rparr>\<rparr>"

lemma fold_setAsRootComment:
  "fold setAsRootComment rs s = s\<lparr>coms := \<lambda>q. if q \<in> set rs then orphaned (coms s q) else coms s q\<rparr>"
  by (induction rs arbitrary: s)
     (auto simp: setAsRootComment_def setData_def put_comment_def orphaned_def fun_eq_iff)

lemma adjustParentRemove_store:
  assumes "comments_ok s" "r \<in> listed s"
  shows "adjustParentRemove r s = s\<lparr>coms := \<lambda>q.
           let c = (if (q, r) \<in> thread_rel s then (coms s q)\<lparr>children := remove1 r (kids s q)\<rparr> else coms s q)
           in if q \<in> set (kids s r) then orphaned c else c\<rparr>"
proof -
  note ok = comments_okD [OF assms(1)]
  let ?up = "\<lambda>q. if (q, r) \<in> thread_rel s then (coms s q)\<lparr>children := remove1 r (kids s q)\<rparr> else coms s q"
  have self: "(r, r) \<notin> thread_rel s" using threads_okD(3) [OF ok(2)] by (auto simp: acyclic_def)
  have "(case Option.bind (getParentCommentId s r) (getIndexOf s) of None \<Rightarrow> s
         | Some k \<Rightarrow> (let p = commentList s ! k in set_children p (remove1 r (kids s p)) s)) = s\<lparr>coms := ?up\<rparr>"
  proof (cases "isRootComment s r")
    case True
    then have "\<And>q. (q, r) \<notin> thread_rel s" using root_no_parent [OF ok(2)] by blast
    then show ?thesis using True by (simp add: getParentCommentId_def isRootComment_def)
  next
    case False
    then obtain p where p: "(p, r) \<in> thread_rel s" using threads_okD(8) [OF ok(2) assms(2)] by blast
    then have "par s r = cid s p" "p \<in> listed s" by (simp_all add: thread_rel_def)
    moreover obtain k where k: "getIndexOf s (cid s p) = Some k" using lookup_total(1) [OF assms(1) \<open>p \<in> listed s\<close>] by blast
    ultimately have "Option.bind (getParentCommentId s r) (getIndexOf s) = Some k"
      using False ok(8) [OF \<open>p \<in> listed s\<close>] by (simp add: getParentCommentId_def isRootComment_def)
    moreover have "commentList s ! k = p"
      using getIndexOf_Some [OF ok(3) k] threads_okD(2) [OF ok(2)] \<open>p \<in> listed s\<close> by (simp add: inj_on_def)
    moreover have "(q, r) \<in> thread_rel s \<longleftrightarrow> q = p" for q using parent_unique [OF ok(2)] p by blast
    ultimately show ?thesis by (auto simp: set_children_def put_comment_def fun_eq_iff)
  qed
  then show ?thesis using self by (auto simp: adjustParentRemove_def fold_setAsRootComment Let_def fun_eq_iff)
qed

lemma find_unique: "inj_on f (set xs) \<Longrightarrow> x \<in> set xs \<Longrightarrow> List.find (\<lambda>y. f y = f x) xs = Some x"
  by (induction xs) (auto simp: inj_on_def)

lemma removeItem_eq:
  assumes "inj_on (cid s) (listed s)" "r \<in> listed s" "distinct (map fst (registry s))" "(section_name (dat s r), r) \<in> set (registry s)"
  shows "removeItem (cid s r) s = s\<lparr>commentList := remove1 r (commentList s),
           registry := remove1 (section_name (dat s r), r) (registry s),
           selectedComment := (if selectedComment s = Some r then None else selectedComment s),
           idIndexMap := index_map (map (cid s) (remove1 r (commentList s)))\<rparr>"
proof -
  have "List.find (\<lambda>x. fst x = fst (section_name (dat s r), r)) (registry s) = Some (section_name (dat s r), r)"
    using assms(3,4) by (intro find_unique) (simp_all add: distinct_map)
  then have "List.find (\<lambda>(m, q). m = section_name (dat s r)) (registry s) = Some (section_name (dat s r), r)"
    by (simp add: case_prod_beta')
  then show ?thesis
    using find_unique [OF assms(1,2)]
    by (simp add: removeItem_def removeCommentSection_def onRemove_def updateIdIndexMap_def)
qed

text \<open>The state after a comment has been taken out of its thread and of the list.\<close>

definition taken_out :: "nat \<Rightarrow> nat option \<Rightarrow> comments \<Rightarrow> comments" where
  "taken_out r sel s = (adjustParentRemove r s)\<lparr>commentList := remove1 r (commentList s),
     registry := remove1 (section_name (dat s r), r) (registry s),
     selectedComment := sel,
     idIndexMap := index_map (map (cid s) (remove1 r (commentList s)))\<rparr>"

lemma adjustParentRemove_data:
  assumes "comments_ok s" "r \<in> listed s"
  shows "dat (adjustParentRemove r s) q = (if q \<in> set (kids s r) then (dat s q)\<lparr>com_parent := ''0''\<rparr> else dat s q)"
    "kids (adjustParentRemove r s) q = (if (q, r) \<in> thread_rel s then remove1 r (kids s q) else kids s q)"
  by (simp_all add: adjustParentRemove_store [OF assms] orphaned_def Let_def)

lemma removed_eq:
  assumes "comments_ok s" "r \<in> listed s"
  shows "removeItem (cid s r) ((adjustParentRemove r s)\<lparr>selectedComment := x\<rparr>) =
    taken_out r (if x = Some r then None else x) s"
proof -
  note ok = comments_okD [OF assms(1)]
  let ?u = "(adjustParentRemove r s)\<lparr>selectedComment := x\<rparr>"
  have c: "cid ?u q = cid s q" for q using adjustParentRemove_data(1) [OF assms] by simp
  have n: "section_name (dat ?u q) = section_name (dat s q)" for q using c [of q] by (simp only: section_name_def)
  have l: "commentList ?u = commentList s" "registry ?u = registry s"
    by (simp_all add: adjustParentRemove_store [OF assms])
  have "removeItem (cid ?u r) ?u = ?u\<lparr>commentList := remove1 r (commentList ?u),
           registry := remove1 (section_name (dat ?u r), r) (registry ?u),
           selectedComment := (if selectedComment ?u = Some r then None else selectedComment ?u),
           idIndexMap := index_map (map (cid ?u) (remove1 r (commentList ?u)))\<rparr>"
    using ok(5) threads_okD(2) [OF ok(2)] assms(2)
    by (intro removeItem_eq) (simp_all only: l n c registry_ok_def, auto simp: inj_on_def)
  then show ?thesis unfolding c n l by (simp add: taken_out_def)
qed

lemma taken_out_data:
  assumes "comments_ok s" "r \<in> listed s"
  shows "commentDocType (taken_out r sel s) = Text" "nextCom (taken_out r sel s) = nextCom s"
    "commentList (taken_out r sel s) = remove1 r (commentList s)" "listed (taken_out r sel s) = listed s - {r}"
    "registry (taken_out r sel s) = remove1 (section_name (dat s r), r) (registry s)"
    "cid (taken_out r sel s) q = cid s q"
    "par (taken_out r sel s) q = (if (r, q) \<in> thread_rel s then ''0'' else par s q)"
    "kids (taken_out r sel s) q = (if (q, r) \<in> thread_rel s then remove1 r (kids s q) else kids s q)"
  using adjustParentRemove_data [OF assms, of q] threads_okD(1,7) [OF comments_okD(2) [OF assms(1)]] assms(2)
    comments_okD(1) [OF assms(1)]
  by (simp_all add: taken_out_def adjustParentRemove_store [OF assms])

lemma taken_out_node:
  assumes "comments_ok s" "r \<in> listed s" "q \<in> listed s" "q \<noteq> r"
  shows "node_ok (taken_out r sel s) q"
proof -
  let ?t = "taken_out r sel s"
  note ok = threads_okD [OF comments_okD(2) [OF assms(1)]] and data = taken_out_data [OF assms(1,2)]
  have other: "cid s q \<noteq> cid s r" using assms(2-4) ok(2) by (auto simp: inj_on_def)
  have "set (kids ?t q) = set (kids s q) - {r}" using ok(6,7) [OF assms(3)] by (auto simp: data)
  also have "\<dots> = {x \<in> listed ?t. par ?t x = cid ?t q}"
    unfolding ok(7) [OF assms(3)] data(4,6,7)
  proof (rule set_eqI)
    fix x
    have "par s x \<noteq> cid s q" if "(r, x) \<in> thread_rel s" using that other by (simp add: thread_rel_def)
    then show "x \<in> {y. (q, y) \<in> thread_rel s} - {r} \<longleftrightarrow>
        x \<in> {y \<in> listed s - {r}. (if (r, y) \<in> thread_rel s then ''0'' else par s y) = cid s q}"
      using ok(5) [OF assms(3)] assms(3) by (cases "(r, x) \<in> thread_rel s") (auto simp: thread_rel_def)
  qed
  finally have "set (kids ?t q) = {x \<in> listed ?t. par ?t x = cid ?t q}" .
  moreover have "isRootComment ?t q \<or> par ?t q \<in> cid ?t ` listed ?t"
  proof (cases "(r, q) \<in> thread_rel s \<or> isRootComment s q")
    case False
    then obtain x where x: "(x, q) \<in> thread_rel s" using ok(8) [OF assms(3)] by blast
    then have "x \<noteq> r" using False by auto
    then have "x \<in> listed ?t" "cid ?t x = par ?t q" using x False by (auto simp: thread_rel_def data)
    then show ?thesis by (metis imageI)
  qed (auto simp: isRootComment_def data)
  moreover have "distinct (kids ?t q)" using ok(6) [OF assms(3)] by (simp add: data)
  ultimately show ?thesis using ok(4,5) [OF assms(3)] by (simp add: node_ok_def data)
qed

lemma remove1_prefix:
  assumes "r \<in> set xs" "remove1 r xs = us @ q # vs"
  shows "\<exists>us' vs'. xs = us' @ q # vs' \<and> set us' \<subseteq> insert r (set us)"
proof -
  obtain as bs where ab: "xs = as @ r # bs" "r \<notin> set as" using assms(1) by (meson split_list_first)
  then have eq: "as @ bs = us @ q # vs" using assms(2) by (simp add: remove1_append)
  show ?thesis
  proof (cases "length us < length as")
    case True
    then obtain zs where "as = us @ q # zs"
      using eq by (fastforce simp: append_eq_append_conv2 append_eq_Cons_conv)
    then have "xs = us @ q # (zs @ r # bs)" using ab(1) by simp
    then show ?thesis by blast
  next
    case False
    then obtain zs where "us = as @ zs" using eq by (auto simp: append_eq_append_conv2)
    then have "xs = (as @ r # zs) @ q # vs" "set (as @ r # zs) \<subseteq> insert r (set us)" using eq ab(1) by auto
    then show ?thesis by blast
  qed
qed

lemma taken_out_parents_first:
  assumes "comments_ok s" "r \<in> listed s"
  shows "parents_first (taken_out r sel s)"
  unfolding parents_first_split
proof (intro allI impI)
  note data = taken_out_data [OF assms]
  fix us q vs assume "commentList (taken_out r sel s) = us @ q # vs"
  then obtain us' vs' where s: "commentList s = us' @ q # vs'" "set us' \<subseteq> insert r (set us)"
    using remove1_prefix [OF assms(2)] data(3) by metis
  show "isRootComment (taken_out r sel s) q \<or> (\<exists>x \<in> set us. par (taken_out r sel s) q = cid (taken_out r sel s) x)"
  proof (cases "(r, q) \<in> thread_rel s \<or> isRootComment s q")
    case False
    then obtain x where "x \<in> set us'" "par s q = cid s x"
      using comments_okD(4) [OF assms(1)] s(1) unfolding parents_first_split by blast
    moreover have "x \<noteq> r" using False assms(2) s(1) calculation by (auto simp: thread_rel_def)
    ultimately show ?thesis using False s(2) by (auto simp: data)
  qed (auto simp: isRootComment_def data)
qed

lemma taken_out_ok:
  assumes "comments_ok s" "r \<in> listed s" "\<And>q. sel = Some q \<Longrightarrow> q \<in> listed s - {r}"
  shows "comments_ok (taken_out r sel s)"
proof -
  let ?t = "taken_out r sel s"
  note ok = comments_okD [OF assms(1)] and data = taken_out_data [OF assms(1,2)]
  have sub: "thread_rel ?t \<subseteq> thread_rel s" proof (rule subrelI)
    fix p q assume "(p, q) \<in> thread_rel ?t"
    then show "(p, q) \<in> thread_rel s" using threads_okD(5) [OF ok(2), of p]
      by (cases "(r, q) \<in> thread_rel s") (auto simp: thread_rel_def data dest: set_remove1_subset [THEN subsetD])
  qed
  have "threads_ok ?t"
    unfolding threads_ok_def
  proof (intro conjI ballI)
    show "distinct (commentList ?t)" using threads_okD(1) [OF ok(2)] by (simp add: data)
    show "inj_on (cid ?t) (listed ?t)" using threads_okD(2) [OF ok(2)] unfolding data(4) by (auto simp: inj_on_def data(6))
    show "acyclic (thread_rel ?t)" using threads_okD(3) [OF ok(2)] sub by (rule acyclic_subset)
    show "node_ok ?t q" if "q \<in> listed ?t" for q using taken_out_node [OF assms(1,2)] that unfolding data(4) by simp
  qed
  moreover have "index_ok ?t" by (simp add: index_ok_def data) (simp add: taken_out_def)
  moreover have "registry_ok ?t"
  proof -
    have n: "section_name (dat ?t q) = section_name (dat s q)" for q using data(6) [of sel q] by (simp only: section_name_def)
    have "distinct (map fst (registry s))" "set (registry s) = (\<lambda>q. (section_name (dat s q), q)) ` listed s"
      using ok(5) by (simp_all add: registry_ok_def)
    then show ?thesis unfolding registry_ok_def n data(4,5) by (auto simp: distinct_map inj_on_def intro: distinct_remove1)
  qed
  moreover have "selectedComment ?t = sel" by (simp add: taken_out_def)
  ultimately show ?thesis
    unfolding comments_ok_def using data(1) taken_out_parents_first [OF assms(1,2)] ok(6,8,9) assms(3) unfolding data(4) by (auto simp: data(6,7) isRootComment_def)
qed

lemma comments_ok_cong:
  assumes "comments_ok s" "commentDocType t = commentDocType s" "nextCom t = nextCom s" "commentList t = commentList s"
    "idIndexMap t = idIndexMap s" "registry t = registry s" "selectedComment t = selectedComment s"
    and same: "\<And>q. cid t q = cid s q \<and> par t q = par s q \<and> kids t q = kids s q"
  shows "comments_ok t"
proof -
  have n: "section_name (dat t q) = section_name (dat s q)" for q using same [of q] by (simp add: section_name_def)
  have rt: "isRootComment t q = isRootComment s q" for q using same [of q] by (simp add: isRootComment_def)
  have "thread_rel t = thread_rel s" using same assms(4) by (simp add: thread_rel_def)
  moreover have "node_ok t q = node_ok s q" for q using same assms(3,4) by (simp add: node_ok_def rt)
  moreover have "inj_on (cid t) (listed t) = inj_on (cid s) (listed s)" using same assms(4) by (simp add: inj_on_def)
  ultimately have "threads_ok t = threads_ok s" using assms(4) by (simp add: threads_ok_def)
  moreover have "index_ok t = index_ok s" using same assms(4,5) by (simp add: index_ok_def)
  moreover have "parents_first t = parents_first s" using same assms(4) by (simp add: parents_first_def rt)
  moreover have "registry_ok t = registry_ok s" using assms(4,6) by (simp add: registry_ok_def n)
  ultimately show ?thesis using assms(1,2,4,7) same rt unfolding comments_ok_def by simp
qed

lemma setData_ok:
  assumes "comments_ok s" "com_id d = cid s r" "com_parent d = par s r" shows "comments_ok (setData r d s)"
  using assms by (intro comments_ok_cong [OF assms(1)]) (simp_all add: setData_def put_comment_def)

lemma edit_comment_ok: "comments_ok s \<Longrightarrow> comments_ok (edit_comment r s)"
  by (erule comments_ok_cong) (simp_all add: edit_comment_def put_comment_def)

lemma status_ok:
  assumes "comments_ok s"
  shows "comments_ok (s\<lparr>autoSavedComment := a, commentWasAutoAdded := b\<rparr>)" "comments_ok (s\<lparr>pendingImport := b\<rparr>)"
    "comments_ok (s\<lparr>showResolved := b\<rparr>)"
  by (rule comments_ok_cong [OF assms]; simp)+

lemma removeItem_ok:
  assumes "comments_ok s" "i = ''new'' \<or> i \<notin> cid s ` listed s"
  shows "comments_ok (removeItem i s) \<and> listed (removeItem i s) = {r \<in> listed s. cid s r \<noteq> i} \<and>
    (\<forall>r. cid (removeItem i s) r = cid s r)"
proof (cases "i \<in> cid s ` listed s")
  case True
  note ok = comments_okD [OF assms(1)]
  from True obtain r where r: "r \<in> listed s" "cid s r = i" "i = ''new''" using assms(2) by auto
  have no_kid: "(r, q) \<notin> thread_rel s" for q using ok(6) r by (auto simp: thread_rel_def)
  have no_parent: "(q, r) \<notin> thread_rel s" for q using root_no_parent [OF ok(2) ok(9)] r by blast
  have same: "adjustParentRemove r s = s"
    using no_kid no_parent threads_okD(7) [OF ok(2) r(1)] by (simp add: adjustParentRemove_store [OF assms(1) r(1)])
  have "removeItem i s = taken_out r (if selectedComment s = Some r then None else selectedComment s) s"
    using removed_eq [OF assms(1) r(1), of "selectedComment s"] r(2) by (simp add: same)
  moreover have "comments_ok (taken_out r (if selectedComment s = Some r then None else selectedComment s) s)"
    using ok(7) by (intro taken_out_ok [OF assms(1) r(1)]) (auto split: if_splits)
  moreover have "listed s - {r} = {q \<in> listed s. cid s q \<noteq> i}" using r(1,2) threads_okD(2) [OF ok(2)] by (auto simp: inj_on_def)
  ultimately show ?thesis using taken_out_data(4,6) [OF assms(1) r(1)] by simp
next
  case False
  then have "List.find (\<lambda>r. cid s r = i) (commentList s) = None" by (auto simp: find_None_iff)
  then show ?thesis using assms(1) False by (auto simp: removeItem_def)
qed

lemma cancel_ok:
  assumes "comments_ok s" shows "\<exists>t. cancel r s = Some t \<and> comments_ok t"
proof -
  let ?u = "if cid s r = ''new'' then removeItem ''new'' s else s"
  have u: "comments_ok ?u" using assms removeItem_ok [OF assms, of "''new''"] by simp
  show ?thesis
    using unselect_ok [OF u] u comments_ok_select [OF u, of None] by (auto simp: cancel_def Let_def)
qed

lemma call_map_ok: "comments_ok s \<Longrightarrow> comments_ok (call_map cs s)"
  by (erule comments_ok_cong) (simp_all add: call_map_def)

lemma unselect_after: "comments_ok s \<Longrightarrow> \<exists>t. unselect s = Some t \<and> comments_ok t"
  using unselect_ok [of s] comments_ok_select [of s None] by auto

lemma save_ok:
  assumes "comments_ok s" shows "\<exists>t. save r s = Some t \<and> comments_ok t"
  using call_map_ok [OF assms] removeItem_ok [OF call_map_ok [OF assms], of "''new''"]
  unfolding save_def by (intro unselect_after) (simp add: Let_def)

lemma requests_ok:
  assumes "comments_ok s"
  shows "\<exists>t. saveReply r s = Some t \<and> comments_ok t" "\<exists>t. removeThread i s = Some t \<and> comments_ok t"
    "\<exists>t. onRedlineAccept i s = Some t \<and> comments_ok t" "\<exists>t. onRedlineReject i s = Some t \<and> comments_ok t"
    "comments_ok (resolve r s)" "comments_ok (resolveThread r s)"
  using call_map_ok [OF assms] assms
  by (auto simp: saveReply_def removeThread_def onRedlineAccept_def onRedlineReject_def resolve_def resolveThread_def intro!: unselect_after)

lemma remove_request_ok:
  assumes "comments_ok s" "i \<in> cid s ` listed s" shows "\<exists>t. remove_request i s = Some t \<and> comments_ok t"
proof -
  obtain r where r: "getComment s i = Some r" using getComment_None [OF comments_okD(3) [OF assms(1)]] assms(2) by blast
  have "comments_ok (put_comment r ((coms s r)\<lparr>selfRemoved := True\<rparr>) s)"
    by (rule comments_ok_cong [OF assms(1)]) (simp_all add: put_comment_def)
  then show ?thesis using r unselect_after [OF call_map_ok] by (simp add: remove_request_def Let_def)
qed

lemma collapse_ok:
  assumes "comments_ok s" shows "\<exists>t. setCollapsed s = Some t \<and> comments_ok t" "comments_ok (setExpanded s)"
  using comments_ok_cong [OF assms, of "s\<lparr>isCollapsed := True\<rparr>"] comments_ok_cong [OF assms, of "s\<lparr>isCollapsed := False\<rparr>"]
  by (auto simp: setCollapsed_def setExpanded_def intro!: unselect_after)

lemma selectById_ok:
  assumes "comments_ok s" shows "\<exists>t. selectById i s = Some t \<and> comments_ok t"
proof (cases "getRootIndexOf s i")
  case (Some k)
  then obtain j where j: "getIndexOf s i = Some j" by (cases "getIndexOf s i") (auto simp: getRootIndexOf_def)
  have "j < length (commentList s)" using getIndexOf_Some(1) [OF comments_okD(3) [OF assms] j] .
  then have "k < length (commentList s)"
    using walk_back_root [OF comments_okD(4) [OF assms], of j] Some j by (auto simp: getRootIndexOf_def)
  then show ?thesis using select_comment_ok [OF assms, of "commentList s ! k" False] Some by (auto simp: selectById_def)
qed (simp add: selectById_def assms)

lemma rejectAll_ok:
  assumes "comments_ok s" shows "comments_ok (rejectAllTrackedCommentChanges s)"
proof -
  let ?f = "\<lambda>r t. if com_layoutStatus (dat t r) = Some (Num 3) then setData r ((dat t r)\<lparr>com_layoutStatus := Some (Num 1)\<rparr>) t else t"
  have step: "comments_ok (?f r t)" if "comments_ok t" for r t using that by (simp add: setData_ok)
  have "comments_ok (fold ?f rs t)" if "comments_ok t" for rs t
    using that
  proof (induction rs arbitrary: t)
    case (Cons r rs)
    show ?case using Cons.IH [OF step [OF Cons.prems, of r]] by (simp only: fold_Cons comp_apply)
  qed simp
  then show ?thesis using assms by (simp add: rejectAllTrackedCommentChanges_def)
qed

lemma hide_ok: "comments_ok s \<Longrightarrow> comments_ok (hide r s)"
  using removeItem_ok [of s "''new''"] by (simp add: hide_def comments_okD(1))

lemma show_comment_ok:
  assumes "comments_ok s"
  shows "\<exists>t. show_comment r s = Some t \<and> comments_ok t \<and> commentList t = commentList s \<and> (\<forall>q. dat t q = dat s q)"
proof -
  define t where "t = put_comment r ((coms s r)\<lparr>pendingInit := False\<rparr>) s"
  define u where "u = put_comment r ((coms t r)\<lparr>com_edit := False\<rparr>) t"
  have "comments_ok t" unfolding t_def by (rule comments_ok_cong [OF assms]) (simp_all add: put_comment_def)
  moreover from this have "comments_ok u" unfolding u_def by (rule comments_ok_cong) (simp_all add: put_comment_def)
  moreover have "show_comment r s = Some (if commentWasAutoAdded t then t else u)"
    using comments_okD(1) [OF \<open>comments_ok t\<close>] by (simp add: show_comment_def t_def u_def Let_def)
  ultimately show ?thesis by (simp add: t_def u_def put_comment_def)
qed

lemma unselect_if_ok:
  assumes "comments_ok s"
  shows "\<exists>t. unselect_if r s = Some t \<and> comments_ok t \<and> commentList t = commentList s \<and> coms t = coms s"
  using unselect_ok [OF assms] assms comments_ok_select [OF assms, of None] by (auto simp: unselect_if_def)

lemma each_comment_ok:
  assumes "\<And>r t. comments_ok t \<Longrightarrow> \<exists>u. f r t = Some u \<and> comments_ok u" "comments_ok s"
  shows "\<exists>t. each_comment f s = Some t \<and> comments_ok t"
proof -
  let ?f = "\<lambda>k acc. Option.bind acc (\<lambda>t. if k < length (commentList t) then f (commentList t ! k) t else Some t)"
  have "\<exists>t. fold ?f ks (Some u) = Some t \<and> comments_ok t" if "comments_ok u" for ks u
    using that
  proof (induction ks arbitrary: u)
    case (Cons k ks)
    obtain v where "(if k < length (commentList u) then f (commentList u ! k) u else Some u) = Some v" "comments_ok v"
      using assms(1) [OF Cons.prems] Cons.prems by (cases "k < length (commentList u)") auto
    then show ?case using Cons.IH by simp
  qed simp
  then show ?thesis using assms(2) unfolding each_comment_def by blast
qed

lemma hidden_ok:
  assumes "comments_ok s" shows "\<exists>t. map_option (hide r) (unselect_if r s) = Some t \<and> comments_ok t"
  using unselect_if_ok [OF assms] hide_ok by fastforce

lemma showHideComment_ok:
  assumes "comments_ok s" shows "\<exists>t. showHideComment r s = Some t \<and> comments_ok t"
  using assms hidden_ok [OF assms, of r] show_comment_ok [OF assms, of r] comments_okD(1) [OF assms] by (auto simp: showHideComment_def)

lemma onPartChange_ok:
  assumes "comments_ok s" shows "\<exists>t. onPartChange s = Some t \<and> comments_ok t"
proof -
  obtain t where "showHideComments s = Some t" "comments_ok t"
    using each_comment_ok [of showHideComment, OF showHideComment_ok assms] unfolding showHideComments_def by blast
  then show ?thesis using cancel_ok by (cases "selectedComment t") (auto simp: onPartChange_def)
qed

lemma setViewResolved_ok:
  assumes "comments_ok s" shows "\<exists>t. setViewResolved state s = Some t \<and> comments_ok t"
  unfolding setViewResolved_def
proof (rule each_comment_ok)
  fix r t assume ok: "comments_ok t"
  show "\<exists>u. (if com_resolved (dat t r) \<noteq> Some ''true'' then Some t else if state then show_comment r t
             else map_option (hide r) (unselect_if r t)) = Some u \<and> comments_ok u"
    using ok hidden_ok [OF ok, of r] show_comment_ok [OF ok, of r] by auto
qed (rule status_ok(3) [OF assms])

lemma ack_remove_ok:
  assumes "comments_ok s"
  shows "\<exists>t. ack_remove m s = Some t \<and> comments_ok t \<and> listed t = {r \<in> listed s. cid s r \<noteq> message_id m} \<and>
    (\<forall>q. cid t q = cid s q)"
proof (cases "getComment s (message_id m)")
  case None
  moreover have "message_id m \<notin> cid s ` listed s" using None getComment_None [OF comments_okD(3) [OF assms]] by simp
  then have "{r \<in> listed s. cid s r \<noteq> message_id m} = listed s" by (auto simp: image_iff)
  ultimately show ?thesis using assms by (simp add: ack_remove_def)
next
  case (Some r)
  note ok = comments_okD [OF assms]
  have r: "r \<in> listed s" "cid s r = message_id m" using getComment_Some [OF ok(3) Some] by simp_all
  let ?u = "adjustParentRemove r s"
  have su: "selectedComment ?u = selectedComment s" "idIndexMap ?u = idIndexMap s" "commentList ?u = commentList s"
    by (simp_all add: adjustParentRemove_store [OF assms r(1)])
  have cu: "cid ?u q = cid s q" for q using adjustParentRemove_data(1) [OF assms r(1)] by simp
  have "getLastChildIndexOf ?u (cid s r) \<noteq> None"
    using lookup_total(1) [OF assms r(1)] by (auto simp: getLastChildIndexOf_def getIndexOf_def su Let_def)
  then obtain x where x: "(if selectedComment ?u = Some r then unselect ?u else Some ?u) = Some (?u\<lparr>selectedComment := x\<rparr>)"
    "x = selectedComment s \<or> x = None"
  proof (cases "selectedComment s = Some r")
    case True
    then have "unselect ?u = Some (if cid s r = ''new'' then ?u\<lparr>selectedComment := selectedComment s\<rparr> else ?u\<lparr>selectedComment := None\<rparr>)"
      using \<open>getLastChildIndexOf ?u (cid s r) \<noteq> None\<close> by (auto simp: unselect_def su cu)
    then show thesis using that True su by (cases "cid s r = ''new''") simp_all
  next
    case False
    have "Some ?u = Some (?u\<lparr>selectedComment := selectedComment s\<rparr>)" by (simp flip: su(1))
    then show thesis using that [of "selectedComment s"] False su by simp
  qed
  then have "ack_remove m s = Some (taken_out r (if x = Some r then None else x) s)"
    using Some removed_eq [OF assms r(1)] r(2) by (simp add: ack_remove_def Let_def)
  moreover have "comments_ok (taken_out r (if x = Some r then None else x) s)"
    using x(2) ok(7) by (intro taken_out_ok [OF assms r(1)]) (auto split: if_splits)
  moreover have "listed s - {r} = {q \<in> listed s. cid s q \<noteq> message_id m}"
    using r threads_okD(2) [OF ok(2)] by (auto simp: inj_on_def)
  ultimately show ?thesis using taken_out_data(4,6) [OF assms r(1)] by simp
qed

section \<open>Ordering\<close>

lemma order_ok:
  assumes "commentDocType s = Text" "threads_ok s" "registry_ok s"
    "\<And>r. r \<in> listed s \<Longrightarrow> par s r \<noteq> ''new'' \<and> cid s r \<noteq> [] \<and> (cid s r = ''new'' \<longrightarrow> isRootComment s r)"
    "\<And>r. selectedComment s = Some r \<Longrightarrow> r \<in> listed s"
  shows "\<exists>t. orderCommentList s = Some t \<and> comments_ok t \<and> in_thread_order t \<and> listed t = listed s \<and>
    t = s\<lparr>commentList := commentList t, idIndexMap := idIndexMap t\<rparr>"
proof -
  let ?t = "s\<lparr>commentList := thread_order s, idIndexMap := index_map (map (cid s) (thread_order s))\<rparr>"
  have o: "orderCommentList s = Some ?t" by (rule orderCommentList_text [OF assms(2,1)])
  have io: "in_thread_order ?t" by (rule ordered_in_thread_order [OF assms(2,1) o])
  have L: "listed ?t = listed s" by (simp add: thread_order_set [OF assms(2)])
  have "registry_ok ?t" using assms(3) L by (simp add: registry_ok_def)
  moreover have "threads_ok ?t" "index_ok ?t" using io by (simp_all only: in_thread_order_def)
  ultimately have "comments_ok ?t"
    unfolding comments_ok_def using in_thread_order_parents_first [OF io] assms(1,4,5) L by (simp add: isRootComment_def)
  then show ?thesis using o io L by (intro exI [of _ ?t]) simp
qed

lemma orderCommentList_ok:
  assumes "comments_ok s"
  shows "\<exists>t. orderCommentList s = Some t \<and> comments_ok t \<and> in_thread_order t \<and> listed t = listed s \<and>
    t = s\<lparr>commentList := commentList t, idIndexMap := idIndexMap t\<rparr>"
  using comments_okD [OF assms] by (intro order_ok) blast+

section \<open>Adding\<close>

text \<open>What a comment needs to be added: an id of its own, that nobody waits for.\<close>

definition addable :: "comment_data \<Rightarrow> comments \<Rightarrow> bool" where
  "addable d s \<longleftrightarrow> com_id d \<noteq> ''0'' \<and> com_id d \<noteq> [] \<and> com_id d \<notin> cid s ` listed s \<and>
     com_parent d \<noteq> com_id d \<and> com_parent d \<noteq> ''new'' \<and> (com_id d = ''new'' \<longrightarrow> com_parent d = ''0'') \<and>
     (\<forall>r \<in> listed s. possibleParentCommentId (coms s r) \<noteq> Some (com_id d))"

definition added :: "bool \<Rightarrow> comment_data \<Rightarrow> comments \<Rightarrow> comments" where
  "added inView d s = (let r = nextCom s; s3 = fst (enter_section r inView (allocate d s))
                       in adjustParentAdd r (s3\<lparr>commentList := commentList s3 @ [r]\<rparr>))"

lemma fresh_section:
  assumes "comments_ok s" "com_id d \<notin> cid s ` listed s"
  shows "\<not> commentSectionExists s (section_name d)" "\<not> commentSectionExists (allocate d s) (section_name d)"
proof -
  show *: "\<not> commentSectionExists s (section_name d)"
    using comments_okD(5) [OF assms(1)] assms(2) section_name_inj
    by (fastforce simp: commentSectionExists_def registry_ok_def)
  then show "\<not> commentSectionExists (allocate d s) (section_name d)"
    by (simp add: commentSectionExists_def allocate_def put_comment_def)
qed

lemma no_preassigned:
  assumes "\<And>r. r \<in> listed s \<Longrightarrow> possibleParentCommentId (coms s r) \<noteq> Some (cid s c)"
  shows "checkIfCommentHasPreAssignedChildren c s = s"
proof -
  let ?f = "\<lambda>r t. if possibleParentCommentId (coms t r) = Some (cid t c) \<and> r \<notin> set (kids t c)
                  then set_children c (kids t c @ [r]) t else t"
  have "fold ?f rs s = s" if "set rs \<subseteq> listed s" for rs
    using that assms by (induction rs) auto
  then show ?thesis by (simp add: checkIfCommentHasPreAssignedChildren_def)
qed

lemma addComment_added:
  assumes "comments_ok s" "addable d s"
  shows "addComment inView d s =
    do { s5 \<leftarrow> orderCommentList (added inView d s);
         s6 \<leftarrow> (if cid s5 (nextCom s) \<noteq> ''new'' \<and> viewName s5 = com_author (dat s5 (nextCom s))
                then select_comment (nextCom s) False s5 else Some s5);
         Some (s6, nextCom s) }"
  using fresh_section(2) [OF assms(1)] assms(2) by (simp add: addComment_def added_def addable_def Let_def)

lemma added_eq:
  assumes "comments_ok s" "addable d s"
  shows "added inView d s = s\<lparr>coms := \<lambda>q.
      if q = nextCom s
      then (new_comment s (d\<lparr>com_parent := (if com_parent d \<in> cid s ` listed s then com_parent d else ''0'')\<rparr>))
             \<lparr>possibleParentCommentId := (if com_parent d = ''0'' \<or> com_parent d \<in> cid s ` listed s then None else Some (com_parent d)),
              pendingInit := \<not> inView\<rparr>
      else if q \<in> listed s \<and> com_parent d = cid s q then (coms s q)\<lparr>children := nextCom s # kids s q\<rparr> else coms s q,
    nextCom := Suc (nextCom s), registry := registry s @ [(section_name d, nextCom s)],
    commentList := commentList s @ [nextCom s]\<rparr>" (is "_ = s\<lparr>coms := ?store, nextCom := _, registry := _, commentList := _\<rparr>")
proof -
  note ok = comments_okD [OF assms(1)]
  define r where "r = nextCom s"
  have r: "r \<notin> listed s" using threads_okD(4) [OF ok(2)] r_def by auto
  let ?c = "(new_comment s d)\<lparr>pendingInit := \<not> inView\<rparr>"
  define u where "u = s\<lparr>coms := (coms s)(r := ?c), nextCom := Suc r,
              registry := registry s @ [(section_name d, r)], commentList := commentList s @ [r]\<rparr>"
  have "fst (enter_section r inView (allocate d s)) = s\<lparr>coms := (coms s)(r := ?c), nextCom := Suc r,
              registry := registry s @ [(section_name d, r)]\<rparr>"
    using fresh_section(2) [OF assms(1)] assms(2)
    by (simp add: r_def enter_section_def addCommentSection_def allocate_def put_comment_def initialize_comment_def
        addable_def commentSectionExists_def new_comment_def)
  then have t: "added inView d s = adjustParentAdd r u" by (simp add: added_def u_def r_def Let_def)
  have ids: "cid u r = com_id d" "par u r = com_parent d" by (simp_all add: u_def new_comment_def)
  have pend: "checkIfCommentHasPreAssignedChildren r v = v"
    if "cid v r = com_id d" "listed v = insert r (listed s)" "possibleParentCommentId (coms v r) \<in> {None, Some (com_parent d)}"
      "\<And>q. q \<in> listed s \<Longrightarrow> possibleParentCommentId (coms v q) = possibleParentCommentId (coms s q)" for v
    using assms(2) that by (intro no_preassigned) (auto simp: addable_def)
  have idx: "idIndexMap u = idIndexMap s" by (simp add: u_def)
  consider "com_parent d = ''0''" | "com_parent d \<noteq> ''0''" "com_parent d \<notin> cid s ` listed s"
    | p where "com_parent d \<noteq> ''0''" "p \<in> listed s" "com_parent d = cid s p" by blast
  then have "adjustParentAdd r u = u\<lparr>coms := ?store\<rparr>"
  proof cases
    case 1
    have "\<forall>q \<in> listed s. ''0'' \<noteq> cid s q" using threads_okD(5) [OF ok(2)] by metis
    then have "?store = coms u" using 1 by (auto simp: u_def r_def new_comment_def fun_eq_iff)
    moreover have "adjustParentAdd r u = u"
      using 1 r by (simp add: adjustParentAdd_def ids) (intro pend, auto simp: u_def new_comment_def)
    ultimately show ?thesis by simp
  next
    case 2
    then have "getIndexOf u (com_parent d) = None" using getIndexOf_None [OF ok(3)] by (simp add: getIndexOf_def idx)
    then have "adjustParentAdd r u = checkIfCommentHasPreAssignedChildren r (u\<lparr>coms := (coms u)(r := (coms u r)
        \<lparr>possibleParentCommentId := Some (com_parent d), com_data := (dat u r)\<lparr>com_parent := ''0''\<rparr>\<rparr>)\<rparr>)"
      using 2 by (simp add: adjustParentAdd_def ids setAsRootComment_def setData_def put_comment_def)
    also have "(coms u)(r := (coms u r)\<lparr>possibleParentCommentId := Some (com_parent d),
        com_data := (dat u r)\<lparr>com_parent := ''0''\<rparr>\<rparr>) = ?store"
      using 2 by (auto simp: u_def r_def new_comment_def fun_eq_iff)
    finally have "adjustParentAdd r u = checkIfCommentHasPreAssignedChildren r (u\<lparr>coms := ?store\<rparr>)" .
    then show ?thesis using 2 r by simp (intro pend, auto simp: u_def r_def new_comment_def)
  next
    case 3
    obtain k where k: "getIndexOf s (cid s p) = Some k" using lookup_total(1) [OF assms(1) 3(2)] by blast
    have kp: "k < length (commentList s)" "commentList s ! k = p"
      using getIndexOf_Some [OF ok(3) k] threads_okD(2) [OF ok(2)] 3(2) by (simp_all add: inj_on_def)
    have "getIndexOf u (com_parent d) = Some k" using k 3(3) by (simp add: getIndexOf_def idx)
    moreover have "commentList u ! k = p" using kp by (simp add: u_def nth_append)
    moreover have "r \<noteq> p" "r \<notin> set (kids s p)" using r 3(2) threads_okD(7) [OF ok(2) 3(2)] thread_rel_listed by auto
    moreover have "coms u p = coms s p" using \<open>r \<noteq> p\<close> by (simp add: u_def)
    ultimately have "adjustParentAdd r u = checkIfCommentHasPreAssignedChildren r (u\<lparr>coms := (coms u)(p := (coms s p)\<lparr>children := r # kids s p\<rparr>)\<rparr>)"
      using 3(1) by (simp add: adjustParentAdd_def ids set_children_def put_comment_def)
    also have "(coms u)(p := (coms s p)\<lparr>children := r # kids s p\<rparr>) = ?store"
    proof -
      have "q \<in> listed s \<and> cid s p = cid s q \<longleftrightarrow> q = p" for q using threads_okD(2) [OF ok(2)] 3(2) by (auto simp: inj_on_def)
      then show ?thesis using 3 \<open>r \<noteq> p\<close> by (auto simp: u_def r_def new_comment_def fun_eq_iff)
    qed
    finally have "adjustParentAdd r u = checkIfCommentHasPreAssignedChildren r (u\<lparr>coms := ?store\<rparr>)" .
    then show ?thesis using 3 r by simp (intro pend, auto simp: u_def r_def new_comment_def)
  qed
  then show ?thesis by (simp add: t u_def r_def)
qed

lemma added_data:
  assumes "comments_ok s" "addable d s"
  shows "commentDocType (added inView d s) = Text" "nextCom (added inView d s) = Suc (nextCom s)"
    "commentList (added inView d s) = commentList s @ [nextCom s]"
    "registry (added inView d s) = registry s @ [(section_name d, nextCom s)]"
    "selectedComment (added inView d s) = selectedComment s"
    "cid (added inView d s) q = (if q = nextCom s then com_id d else cid s q)"
    "par (added inView d s) q =
      (if q = nextCom s then (if com_parent d \<in> cid s ` listed s then com_parent d else ''0'') else par s q)"
    "kids (added inView d s) q = (if q = nextCom s then []
       else if q \<in> listed s \<and> com_parent d = cid s q then nextCom s # kids s q else kids s q)"
  using comments_okD(1) [OF assms(1)] by (simp_all add: added_eq [OF assms] new_comment_def)

lemma addable_fresh:
  assumes "comments_ok s" "addable d s" "x \<in> listed s"
  shows "x \<noteq> nextCom s" "par s x \<noteq> com_id d" "cid s x \<noteq> com_id d" "''0'' \<noteq> cid s x" "par s x = ''0'' \<or> par s x \<in> cid s ` listed s"
proof -
  note th = comments_okD(2) [OF assms(1)]
  show *: "par s x = ''0'' \<or> par s x \<in> cid s ` listed s"
    using th assms(3) by (auto simp: threads_ok_def node_ok_def isRootComment_def)
  show "x \<noteq> nextCom s" "''0'' \<noteq> cid s x" using threads_okD(4,5) [OF th assms(3)] by auto
  have "com_id d \<notin> cid s ` listed s" "com_id d \<noteq> ''0''" using assms(2) by (simp_all add: addable_def)
  then show "cid s x \<noteq> com_id d" "par s x \<noteq> com_id d" using * assms(3) by (metis imageI)+
qed

lemma added_node:
  assumes "comments_ok s" "addable d s" "q \<in> listed (added inView d s)"
  shows "node_ok (added inView d s) q"
proof -
  note th = threads_okD [OF comments_okD(2) [OF assms(1)]] and data = added_data [OF assms(1,2)] and fresh = addable_fresh [OF assms(1,2)]
  let ?t = "added inView d s" and ?r = "nextCom s"
  have L: "listed ?t = insert ?r (listed s)" by (simp add: data(3))
  have C: "cid ?t ` listed ?t = insert (com_id d) (cid s ` listed s)" using fresh(1) unfolding L by (auto simp: data(6))
  have d: "com_id d \<noteq> ''0''" "com_parent d \<noteq> com_id d" using assms(2) by (simp_all add: addable_def)
  show ?thesis
  proof (cases "q = ?r")
    case True
    have "par ?t x \<noteq> com_id d" if "x \<in> listed ?t" for x using fresh(2) [of x] d that L by (auto simp: data(7))
    then have "{x \<in> listed ?t. par ?t x = com_id d} = {}" by blast
    moreover have "isRootComment ?t q \<or> par ?t q \<in> cid ?t ` listed ?t" using True unfolding C by (simp add: isRootComment_def data(7))
    ultimately show ?thesis using True d by (simp add: node_ok_def data(2,6,8))
  next
    case False
    then have q: "q \<in> listed s" using assms(3) L by simp
    have kq: "set (kids s q) = {x \<in> listed s. par s x = cid s q}" using th(7) [OF q] q by (auto simp: thread_rel_def)
    have "par ?t x = cid s q \<longleftrightarrow> (if x = ?r then com_parent d = cid s q else par s x = cid s q)" for x
      using fresh(4) [OF q] q by (auto simp: data(7))
    then have "{x \<in> listed ?t. par ?t x = cid s q} = {x \<in> listed s. par s x = cid s q} \<union> (if com_parent d = cid s q then {?r} else {})"
      using fresh(1) unfolding L by auto
    then have "set (kids ?t q) = {x \<in> listed ?t. par ?t x = cid s q}" using kq q False by (simp add: data(8))
    moreover have "distinct (kids ?t q)" using th(6) [OF q] kq fresh(1) False by (auto simp: data(8))
    moreover have "isRootComment ?t q \<or> par ?t q \<in> cid ?t ` listed ?t"
      using fresh(5) [OF q] False unfolding C by (auto simp: isRootComment_def data(7))
    ultimately show ?thesis using False th(4,5) [OF q] by (simp add: node_ok_def data(2,6))
  qed
qed

lemma added_acyclic:
  assumes "comments_ok s" "addable d s"
  shows "acyclic (thread_rel (added inView d s))"
proof -
  note th = threads_okD [OF comments_okD(2) [OF assms(1)]] and data = added_data [OF assms(1,2)] and fresh = addable_fresh [OF assms(1,2)]
  let ?t = "added inView d s" and ?r = "nextCom s"
  let ?new = "{(p, ?r) |p. p \<in> listed s \<and> com_parent d = cid s p}"
  have L: "listed ?t = insert ?r (listed s)" by (simp add: data(3))
  have d: "com_id d \<noteq> ''0''" "com_parent d \<noteq> com_id d" using assms(2) by (simp_all add: addable_def)
  have "thread_rel ?t \<subseteq> thread_rel s \<union> ?new"
  proof (rule subrelI)
    fix p q assume "(p, q) \<in> thread_rel ?t"
    then have pq: "p \<in> insert ?r (listed s)" "q \<in> insert ?r (listed s)" "par ?t q = cid ?t p" by (simp_all add: thread_rel_def L)
    have "p \<noteq> ?r" using pq fresh(2) [of q] d by (auto simp: data(6,7) split: if_splits)
    then have p: "p \<in> listed s" "par ?t q = cid s p" using pq by (simp_all add: data(6))
    show "(p, q) \<in> thread_rel s \<union> ?new"
      using p pq(2) fresh(4) [OF p(1)] by (cases "q = ?r") (auto simp: data(7) thread_rel_def split: if_splits)
  qed
  moreover have "acyclic (thread_rel s \<union> ?new)"
  proof (cases "com_parent d \<in> cid s ` listed s")
    case True
    then obtain p where p: "p \<in> listed s" "com_parent d = cid s p" by blast
    then have "?new = {(p, ?r)}" using th(2) by (auto simp: inj_on_def)
    moreover have "(?r, p) \<notin> (thread_rel s)\<^sup>*" using fresh(1) p(1) thread_rel_rtrancl_listed' by blast
    ultimately show ?thesis using th(3) by (simp add: acyclic_insert)
  next
    case False
    then have "?new = {}" by auto
    then show ?thesis using th(3) by (metis Un_empty_right)
  qed
  ultimately show ?thesis by (meson acyclic_subset)
qed

lemma added_ok:
  assumes "comments_ok s" "addable d s"
  shows "threads_ok (added inView d s)" "registry_ok (added inView d s)"
proof -
  note cok = comments_okD [OF assms(1)] and data = added_data [OF assms] and fresh = addable_fresh [OF assms]
  let ?t = "added inView d s" and ?r = "nextCom s"
  have L: "listed ?t = insert ?r (listed s)" by (simp add: data(3))
  have "inj_on (cid ?t) (listed ?t)"
    using threads_okD(2) [OF cok(2)] fresh(1,3) unfolding L by (fastforce simp: data(6) inj_on_def)
  moreover have "distinct (commentList ?t)" using threads_okD(1) [OF cok(2)] fresh(1) by (auto simp: data(3))
  ultimately show "threads_ok ?t" using added_node [OF assms] added_acyclic [OF assms] by (simp add: threads_ok_def)
  have n: "section_name (dat ?t q) = (if q = ?r then section_name d else section_name (dat s q))" for q
    by (auto simp: section_name_def data(6))
  have "section_name d \<notin> fst ` set (registry s)"
    using fresh_section(1) [OF assms(1)] assms(2) by (simp add: commentSectionExists_def addable_def)
  moreover have "(\<lambda>q. (section_name (dat ?t q), q)) ` listed ?t =
      insert (section_name d, ?r) ((\<lambda>q. (section_name (dat s q), q)) ` listed s)"
    using fresh(1) unfolding L n by auto
  ultimately show "registry_ok ?t" using cok(5) unfolding registry_ok_def data(4) by auto
qed

lemma addComment_ok:
  assumes "comments_ok s" "addable d s"
  shows "\<exists>t. addComment inView d s = Some (t, nextCom s) \<and> comments_ok t \<and> in_thread_order t \<and>
    listed t = insert (nextCom s) (listed s) \<and> autoSavedComment t = autoSavedComment s \<and> coms t = coms (added inView d s)"
proof -
  note cok = comments_okD [OF assms(1)] and data = added_data [OF assms] and fresh = addable_fresh [OF assms]
  let ?u = "added inView d s"
  have L: "listed ?u = insert (nextCom s) (listed s)" by (simp add: data(3))
  have "\<exists>t. orderCommentList ?u = Some t \<and> comments_ok t \<and> in_thread_order t \<and> listed t = listed ?u \<and>
      t = ?u\<lparr>commentList := commentList t, idIndexMap := idIndexMap t\<rparr>"
  proof (rule order_ok)
    fix r assume "r \<in> listed ?u"
    then show "par ?u r \<noteq> ''new'' \<and> cid ?u r \<noteq> [] \<and> (cid ?u r = ''new'' \<longrightarrow> isRootComment ?u r)"
      using cok(6,8,9) [of r] assms(2) unfolding L by (auto simp: data(6,7) addable_def isRootComment_def)
  next
    fix r show "selectedComment ?u = Some r \<Longrightarrow> r \<in> listed ?u" using cok(7) by (simp add: data(5) L)
  qed (simp_all add: data(1) added_ok [OF assms])
  then obtain t where t: "orderCommentList ?u = Some t" "comments_ok t" "in_thread_order t" "listed t = listed ?u"
    "t = ?u\<lparr>commentList := commentList t, idIndexMap := idIndexMap t\<rparr>" by blast
  have keep: "coms t = coms ?u" "autoSavedComment t = autoSavedComment s"
    by (subst t(5), simp) (subst t(5), simp add: added_eq [OF assms])
  have "nextCom s \<in> listed t" using t(4) L by simp
  then obtain v where v: "select_comment (nextCom s) False t = Some v" "comments_ok v"
    and same: "v = t\<lparr>selectedComment := selectedComment v\<rparr>"
    using select_comment_ok [OF t(2)] by blast
  have "coms v = coms t" "listed v = listed t" "autoSavedComment v = autoSavedComment t" by (subst same, simp)+
  moreover have "in_thread_order v"
    by (subst same) (rule thread_order_select [OF t(3)])
  ultimately show ?thesis
    using addComment_added [OF assms] t(1-4) v keep L
    by (cases "cid t (nextCom s) \<noteq> ''new'' \<and> viewName t = com_author (dat t (nextCom s))") auto
qed

section \<open>Messages\<close>

text \<open>The ids of the comments of the document that the list holds: all but a comment that is not yet saved.\<close>

definition known :: "comments \<Rightarrow> string set" where
  "known s = cid s ` listed s - {''new''}"

text \<open>The messages of a server that keeps to the protocol: a new comment has an id of its own and a comment keeps its
  parent; no redline arrives on a mobile device or while a comment is edited.\<close>

definition message_ok :: "comment_msg \<Rightarrow> comments \<Rightarrow> bool" where
  "message_ok m s \<longleftrightarrow>
     (m_redline m \<longrightarrow> isAnyEdit s = None \<and> \<not> isMobile s) \<and> message_id m \<noteq> ''new'' \<and>
     (m_action m = ''Add'' \<longrightarrow>
        (case getComment s (message_id m) of
           Some r \<Rightarrow> \<not> m_redline m
         | None \<Rightarrow> (case new_data s m of None \<Rightarrow> False | Some None \<Rightarrow> True | Some (Some d) \<Rightarrow> addable d s))) \<and>
     (m_action m \<in> {''Modify'', ''Resolve''} \<longrightarrow>
        (case getComment s (message_id m) of
           None \<Rightarrow> True
         | Some r \<Rightarrow> (case new_data s m of None \<Rightarrow> False | Some None \<Rightarrow> True | Some (Some d) \<Rightarrow> com_parent d = par s r)))"

lemma new_data_id: "new_data s m = Some (Some d) \<Longrightarrow> com_id d = message_id m"
  by (auto simp: new_data_def adjustRedLine_def adjustComment_def adjustCommentNormal_def adjustCommentFileBasedView_def
      message_data_def message_id_def ack_parent_def bind_eq_Some_conv split: if_splits option.splits)

lemma known_cong: "commentList t = commentList s \<Longrightarrow> (\<And>q. cid t q = cid s q) \<Longrightarrow> known t = known s"
  by (simp add: known_def)

lemma known_edit [simp]: "known (edit_comment r s) = known s"
  by (rule known_cong) (simp_all add: edit_comment_def put_comment_def)

lemma known_setData: "com_id d = cid s r \<Longrightarrow> known (setData r d s) = known s"
  by (rule known_cong) (simp_all add: setData_def put_comment_def)

lemma adopt_autosaved_ok:
  assumes "comments_ok s" shows "comments_ok (adopt_autosaved r s) \<and> known (adopt_autosaved r s) = known s"
proof (cases "autoSavedComment s")
  case (Some a)
  let ?u = "edit_comment r s"
  have u: "comments_ok ?u" "known ?u = known s"
    using edit_comment_ok [OF assms] known_edit by simp_all
  have "comments_ok (removeItem ''new'' ?u)" "known (removeItem ''new'' ?u) = known ?u"
    using removeItem_ok [OF u(1), of "''new''"] by (auto simp: known_def)
  moreover have "known (v\<lparr>autoSavedComment := x, commentWasAutoAdded := y\<rparr>) = known v" for v x y by (simp add: known_def)
  ultimately show ?thesis using Some u assms status_ok(1) by (simp add: adopt_autosaved_def Let_def)
qed (simp add: adopt_autosaved_def assms)

lemma addComment_known:
  assumes "comments_ok s" "addable d s" "com_id d \<noteq> ''new''"
  shows "\<exists>t r. addComment inView d s = Some (t, r) \<and> comments_ok t \<and> known t = insert (com_id d) (known s)"
proof -
  obtain t where t: "addComment inView d s = Some (t, nextCom s)" "comments_ok t" "listed t = insert (nextCom s) (listed s)"
    "coms t = coms (added inView d s)" using addComment_ok [OF assms(1,2)] by blast
  have "cid t q = (if q = nextCom s then com_id d else cid s q)" for q using added_data(6) [OF assms(1,2)] t(4) by simp
  then have "known t = insert (com_id d) (known s)"
    using addable_fresh(1) [OF assms(1,2)] assms(3) unfolding known_def t(3) by auto
  then show ?thesis using t by blast
qed

lemma ack_add_ok:
  assumes "comments_ok s" "message_ok m s" "m_action m = ''Add''"
  shows "\<exists>t b. ack_add inView m s = Some (t, b) \<and> comments_ok t \<and>
    known t = (if new_data s m = Some None then known s else insert (message_id m) (known s))"
proof (cases "getComment s (message_id m)")
  case (Some r)
  then have nr: "\<not> m_redline m" using assms(2,3) by (simp add: message_ok_def)
  then have m: "message_id m = m_id m" "new_data s m \<noteq> Some None" by (auto simp: message_id_def new_data_def)
  have r: "r \<in> listed s" "cid s r = message_id m" using getComment_Some [OF comments_okD(3) [OF assms(1)] Some] by simp_all
  let ?t = "case m_layoutStatus m of None \<Rightarrow> s | Some l \<Rightarrow> setData r ((dat s r)\<lparr>com_layoutStatus := Some (parseInt l)\<rparr>) s"
  have "comments_ok ?t" using assms(1) setData_ok [OF assms(1)] by (simp split: option.splits)
  moreover have "known ?t = known s" by (simp add: known_setData split: option.splits)
  moreover have "message_id m \<noteq> ''new''" using assms(2) by (simp add: message_ok_def)
  then have "insert (message_id m) (known s) = known s" using imageI [OF r(1), of "cid s"] r(2) by (auto simp: known_def)
  moreover have "ack_add inView m s = Some (?t, False)" using Some m nr by (simp add: ack_add_def)
  ultimately show ?thesis using m by auto
next
  case None
  then obtain nd where nd: "new_data s m = Some nd" "\<And>d. nd = Some d \<Longrightarrow> addable d s"
    using assms(2,3) by (auto simp: message_ok_def split: option.splits)
  show ?thesis
  proof (cases nd)
    case None
    then have "m_redline m" "adjustRedLine m = Some None" using nd(1) by (auto simp: new_data_def split: if_splits)
    then show ?thesis using assms(1) nd(1) None by (auto simp: ack_add_def)
  next
    case (Some d)
    then have id: "com_id d = message_id m" "message_id m \<noteq> ''new''" using new_data_id nd(1) assms(2) by (simp_all add: message_ok_def)
    then obtain t r where t: "addComment inView d s = Some (t, r)" "comments_ok t" "known t = insert (message_id m) (known s)"
      using addComment_known [OF assms(1) nd(2) [OF Some]] by metis
    show ?thesis
    proof (cases "m_redline m")
      case True
      then show ?thesis using t nd(1) Some by (auto simp: ack_add_def new_data_def)
    next
      case False
      then have "adjustComment s (ack_parent m) = Some d" "getComment s (m_id m) = None"
        using nd(1) Some \<open>getComment s (message_id m) = None\<close> by (auto simp: new_data_def message_id_def)
      then have "ack_add inView m s = Some (adopt_autosaved r t, True)"
        using False t(1) comments_okD(1) [OF t(2)] by (simp add: ack_add_def)
      then show ?thesis using adopt_autosaved_ok [OF t(2)] t(3) nd(1) Some by auto
    qed
  qed
qed

lemma showHideComment_known:
  assumes "comments_ok s" "r \<in> listed s" "cid s r \<noteq> ''new''"
  shows "\<exists>t. showHideComment r s = Some t \<and> comments_ok t \<and> known t = known s"
proof -
  obtain u where u: "unselect_if r s = Some u" "comments_ok u" "commentList u = commentList s" "coms u = coms s"
    using unselect_if_ok [OF assms(1)] by blast
  have h: "hide r u = u" using assms(3) u(4) comments_okD(1) [OF u(2)] by (simp add: hide_def)
  obtain v where v: "show_comment r s = Some v" "comments_ok v" "commentList v = commentList s" "\<forall>q. dat v q = dat s q"
    using show_comment_ok [OF assms(1)] by blast
  have "known u = known s" "known v = known s" using u(3,4) v(3,4) by (simp_all add: known_def)
  then show ?thesis using u(1,2) h v(1,2) assms(1) comments_okD(1) [OF assms(1)] by (auto simp: showHideComment_def)
qed

lemma replaced_data:
  assumes "comments_ok s" "message_ok m s" "m_action m \<in> {''Modify'', ''Resolve''}" "getComment s (message_id m) = Some r"
  obtains "new_data s m = Some None"
  | d where "new_data s m = Some (Some d)" "comments_ok (setData r d s)" "known (setData r d s) = known s"
      "r \<in> listed (setData r d s)" "cid (setData r d s) r \<noteq> ''new''"
proof -
  have r: "r \<in> listed s" "cid s r = message_id m" using getComment_Some [OF comments_okD(3) [OF assms(1)] assms(4)] by simp_all
  obtain nd where nd: "new_data s m = Some nd" "\<And>d. nd = Some d \<Longrightarrow> com_parent d = par s r"
    using assms(2-4) by (auto simp: message_ok_def split: option.splits)
  show thesis
  proof (cases nd)
    case None then show thesis using that(1) nd(1) by simp
  next
    case (Some d)
    then have id: "com_id d = cid s r" using new_data_id nd(1) r(2) by simp
    moreover have "listed (setData r d s) = listed s" "cid (setData r d s) r = com_id d" by (simp_all add: setData_def put_comment_def)
    ultimately show thesis
      using that(2) nd(1) Some setData_ok [OF assms(1) id nd(2) [OF Some]] known_setData [OF id] r assms(2)
      by (simp add: message_ok_def)
  qed
qed

lemma ack_modify_ok:
  assumes "comments_ok s" "message_ok m s" "m_action m = ''Modify''"
  shows "\<exists>t b. ack_modify m s = Some (t, b) \<and> comments_ok t \<and> known t = known s"
proof (cases "getComment s (message_id m)")
  case (Some r)
  show ?thesis
    by (rule replaced_data [OF assms(1,2) _ Some])
       (use assms Some edit_comment_ok in \<open>auto simp: ack_modify_def Let_def\<close>)
qed (auto simp: ack_modify_def assms(1))

lemma ack_resolve_ok:
  assumes "comments_ok s" "message_ok m s" "m_action m = ''Resolve''"
  shows "\<exists>t b. ack_resolve m s = Some (t, b) \<and> comments_ok t \<and> known t = known s"
proof (cases "getComment s (message_id m)")
  case (Some r)
  show ?thesis
  proof (rule replaced_data [OF assms(1,2) _ Some])
    fix d assume d: "new_data s m = Some (Some d)" "comments_ok (setData r d s)" "known (setData r d s) = known s"
      "r \<in> listed (setData r d s)" "cid (setData r d s) r \<noteq> ''new''"
    then obtain t where "showHideComment r (setData r d s) = Some t" "comments_ok t" "known t = known s"
      using showHideComment_known [OF d(2,4,5)] by auto
    then show ?thesis using Some d(1) by (auto simp: ack_resolve_def)
  qed (use assms Some in \<open>auto simp: ack_resolve_def\<close>)
qed (auto simp: ack_resolve_def assms(1))

text \<open>What a message says about the comments of the document; \<open>inserted\<close>: the comment was added while changes were recorded.\<close>

definition announced :: "bool \<Rightarrow> comment_msg \<Rightarrow> string set \<Rightarrow> string set" where
  "announced inserted m K =
     (if m_action m = ''Add'' then insert (message_id m) K
      else if m_action m = ''Remove'' \<or> m_action m = ''RedlinedDeletion'' \<and> inserted then K - {message_id m}
      else K)"

definition inserted_comment :: "comments \<Rightarrow> string \<Rightarrow> bool" where
  "inserted_comment s i \<longleftrightarrow> (case getComment s i of None \<Rightarrow> False | Some r \<Rightarrow> com_layoutStatus (dat s r) = Some (Num 2))"

lemma ack_remove_known:
  assumes "comments_ok s"
  shows "\<exists>t. ack_remove m s = Some t \<and> comments_ok t \<and> known t = known s - {message_id m}"
proof -
  obtain t where t: "ack_remove m s = Some t" "comments_ok t" "listed t = {r \<in> listed s. cid s r \<noteq> message_id m}"
    "\<And>q. cid t q = cid s q" using ack_remove_ok [OF assms] by blast
  then have "known t = known s - {message_id m}" by (auto simp: known_def)
  then show ?thesis using t by blast
qed

lemma ack_redlined_ok:
  assumes "comments_ok s"
  shows "\<exists>t. ack_redlined_deletion m s = Some t \<and> comments_ok t \<and>
    known t = (if inserted_comment s (message_id m) then known s - {message_id m} else known s)"
proof (cases "getComment s (message_id m)")
  case (Some r)
  show ?thesis
  proof (cases "com_layoutStatus (dat s r) = Some (Num 2)")
    case True
    then show ?thesis using ack_remove_known [OF assms] Some by (simp add: ack_redlined_deletion_def inserted_comment_def)
  next
    case False
    then show ?thesis using assms Some by (simp add: ack_redlined_deletion_def inserted_comment_def setData_ok known_setData)
  qed
qed (simp add: ack_redlined_deletion_def inserted_comment_def assms)

lemma ack_action_ok:
  assumes "comments_ok s" "message_ok m s"
  shows "\<exists>t b. ack_action inView m s = Some (t, b) \<and> comments_ok t \<and>
    known t = (if m_action m = ''Add'' \<and> new_data s m = Some None then known s
               else announced (inserted_comment s (message_id m)) m (known s))"
proof -
  consider "m_action m = ''Add''" | "m_action m = ''Remove''" | "m_action m = ''RedlinedDeletion''" | "m_action m = ''Modify''"
    | "m_action m = ''Resolve''" | "m_action m \<notin> {''Add'', ''Remove'', ''RedlinedDeletion'', ''Modify'', ''Resolve''}" by blast
  then show ?thesis
  proof cases
    case 1 then show ?thesis using ack_add_ok [OF assms 1, of inView] by (auto simp: ack_action_def announced_def split: if_splits)
  next
    case 2 then show ?thesis using ack_remove_known [OF assms(1), of m] by (auto simp: ack_action_def announced_def)
  next
    case 3 then show ?thesis using ack_redlined_ok [OF assms(1), of m] by (auto simp: ack_action_def announced_def)
  next
    case 4 then show ?thesis using ack_modify_ok [OF assms 4] by (simp add: ack_action_def announced_def)
  next
    case 5 then show ?thesis using ack_resolve_ok [OF assms 5] by (simp add: ack_action_def announced_def)
  next
    case 6 then show ?thesis using assms(1) by (auto simp: ack_action_def announced_def)
  qed
qed

lemma ack_finish_ok:
  assumes "comments_ok s" "\<not> (mobile \<and> m_redline m)"
  shows "ack_finish mobile tracked m s = Some (s\<lparr>pendingImport := False\<rparr>)"
  using reply_counts_total [OF comments_okD(3) [OF assms(1)], of tracked] assms(2)
  by (auto simp: ack_finish_def)

lemma onACKComment_ok:
  assumes "comments_ok s" "message_ok m s"
  shows "\<exists>t. onACKComment inView tracked m s = Some t \<and> comments_ok t \<and>
    (isAnyEdit s = None \<longrightarrow> known t = (if m_action m = ''Add'' \<and> new_data s m = Some None then known s
                                     else announced (inserted_comment s (message_id m)) m (known s)))"
proof -
  obtain u b where u: "ack_action inView m s = Some (u, b)" "comments_ok u"
    "known u = (if m_action m = ''Add'' \<and> new_data s m = Some None then known s
                else announced (inserted_comment s (message_id m)) m (known s))"
    using ack_action_ok [OF assms] by blast
  have "\<not> (isMobile s \<and> m_redline m)" using assms(2) by (auto simp: message_ok_def)
  then have fin: "ack_finish (isMobile s) tracked m u = Some (u\<lparr>pendingImport := False\<rparr>)" by (rule ack_finish_ok [OF u(2)])
  define v where "v = (if b then u\<lparr>pendingImport := False\<rparr> else u)"
  have v: "comments_ok v" "known v = known u" using u(2) status_ok(2) by (simp_all add: v_def known_def)
  have go: "do { (t, continue) \<leftarrow> ack_action inView m s; if continue then ack_finish (isMobile s) tracked m t else Some t } = Some v"
    using u(1) fin by (simp add: v_def)
  show ?thesis
  proof (cases "isAnyEdit s")
    case None
    then show ?thesis using go v u(3) by (simp add: onACKComment_def Let_def)
  next
    case (Some e)
    then have "\<not> m_redline m" using assms(2) by (auto simp: message_ok_def)
    then show ?thesis using go v(1) assms(1) Some by (simp add: onACKComment_def Let_def)
  qed
qed

lemma newAnnotation_ok:
  assumes "comments_ok s" "addable d s"
  shows "\<exists>t. newAnnotation inView d s = Some t \<and> comments_ok t"
proof -
  obtain u where u: "addComment inView d s = Some (u, nextCom s)" "comments_ok u" "listed u = insert (nextCom s) (listed s)"
    using addComment_ok [OF assms] by blast
  have e: "comments_ok (edit_comment (nextCom s) u)" using edit_comment_ok u(2) by blast
  have "nextCom s \<in> listed (edit_comment (nextCom s) u)" using u(3) by (simp add: edit_comment_def put_comment_def)
  then show ?thesis using select_comment_ok [OF e] u by (fastforce simp: newAnnotation_def)
qed

end
