(* ===== verification/Comment_Import.thy ===== *)
theory Comment_Import
  imports Comment_Handlers
begin

text \<open>
  Importing all comments of a document: \<open>importComments\<close> replaces the comments by those of the message, finds the
  threads by the parents that the comments name, and orders them. With it the invariant holds over every sequence of
  handlers.
\<close>

section \<open>Clearing the list\<close>

lemma removeCommentSection_eq:
  assumes "distinct (map fst (registry s))"
  shows "\<exists>x. removeCommentSection n s = s\<lparr>registry := filter (\<lambda>(m, r). m \<noteq> n) (registry s), selectedComment := x\<rparr>"
proof (cases "List.find (\<lambda>(m, r). m = n) (registry s)")
  case None
  then have "\<forall>x \<in> set (registry s). fst x \<noteq> n" by (auto simp: find_None_iff)
  then have "filter (\<lambda>(m, r). m \<noteq> n) (registry s) = registry s" by (auto simp: filter_id_conv)
  then show ?thesis using None by (intro exI [of _ "selectedComment s"]) (simp add: removeCommentSection_def)
next
  case (Some x)
  obtain m r where x: "x = (m, r)" by force
  then have mr: "(n, r) \<in> set (registry s)" "m = n" using Some by (auto simp: find_Some_iff) (metis nth_mem)
  have "remove1 (n, r) (registry s) = filter (\<lambda>y. y \<noteq> (n, r)) (registry s)"
    using assms by (simp add: distinct_map distinct_remove1_removeAll removeAll_filter_not_eq eq_commute)
  also have "\<dots> = filter (\<lambda>(m, r). m \<noteq> n) (registry s)"
    using assms mr(1) by (intro filter_cong refl) (fastforce simp: distinct_map inj_on_def)
  finally have eq: "remove1 (n, r) (registry s) = filter (\<lambda>(m, r). m \<noteq> n) (registry s)" .
  show ?thesis
    using Some x mr(2) eq
    by (intro exI [of _ "if selectedComment s = Some r then None else selectedComment s"])
       (simp add: removeCommentSection_def onRemove_def)
qed

lemma remove_sections:
  "distinct (map fst (registry s)) \<Longrightarrow> \<exists>x. fold (\<lambda>r. removeCommentSection (f r)) rs s =
     s\<lparr>registry := filter (\<lambda>(m, r). m \<notin> f ` set rs) (registry s), selectedComment := x\<rparr>"
proof (induction rs arbitrary: s)
  case Nil
  then show ?case by (intro exI [of _ "selectedComment s"]) simp
next
  case (Cons r rs)
  obtain x where x: "removeCommentSection (f r) s = s\<lparr>registry := filter (\<lambda>(m, q). m \<noteq> f r) (registry s), selectedComment := x\<rparr>"
    using removeCommentSection_eq [OF Cons.prems] by blast
  have "distinct (map fst (registry (removeCommentSection (f r) s)))" using Cons.prems x by (simp add: distinct_map_filter)
  from Cons.IH [OF this] show ?case by (auto simp: x case_prod_beta' conj_commute)
qed

abbreviation redlines :: "comments \<Rightarrow> nat list" where
  "redlines s \<equiv> filter (\<lambda>r. com_trackchange (dat s r)) (commentList s)"

lemma clearList_eq:
  assumes "comments_ok s"
  shows "clearList s = s\<lparr>registry := filter (\<lambda>(m, r). com_trackchange (dat s r)) (registry s), commentList := redlines s,
    idIndexMap := index_map (map (cid s) (redlines s)), selectedComment := None, autoSavedComment := None, commentWasAutoAdded := False\<rparr>"
proof -
  note ok = comments_okD [OF assms]
  let ?gone = "filter (\<lambda>r. com_trackchange (dat s r) = False) (commentList s)"
  let ?f = "\<lambda>r. section_name (dat s r)"
  have reg: "distinct (map fst (registry s))" "set (registry s) = (\<lambda>r. (?f r, r)) ` listed s"
    using ok(5) by (simp_all add: registry_ok_def)
  obtain x where x: "fold (\<lambda>r. removeCommentSection (?f r)) (rev ?gone) s =
     s\<lparr>registry := filter (\<lambda>(m, r). m \<notin> ?f ` set (rev ?gone)) (registry s), selectedComment := x\<rparr>"
    using remove_sections [OF reg(1), of ?f "rev ?gone"] by blast
  have "?f r \<in> ?f ` set (rev ?gone) \<longleftrightarrow> \<not> com_trackchange (dat s r)" if "r \<in> listed s" for r
    using that threads_okD(2) [OF ok(2)] by (auto simp: section_name_inj inj_on_def)
  then have "filter (\<lambda>(m, r). m \<notin> ?f ` set (rev ?gone)) (registry s) = filter (\<lambda>(m, r). com_trackchange (dat s r)) (registry s)"
    using reg(2) by (intro filter_cong refl) auto
  then show ?thesis unfolding clearList_def clear_where_def Let_def x by (simp add: clearAutoSaveStatus_def updateIdIndexMap_def)
qed

section \<open>The loop over the messages\<close>

text \<open>The comments of the message are appended; of those that exist at most \<open>com_resolved\<close> changes.\<close>

definition imported :: "comments \<Rightarrow> comment_data list \<Rightarrow> comments \<Rightarrow> bool" where
  "imported b ds u \<longleftrightarrow>
     commentList u = commentList b @ [nextCom b..<nextCom b + length ds] \<and> nextCom u = nextCom b + length ds \<and>
     registry u = registry b @ map (\<lambda>j. (section_name (ds ! j), nextCom b + j)) [0..<length ds] \<and>
     commentDocType u = commentDocType b \<and> selectedComment u = selectedComment b \<and> commentFileBased u = commentFileBased b \<and>
     partHashes u = partHashes b \<and> partStep u = partStep b \<and>
     (\<forall>j < length ds. cid u (nextCom b + j) = com_id (ds ! j) \<and> par u (nextCom b + j) = com_parent (ds ! j)) \<and>
     (\<forall>q < nextCom b. cid u q = cid b q \<and> par u q = par b q)"

lemma imported_names:
  assumes "imported b ds u"
  shows "fst ` set (registry u) = fst ` set (registry b) \<union> section_name ` set ds"
proof -
  have "set ds = (!) ds ` {0..<length ds}" by (auto simp: in_set_conv_nth image_iff Bex_def)
  moreover have "registry u = registry b @ map (\<lambda>j. (section_name (ds ! j), nextCom b + j)) [0..<length ds]"
    using assms by (simp add: imported_def)
  ultimately show ?thesis by (simp add: image_Un image_image)
qed

lemma imported_resolved:
  assumes "imported b ds u" shows "imported b ds (updateResolvedState c u)"
  using assms by (auto simp: imported_def updateResolvedState_def setData_def put_comment_def split: option.splits)

lemma enter_fresh_section:
  assumes "section_name d \<notin> fst ` set (registry s)"
  shows "enter_section (nextCom s) inView (allocate d s) =
    (s\<lparr>coms := (coms s)(nextCom s := (new_comment s d)\<lparr>pendingInit := \<not> inView\<rparr>), nextCom := Suc (nextCom s),
       registry := registry s @ [(section_name d, nextCom s)]\<rparr>, True)"
  using assms
  by (simp add: enter_section_def addCommentSection_def allocate_def put_comment_def initialize_comment_def
      commentSectionExists_def new_comment_def)

lemma import_one_ok:
  assumes "imported b ds u" "section_name d \<notin> fst ` set (registry u)"
  shows "\<exists>v. import_one inView (length ds) d u = Some v \<and> imported b (ds @ [d]) v"
proof -
  let ?r = "nextCom u"
  let ?w = "u\<lparr>coms := (coms u)(?r := (new_comment u d)\<lparr>pendingInit := \<not> inView\<rparr>), nextCom := Suc ?r,
       registry := registry u @ [(section_name d, ?r)], commentList := commentList u @ [?r],
       idIndexMap := (idIndexMap u)(com_id d \<mapsto> length ds)\<rparr>"
  have u: "commentList u = commentList b @ [nextCom b..<nextCom b + length ds]" "nextCom u = nextCom b + length ds"
    using assms(1) by (simp_all add: imported_def)
  have "imported b (ds @ [d]) ?w"
    using assms(1) by (auto simp: imported_def new_comment_def nth_append less_Suc_eq)
  then have "imported b (ds @ [d]) (updateResolvedState (commentList ?w ! length ds) ?w)" by (rule imported_resolved)
  moreover have "import_one inView (length ds) d u = Some (updateResolvedState (commentList ?w ! length ds) ?w)"
    unfolding import_one_def Let_def enter_fresh_section [OF assms(2)] using u(1) by simp
  ultimately show ?thesis by blast
qed

lemma adjustComment_cong:
  "commentFileBased t = commentFileBased s \<Longrightarrow> partHashes t = partHashes s \<Longrightarrow> partStep t = partStep s \<Longrightarrow>
   adjustComment t m = adjustComment s m"
  by (simp add: adjustComment_def adjustCommentFileBasedView_def)

lemma import_loop_ok:
  assumes "imported b ds u" "those (map (\<lambda>(v, m). adjustComment b m) ms) = Some es"
    "distinct (map section_name (ds @ es))" "\<And>d. d \<in> set es \<Longrightarrow> section_name d \<notin> fst ` set (registry b)"
  shows "\<exists>v. import_loop (length ds) ms u = Some v \<and> imported b (ds @ es) v"
  using assms
proof (induction ms arbitrary: ds es u)
  case Nil then show ?case by auto
next
  case (Cons x ms)
  obtain inView m where x: "x = (inView, m)" by force
  obtain d es' where d: "adjustComment b m = Some d" "those (map (\<lambda>(v, m). adjustComment b m) ms) = Some es'" "es = d # es'"
    using Cons.prems(2) x by (auto split: option.splits)
  have a: "adjustComment u m = Some d" using Cons.prems(1) d(1) by (simp add: imported_def adjustComment_cong [of u b])
  have "section_name d \<notin> fst ` set (registry u)"
    using Cons.prems(3,4) d(3) unfolding imported_names [OF Cons.prems(1)] by auto
  then obtain v where v: "import_one inView (length ds) d u = Some v" "imported b (ds @ [d]) v"
    using import_one_ok [OF Cons.prems(1)] by blast
  have "\<exists>w. import_loop (length (ds @ [d])) ms v = Some w \<and> imported b ((ds @ [d]) @ es') w"
    using Cons.prems(3,4) d by (intro Cons.IH [OF v(2) d(2)]) auto
  then show ?case using x a v(1) d(3) by simp
qed

section \<open>The children of every comment\<close>

lemma fold_collect:
  "distinct acc \<Longrightarrow> distinct (fold (\<lambda>x ps. if P x \<or> f x \<in> set ps then ps else ps @ [f x]) xs acc) \<and>
   set (fold (\<lambda>x ps. if P x \<or> f x \<in> set ps then ps else ps @ [f x]) xs acc) = set acc \<union> f ` {x \<in> set xs. \<not> P x}"
proof (induction xs arbitrary: acc)
  case (Cons x xs)
  let ?acc = "if P x \<or> f x \<in> set acc then acc else acc @ [f x]"
  have "distinct ?acc" using Cons.prems by simp
  from Cons.IH [OF this] show ?case by auto
qed simp

lemma parent_ids_set:
  "distinct (parent_ids s)" "set (parent_ids s) = par s ` {r \<in> listed s. \<not> isRootComment s r}"
  using fold_collect [of "[]" "isRootComment s" "par s" "commentList s"] by (simp_all add: parent_ids_def)

definition with_kids :: "comments \<Rightarrow> (nat \<Rightarrow> nat list) \<Rightarrow> comments" where
  "with_kids s f = s\<lparr>coms := \<lambda>q. if q \<in> listed s then (coms s q)\<lparr>children := f q\<rparr> else coms s q\<rparr>"

lemma with_kids_simps [simp]:
  "commentList (with_kids s f) = commentList s" "nextCom (with_kids s f) = nextCom s" "dat (with_kids s f) q = dat s q"
  "q \<in> listed s \<Longrightarrow> kids (with_kids s f) q = f q"
  by (simp_all add: with_kids_def)

lemma with_kids_set: "r \<in> listed s \<Longrightarrow> set_children r cs (with_kids s f) = with_kids s (f(r := cs))"
  by (auto simp: set_children_def put_comment_def with_kids_def fun_eq_iff)

lemma clear_kids: "fold (\<lambda>r. set_children r []) (commentList s) s = with_kids s (\<lambda>q. [])"
proof -
  have "fold (\<lambda>r. set_children r []) rs s = s\<lparr>coms := \<lambda>q. if q \<in> set rs then (coms s q)\<lparr>children := []\<rparr> else coms s q\<rparr>" for rs and s :: comments
    by (induction rs arbitrary: s) (auto simp: set_children_def put_comment_def fun_eq_iff)
  then show ?thesis by (simp add: with_kids_def)
qed

abbreviation replies :: "comments \<Rightarrow> nat \<Rightarrow> nat list" where
  "replies s r \<equiv> filter (\<lambda>q. par s q = cid s r) (commentList s)"

lemma attach_groups:
  assumes "inj_on (cid s) (listed s)"
  shows "set ps \<subseteq> cid s ` listed s \<Longrightarrow> distinct ps \<Longrightarrow> set ps \<inter> D = {} \<Longrightarrow>
    fst (fold attach_group ps (with_kids s (\<lambda>q. if cid s q \<in> D then replies s q else []), x)) =
    with_kids s (\<lambda>q. if cid s q \<in> D \<union> set ps then replies s q else [])"
proof (induction ps arbitrary: D x)
  case (Cons p ps)
  let ?f = "\<lambda>D q. if cid s q \<in> D then replies s q else []"
  obtain r where r: "r \<in> listed s" "cid s r = p" using Cons.prems(1) by auto
  have "List.find (\<lambda>q. cid s q = p) (commentList s) = Some r" using find_unique [OF assms r(1)] r(2) by simp
  then have "attach_group p (with_kids s (?f D), x) = (with_kids s ((?f D)(r := replies s r)), Some r)"
    using r Cons.prems(3) by (simp add: attach_group_def Let_def with_kids_set)
  moreover have "with_kids s ((?f D)(r := replies s r)) = with_kids s (?f (insert p D))"
    using r assms by (auto simp: with_kids_def fun_eq_iff inj_on_def)
  moreover have "fst (fold attach_group ps (with_kids s (?f (insert p D)), Some r)) = with_kids s (?f (insert p D \<union> set ps))"
    using Cons.prems by (intro Cons.IH) auto
  ultimately show ?case by simp
qed simp

lemma addUpdateChildGroups_eq:
  assumes "inj_on (cid s) (listed s)" "\<And>r. r \<in> listed s \<Longrightarrow> isRootComment s r \<or> par s r \<in> cid s ` listed s"
    "''0'' \<notin> cid s ` listed s"
  shows "addUpdateChildGroups s = with_kids s (replies s)"
proof -
  have "addUpdateChildGroups s = fst (fold attach_group (parent_ids s) (with_kids s (\<lambda>q. if cid s q \<in> {} then replies s q else []), None))"
    by (simp add: addUpdateChildGroups_def clear_kids)
  also have "\<dots> = with_kids s (\<lambda>q. if cid s q \<in> {} \<union> set (parent_ids s) then replies s q else [])"
    using assms(2) parent_ids_set [of s] by (intro attach_groups [OF assms(1)]) auto
  also have "\<dots> = with_kids s (replies s)"
  proof -
    have "replies s q = []" if "q \<in> listed s" "cid s q \<notin> set (parent_ids s)" for q
    proof -
      have "par s r \<noteq> cid s q" if r: "r \<in> listed s" for r
      proof (cases "isRootComment s r")
        case True then show ?thesis using assms(3) \<open>q \<in> listed s\<close> by (auto simp: isRootComment_def)
      next
        case False
        then have "par s r \<in> set (parent_ids s)" using r parent_ids_set(2) [of s] by auto
        then show ?thesis using \<open>cid s q \<notin> set (parent_ids s)\<close> by metis
      qed
      then show ?thesis by (simp add: filter_empty_conv)
    qed
    then show ?thesis by (auto simp: with_kids_def fun_eq_iff)
  qed
  finally show ?thesis .
qed

section \<open>A complete import\<close>

text \<open>A well-formed message: its comments have ids of their own, and every parent is part of it.\<close>

definition import_ok :: "(bool \<times> comment_msg) list \<Rightarrow> comment_data list \<Rightarrow> comments \<Rightarrow> bool" where
  "import_ok ms ds s \<longleftrightarrow> isAnyEdit s = None \<and> those (map (\<lambda>(v, m). adjustComment s m) ms) = Some ds \<and>
     distinct (map com_id ds) \<and>
     (\<forall>d \<in> set ds. com_id d \<notin> {''0'', [], ''new''} \<and> com_id d \<notin> cid s ` set (redlines s) \<and>
        (com_parent d = ''0'' \<or> com_parent d \<in> com_id ` set ds)) \<and>
     acyclic ((\<lambda>d. (com_parent d, com_id d)) ` set ds) \<and>
     (\<forall>r \<in> set (redlines s). isRootComment s r \<and> kids s r = [])"

lemma imported_lists:
  assumes "imported b ds v" "\<forall>r \<in> listed b. r < nextCom b"
  shows "listed v = listed b \<union> (\<lambda>j. nextCom b + j) ` {..<length ds}"
    "r \<in> listed b \<Longrightarrow> cid v r = cid b r \<and> par v r = par b r"
    "cid v ` listed v = cid b ` listed b \<union> com_id ` set ds"
    "(\<lambda>r. (cid v r, par v r)) ` listed v = (\<lambda>r. (cid b r, par b r)) ` listed b \<union> (\<lambda>d. (com_id d, com_parent d)) ` set ds"
    "r \<in> listed v \<Longrightarrow> r \<notin> listed b \<Longrightarrow> \<exists>d \<in> set ds. cid v r = com_id d \<and> par v r = com_parent d"
proof -
  show L: "listed v = listed b \<union> (\<lambda>j. nextCom b + j) ` {..<length ds}"
    using assms(1) by (simp add: imported_def lessThan_atLeast0 image_add_atLeastLessThan add.commute)
  show R: "cid v r = cid b r \<and> par v r = par b r" if "r \<in> listed b" for r
    using assms that by (simp add: imported_def)
  have N: "cid v (nextCom b + j) = com_id (ds ! j) \<and> par v (nextCom b + j) = com_parent (ds ! j)" if "j < length ds" for j
    using assms(1) that by (simp add: imported_def)
  have "(\<lambda>r. (cid v r, par v r)) ` listed v =
      (\<lambda>r. (cid v r, par v r)) ` listed b \<union> (\<lambda>j. (cid v (nextCom b + j), par v (nextCom b + j))) ` {..<length ds}"
    unfolding L by (simp only: image_Un image_image)
  also have "(\<lambda>r. (cid v r, par v r)) ` listed b = (\<lambda>r. (cid b r, par b r)) ` listed b"
    by (intro image_cong refl) (simp add: R)
  also have "(\<lambda>j. (cid v (nextCom b + j), par v (nextCom b + j))) ` {..<length ds} =
      (\<lambda>d. (com_id d, com_parent d)) ` (!) ds ` {..<length ds}"
    unfolding image_image by (intro image_cong refl) (simp add: N)
  also have "(!) ds ` {..<length ds} = set ds" by (auto simp: in_set_conv_nth image_iff)
  finally show P: "(\<lambda>r. (cid v r, par v r)) ` listed v =
      (\<lambda>r. (cid b r, par b r)) ` listed b \<union> (\<lambda>d. (com_id d, com_parent d)) ` set ds" .
  from arg_cong [OF P, of "\<lambda>A. fst ` A"] show "cid v ` listed v = cid b ` listed b \<union> com_id ` set ds"
    by (simp add: image_Un image_image)
  show "\<exists>d \<in> set ds. cid v r = com_id d \<and> par v r = com_parent d" if "r \<in> listed v" "r \<notin> listed b"
    using that N unfolding L by (auto intro: nth_mem)
qed

lemma imported_ids:
  assumes "imported b ds v" "\<forall>r \<in> listed b. r < nextCom b"
  shows "ids v = ids b @ map com_id ds"
proof -
  have l: "commentList v = commentList b @ [nextCom b..<nextCom b + length ds]" using assms(1) by (simp add: imported_def)
  have "map (cid v) [nextCom b..<nextCom b + length ds] = map com_id ds"
    using assms(1) by (intro nth_equalityI) (simp_all add: imported_def)
  moreover have "map (cid v) (commentList b) = ids b" using assms by (simp add: imported_def)
  ultimately show ?thesis by (simp add: l)
qed

lemma import_distinct:
  assumes "comments_ok s" "import_ok ms ds s" "imported (clearList s) ds v"
  shows "distinct (ids v)"
proof -
  note th = comments_okD(2) [OF assms(1)]
  have "ids v = map (cid s) (redlines s) @ map com_id ds"
    using imported_ids [OF assms(3)] threads_okD(4) [OF th] by (simp add: clearList_eq [OF assms(1)])
  moreover have "distinct (map (cid s) (redlines s))"
    using threads_okD(1,2) [OF th] by (auto simp: distinct_map inj_on_def)
  moreover have "distinct (map com_id ds)" "com_id ` set ds \<inter> cid s ` set (redlines s) = {}"
    using assms(2) unfolding import_ok_def by blast+
  ultimately show ?thesis by auto
qed

lemma import_threads:
  assumes "comments_ok s" "import_ok ms ds s" "imported (clearList s) ds v"
  shows "addUpdateChildGroups v = with_kids v (replies v)" "threads_ok (with_kids v (replies v))"
proof -
  note ok = comments_okD [OF assms(1)]
  have b: "commentList (clearList s) = redlines s" "coms (clearList s) = coms s" "nextCom (clearList s) = nextCom s"
    by (simp_all add: clearList_eq [OF assms(1)])
  have small: "\<forall>r \<in> listed (clearList s). r < nextCom (clearList s)" using threads_okD(4) [OF ok(2)] b by simp
  note il = imported_lists [OF assms(3) small]
  have imp: "\<And>d. d \<in> set ds \<Longrightarrow> com_id d \<noteq> ''0'' \<and> (com_parent d = ''0'' \<or> com_parent d \<in> com_id ` set ds)"
    "acyclic ((\<lambda>d. (com_parent d, com_id d)) ` set ds)" "\<And>r. r \<in> set (redlines s) \<Longrightarrow> isRootComment s r"
    using assms(2) by (auto simp: import_ok_def)
  have dis: "distinct (commentList v)" "inj_on (cid v) (listed v)"
    using import_distinct [OF assms] by (simp_all add: distinct_map)
  have zero: "''0'' \<notin> cid v ` listed v"
  proof
    assume "''0'' \<in> cid v ` listed v"
    then consider r where "r \<in> listed s" "cid s r = ''0''" | d where "d \<in> set ds" "com_id d = ''0''"
      unfolding il(3) b by (auto simp: image_iff)
    then show False using threads_okD(5) [OF ok(2)] imp(1) by cases blast+
  qed
  have cases: "isRootComment v r \<or> (\<exists>d \<in> set ds. cid v r = com_id d \<and> par v r = com_parent d)" if "r \<in> listed v" for r
    using il(2,5) [of r] imp(3) [of r] that by (cases "r \<in> listed (clearList s)") (auto simp: b isRootComment_def)
  have parent: "isRootComment v r \<or> par v r \<in> cid v ` listed v" if "r \<in> listed v" for r
    using cases [OF that] imp(1) unfolding il(3) isRootComment_def by (metis UnI2)
  show "addUpdateChildGroups v = with_kids v (replies v)" by (rule addUpdateChildGroups_eq [OF dis(2) parent zero])
  let ?w = "with_kids v (replies v)"
  have rel: "thread_rel ?w \<subseteq> inv_image ((\<lambda>d. (com_parent d, com_id d)) ` set ds) (cid v)"
  proof (rule subrelI)
    fix p q assume "(p, q) \<in> thread_rel ?w"
    then have pq: "p \<in> listed v" "q \<in> listed v" "par v q = cid v p" by (simp_all add: thread_rel_def)
    then have "\<not> isRootComment v q" using zero unfolding isRootComment_def by (metis imageI)
    then obtain d where "d \<in> set ds" "cid v q = com_id d" "par v q = com_parent d" using cases [OF pq(2)] by blast
    then show "(p, q) \<in> inv_image ((\<lambda>d. (com_parent d, com_id d)) ` set ds) (cid v)" using pq(3) by (auto simp: inv_image_def)
  qed
  have "wf ((\<lambda>d. (com_parent d, com_id d)) ` set ds)" using imp(2) by (intro finite_acyclic_wf) simp_all
  then have "acyclic (thread_rel ?w)" using rel by (meson wf_acyclic wf_inv_image wf_subset)
  moreover have "node_ok ?w r" if "r \<in> listed v" for r
  proof -
    have "r < nextCom v" using that il(1) small b assms(3) by (auto simp: imported_def)
    moreover have "cid v r \<noteq> ''0''" using zero that by (metis imageI)
    ultimately show ?thesis using that parent [OF that] dis(1) by (auto simp: node_ok_def isRootComment_def)
  qed
  ultimately show "threads_ok ?w" using dis by (simp add: threads_ok_def)
qed

lemma import_registry:
  assumes "comments_ok s" "import_ok ms ds s" "imported (clearList s) ds v"
  shows "registry_ok v"
proof -
  note ok = comments_okD [OF assms(1)]
  have b: "commentList (clearList s) = redlines s" "coms (clearList s) = coms s" "nextCom (clearList s) = nextCom s"
    "registry (clearList s) = filter (\<lambda>(m, r). com_trackchange (dat s r)) (registry s)"
    by (simp_all add: clearList_eq [OF assms(1)])
  have v: "registry v = registry (clearList s) @ map (\<lambda>j. (section_name (ds ! j), nextCom s + j)) [0..<length ds]"
    "commentList v = redlines s @ [nextCom s..<nextCom s + length ds]"
    using assms(3) b by (simp_all add: imported_def)
  have name_old: "section_name (dat v r) = section_name (dat s r)" if "r \<in> set (redlines s)" for r
    using assms(3) that threads_okD(4) [OF ok(2), of r] b by (simp add: imported_def section_name_def)
  have name_new: "section_name (dat v (nextCom s + j)) = section_name (ds ! j)" if "j < length ds" for j
    using assms(3) that b by (simp add: imported_def section_name_def)
  have reg: "set (registry (clearList s)) = (\<lambda>r. (section_name (dat s r), r)) ` set (redlines s)"
    using ok(5) unfolding b by (auto simp: registry_ok_def)
  have set_eq: "set (registry v) = (\<lambda>r. (section_name (dat v r), r)) ` listed v"
  proof -
    have "set [nextCom s..<nextCom s + length ds] = (\<lambda>j. nextCom s + j) ` {0..<length ds}"
      by (simp add: image_add_atLeastLessThan add.commute)
    then have "(\<lambda>r. (section_name (dat v r), r)) ` listed v = (\<lambda>r. (section_name (dat v r), r)) ` set (redlines s) \<union>
        (\<lambda>j. (section_name (dat v (nextCom s + j)), nextCom s + j)) ` {0..<length ds}"
      unfolding v(2) by (simp only: set_append image_Un image_image)
    also have "(\<lambda>r. (section_name (dat v r), r)) ` set (redlines s) = set (registry (clearList s))"
      unfolding reg by (intro image_cong refl) (simp add: name_old)
    also have "(\<lambda>j. (section_name (dat v (nextCom s + j)), nextCom s + j)) ` {0..<length ds} =
        (\<lambda>j. (section_name (ds ! j), nextCom s + j)) ` {0..<length ds}"
      by (intro image_cong refl) (simp add: name_new)
    finally show ?thesis by (simp add: v(1))
  qed
  have "distinct (map fst (registry v))"
  proof -
    have "map fst (registry v) = map fst (registry (clearList s)) @ map section_name ds"
    proof -
      have "map section_name ds = map (\<lambda>j. section_name (ds ! j)) [0..<length ds]" by (intro nth_equalityI) simp_all
      then show ?thesis unfolding v(1) by (simp add: comp_def)
    qed
    moreover have "distinct (map fst (registry (clearList s)))" using ok(5) unfolding b by (simp add: registry_ok_def distinct_map_filter)
    moreover have "distinct (map section_name ds)"
      using assms(2) section_name_inj by (fastforce simp: import_ok_def distinct_map inj_on_def)
    moreover have "fst ` set (registry (clearList s)) \<inter> section_name ` set ds = {}"
      using assms(2) section_name_inj unfolding reg import_ok_def by fastforce
    ultimately show ?thesis by simp
  qed
  then show ?thesis using set_eq by (simp add: registry_ok_def)
qed

lemma import_nonempty:
  assumes "comments_ok s" "import_ok ms ds s" "ms \<noteq> []"
  shows "\<exists>t. importComments ms s = Some t \<and> comments_ok t \<and> in_thread_order t \<and>
    (\<lambda>r. (cid t r, par t r)) ` listed t =
      (\<lambda>d. (com_id d, com_parent d)) ` set ds \<union> (\<lambda>r. (cid s r, ''0'')) ` set (redlines s)"
proof -
  note ok = comments_okD [OF assms(1)]
  let ?b = "clearList s"
  have b: "commentList ?b = redlines s" "coms ?b = coms s" "nextCom ?b = nextCom s" "selectedComment ?b = None" "commentDocType ?b = Text"
    "registry ?b = filter (\<lambda>(m, r). com_trackchange (dat s r)) (registry s)"
    "commentFileBased ?b = commentFileBased s" "partHashes ?b = partHashes s" "partStep ?b = partStep s"
    using ok(1) by (simp_all add: clearList_eq [OF assms(1)])
  have small: "\<forall>r \<in> listed ?b. r < nextCom ?b" using threads_okD(4) [OF ok(2)] b by simp
  have "imported ?b [] ?b" by (simp add: imported_def)
  moreover have "those (map (\<lambda>(v, m). adjustComment ?b m) ms) = Some ds"
    using assms(2) by (simp add: import_ok_def adjustComment_cong [OF b(7-9)])
  moreover have "distinct (map section_name ([] @ ds))"
    using assms(2) section_name_inj by (fastforce simp: import_ok_def distinct_map inj_on_def)
  moreover have "section_name d \<notin> fst ` set (registry ?b)" if "d \<in> set ds" for d
    using assms(2) that section_name_inj ok(5) unfolding b(6) import_ok_def registry_ok_def by fastforce
  ultimately obtain v where v: "import_loop 0 ms ?b = Some v" "imported ?b ds v"
    using import_loop_ok [of ?b "[]" ?b ms ds] by auto
  note il = imported_lists [OF v(2) small]
  let ?w = "with_kids v (replies v)"
  have other: "par v r \<noteq> ''new'' \<and> cid v r \<noteq> [] \<and> (cid v r = ''new'' \<longrightarrow> isRootComment v r)" if rl: "r \<in> listed v" for r
  proof (cases "r \<in> listed ?b")
    case True
    then have "r \<in> listed s" "cid v r = cid s r" "par v r = par s r" using il(2) [of r] b by simp_all
    then show ?thesis using ok(6,8,9) [of r] by (simp add: isRootComment_def)
  next
    case False
    then obtain d where "d \<in> set ds" "cid v r = com_id d" "par v r = com_parent d" using il(5) [OF rl] by blast
    moreover have wf: "\<forall>e \<in> set ds. com_id e \<notin> {''0'', [], ''new''} \<and> (com_parent e = ''0'' \<or> com_parent e \<in> com_id ` set ds)"
      using assms(2) unfolding import_ok_def by blast
    moreover have "com_parent d \<noteq> ''new''"
    proof
      assume "com_parent d = ''new''"
      then obtain e where "e \<in> set ds" "com_id e = ''new''" using wf [rule_format, OF \<open>d \<in> set ds\<close>] by auto
      then show False using wf by simp
    qed
    ultimately show ?thesis by simp
  qed
  have "\<exists>t. orderCommentList ?w = Some t \<and> comments_ok t \<and> in_thread_order t \<and> listed t = listed ?w \<and>
      t = ?w\<lparr>commentList := commentList t, idIndexMap := idIndexMap t\<rparr>"
  proof (rule order_ok)
    show "commentDocType ?w = Text" using v(2) b(5) by (simp add: imported_def with_kids_def)
    show "threads_ok ?w" by (rule import_threads(2) [OF assms(1,2) v(2)])
    show "registry_ok ?w" using import_registry [OF assms(1,2) v(2)] by (simp add: registry_ok_def) (simp add: with_kids_def)
    show "r \<in> listed ?w" if "selectedComment ?w = Some r" for r using that v(2) b(4) by (simp add: imported_def with_kids_def)
    show "par ?w r \<noteq> ''new'' \<and> cid ?w r \<noteq> [] \<and> (cid ?w r = ''new'' \<longrightarrow> isRootComment ?w r)" if "r \<in> listed ?w" for r
      using other [of r] that by (simp add: isRootComment_def)
  qed
  then obtain t where t: "orderCommentList ?w = Some t" "comments_ok t" "in_thread_order t" "listed t = listed v"
    "t = ?w\<lparr>commentList := commentList t, idIndexMap := idIndexMap t\<rparr>" by auto
  have "importComments ms s = Some t"
    using t(1) v assms(2,3) b(5) import_threads(1) [OF assms(1,2) v(2)]
    by (simp add: importComments_def import_ok_def Let_def imported_def)
  moreover have "dat t r = dat v r" for r by (subst t(5)) simp
  then have "(\<lambda>r. (cid t r, par t r)) ` listed t = (\<lambda>r. (cid s r, par s r)) ` set (redlines s) \<union> (\<lambda>d. (com_id d, com_parent d)) ` set ds"
    using il(4) t(4) b by simp
  moreover have "(\<lambda>r. (cid s r, par s r)) ` set (redlines s) = (\<lambda>r. (cid s r, ''0'')) ` set (redlines s)"
    using assms(2) by (intro image_cong refl) (simp add: import_ok_def isRootComment_def)
  ultimately show ?thesis using t(2,3) by (metis Un_commute)
qed

lemma clearList_ok:
  assumes "comments_ok s" "\<And>r. r \<in> set (redlines s) \<Longrightarrow> isRootComment s r \<and> kids s r = []"
  shows "comments_ok (clearList s)"
proof -
  note ok = comments_okD [OF assms(1)]
  let ?b = "clearList s"
  have b: "commentList ?b = redlines s" "coms ?b = coms s" "nextCom ?b = nextCom s" "selectedComment ?b = None" "commentDocType ?b = Text"
    "registry ?b = filter (\<lambda>(m, r). com_trackchange (dat s r)) (registry s)" "idIndexMap ?b = index_map (map (cid s) (redlines s))"
    using ok(1) by (simp_all add: clearList_eq [OF assms(1)])
  have root: "isRootComment ?b r" if "r \<in> listed ?b" for r using assms(2) that b by (auto simp: isRootComment_def)
  have zero: "cid ?b r \<noteq> ''0''" if "r \<in> listed ?b" for r using threads_okD(5) [OF ok(2), of r] that b by simp
  have none: "thread_rel ?b = {}"
  proof (rule equals0I)
    fix x assume "x \<in> thread_rel ?b"
    then obtain p q where "p \<in> listed ?b" "q \<in> listed ?b" "par ?b q = cid ?b p" by (auto simp: thread_rel_def)
    then show False using root [of q] zero [of p] by (simp add: isRootComment_def)
  qed
  have "node_ok ?b r" if "r \<in> listed ?b" for r
  proof -
    have "{q \<in> listed ?b. par ?b q = cid ?b r} = {}" using none that by (auto simp: thread_rel_def)
    then show ?thesis using that root [OF that] zero [OF that] assms(2) [of r] threads_okD(4) [OF ok(2), of r]
      by (simp add: node_ok_def b)
  qed
  moreover have "inj_on (cid ?b) (listed ?b)" using threads_okD(2) [OF ok(2)] by (auto simp: b inj_on_def)
  ultimately have "threads_ok ?b" using threads_okD(1) [OF ok(2)] none by (simp add: threads_ok_def b(1) acyclic_def)
  moreover have "index_ok ?b" by (simp add: index_ok_def b)
  moreover have "parents_first ?b" using root by (simp add: parents_first_def)
  moreover have "registry_ok ?b" using ok(5) by (auto simp: registry_ok_def b distinct_map_filter)
  ultimately show ?thesis using b(4,5) ok(6,8) root unfolding comments_ok_def by (auto simp: b(1,2))
qed

lemma importComments_ok:
  assumes "comments_ok s" "import_ok ms ds s" shows "\<exists>t. importComments ms s = Some t \<and> comments_ok t"
proof (cases "ms = []")
  case True
  then have "importComments ms s = Some (clearList s)" using assms(2) by (simp add: importComments_def import_ok_def)
  moreover have "comments_ok (clearList s)" using assms(2) unfolding import_ok_def by (intro clearList_ok [OF assms(1)]) blast
  ultimately show ?thesis by blast
qed (use import_nonempty [OF assms] in blast)

section \<open>Sequences of handlers\<close>

datatype comment_op = ServerMessage bool bool comment_msg | NewComment bool comment_data | SelectComment nat bool
  | SelectId string | CancelEdit nat | SaveEdit nat | SaveReply nat | RemoveRequest string | OrderComments | ViewResolved bool
  | PartChange | Collapse | Expand | RejectAll | Import "(bool \<times> comment_msg) list"

fun run_comment_op :: "comment_op \<Rightarrow> comments \<Rightarrow> comments option" where
  "run_comment_op (ServerMessage inView tracked m) s = onACKComment inView tracked m s"
| "run_comment_op (NewComment inView d) s = newAnnotation inView d s"
| "run_comment_op (SelectComment r force) s = select_comment r force s"
| "run_comment_op (CancelEdit r) s = cancel r s"
| "run_comment_op (SaveEdit r) s = save r s"
| "run_comment_op (SelectId i) s = selectById i s"
| "run_comment_op (SaveReply r) s = saveReply r s"
| "run_comment_op (RemoveRequest i) s = remove_request i s"
| "run_comment_op PartChange s = onPartChange s"
| "run_comment_op Collapse s = setCollapsed s"
| "run_comment_op Expand s = Some (setExpanded s)"
| "run_comment_op RejectAll s = Some (rejectAllTrackedCommentChanges s)"
| "run_comment_op OrderComments s = orderCommentList s"
| "run_comment_op (ViewResolved state) s = setViewResolved state s"
| "run_comment_op (Import ms) s = importComments ms s"

fun comment_op_ok :: "comment_op \<Rightarrow> comments \<Rightarrow> bool" where
  "comment_op_ok (ServerMessage inView tracked m) s = message_ok m s"
| "comment_op_ok (NewComment inView d) s = addable d s"
| "comment_op_ok (SelectComment r force) s = (r \<in> listed s)"
| "comment_op_ok (RemoveRequest i) s = (i \<in> cid s ` listed s)"
| "comment_op_ok (Import ms) s =
     (case those (map (\<lambda>(v, m). adjustComment s m) ms) of None \<Rightarrow> False | Some ds \<Rightarrow> import_ok ms ds s)"
| "comment_op_ok _ s = True"

fun run_comment_ops :: "comment_op list \<Rightarrow> comments \<Rightarrow> comments option" where
  "run_comment_ops [] s = Some s"
| "run_comment_ops (op # ops) s = do { t \<leftarrow> run_comment_op op s; run_comment_ops ops t }"

fun comment_ops_ok :: "comment_op list \<Rightarrow> comments \<Rightarrow> bool" where
  "comment_ops_ok [] s = True"
| "comment_ops_ok (op # ops) s \<longleftrightarrow> comment_op_ok op s \<and> (case run_comment_op op s of None \<Rightarrow> True | Some t \<Rightarrow> comment_ops_ok ops t)"

lemma run_comment_op_ok:
  assumes "comments_ok s" "comment_op_ok op s" shows "\<exists>t. run_comment_op op s = Some t \<and> comments_ok t"
proof (cases op)
  case (ServerMessage inView tracked m)
  then show ?thesis using onACKComment_ok [OF assms(1)] assms(2) by simp blast
next
  case (NewComment inView d)
  then show ?thesis using newAnnotation_ok [OF assms(1)] assms(2) by simp
next
  case (SelectComment r force)
  then show ?thesis using select_comment_ok [OF assms(1)] assms(2) by simp blast
next
  case (CancelEdit r)
  then show ?thesis using cancel_ok [OF assms(1)] by simp
next
  case (SaveEdit r)
  then show ?thesis using save_ok [OF assms(1)] by simp
next
  case (SelectId i)
  then show ?thesis using selectById_ok [OF assms(1)] by simp
next
  case (SaveReply r)
  then show ?thesis using requests_ok(1) [OF assms(1)] by simp
next
  case (RemoveRequest i)
  then show ?thesis using remove_request_ok [OF assms(1)] assms(2) by simp
next
  case PartChange
  then show ?thesis using onPartChange_ok [OF assms(1)] by simp
next
  case Collapse
  then show ?thesis using collapse_ok(1) [OF assms(1)] by simp
next
  case Expand
  then show ?thesis using collapse_ok(2) [OF assms(1)] by simp
next
  case RejectAll
  then show ?thesis using rejectAll_ok [OF assms(1)] by simp
next
  case OrderComments
  then show ?thesis using orderCommentList_ok [OF assms(1)] by simp blast
next
  case (ViewResolved state)
  then show ?thesis using setViewResolved_ok [OF assms(1)] by simp
next
  case (Import ms)
  then show ?thesis using importComments_ok [OF assms(1)] assms(2) by (auto split: option.splits)
qed

lemma run_comment_ops_ok:
  "comments_ok s \<Longrightarrow> comment_ops_ok ops s \<Longrightarrow> \<exists>t. run_comment_ops ops s = Some t \<and> comments_ok t"
proof (induction ops arbitrary: s)
  case (Cons op ops)
  obtain u where u: "run_comment_op op s = Some u" "comments_ok u" using run_comment_op_ok [OF Cons.prems(1)] Cons.prems(2) by auto
  moreover have "comment_ops_ok ops u" using Cons.prems(2) u(1) by simp
  ultimately show ?case using Cons.IH [OF u(2)] by simp
qed simp

text \<open>The list when the section is created, for a text document.\<close>

definition no_comments :: "string \<Rightarrow> comments" where
  "no_comments name = \<lparr>coms = (\<lambda>r. undefined), nextCom = 0, commentList = [], idIndexMap = Map.empty, registry = [],
     selectedComment = None, showResolved = False, isCollapsed = False, commentsAreListed = True, isContainerVisible = (\<lambda>r. True),
     commentDocType = Text, viewedPart = 0, commentFileBased = False, partHashes = [], partStep = 0, viewName = name,
     autoSavedComment = None, commentWasAutoAdded = False, pendingImport = False, isMobile = False, mapCalls = []\<rparr>"

lemma no_comments_ok: "comments_ok (no_comments name)"
  by (simp add: comments_ok_def no_comments_def threads_ok_def index_ok_def index_map_def parents_first_def registry_ok_def
      thread_rel_def acyclic_def)


section \<open>Properties\<close>

text \<open>
  C1. The handlers of the comment list of a text document never throw: after any sequence of server messages that keep
  to the protocol, new comments, selections, cancelled and saved edits, layouts and imports the list is well formed.
  Every comment is listed once, its children are the comments that name it as parent, the index map gives its position,
  it stands behind its parent, it has its section and the selection is a listed comment.\<close>

theorem comment_handlers_never_throw:
  assumes "comments_ok s" "comment_ops_ok ops s"
  shows "\<exists>t. run_comment_ops ops s = Some t \<and> comments_ok t"
  by (rule run_comment_ops_ok [OF assms])

definition sample_msg :: "string \<Rightarrow> string \<Rightarrow> string \<Rightarrow> string option \<Rightarrow> comment_msg" where
  "sample_msg action i position parent = \<lparr>m_redline = False, m_action = action, m_id = i, m_index = '''', m_parent = None,
     m_parentId = parent, m_author = ''Ann'', m_resolved = Some ''false'', m_layoutStatus = None, m_textRange = '''',
     m_anchorPos = position, m_rectangle = '''', m_cellPos = '''', m_parthash = ''''\<rparr>"

definition sample_ops :: "comment_op list" where
  "sample_ops = [ServerMessage True False (sample_msg ''Add'' ''1'' ''5,7'' None),
     ServerMessage True False (sample_msg ''Add'' ''2'' ''5,7'' (Some ''1'')), SelectComment 1 False,
     ServerMessage True False (sample_msg ''Remove'' ''1'' '''' None), OrderComments]"

lemma sample_ops_ok: "comment_ops_ok sample_ops (no_comments ''Bob'')"
  by code_simp

text \<open>
  Its second comment is a reply to the first one, which is then removed: the reply becomes a comment of its own.\<close>

theorem comment_handlers_never_throw_witness:
  "(\<exists>t. run_comment_ops sample_ops (no_comments ''Bob'') = Some t \<and> comments_ok t) \<and>
   map_option (\<lambda>t. (ids t, map (par t) (commentList t))) (run_comment_ops sample_ops (no_comments ''Bob'')) = Some ([''2''], [''0''])"
proof
  show "\<exists>t. run_comment_ops sample_ops (no_comments ''Bob'') = Some t \<and> comments_ok t"
    by (rule comment_handlers_never_throw [OF no_comments_ok sample_ops_ok])
qed code_simp


text \<open>
  C1. Ordering the comments of a text document keeps every comment exactly once and puts every comment directly in front
  of its whole thread: the comments that follow it, up to some place, are exactly the replies below it. The threads are
  ordered by the anchors of their first comments, from top to bottom, and the index map gives every position.\<close>

theorem threads_in_order:
  assumes "threads_ok s" "commentDocType s = Text"
  shows "\<exists>t. orderCommentList s = Some t \<and> mset (commentList t) = mset (commentList s) \<and>
    (\<forall>k < length (commentList t). getIndexOf t (com_id (com_data (coms t (commentList t ! k)))) = Some k \<and>
       (\<exists>n. set (take n (drop (Suc k) (commentList t))) = {q. (commentList t ! k, q) \<in> (thread_rel s)\<^sup>+})) \<and>
    sorted (map (anchor_key s) (filter (isRootComment s) (commentList t)))"
proof -
  obtain t where t: "orderCommentList s = Some t"
    "t = s\<lparr>commentList := thread_order s, idIndexMap := index_map (map (cid s) (thread_order s))\<rparr>"
    using orderCommentList_text [OF assms] by blast
  have l: "commentList t = thread_order s" "coms t = coms s" by (simp_all add: t(2))
  have io: "in_thread_order t" by (rule ordered_in_thread_order [OF assms t(1)])
  then have ix: "index_ok t" "distinct (ids t)" using threads_ok_ids by (simp_all add: in_thread_order_def)
  have m: "mset (commentList t) = mset (commentList s)"
    using thread_order_set [OF assms(1)] thread_order_distinct [OF assms(1)] threads_okD(1) [OF assms(1)]
    by (simp add: l set_eq_iff_mset_eq_distinct)
  have "\<exists>n. set (take n (drop (Suc k) (commentList t))) = {q. (commentList t ! k, q) \<in> (thread_rel s)\<^sup>+}"
    if k: "k < length (commentList t)" for k
    using thread_follows [OF assms(1)] k by (simp add: l)
  moreover have "sorted (map (anchor_key s) (filter (isRootComment s) (commentList t)))"
    unfolding l thread_order_roots [OF assms(1)] by (rule sorted_filter) simp
  ultimately show ?thesis using t(1) m getIndexOf_nth [OF ix] by blast
qed


definition sample_comments :: comments where
  "sample_comments = the (run_comment_ops (take 2 sample_ops) (no_comments ''Bob''))"

lemma sample_comments_ok: "comments_ok sample_comments"
proof -
  have "comment_ops_ok (take 2 sample_ops) (no_comments ''Bob'')" by code_simp
  then show ?thesis using run_comment_ops_ok [OF no_comments_ok] unfolding sample_comments_def by fastforce
qed

theorem threads_in_order_witness:
  "\<exists>t. orderCommentList sample_comments = Some t \<and> mset (commentList t) = mset (commentList sample_comments) \<and>
     commentList sample_comments = [0, 1] \<and> thread_rel sample_comments \<noteq> {} \<and>
     sorted (map (anchor_key sample_comments) (filter (isRootComment sample_comments) (commentList t)))"
proof -
  have "commentList sample_comments = [0, 1]" "com_parent (com_data (coms sample_comments 1)) = com_id (com_data (coms sample_comments 0))"
    by code_simp+
  then have "(0, 1) \<in> thread_rel sample_comments" by (simp add: thread_rel_def)
  then show ?thesis
    using threads_in_order [OF comments_okD(2,1) [OF sample_comments_ok]] \<open>commentList sample_comments = [0, 1]\<close> by blast
qed

text \<open>
  C1. A message of the server changes the comments that the list knows exactly as the message says: an added comment is
  listed afterwards, a removed one is not, and all others stay. A redline without a text range is refused.\<close>

theorem comments_follow_server:
  assumes "comments_ok s" "message_ok m s" "isAnyEdit s = None" "new_data s m \<noteq> Some None"
  shows "\<exists>t. onACKComment inView tracked m s = Some t \<and> known t = announced (inserted_comment s (message_id m)) m (known s)"
  using onACKComment_ok [OF assms(1,2), of inView tracked] assms(3,4) by auto

theorem comments_follow_server_witness:
  "\<exists>t. onACKComment True False (sample_msg ''Remove'' ''1'' '''' None) sample_comments = Some t \<and> known t = {''2''}"
proof -
  let ?m = "sample_msg ''Remove'' ''1'' '''' None"
  have m: "message_ok ?m sample_comments" "isAnyEdit sample_comments = None" "new_data sample_comments ?m \<noteq> Some None"
    by code_simp+
  have "cid sample_comments ` set (commentList sample_comments) = {''1'', ''2''}" by code_simp
  then have "known sample_comments = {''1'', ''2''}" by (simp add: known_def)
  then show ?thesis
    using comments_follow_server [OF sample_comments_ok m, of True False]
    by (simp add: announced_def sample_msg_def message_id_def)
qed

text \<open>
  C1. An import of well-formed comments returns: the list then holds exactly the comments of the message, each with the
  parent the message names, and the redlines that were there, and all threads are in order.\<close>

theorem import_builds_threads:
  assumes "comments_ok s" "import_ok ms ds s" "ms \<noteq> []"
  shows "\<exists>t. importComments ms s = Some t \<and> comments_ok t \<and> in_thread_order t \<and>
    (\<lambda>r. (com_id (com_data (coms t r)), com_parent (com_data (coms t r)))) ` set (commentList t) =
      (\<lambda>d. (com_id d, com_parent d)) ` set ds \<union> (\<lambda>r. (com_id (com_data (coms s r)), ''0'')) ` set (redlines s)"
  by (rule import_nonempty [OF assms])

definition sample_import :: "(bool \<times> comment_msg) list" where
  "sample_import = [(True, sample_msg '''' ''4'' ''9,9'' (Some ''3'')), (True, sample_msg '''' ''3'' ''9,9'' None)]"

theorem import_builds_threads_witness:
  "\<exists>t. importComments sample_import sample_comments = Some t \<and> comments_ok t \<and> in_thread_order t \<and>
     (\<lambda>r. (com_id (com_data (coms t r)), com_parent (com_data (coms t r)))) ` set (commentList t) = {(''3'', ''0''), (''4'', ''3'')}"
proof -
  let ?ds = "the (those (map (\<lambda>(v, m). adjustComment sample_comments m) sample_import))"
  have "import_ok sample_import ?ds sample_comments" "sample_import \<noteq> []" "redlines sample_comments = []"
    "(\<lambda>d. (com_id d, com_parent d)) ` set ?ds = {(''3'', ''0''), (''4'', ''3'')}"
    by code_simp+
  then show ?thesis using import_builds_threads [OF sample_comments_ok, of sample_import ?ds] by simp
qed

section \<open>Where the invariant is lost\<close>

text \<open>
  A reply that is restored before its parent is listed twice once the parent is restored: it is made a root comment,
  with its parent remembered; the parent then takes it as a child, but it stays a root.\<close>

lemma restored_reply_listed_twice:
  "map_option ids (run_comment_ops
     [ServerMessage True False (sample_msg ''Add'' ''2'' ''5,7'' (Some ''1'')),
      ServerMessage True False (sample_msg ''Add'' ''1'' ''5,7'' None)] (no_comments ''Bob'')) = Some [''2'', ''1'', ''2'']"
  by code_simp

text \<open>A comment whose message names a parent that is gone is dropped from the list when it is ordered next.\<close>

lemma orphan_dropped:
  "map_option ids (run_comment_ops
     [ServerMessage True False (sample_msg ''Add'' ''1'' ''5,7'' None),
      ServerMessage True False (sample_msg ''Add'' ''2'' ''5,7'' (Some ''1'')),
      ServerMessage True False (sample_msg ''Remove'' ''1'' '''' None),
      ServerMessage True False (sample_msg ''Modify'' ''2'' ''5,7'' (Some ''1'')), OrderComments] (no_comments ''Bob'')) = Some []"
  by code_simp

text \<open>A redline that is added again is listed twice: \<open>removeItem\<close> is given the name of the section, not the id.\<close>

definition sample_redline :: comment_msg where
  "sample_redline = (sample_msg ''Add'' '''' '''' None)\<lparr>m_redline := True, m_index := ''0'', m_textRange := ''5,7,8,9''\<rparr>"

lemma redline_listed_twice:
  "map_option ids (run_comment_ops [ServerMessage True False sample_redline, ServerMessage True False sample_redline]
     (no_comments ''Bob'')) = Some [''change-0'', ''change-0'']"
  by code_simp

text \<open>While a comment is edited, a message about a redline throws.\<close>

lemma redline_while_editing_throws:
  "isAnyEdit s = Some e \<Longrightarrow> \<not> selfRemoved (coms s e) \<Longrightarrow> m_redline m \<Longrightarrow> onACKComment inView tracked m s = None"
  by (simp add: onACKComment_def)

text \<open>An import in which an id occurs twice throws as soon as another comment follows.\<close>

lemma import_duplicate_throws:
  "(case importComments [(True, sample_msg '''' ''1'' ''5,7'' None), (True, sample_msg '''' ''1'' ''5,7'' None),
     (True, sample_msg '''' ''2'' ''5,7'' None)] (no_comments ''Bob'') of None \<Rightarrow> True | Some t \<Rightarrow> False)"
  by code_simp

text \<open>In an import a reply to a comment that is missing is attached to the parent of the group before it.\<close>

lemma import_orphan_attached:
  "map_option (\<lambda>t. (ids t, map (\<lambda>r. map (\<lambda>q. com_id (com_data (coms t q))) (children (coms t r))) (commentList t)))
     (importComments [(True, sample_msg '''' ''1'' ''1,1'' None), (True, sample_msg '''' ''2'' ''1,1'' (Some ''1'')),
       (True, sample_msg '''' ''3'' ''8,8'' (Some ''9''))] (no_comments ''Bob'')) = Some ([''1'', ''2'', ''3''], [[''2'', ''3''], [], []])"
  by code_simp

end
