(* ===== verification/Comment_Layout.thy ===== *)
theory Comment_Layout
  imports Comment_Import
begin

text \<open>
  The layout of the comments in the margin of the document: \<open>doLayout\<close>, \<open>loopUp\<close>, \<open>loopDown\<close>, \<open>layoutUp\<close> and \<open>layoutDown\<close>
  of layer/tile/CommentListSection.ts. A comment is moved by an animation of its container; here a layout gives the list
  of these moves, in order. Heights of the containers and the other sizes the code reads from the document are given.
\<close>

named_theorems layout_defs "definitions of the comment layout"

section \<open>Model\<close>

text \<open>
  \<open>lay_ratio\<close> is \<open>app.tile.size.pixels[0] / app.tile.size.twips[0]\<close>, \<open>docTop\<close> is \<open>documentTopLeft[1]\<close>, \<open>anchorWidth\<close> the width
  of the document anchor section, \<open>com_height\<close> the height of a container in CSS pixels.
\<close>

record layout_env =
  lay_ratio :: rat
  lay_dpi :: rat
  lay_marginY :: rat
  docTop :: rat
  lay_topLeft :: "rat point"
  com_height :: "nat \<Rightarrow> rat"
  lay_RTL :: bool
  anchorWidth :: rat
  fileSize :: "rat point"
  commentWidth :: rat
  collapsedMarginToTheEdge :: rat
  deflectionOfSelectedComment :: rat

text \<open>The array has holes below \<open>startIndex\<close>; a negative length throws.\<close>

definition numberArrayToCorePixFromTwips :: "layout_env \<Rightarrow> rat list \<Rightarrow> int \<Rightarrow> int \<Rightarrow> int option list option" where
  [layout_defs]: "numberArrayToCorePixFromTwips e numberArray startIndex len =
     (let total = int (length numberArray);
          len1 = (if len = 0 then total else len);
          start = (if startIndex < 0 then 0 else startIndex);
          len2 = (if len1 < 0 then 0 else len1);
          len3 = (if start + len2 > total then total - start else len2)
      in if len3 < 0 then None
         else Some (map (\<lambda>i. if start \<le> int i then Some (js_round (numberArray ! i * lay_ratio e)) else None) [0..<nat len3]))"

text \<open>\<open>anchorPix\<close>: the result of \<open>numberArrayToCorePixFromTwips (anchorPos, 0, 2)\<close>.\<close>

definition anchorPix :: "layout_env \<Rightarrow> comments \<Rightarrow> nat \<Rightarrow> rat point" where
  [layout_defs]: "anchorPix e s r =
     (let a = com_anchor (dat s r) in Pt (of_int (js_round (px a * lay_ratio e))) (of_int (js_round (py a * lay_ratio e))))"

abbreviation comment_y :: "layout_env \<Rightarrow> comments \<Rightarrow> nat \<Rightarrow> rat" where
  "comment_y e s r \<equiv> py (anchorPix e s r) - docTop e"

definition mustCheckSelectedPart :: "comments \<Rightarrow> bool" where
  [layout_defs]: "mustCheckSelectedPart s \<longleftrightarrow> (commentDocType s = Presentation \<or> commentDocType s = Drawing) \<and> \<not> commentFileBased s"

definition laid_out :: "comments \<Rightarrow> nat \<Rightarrow> bool" where
  [layout_defs]: "laid_out s r \<longleftrightarrow> (com_resolved (dat s r) \<noteq> Some ''true'' \<or> showResolved s) \<and>
     (\<not> mustCheckSelectedPart s \<or> partIndex (coms s r) = Some (viewedPart s))"

text \<open>A move: the comment, whether it is deflected to the side, and its upper edge in core pixels.\<close>

type_synonym move = "nat \<times> bool \<times> rat"

fun layoutDown :: "layout_env \<Rightarrow> comments \<Rightarrow> bool \<Rightarrow> nat list \<Rightarrow> rat \<Rightarrow> move list \<times> rat" where
  "layoutDown e s selected [] lastY = ([], lastY)"
| "layoutDown e s selected (r # rs) lastY =
     (let y = (if comment_y e s r > lastY then comment_y e s r else lastY);
          (ms, l) = layoutDown e s selected rs (y + com_height e r * lay_dpi e)
      in ((r, selected, y) # ms, l))"

fun layoutUp :: "layout_env \<Rightarrow> comments \<Rightarrow> nat list \<Rightarrow> rat \<Rightarrow> move list \<times> rat" where
  "layoutUp e s [] lastY = ([], lastY)"
| "layoutUp e s (r # rs) lastY =
     (let y = (if comment_y e s r + com_height e r < lastY then comment_y e s r else lastY - com_height e r * lay_dpi e);
          (ms, l) = layoutUp e s rs y
      in ((r, False, y) # ms, l))"

text \<open>The comments from one up to the next root comment.\<close>

definition group_down :: "comments \<Rightarrow> nat \<Rightarrow> nat list" where
  [layout_defs]: "group_down s i =
     commentList s ! i # takeWhile (\<lambda>r. com_parent (dat s r) \<noteq> ''0'') (drop (Suc i) (commentList s))"

function loopDown :: "layout_env \<Rightarrow> comments \<Rightarrow> nat \<Rightarrow> rat \<Rightarrow> move list \<times> rat" where
  "loopDown e s i startY =
     (if i \<ge> length (commentList s) then ([], startY)
      else (let subList = filter (laid_out s) (group_down s i)
            in if subList \<noteq> []
               then (let (ms, y) = layoutDown e s (Some (hd subList) = selectedComment s) subList startY;
                         (ms', y') = loopDown e s (i + length subList) (y + lay_marginY e)
                     in (ms @ ms', y'))
               else loopDown e s (i + length (group_down s i)) (startY + lay_marginY e)))"
  by pat_completeness auto
termination
proof (relation "measure (\<lambda>(e, s, i, y). length (commentList s) - i)", goal_cases)
  case (2 e s i startY subList)
  then have "0 < length subList" by blast
  then show ?case using 2(1) unfolding in_measure prod.case by linarith
next
  case (3 e s i startY subList)
  then show ?case by (simp add: group_down_def)
qed simp

declare loopDown.simps [simp del]

text \<open>As in the code, a comment is taken with the next one when the next is its child, going backwards.\<close>

primrec group_up :: "comments \<Rightarrow> nat \<Rightarrow> nat list" where
  "group_up s 0 = [commentList s ! 0]"
| "group_up s (Suc i) =
     commentList s ! Suc i # (if com_parent (dat s (commentList s ! i)) = com_id (dat s (commentList s ! Suc i)) then group_up s i else [])"

text \<open>\<open>n\<close> is the index plus one.\<close>

function loop_up :: "layout_env \<Rightarrow> comments \<Rightarrow> nat \<Rightarrow> rat \<Rightarrow> move list \<times> rat" where
  "loop_up e s n startY =
     (if n = 0 then ([], startY)
      else (let subList = filter (laid_out s) (group_up s (n - 1))
            in if subList \<noteq> []
               then (let (ms, y) = layoutUp e s subList startY;
                         (ms', y') = loop_up e s (n - length subList) (y - lay_marginY e)
                     in (ms @ ms', y'))
               else loop_up e s (n - length (group_up s (n - 1))) (startY - lay_marginY e)))"
  by pat_completeness auto
termination
proof (relation "measure (\<lambda>(e, s, n, y). n)", goal_cases)
  case (2 e s n startY subList)
  then have "0 < length subList" by blast
  then show ?case using 2(1) unfolding in_measure prod.case by linarith
next
  case (3 e s n startY subList)
  have "0 < length (group_up s (n - 1))" by (cases "n - 1") simp_all
  then show ?case using 3(1) by simp
qed simp

declare loop_up.simps [simp del]

definition loopUp :: "layout_env \<Rightarrow> comments \<Rightarrow> nat \<Rightarrow> rat \<Rightarrow> move list \<times> rat" where
  [layout_defs]: "loopUp e s n startY = loop_up e s n (startY - lay_marginY e)"

definition calculateAvailableSpace :: "layout_env \<Rightarrow> rat" where
  [layout_defs]: "calculateAvailableSpace e = of_int (js_round ((anchorWidth e - px (fileSize e)) / 2 / lay_dpi e))"

definition layout_x :: "layout_env \<Rightarrow> rat" where
  [layout_defs]: "layout_x e =
     (let x = (if lay_RTL e then 0 else px (lay_topLeft e));
          half = of_int (js_round ((anchorWidth e - px (fileSize e)) / 2))
      in if calculateAvailableSpace e > commentWidth e
         then (if lay_RTL e then half - anchorWidth e else px (lay_topLeft e) - half)
         else if lay_RTL e then - anchorWidth e
         else x - collapsedMarginToTheEdge e)"

text \<open>The position an animation is given, in CSS pixels.\<close>

definition css_move :: "layout_env \<Rightarrow> move \<Rightarrow> nat \<times> rat \<times> int" where
  [layout_defs]: "css_move e m = (case m of (r, deflected, y) \<Rightarrow>
     (r, of_int (js_round (layout_x e / lay_dpi e)) -
           (if deflected then deflectionOfSelectedComment e * (if lay_RTL e then - 1 else 1) else 0),
      js_round (y / lay_dpi e)))"

text \<open>
  \<open>selectedIndex\<close> is tested as a condition: index 0 counts as no selection. The arrow and the growing of comments
  (\<open>resizeComments\<close>) are left to the document.
\<close>

definition layout_moves :: "layout_env \<Rightarrow> comments \<Rightarrow> (move list \<times> rat) option" where
  [layout_defs]: "layout_moves e s =
     do { selectedIndex \<leftarrow> (case selectedComment s of
                            None \<Rightarrow> Some 0
                          | Some c \<Rightarrow> getRootIndexOf s (com_id (dat s c)));
          Some (if selectedIndex \<noteq> 0
                then (let yOrigin = comment_y e s (commentList s ! selectedIndex);
                          (ups, _) = loopUp e s selectedIndex yOrigin;
                          (downs, lastY) = loopDown e s selectedIndex yOrigin
                      in (ups @ downs, lastY))
                else loopDown e s 0 (py (lay_topLeft e) + lay_marginY e - docTop e)) }"

text \<open>The new state, the moves and the height of the view.\<close>

definition doLayout :: "layout_env \<Rightarrow> comments \<Rightarrow> (comments \<times> (nat \<times> rat \<times> int) list \<times> rat option) option" where
  [layout_defs]: "doLayout e s =
     (if isMobile s \<or> commentDocType s = Spreadsheet
      then do { t \<leftarrow> (if commentList s \<noteq> [] then orderCommentList s else Some s); Some (t, [], None) }
      else if commentList s = [] then Some (s, [], Some (py (fileSize e)))
      else do { t \<leftarrow> orderCommentList s;
                (ms, lastY) \<leftarrow> layout_moves e t;
                Some (t, map (css_move e) ms,
                  Some (if lastY + docTop e > py (fileSize e) then lastY + docTop e else py (fileSize e))) })"

section \<open>No two comments overlap\<close>

abbreviation move_y :: "move \<Rightarrow> rat" where "move_y m \<equiv> snd (snd m)"

abbreviation move_end :: "layout_env \<Rightarrow> move \<Rightarrow> rat" where
  "move_end e m \<equiv> move_y m + com_height e (fst m) * lay_dpi e"

definition below_all :: "layout_env \<Rightarrow> rat \<Rightarrow> move list \<Rightarrow> bool" where
  "below_all e y ms \<longleftrightarrow> (\<forall>m \<in> set ms. y \<le> move_y m) \<and> sorted_wrt (\<lambda>m n. move_end e m \<le> move_y n) ms"

definition above_all :: "layout_env \<Rightarrow> rat \<Rightarrow> move list \<Rightarrow> bool" where
  "above_all e y ms \<longleftrightarrow> (\<forall>m \<in> set ms. move_end e m \<le> y) \<and> sorted_wrt (\<lambda>m n. move_end e n \<le> move_y m) ms"

definition layout_ok :: "layout_env \<Rightarrow> bool" where
  "layout_ok e \<longleftrightarrow> 0 < lay_dpi e \<and> 0 \<le> lay_marginY e \<and> (\<forall>r. 0 \<le> com_height e r)"

lemma height_nonneg: "layout_ok e \<Longrightarrow> 0 \<le> com_height e r * lay_dpi e"
  by (simp add: layout_ok_def)

lemma layoutDown_below:
  assumes "layout_ok e"
  shows "layoutDown e s sel rs y = (ms, l) \<Longrightarrow>
    below_all e y ms \<and> y \<le> l \<and> (\<forall>m \<in> set ms. move_end e m \<le> l) \<and> map fst ms = rs \<and>
    (\<forall>m \<in> set ms. comment_y e s (fst m) \<le> move_y m)"
proof (induction rs arbitrary: y ms l)
  case (Cons r rs)
  let ?y = "if comment_y e s r > y then comment_y e s r else y"
  obtain ms' l' where r: "layoutDown e s sel rs (?y + com_height e r * lay_dpi e) = (ms', l')" by force
  then have m: "ms = (r, sel, ?y) # ms'" "l = l'" using Cons.prems by (auto simp: Let_def)
  note IH = Cons.IH [OF r] and h = height_nonneg [OF assms, of r]
  have "y \<le> ?y" "comment_y e s r \<le> ?y" by simp_all
  moreover have le: "?y + com_height e r * lay_dpi e \<le> move_y m" if "m \<in> set ms'" for m
    using that IH by (simp add: below_all_def)
  ultimately have all: "y \<le> move_y m" "comment_y e s (fst m) \<le> move_y m" if "m \<in> set ms" for m
    using that IH h le [of m] unfolding m(1) by force+
  have ends: "move_end e m \<le> l" if "m \<in> set ms" for m using that IH unfolding m by force
  have "sorted_wrt (\<lambda>m n. move_end e m \<le> move_y n) ms" using IH le unfolding m(1) by (simp add: below_all_def)
  moreover have "y \<le> l" using IH h \<open>y \<le> ?y\<close> m(2) by linarith
  ultimately show ?case using all ends IH m(1) by (simp add: below_all_def)
qed (simp add: below_all_def)

lemma below_all_append:
  "below_all e y ms \<Longrightarrow> (\<forall>m \<in> set ms. move_end e m \<le> z) \<Longrightarrow> y \<le> z \<Longrightarrow> below_all e z ns \<Longrightarrow> below_all e y (ms @ ns)"
  by (fastforce simp: below_all_def sorted_wrt_append)

lemma group_down_listed:
  assumes "i < length (commentList s)"
  shows "group_down s i = take (length (group_down s i)) (drop i (commentList s))"
proof -
  have "drop i (commentList s) = commentList s ! i # drop (Suc i) (commentList s)" using assms by (simp add: Cons_nth_drop_Suc)
  then show ?thesis by (simp add: group_down_def flip: takeWhile_eq_take)
qed

lemma group_down_split:
  assumes "i < length (commentList s)" "k \<le> length (group_down s i)"
  shows "set (filter P (drop i (commentList s))) = set (filter P (group_down s i)) \<union> set (filter P (drop (i + k) (commentList s)))"
proof -
  let ?g = "length (group_down s i)"
  have "drop i (commentList s) = group_down s i @ drop (i + ?g) (commentList s)"
    using group_down_listed [OF assms(1)] by (metis append_take_drop_id drop_drop add.commute)
  then have "set (filter P (drop i (commentList s))) = set (filter P (group_down s i)) \<union> set (filter P (drop (i + ?g) (commentList s)))"
    by simp
  moreover have "set (drop (i + ?g) (commentList s)) \<subseteq> set (drop (i + k) (commentList s))"
    "set (drop (i + k) (commentList s)) \<subseteq> set (drop i (commentList s))"
    using assms(2) by (intro set_drop_subset_set_drop; simp)+
  ultimately show ?thesis by auto
qed

lemma loopDown_moves:
  "layout_ok e \<Longrightarrow> loopDown e s i y = (ms, l) \<Longrightarrow> below_all e y ms \<and> y \<le> l \<and>
    fst ` set ms = set (filter (laid_out s) (drop i (commentList s))) \<and> (\<forall>m \<in> set ms. comment_y e s (fst m) \<le> move_y m)"
proof (induction e s i y arbitrary: ms l rule: loopDown.induct)
  case (1 e s i y)
  let ?sub = "filter (laid_out s) (group_down s i)"
  have margin: "0 \<le> lay_marginY e" using 1(3) by (simp add: layout_ok_def)
  consider "i \<ge> length (commentList s)" | "i < length (commentList s)" "?sub = []" | "i < length (commentList s)" "?sub \<noteq> []" by linarith
  then show ?case
  proof cases
    case 1 then show ?thesis using "1.prems"(2) by (simp add: loopDown.simps [of e s i] below_all_def)
  next
    case 2
    then have "loopDown e s (i + length (group_down s i)) (y + lay_marginY e) = (ms, l)"
      using "1.prems"(2) by (simp add: loopDown.simps [of e s i])
    note IH = "1.IH"(2) [OF _ refl _ "1.prems"(1) this]
    show ?thesis using IH 2 group_down_split [OF 2(1) order_refl, of "laid_out s"] margin by (force simp: below_all_def)
  next
    case 3
    obtain m1 y1 where d: "layoutDown e s (Some (hd ?sub) = selectedComment s) ?sub y = (m1, y1)" by force
    obtain m2 l2 where r: "loopDown e s (i + length ?sub) (y1 + lay_marginY e) = (m2, l2)" by force
    have m: "ms = m1 @ m2" "l = l2" using "1.prems"(2) 3 d r by (simp_all add: loopDown.simps [of e s i])
    note D = layoutDown_below [OF "1.prems"(1) d]
    have IH: "below_all e (y1 + lay_marginY e) m2 \<and> y1 + lay_marginY e \<le> l2 \<and>
        fst ` set m2 = set (filter (laid_out s) (drop (i + length ?sub) (commentList s))) \<and> (\<forall>m \<in> set m2. comment_y e s (fst m) \<le> move_y m)"
      using "1.IH"(1) [OF _ refl _ d [symmetric] refl "1.prems"(1) r] 3 by simp
    have "below_all e y ms" unfolding m(1)
      by (rule below_all_append [of _ _ _ "y1 + lay_marginY e"]) (use D IH margin in \<open>force+\<close>)
    moreover have "fst ` set m1 = set ?sub" using D by (metis list.set_map)
    ultimately show ?thesis
      using D IH margin m group_down_split [OF 3(1), of "length ?sub" "laid_out s"] by auto
  qed
qed

lemma layoutUp_above:
  assumes "layout_ok e" "lay_dpi e \<le> 1"
  shows "layoutUp e s rs y = (ms, l) \<Longrightarrow>
    above_all e y ms \<and> l \<le> y \<and> (\<forall>m \<in> set ms. l \<le> move_y m) \<and> map fst ms = rs"
proof (induction rs arbitrary: y ms l)
  case (Cons r rs)
  let ?y = "if comment_y e s r + com_height e r < y then comment_y e s r else y - com_height e r * lay_dpi e"
  obtain ms' l' where r: "layoutUp e s rs ?y = (ms', l')" by force
  then have m: "ms = (r, False, ?y) # ms'" "l = l'" using Cons.prems by (auto simp: Let_def)
  note IH = Cons.IH [OF r] and h = height_nonneg [OF assms(1), of r]
  have "com_height e r * lay_dpi e \<le> com_height e r"
    using assms by (simp add: layout_ok_def mult_left_le)
  then have box: "?y + com_height e r * lay_dpi e \<le> y" by simp
  have le: "move_end e m \<le> ?y" if "m \<in> set ms'" for m using that IH by (simp add: above_all_def)
  have "move_end e m \<le> y" "l \<le> move_y m" if "m \<in> set ms" for m
    using that IH le [of m] box h unfolding m by force+
  moreover have "sorted_wrt (\<lambda>m n. move_end e n \<le> move_y m) ms" using IH le unfolding m(1) by (simp add: above_all_def)
  moreover have "l \<le> y" using IH h box m(2) by linarith
  ultimately show ?case using IH m(1) by (simp add: above_all_def)
qed (simp add: above_all_def)

lemma above_all_append:
  "above_all e y ms \<Longrightarrow> (\<forall>m \<in> set ms. z \<le> move_y m) \<Longrightarrow> z \<le> y \<Longrightarrow> above_all e z ns \<Longrightarrow> above_all e y (ms @ ns)"
  by (fastforce simp: above_all_def sorted_wrt_append)

lemma group_up_listed:
  "i < length (commentList s) \<Longrightarrow> length (group_up s i) \<le> Suc i \<and>
   take (Suc i) (commentList s) = take (Suc i - length (group_up s i)) (commentList s) @ rev (group_up s i)"
proof (induction i)
  case 0 then show ?case by (cases "commentList s") simp_all
next
  case (Suc i)
  have t: "take (Suc (Suc i)) (commentList s) = take (Suc i) (commentList s) @ [commentList s ! Suc i]"
    using Suc.prems by (simp add: take_Suc_conv_app_nth)
  show ?case using Suc.IH Suc.prems t by (simp del: take_Suc)
qed

lemma group_up_split:
  assumes "0 < n" "n \<le> length (commentList s)" "k \<le> length (group_up s (n - 1))"
  shows "set (filter P (take n (commentList s))) = set (filter P (group_up s (n - 1))) \<union> set (filter P (take (n - k) (commentList s)))"
proof -
  let ?g = "length (group_up s (n - 1))"
  have "take n (commentList s) = take (n - ?g) (commentList s) @ rev (group_up s (n - 1))"
    using group_up_listed [of "n - 1" s] assms(1,2) by simp
  then have "set (filter P (take n (commentList s))) = set (filter P (group_up s (n - 1))) \<union> set (filter P (take (n - ?g) (commentList s)))"
    by auto
  moreover have "set (take (n - ?g) (commentList s)) \<subseteq> set (take (n - k) (commentList s))"
    "set (take (n - k) (commentList s)) \<subseteq> set (take n (commentList s))"
    using assms(3) by (intro set_take_subset_set_take; simp)+
  ultimately show ?thesis by auto
qed

lemma loop_up_moves:
  "layout_ok e \<Longrightarrow> lay_dpi e \<le> 1 \<Longrightarrow> n \<le> length (commentList s) \<Longrightarrow> loop_up e s n y = (ms, l) \<Longrightarrow>
    above_all e y ms \<and> fst ` set ms = set (filter (laid_out s) (take n (commentList s)))"
proof (induction e s n y arbitrary: ms l rule: loop_up.induct)
  case (1 e s n y)
  let ?sub = "filter (laid_out s) (group_up s (n - 1))"
  have margin: "0 \<le> lay_marginY e" using "1.prems"(1) by (simp add: layout_ok_def)
  have sub: "length ?sub \<le> length (group_up s (n - 1))" by simp
  consider "n = 0" | "0 < n" "?sub = []" | "0 < n" "?sub \<noteq> []" by blast
  then show ?case
  proof cases
    case 1 then show ?thesis using "1.prems"(4) by (simp add: loop_up.simps [of e s 0] above_all_def)
  next
    case 2
    then have "loop_up e s (n - length (group_up s (n - 1))) (y - lay_marginY e) = (ms, l)"
      using "1.prems"(4) by (simp add: loop_up.simps [of e s n])
    then have IH: "above_all e (y - lay_marginY e) ms \<and>
        fst ` set ms = set (filter (laid_out s) (take (n - length (group_up s (n - 1))) (commentList s)))"
      using "1.IH"(2) [OF _ refl _ "1.prems"(1,2)] 2 "1.prems"(3) by simp
    then show ?thesis
      using 2 group_up_split [OF 2(1) "1.prems"(3) order_refl, of "laid_out s"] margin by (force simp: above_all_def)
  next
    case 3
    obtain m1 y1 where d: "layoutUp e s ?sub y = (m1, y1)" by force
    obtain m2 l2 where r: "loop_up e s (n - length ?sub) (y1 - lay_marginY e) = (m2, l2)" by force
    have m: "ms = m1 @ m2" using "1.prems"(4) 3 d r by (simp add: loop_up.simps [of e s n])
    note D = layoutUp_above [OF "1.prems"(1,2) d]
    have IH: "above_all e (y1 - lay_marginY e) m2 \<and> fst ` set m2 = set (filter (laid_out s) (take (n - length ?sub) (commentList s)))"
      using "1.IH"(1) [OF _ refl _ d [symmetric] refl "1.prems"(1,2) _ r] 3 "1.prems"(3) by simp
    have "above_all e y ms" unfolding m
      by (rule above_all_append [of _ _ _ "y1 - lay_marginY e"]) (use D IH margin in \<open>force+\<close>)
    moreover have "fst ` set m1 = set ?sub" using D by (metis list.set_map)
    ultimately show ?thesis
      using IH m group_up_split [OF 3(1) "1.prems"(3) sub, of "laid_out s"] by auto
  qed
qed

lemma layout_moves_apart:
  assumes "layout_ok e" "lay_dpi e \<le> 1 \<or> selectedComment s = None" "layout_moves e s = Some (ms, l)"
    and root: "\<And>c k. selectedComment s = Some c \<Longrightarrow> getRootIndexOf s (cid s c) = Some k \<Longrightarrow> k < length (commentList s)"
  shows "sorted_wrt (\<lambda>m n. move_end e m \<le> move_y n \<or> move_end e n \<le> move_y m) ms"
    "fst ` set ms = {r \<in> listed s. laid_out s r}"
proof -
  obtain k where k: "(case selectedComment s of None \<Rightarrow> Some 0 | Some c \<Rightarrow> getRootIndexOf s (cid s c)) = Some k"
    and m: "(ms, l) = (if k \<noteq> 0
       then (let yOrigin = comment_y e s (commentList s ! k); (ups, _) = loopUp e s k yOrigin; (downs, lastY) = loopDown e s k yOrigin
             in (ups @ downs, lastY))
       else loopDown e s 0 (py (lay_topLeft e) + lay_marginY e - docTop e))"
    using assms(3) by (auto simp: layout_moves_def bind_eq_Some_conv)
  have "sorted_wrt (\<lambda>m n. move_end e m \<le> move_y n \<or> move_end e n \<le> move_y m) ms \<and> fst ` set ms = {r \<in> listed s. laid_out s r}"
  proof (cases "k = 0")
    case True
    then have "loopDown e s 0 (py (lay_topLeft e) + lay_marginY e - docTop e) = (ms, l)" using m by simp
    from loopDown_moves [OF assms(1) this] show ?thesis
      by (auto simp: below_all_def elim!: sorted_wrt_mono_rel [rotated])
  next
    case False
    then obtain c where c: "selectedComment s = Some c" "getRootIndexOf s (cid s c) = Some k" using k by (auto split: option.splits)
    let ?y = "comment_y e s (commentList s ! k)"
    obtain ups lu downs where u: "loop_up e s k (?y - lay_marginY e) = (ups, lu)" and d: "loopDown e s k ?y = (downs, l)" and ms: "ms = ups @ downs"
      using m False by (auto simp: Let_def loopUp_def split: prod.splits)
    have dpi: "lay_dpi e \<le> 1" and kl: "k \<le> length (commentList s)" using assms(2) c root [OF c] by auto
    note U = loop_up_moves [OF assms(1) dpi kl u] and D = loopDown_moves [OF assms(1) d]
    have "0 \<le> lay_marginY e" using assms(1) by (simp add: layout_ok_def)
    then have "move_end e a \<le> move_y b" if "a \<in> set ups" "b \<in> set downs" for a b
      using U D that by (force simp: above_all_def below_all_def)
    moreover have "sorted_wrt (\<lambda>m n. move_end e m \<le> move_y n \<or> move_end e n \<le> move_y m) ups"
      using U by (auto simp: above_all_def elim!: sorted_wrt_mono_rel [rotated])
    moreover have "sorted_wrt (\<lambda>m n. move_end e m \<le> move_y n \<or> move_end e n \<le> move_y m) downs"
      using D by (auto simp: below_all_def elim!: sorted_wrt_mono_rel [rotated])
    moreover have "listed s = set (take k (commentList s)) \<union> set (drop k (commentList s))" by (metis append_take_drop_id set_append)
    ultimately show ?thesis using U D by (auto simp: ms sorted_wrt_append)
  qed
  then show "sorted_wrt (\<lambda>m n. move_end e m \<le> move_y n \<or> move_end e n \<le> move_y m) ms"
    "fst ` set ms = {r \<in> listed s. laid_out s r}" by blast+
qed

lemma sorted_wrt_pair:
  assumes "sorted_wrt R xs" "\<And>x y. R x y \<Longrightarrow> R y x" "a \<in> set xs" "b \<in> set xs" "a \<noteq> b" shows "R a b"
  using assms by (induction xs) auto

lemma css_apart:
  assumes "layout_ok e" "move_y m + com_height e (fst m) * lay_dpi e \<le> move_y n"
  shows "of_int (snd (snd (css_move e m))) + com_height e (fst m) < of_int (snd (snd (css_move e n))) + 1"
proof -
  have dpi: "0 < lay_dpi e" using assms(1) by (simp add: layout_ok_def)
  then have "move_y m / lay_dpi e + com_height e (fst m) \<le> move_y n / lay_dpi e"
    using divide_right_mono [OF assms(2), of "lay_dpi e"] by (simp add: add_divide_distrib)
  then show ?thesis
    using js_round_bounds(1) [of "move_y m / lay_dpi e"] js_round_bounds(2) [of "move_y n / lay_dpi e"]
    by (cases m; cases n) (simp add: css_move_def)
qed

section \<open>Properties\<close>

text \<open>
  C1. A layout of the comments of a text document returns and moves exactly the comments that are to be shown. However
  often a comment is moved, no two comments overlap: the box of one ends less than one CSS pixel (the rounding of the
  positions) below the upper edge of the other. With a selected comment this needs a scale of at most 1.\<close>

theorem comments_never_overlap:
  assumes "comments_ok s" "layout_ok e" "\<not> isMobile s" "commentList s \<noteq> []" "lay_dpi e \<le> 1 \<or> selectedComment s = None"
  shows "\<exists>t moves h. doLayout e s = Some (t, moves, h) \<and> fst ` set moves = {r \<in> set (commentList s). laid_out s r} \<and>
    (\<forall>(r, x, y) \<in> set moves. \<forall>(q, x', y') \<in> set moves. r \<noteq> q \<longrightarrow>
       of_int y + com_height e r < of_int y' + 1 \<or> of_int y' + com_height e q < of_int y + 1)"
proof -
  obtain t where t: "orderCommentList s = Some t" "comments_ok t" "listed t = listed s"
    "t = s\<lparr>commentList := commentList t, idIndexMap := idIndexMap t\<rparr>" using orderCommentList_ok [OF assms(1)] by blast
  have sel: "selectedComment t = selectedComment s" and vis: "laid_out t = laid_out s"
    by (subst t(4), simp) (subst t(4), simp add: fun_eq_iff laid_out_def mustCheckSelectedPart_def)
  have root: "\<exists>k < length (commentList t). getRootIndexOf t (cid t c) = Some k" if "selectedComment t = Some c" for c
    using lookup_total(3) [OF t(2)] comments_okD(7) [OF t(2) that] by blast
  then obtain k where "(case selectedComment t of None \<Rightarrow> Some 0 | Some c \<Rightarrow> getRootIndexOf t (cid t c)) = Some k"
    by (cases "selectedComment t") auto
  then obtain ms l where m: "layout_moves e t = Some (ms, l)" by (simp add: layout_moves_def) (metis surj_pair)
  have "lay_dpi e \<le> 1 \<or> selectedComment t = None" using assms(5) sel by simp
  moreover have "k < length (commentList t)" if "selectedComment t = Some c" "getRootIndexOf t (cid t c) = Some k" for c k
    using root [OF that(1)] that(2) by auto
  ultimately have apart: "sorted_wrt (\<lambda>m n. move_end e m \<le> move_y n \<or> move_end e n \<le> move_y m) ms"
    and all: "fst ` set ms = {r \<in> listed s. laid_out s r}"
    using layout_moves_apart [OF assms(2) _ m] unfolding vis t(3) by blast+
  have sep: "of_int y + com_height e r < of_int y' + 1 \<or> of_int y' + com_height e q < of_int y + 1"
    if in_ms: "(r, x, y) \<in> css_move e ` set ms" "(q, x', y') \<in> css_move e ` set ms" and ne: "r \<noteq> q" for r x y q x' y'
  proof -
    obtain a b where ab: "a \<in> set ms" "css_move e a = (r, x, y)" "b \<in> set ms" "css_move e b = (q, x', y')" using in_ms by (metis imageE)
    then have rq: "fst a = r" "fst b = q" by (auto simp: css_move_def split: prod.splits)
    then have "move_end e a \<le> move_y b \<or> move_end e b \<le> move_y a"
      using sorted_wrt_pair [OF apart] ab ne by blast
    then show ?thesis using css_apart [OF assms(2), of a b] css_apart [OF assms(2), of b a] ab rq by auto
  qed
  have "fst ` css_move e ` set ms = fst ` set ms" by (force simp: css_move_def image_iff)
  moreover have "doLayout e s = Some (t, map (css_move e) ms,
      Some (if l + docTop e > py (fileSize e) then l + docTop e else py (fileSize e)))"
    using t(1) m assms(3,4) comments_okD(1) [OF assms(1)] by (simp add: doLayout_def)
  ultimately show ?thesis
  proof (intro exI conjI)
    show "fst ` set (map (css_move e) ms) = {r \<in> listed s. laid_out s r}" using all \<open>fst ` css_move e ` set ms = fst ` set ms\<close> by simp
    show "\<forall>(r, x, y) \<in> set (map (css_move e) ms). \<forall>(q, x', y') \<in> set (map (css_move e) ms). r \<noteq> q \<longrightarrow>
        of_int y + com_height e r < of_int y' + 1 \<or> of_int y' + com_height e q < of_int y + 1"
      unfolding set_map case_prod_beta using sep by (metis prod.collapse)
  qed
qed

definition sample_env :: "rat \<Rightarrow> rat \<Rightarrow> layout_env" where
  "sample_env dpi height = \<lparr>lay_ratio = 1, lay_dpi = dpi, lay_marginY = 10 * dpi, docTop = 0, lay_topLeft = Pt 1000 0,
     com_height = (\<lambda>r. height), lay_RTL = False, anchorWidth = 1200, fileSize = Pt 800 2000, commentWidth = 260,
     collapsedMarginToTheEdge = 120, deflectionOfSelectedComment = 160\<rparr>"

theorem comments_never_overlap_witness:
  "\<exists>t moves h. doLayout (sample_env 1 20) sample_comments = Some (t, moves, h) \<and> fst ` set moves = {0, 1}"
proof -
  have ok: "layout_ok (sample_env 1 20)" "lay_dpi (sample_env 1 20) \<le> 1 \<or> selectedComment sample_comments = None"
    by (simp_all add: layout_ok_def sample_env_def)
  have list: "\<not> isMobile sample_comments" "commentList sample_comments \<noteq> []" by code_simp+
  have "filter (laid_out sample_comments) (commentList sample_comments) = [0, 1]" by code_simp
  then have "{r \<in> set (commentList sample_comments). laid_out sample_comments r} = {0, 1}" by (metis set_filter list.set(1,2))
  then show ?thesis using comments_never_overlap [OF sample_comments_ok ok(1) list ok(2)] by metis
qed

text \<open>
  With a scale of 2 the comments above a selected one overlap: \<open>layoutUp\<close> compares the height in CSS pixels with
  positions in core pixels. The first comment takes 2 times 100 pixels from 150, the selected one stands at 300.\<close>

definition two_comments :: comments where
  "two_comments = the (run_comment_ops
     [ServerMessage True False (sample_msg ''Add'' ''1'' ''5,150'' None), ServerMessage True False (sample_msg ''Add'' ''2'' ''5,300'' None),
      SelectComment 1 False] (no_comments ''Bob''))"

lemma scaled_comments_overlap:
  "map_option (\<lambda>(ms, l). map (\<lambda>(r, d, y). (r, y)) ms) (layout_moves (sample_env 2 100) two_comments) = Some [(0, 150), (1, 300)]"
  by code_simp

end
