(* ===== verification/Spec2Isabelle.thy ===== *)
theory Spec2Isabelle
  imports Tile_Faithful Prefetch Socket_Queue Events Parts Text_Input Sheet_Positions
    Polygons Section_Pointer Comment_Layout
begin

text \<open>
  A model of the browser client of OxOffice Online, the code under src/browser/src that shows a
  document rendered by the server as tiles and sends what the user does back to it.

  \<^bold>\<open>The program.\<close> The client talks to the server over one web socket. A tile layer
  (layer/tile/CanvasTileLayer.js) keeps a cache of tiles, asks for the tiles of the view it does not
  have, decodes the deltas that arrive, paints them on canvases and frees memory; a prefetcher asks
  for tiles next to the view when the user is idle. Messages of the socket (core/Socket.js) are
  queued in both directions and parsed by \<open>parseServerCmd\<close>. Control code switches parts (slides and
  sheets), a text input forwards what is typed, and all objects signal each other with \<open>L.Evented\<close>.
  What is drawn on the canvas is divided into sections, which a container lays out, paints and sends
  mouse and touch events to; selections and outlines are lines and polygons that are clipped first.

  \<^bold>\<open>Theories and sources.\<close>

  \<^item> \<open>Js_Prelude\<close>: the JavaScript the code relies on: rounding and 32 bit conversion, decimal numbers
    as strings, splitting and joining, objects as insertion-ordered dictionaries with the contract
    \<open>js_dictionary\<close>.
  \<^item> \<open>Geometry\<close>: points and bounds (geometry/Point.ts, Bounds.ts), rectangles (core/LOUtil.js).
  \<^item> \<open>Tile_Coords\<close>: \<open>L.TileCoordData\<close>, the keys of tiles and the conversions between core pixels,
    twips and tile positions. Keys are injective; a tile position survives the way to the server
    and back; \<open>parseKey\<close> loses the mode.
  \<^item> \<open>Tile_Delta\<close>: \<open>_applyDeltaChunk\<close> and the un-premultiplication of pixels on bytes. Decoding
    follows the encoded operations, is safe on any input, and may be done in pieces.
  \<^item> \<open>Tile_Cache\<close>: the cache with its operations (create, remove, invalidate, tile message, garbage
    collection, canvas and context handling), an inductive relation of its steps, and the locales
    \<open>gc_closed\<close>, \<open>canvas_closed\<close> and \<open>cache_closed\<close>: what is closed under the primitive updates is
    closed under the composed operations. \<open>Tile_GC\<close>: the invariant of the cache and what a
    collection keeps and frees. \<open>Tile_Render\<close> and \<open>Tile_Faithful\<close>: a canvas shows exactly the data
    that is stored for its tile, rendering ends when the browser grants contexts and does not when
    it denies them, and when tiles need fetching.
  \<^item> \<open>Tile_Requests\<close>, \<open>Tile_Coverage\<close>: the request side of the layer, from the pixel bounds of the
    panes to \<open>tilecombine\<close> messages; every visible tile is current or asked for, every queued tile is
    asked for once.
  \<^item> \<open>Prefetch\<close>: \<open>L.TilesPreFetcher\<close>; bounds on a tick, exclusive timers.
  \<^item> \<open>Message_Store\<close>: \<open>L.MessageStore\<close>, specified by the locale \<open>latest_store\<close>.
  \<^item> \<open>Server_Cmd\<close>: \<open>parseServerCmd\<close>; no rule hides another, the zoom level is recovered.
  \<^item> \<open>Socket_Queue\<close>: outgoing queue, slurping, delayed messages and permissions of core/Socket.js;
    order and completeness in both directions.
  \<^item> \<open>Events\<close>: core/Events.js; the locale \<open>registry_closed\<close> carries invariants over histories in
    which listeners add and remove listeners while events are under way.
  \<^item> \<open>Sheet_Switch\<close> (layer/tile/SheetSwitch.ts), \<open>Previews\<close> and \<open>Parts\<close> (control/Parts.js): remembered
    view centres refine a list that follows the sheets, preview requests are bounded, the selected
    part stays in range, the server is told about a new part first. The locale \<open>preview_closed\<close> is
    interpreted for the bound and for the frame conditions of part switching.
  \<^item> \<open>Text_Input\<close> (layer/marker/TextInput.js): the messages for a change of the input area turn the
    text of the document into the new text; where they do not, the error is a value.
  \<^item> \<open>Span_List\<close>, \<open>Sheet_Geometry\<close>, \<open>Sheet_Positions\<close> (layer/tile/SheetGeometry.ts): run-length encoded
    sizes of rows and columns. The locale \<open>directions\<close> states what the binary search needs of its
    direction provider and is interpreted for the three providers of the code; merging the lists of
    hidden, filtered and sized spans agrees with the element-wise definition, positions are sums of
    visible sizes, a position finds its element, groups in a range are found exactly.
  \<^item> \<open>Lines\<close> and \<open>Polygons\<close> (geometry/LineUtil.js, PolyUtil.js, layer/vector/Polyline.js, Polygon.js): clipping
    returns exactly the visible part of a segment and only points inside, simplification stays within
    its tolerance; with rounding and fractional bounds clipping may not end.
  \<^item> \<open>Exchange_Sort\<close>: the exchange sort of two nested loops, with the locale \<open>exchange_order\<close> for its test,
    interpreted for the tile queue and for the three orders of sections.
  \<^item> \<open>Sections\<close> (layer/tile/CanvasSectionContainer.ts): sections, their order and location. \<open>Section_Layout\<close>: the target of
    an event is the topmost section at the point, expanding keeps sections apart. \<open>Section_Bounds\<close>: the
    lists of bound sections. \<open>Section_Drawing\<close>: pausing, dirty tiles, adding and removing sections,
    animations; no redraw is lost, animations end. \<open>Section_Events\<close> and \<open>Section_Pointer\<close>: the handlers of
    mouse and touch events; who hears an event, no handler throws, entering and leaving alternate.
  \<^item> This theory joins the parser and the coordinates: the reply to a request is filed under the
    tile that was asked for.

  \<^bold>\<open>How state and effects are modelled.\<close> Objects are records, passed and returned; objects that are
  shared and mutated (tiles, listeners, listener indexes) live in a heap, a list with addresses, as
  aliasing matters there. Messages, repaints and other effects on the page are appended to a log in
  the order of the code. Exceptions and missing values are values of sum and option types.

  \<^bold>\<open>Numbers.\<close> Coordinates and counters are unbounded integers, quotients are rationals; the doubles
  of JavaScript agree with them on the magnitudes that occur. Where the code forces 32 bits, or works
  on bytes, the width is kept.

  \<^bold>\<open>Fuel.\<close> \<open>ensureCanvas\<close>, \<open>_applyDelta\<close> and \<open>_ensureContext\<close> call each other without a bound that
  holds in general; they take fuel (\<open>clipSegment\<close> and \<open>updateBoundSectionList\<close> do too, and enough is proved). \<open>enough_fuel\<close> (8 calls) suffices whenever the browser grants
  contexts, more fuel does not change a result, and no fuel suffices when it denies them. All other
  loops are total functions.

  \<^bold>\<open>Parameters.\<close> \<open>getContext\<close>, the decompression library, the visibility of previews, the scroll
  position after a scroll, the pending scroll of the scroll section, which of a section's callbacks stop an
  event, and the clock are arguments. What is read of the map (its size, zoom and
  pixel bounds) is part of the state of the layer.

  \<^bold>\<open>Not modelled.\<close> Dialogs, menus, notebook bars and other page construction, the drawing commands of the
  sections and their own callbacks, the overlays for cursors, selections and comments, the clipboard, accessibility
  support of the text input, propagation of events to parents, debugging aids and tracing, vendored
  libraries, and the server. The layers for spreadsheets and presentations (CalcTileLayer.js,
  ImpressTileLayer.js) come next.
\<close>

section \<open>From a request to the cache\<close>

text \<open>
  A parsed tile message as the tile layer reads it; \<open>None\<close> is the case that
  \<open>_checkTileMsgObject\<close> reports as unexpected content.
\<close>

definition num_field :: "command \<Rightarrow> string \<Rightarrow> int option" where
  "num_field cmd p = (case obj_get cmd p of Some (VNum (Num n)) \<Rightarrow> Some n | _ \<Rightarrow> None)"

definition checkTileMsgObject :: "command \<Rightarrow> bool" where
  "checkTileMsgObject cmd \<longleftrightarrow>
     num_field cmd ''x'' \<noteq> None \<and> num_field cmd ''y'' \<noteq> None \<and> num_field cmd ''tileWidth'' \<noteq> None \<and>
     num_field cmd ''tileHeight'' \<noteq> None \<and> num_field cmd ''part'' \<noteq> None \<and>
     (obj_get cmd ''mode'' = None \<or> num_field cmd ''mode'' \<noteq> None)"

definition tile_pos_of_command :: "command \<Rightarrow> tile_msg_pos option" where
  "tile_pos_of_command cmd =
     (if checkTileMsgObject cmd
      then Some \<lparr>tm_x = the (num_field cmd ''x''), tm_y = the (num_field cmd ''y''),
             tm_tileWidth = the (num_field cmd ''tileWidth''), tm_tileHeight = the (num_field cmd ''tileHeight''),
             tm_zoom = (case num_field cmd ''zoom'' of Some z \<Rightarrow> z | None \<Rightarrow> 0),
             tm_part = the (num_field cmd ''part''), tm_mode = num_field cmd ''mode''\<rparr>
      else None)"

text \<open>
  The reply of the server to a request for one tile: it repeats the fields of the
  \<open>tilecombine\<close> message and adds the wire id.
\<close>

definition reply_fields :: "layer_geom \<Rightarrow> tile_coords \<Rightarrow> int \<Rightarrow> (string \<times> string) list" where
  "reply_fields g c wid =
     (let p = coordsToTwips g c in
      [(''nviewid='', ''0''), (''part='', show_int (tc_part c)), (''width='', show_int (tileWidthPx g)),
       (''height='', show_int (tileHeightPx g)), (''tileposx='', show_int (px p)), (''tileposy='', show_int (py p)),
       (''tilewidth='', show_int (tileWidthTwips g)), (''tileheight='', show_int (tileHeightTwips g)),
       (''mode='', show_int (tc_mode c)), (''wid='', show_int wid)])"

definition tile_reply :: "layer_geom \<Rightarrow> tile_coords \<Rightarrow> int \<Rightarrow> string" where
  "tile_reply g c wid = join '' '' (''tile:'' # map (\<lambda>f. fst f @ snd f) (reply_fields g c wid))"

lemma show_int_clean: "list_all (\<lambda>c. \<not> is_sep c) (show_int n)"
proof -
  have "\<not> is_sep c" if "is_digit c \<or> c = CHR ''-''" for c using that by (auto simp: is_sep_def is_digit_def)
  then show ?thesis using show_int_chars by (simp add: list_all_iff)
qed

lemma reply_fields_known: "list_all known_field (reply_fields g c wid)"
proof -
  have keys: "list_all (\<lambda>key. list_ex (\<lambda>(k, p, kind). k = key \<and> kind \<noteq> None) token_rules)
      [''nviewid='', ''part='', ''width='', ''height='', ''tileposx='', ''tileposy='', ''tilewidth='', ''tileheight='', ''mode='', ''wid='']"
    by code_simp
  then show ?thesis
    using show_int_clean by (simp add: reply_fields_def known_field_def Let_def is_sep_def)
qed

lemma parse_tile_reply:
  "parse_fields (tile_reply g c wid) = fold set_field (reply_fields g c wid) []"
proof -
  have "clean_token ''tile:''" by code_simp
  then show ?thesis
    unfolding tile_reply_def by (rule parse_fields_message) (simp_all add: token_without_key reply_fields_known)
qed

lemma set_field_rules:
  "set_field (''nviewid='', v) = obj_set ''nviewid'' (VStr v)" "set_field (''part='', v) = obj_set ''part'' (VNum (parseInt v))"
  "set_field (''width='', v) = obj_set ''width'' (VNum (parseInt v))"
  "set_field (''height='', v) = obj_set ''height'' (VNum (parseInt v))"
  "set_field (''tileposx='', v) = obj_set ''x'' (VNum (parseInt v))"
  "set_field (''tileposy='', v) = obj_set ''y'' (VNum (parseInt v))"
  "set_field (''tilewidth='', v) = obj_set ''tileWidth'' (VNum (parseInt v))"
  "set_field (''tileheight='', v) = obj_set ''tileHeight'' (VNum (parseInt v))"
  "set_field (''mode='', v) = obj_set ''mode'' (VNum (parseInt v))"
  "set_field (''wid='', v) = obj_set ''wireId'' (VStr v)"
  by (simp_all add: fun_eq_iff set_field_def token_rules_def)

text \<open>
  C10 (roundtrip). A tile on the grid that the layer asks for, at any zoom level at which tiles are
  at least ten twips wide, is filed under exactly the coordinates it was asked for when the server
  replies with the fields of the request: printing, parsing, the zoom recovered from the tile
  width and the conversion from twips compose to the identity.
\<close>

theorem tile_reply_roundtrip:
  assumes "geom_ok g" "on_grid g c" "0 < optWidth"
    and "10 \<le> (of_int optWidth * power_int (6 / 5) (defaultZoom - tc_z c) :: rat)"
    and "tileWidthTwips g = twips_at_zoom optWidth defaultZoom (tc_z c)"
  shows "\<exists>pos. tile_pos_of_command (parseServerCmd (Some (defaultZoom, optWidth)) (tile_reply g c wid)) = Some pos \<and>
     tileMsgToCoords g pos = c"
proof -
  let ?cmd = "parseServerCmd (Some (defaultZoom, optWidth)) (tile_reply g c wid)"
  have w: "tileWidthTwips g \<noteq> 0" "tileHeightTwips g \<noteq> 0" using assms(1) by (auto simp: geom_ok_def)
  have zoom: "zoom_of_width defaultZoom optWidth (tileWidthTwips g) = tc_z c"
    using zoom_of_twips [OF assms(3,4)] assms(5) by simp
  have fields: "num_field ?cmd ''x'' = Some (px (coordsToTwips g c))" "num_field ?cmd ''y'' = Some (py (coordsToTwips g c))"
    "num_field ?cmd ''tileWidth'' = Some (tileWidthTwips g)" "num_field ?cmd ''tileHeight'' = Some (tileHeightTwips g)"
    "num_field ?cmd ''part'' = Some (tc_part c)" "num_field ?cmd ''mode'' = Some (tc_mode c)" "num_field ?cmd ''zoom'' = Some (tc_z c)"
    using w zoom
    by (simp_all add: parseServerCmd_def parse_tile_reply reply_fields_def set_field_rules Let_def num_field_def
        truthy_num_def the_num_def parseInt_show_int)
  have "tile_pos_of_command ?cmd = Some \<lparr>tm_x = px (coordsToTwips g c), tm_y = py (coordsToTwips g c),
      tm_tileWidth = tileWidthTwips g, tm_tileHeight = tileHeightTwips g, tm_zoom = tc_z c,
      tm_part = tc_part c, tm_mode = Some (tc_mode c)\<rparr>"
    by (simp add: tile_pos_of_command_def checkTileMsgObject_def fields)
  moreover have "tileMsgToCoords g \<lparr>tm_x = px (coordsToTwips g c), tm_y = py (coordsToTwips g c),
      tm_tileWidth = tileWidthTwips g, tm_tileHeight = tileHeightTwips g, tm_zoom = tc_z c,
      tm_part = tc_part c, tm_mode = Some (tc_mode c)\<rparr> = c"
    by (rule tile_msg_of_request [OF assms(1,2)])
  ultimately show ?thesis by blast
qed

theorem tile_reply_roundtrip_witness:
  "\<exists>pos. tile_pos_of_command (parseServerCmd (Some (10, 3840)) (tile_reply sample_geom (TileCoordData 512 256 10 1 (Some 0)) 42)) = Some pos \<and>
     tileMsgToCoords sample_geom pos = TileCoordData 512 256 10 1 (Some 0)"
  by (rule tile_reply_roundtrip)
    (simp_all add: sample_geom_def geom_ok_def on_grid_def TileCoordData_def twips_at_zoom_def js_round_def floor_eq_iff)

end
